(* ===== verification/Prelude.thy ===== *)
theory Prelude
  imports Main "HOL-Library.AList"
begin

section \<open>What every component uses: JavaScript values, dictionaries, errors, observables\<close>

text \<open>
  The front end is TypeScript, and this theory holds the part of JavaScript its store code relies on.

  \<^item> A value of TypeScript type \<open>any\<close> is a \<open>js\<close>; \<open>truthy\<close> is the language's test
    of a value in a condition. Numbers are integers: the store code modelled here counts pages and
    results and never divides into fractions.
  \<^item> An object used as a dictionary (\<open>{ [guid: string]: T }\<close>) is an association list in property
    order, \<open>('k, 'v) obj\<close>. \<open>obj_set\<close> overwrites a property in place or appends it, as an
    assignment or a computed property of a spread literal does; \<open>obj_del\<close> is \<open>delete\<close> (or the
    rest pattern that omits a property); \<open>obj_spread a b\<close> is \<open>{ ...a, ...b }\<close>. Property order
    matters only where the code folds over \<open>Object.keys\<close>; keys are guids and pagination keys, never
    array indices, and never names of \<open>Object.prototype\<close>.
  \<^item> A thrown exception is \<open>Inl\<close> of a \<open>js_error\<close>; reading a property of \<open>undefined\<close> is the
    \<open>TypeError\<close> the code can raise, an endless recursion is the \<open>RangeError\<close> of the engine,
    \<open>throw new Error(m)\<close> is \<open>ThrownError m\<close>.
  \<^item> An rxjs observable is the value it emits for a store state that does not change (\<open>obs\<close>).
\<close>

named_theorems obj_simps \<open>lookups in dictionaries after an update\<close>
named_theorems keys_intros \<open>operations keep the property names of a dictionary distinct\<close>

subsection \<open>Errors\<close>

datatype js_error = TypeError | RangeError | ThrownError string

type_synonym 'a result = "js_error + 'a"

definition res_bind :: "'a result \<Rightarrow> ('a \<Rightarrow> 'b result) \<Rightarrow> 'b result" where
  "res_bind r f = (case r of Inl e \<Rightarrow> Inl e | Inr x \<Rightarrow> f x)"

lemma res_bind_simps [simp]:
  "res_bind (Inl e) f = Inl e"
  "res_bind (Inr x) f = f x"
  by (simp_all add: res_bind_def)

lemma res_bind_Inr_iff: "res_bind r f = Inr y \<longleftrightarrow> (\<exists>x. r = Inr x \<and> f x = Inr y)"
  by (cases r) auto

lemma res_bind_Inl_iff:
  "res_bind r f = Inl e \<longleftrightarrow> r = Inl e \<or> (\<exists>x. r = Inr x \<and> f x = Inl e)"
  by (cases r) auto

lemma res_bind_InrE:
  assumes "res_bind r f = Inr y"
  obtains x where "r = Inr x" "f x = Inr y"
  using assms by (auto simp: res_bind_Inr_iff)

text \<open>
  A loop whose body may throw, and the run of a reducer over a sequence of actions: the first
  exception ends it.
\<close>

primrec res_fold :: "('s \<Rightarrow> 'x \<Rightarrow> 's result) \<Rightarrow> 's \<Rightarrow> 'x list \<Rightarrow> 's result" where
  "res_fold f s [] = Inr s"
| "res_fold f s (x # xs) = res_bind (f s x) (\<lambda>s'. res_fold f s' xs)"

lemma res_fold_append:
  "res_fold f s (xs @ ys) = res_bind (res_fold f s xs) (\<lambda>s'. res_fold f s' ys)"
proof (induction xs arbitrary: s)
  case (Cons x xs)
  then show ?case by (cases "f s x") auto
qed simp

lemma res_fold_inv:
  assumes "\<And>s x s'. x \<in> set xs \<Longrightarrow> P s \<Longrightarrow> f s x = Inr s' \<Longrightarrow> P s'"
    and "P s" and "res_fold f s xs = Inr s'"
  shows "P s'"
  using assms
proof (induction xs arbitrary: s)
  case (Cons x xs)
  from Cons.prems(3) obtain t where t: "f s x = Inr t" "res_fold f t xs = Inr s'"
    by (auto simp: res_bind_Inr_iff)
  have "P t" using Cons.prems(1)[OF _ Cons.prems(2) t(1)] by simp
  then show ?case using Cons.IH[OF _ _ t(2)] Cons.prems(1) by (meson list.set_intros(2))
qed simp

lemma res_fold_total:
  assumes "\<And>s x. x \<in> set xs \<Longrightarrow> P s \<Longrightarrow> \<exists>s'. f s x = Inr s' \<and> P s'" and "P s"
  shows "\<exists>s'. res_fold f s xs = Inr s' \<and> P s'"
  using assms
proof (induction xs arbitrary: s)
  case (Cons x xs)
  from Cons.prems obtain t where "f s x = Inr t" "P t" by auto
  with Cons.IH[of t] Cons.prems(1) show ?case by auto
qed simp

text \<open>A loop that cannot throw is \<open>fold\<close>; the same invariant rule.\<close>

lemma fold_inv:
  assumes "\<And>x s. x \<in> set xs \<Longrightarrow> P s \<Longrightarrow> P (f x s)" and "P s"
  shows "P (fold f xs s)"
  using assms by (induction xs arbitrary: s) auto

subsection \<open>Values of type any\<close>

datatype js =
    JUndef
  | JNull
  | JBool bool
  | JNum int
  | JStr string
  | JArr "js list"
  | JObj "(string \<times> js) list"

fun truthy :: "js \<Rightarrow> bool" where
  "truthy JUndef = False"
| "truthy JNull = False"
| "truthy (JBool b) = b"
| "truthy (JNum n) = (n \<noteq> 0)"
| "truthy (JStr s) = (s \<noteq> [])"
| "truthy (JArr _) = True"
| "truthy (JObj _) = True"

text \<open>Truthiness of an optional string, and of an optional number: \<open>undefined\<close> and \<open>null\<close> are \<open>None\<close>.\<close>

definition truthy_str :: "string option \<Rightarrow> bool" where
  "truthy_str s \<longleftrightarrow> (case s of None \<Rightarrow> False | Some t \<Rightarrow> t \<noteq> [])"

definition truthy_num :: "int option \<Rightarrow> bool" where
  "truthy_num n \<longleftrightarrow> (case n of None \<Rightarrow> False | Some i \<Rightarrow> i \<noteq> 0)"

lemma truthy_opt_simps [simp]:
  "\<not> truthy_str None" "truthy_str (Some t) \<longleftrightarrow> t \<noteq> []"
  "\<not> truthy_num None" "truthy_num (Some i) \<longleftrightarrow> i \<noteq> 0"
  by (simp_all add: truthy_str_def truthy_num_def)

text \<open>\<open>n || d\<close> on an optional number.\<close>

definition num_or :: "int option \<Rightarrow> int \<Rightarrow> int" where
  "num_or n d = (if truthy_num n then the n else d)"

lemma num_or_simps [simp]:
  "num_or None d = d" "num_or (Some 0) d = d" "i \<noteq> 0 \<Longrightarrow> num_or (Some i) d = i"
  by (simp_all add: num_or_def)

subsection \<open>Objects used as dictionaries\<close>

type_synonym ('k, 'v) obj = "('k \<times> 'v) list"

definition obj_get :: "('k, 'v) obj \<Rightarrow> 'k \<Rightarrow> 'v option" where
  "obj_get ob k = map_of ob k"

definition obj_set :: "'k \<Rightarrow> 'v \<Rightarrow> ('k, 'v) obj \<Rightarrow> ('k, 'v) obj" where
  "obj_set k v ob = AList.update k v ob"

definition obj_del :: "'k \<Rightarrow> ('k, 'v) obj \<Rightarrow> ('k, 'v) obj" where
  "obj_del k ob = AList.delete k ob"

definition obj_keys :: "('k, 'v) obj \<Rightarrow> 'k list" where
  "obj_keys ob = map fst ob"

definition obj_values :: "('k, 'v) obj \<Rightarrow> 'v list" where
  "obj_values ob = map snd ob"

definition obj_spread :: "('k, 'v) obj \<Rightarrow> ('k, 'v) obj \<Rightarrow> ('k, 'v) obj" where
  "obj_spread a b = fold (\<lambda>(k, v). obj_set k v) b a"

text \<open>Every property replaced by a function of its value: \<open>Object.keys(o).forEach(k => n[k] = f(o[k]))\<close>.\<close>

definition obj_map :: "('v \<Rightarrow> 'w) \<Rightarrow> ('k, 'v) obj \<Rightarrow> ('k, 'w) obj" where
  "obj_map f ob = map (\<lambda>(k, v). (k, f v)) ob"

definition wf_obj :: "('k, 'v) obj \<Rightarrow> bool" where
  "wf_obj ob \<longleftrightarrow> distinct (map fst ob)"

lemma obj_get_Nil [simp]: "obj_get [] k = None"
  by (simp add: obj_get_def)

lemma obj_get_Cons [simp]: "obj_get ((k, v) # ob) k' = (if k' = k then Some v else obj_get ob k')"
  by (simp add: obj_get_def)

lemma obj_get_set [simp, obj_simps]: "obj_get (obj_set k v ob) k' = (if k' = k then Some v else obj_get ob k')"
  by (simp add: obj_get_def obj_set_def update_conv')

lemma obj_get_del [simp, obj_simps]: "obj_get (obj_del k ob) k' = (if k' = k then None else obj_get ob k')"
  by (simp add: obj_get_def obj_del_def delete_conv')

lemma obj_get_map [simp, obj_simps]: "obj_get (obj_map f ob) k = map_option f (obj_get ob k)"
  by (induction ob) (auto simp: obj_map_def)

lemma obj_set_simps [simp]:
  "obj_set k v [] = [(k, v)]"
  "obj_set k v ((k', v') # ob) = (if k' = k then (k, v) # ob else (k', v') # obj_set k v ob)"
  by (simp_all add: obj_set_def)

lemma obj_set_Nil_iff [simp]: "obj_set k v ob \<noteq> []"
  by (simp add: obj_set_def)

lemma obj_del_simps [simp]:
  "obj_del k [] = []"
  "obj_del k ((k', v') # ob) = (if k' = k then obj_del k ob else (k', v') # obj_del k ob)"
  by (auto simp: obj_del_def AList.delete_eq)

lemma obj_keys_simps [simp]:
  "obj_keys [] = []" "obj_keys ((k, v) # ob) = k # obj_keys ob"
  by (simp_all add: obj_keys_def)

lemma obj_values_simps [simp]:
  "obj_values [] = []" "obj_values ((k, v) # ob) = v # obj_values ob"
  by (simp_all add: obj_values_def)

lemma obj_map_simps [simp]:
  "obj_map f [] = []" "obj_map f ((k, v) # ob) = (k, f v) # obj_map f ob"
  by (simp_all add: obj_map_def)

lemma obj_spread_simps [simp]:
  "obj_spread a [] = a"
  "obj_spread a ((k, v) # b) = obj_spread (obj_set k v a) b"
  by (simp_all add: obj_spread_def)

lemma set_obj_keys: "k \<in> set (obj_keys ob) \<longleftrightarrow> obj_get ob k \<noteq> None"
  by (simp add: obj_keys_def obj_get_def map_of_eq_None_iff)

lemma set_obj_values: "wf_obj ob \<Longrightarrow> v \<in> set (obj_values ob) \<longleftrightarrow> (\<exists>k. obj_get ob k = Some v)"
  unfolding wf_obj_def obj_values_def obj_get_def
  by (induction ob) (auto simp: image_iff; force dest: map_of_SomeD)+

lemma obj_keys_set: "set (obj_keys (obj_set k v ob)) = insert k (set (obj_keys ob))"
  by (auto simp: set_obj_keys split: if_splits)

lemma obj_keys_map [simp]: "obj_keys (obj_map f ob) = obj_keys ob"
  by (induction ob) auto

lemma obj_set_same: "obj_get ob k = Some v \<Longrightarrow> obj_set k v ob = ob"
  by (simp add: obj_get_def obj_set_def update_triv)

lemma obj_get_mem: "obj_get ob k = Some v \<Longrightarrow> (k, v) \<in> set ob"
  by (simp add: obj_get_def map_of_SomeD)

lemma obj_get_wf: "wf_obj ob \<Longrightarrow> (k, v) \<in> set ob \<Longrightarrow> obj_get ob k = Some v"
  by (simp add: obj_get_def wf_obj_def)

lemma obj_get_spread:
  "wf_obj b \<Longrightarrow> obj_get (obj_spread a b) k = (case obj_get b k of Some v \<Rightarrow> Some v | None \<Rightarrow> obj_get a k)"
proof (induction b arbitrary: a)
  case (Cons p b)
  obtain k' v' where "p = (k', v')" by force
  moreover from this Cons.prems have "obj_get b k' = None"
    by (simp add: wf_obj_def obj_get_def map_of_eq_None_iff)
  ultimately show ?case using Cons by (auto simp: wf_obj_def split: option.splits)
qed simp

lemma set_obj_set: "set (obj_set k v ob) \<subseteq> insert (k, v) (set ob)"
  by (induction ob) (auto split: if_splits)

lemma set_obj_spread: "set (obj_spread a b) \<subseteq> set a \<union> set b"
proof (induction b arbitrary: a)
  case (Cons p b)
  obtain k v where p: "p = (k, v)" by force
  show ?case using Cons[of "obj_set k v a"] set_obj_set[of k v a] by (auto simp: p)
qed simp

lemma obj_keys_spread: "set (obj_keys (obj_spread a b)) = set (obj_keys a) \<union> set (obj_keys b)"
  by (induction b arbitrary: a) (auto simp: obj_keys_set)

lemma wf_obj_simps [simp]:
  "wf_obj []" "wf_obj ((k, v) # ob) \<longleftrightarrow> obj_get ob k = None \<and> wf_obj ob"
  by (auto simp: wf_obj_def obj_get_def map_of_eq_None_iff)

lemma wf_obj_set [keys_intros]: "wf_obj ob \<Longrightarrow> wf_obj (obj_set k v ob)"
  by (simp add: wf_obj_def obj_set_def distinct_update)

lemma wf_obj_del [keys_intros]: "wf_obj ob \<Longrightarrow> wf_obj (obj_del k ob)"
  by (simp add: wf_obj_def obj_del_def distinct_delete)

lemma wf_obj_map [keys_intros]: "wf_obj ob \<Longrightarrow> wf_obj (obj_map f ob)"
  by (induction ob) auto

lemma wf_obj_spread [keys_intros]: "wf_obj a \<Longrightarrow> wf_obj (obj_spread a b)"
proof (induction b arbitrary: a)
  case (Cons p b)
  then show ?case by (cases p) (simp add: wf_obj_set)
qed simp

subsection \<open>Loops over a dictionary that may throw\<close>

text \<open>Every property replaced by the result of a function of its value, in property order.\<close>

fun res_obj_map :: "('v \<Rightarrow> 'w result) \<Rightarrow> ('k, 'v) obj \<Rightarrow> ('k, 'w) obj result" where
  "res_obj_map f [] = Inr []"
| "res_obj_map f ((k, v) # ob) =
     res_bind (f v) (\<lambda>w. res_bind (res_obj_map f ob) (\<lambda>ob'. Inr ((k, w) # ob')))"

lemma res_obj_map_get:
  assumes "res_obj_map f ob = Inr ob'"
  shows "obj_get ob' k = None \<longleftrightarrow> obj_get ob k = None"
    and "obj_get ob k = Some v \<Longrightarrow> \<exists>w. f v = Inr w \<and> obj_get ob' k = Some w"
proof -
  have "(obj_get ob' k = None \<longleftrightarrow> obj_get ob k = None) \<and>
    (\<forall>v. obj_get ob k = Some v \<longrightarrow> (\<exists>w. f v = Inr w \<and> obj_get ob' k = Some w))"
    using assms
  proof (induction ob arbitrary: ob')
    case (Cons p ob)
    then show ?case by (cases p) (auto simp: res_bind_Inr_iff split: if_splits)
  qed simp
  then show "obj_get ob' k = None \<longleftrightarrow> obj_get ob k = None"
    and "obj_get ob k = Some v \<Longrightarrow> \<exists>w. f v = Inr w \<and> obj_get ob' k = Some w" by blast+
qed

lemma res_obj_map_keys: "res_obj_map f ob = Inr ob' \<Longrightarrow> obj_keys ob' = obj_keys ob"
proof (induction ob arbitrary: ob')
  case (Cons p ob)
  then show ?case by (cases p) (auto simp: res_bind_Inr_iff)
qed simp

lemma res_obj_map_total:
  "(\<And>k v. (k, v) \<in> set ob \<Longrightarrow> \<exists>w. f v = Inr w) \<Longrightarrow> \<exists>ob'. res_obj_map f ob = Inr ob'"
proof (induction ob)
  case (Cons p ob)
  obtain k v where p: "p = (k, v)" by force
  from Cons.prems p obtain w where "f v = Inr w" by auto
  moreover from Cons obtain ob' where "res_obj_map f ob = Inr ob'"
    by (metis list.set_intros(2))
  ultimately show ?case by (simp add: p)
qed simp

text \<open>The same with the property's name, over an array, and their congruence rules for recursion through them.\<close>

fun res_map_props :: "('k \<Rightarrow> 'v \<Rightarrow> 'w result) \<Rightarrow> ('k, 'v) obj \<Rightarrow> ('k, 'w) obj result" where
  "res_map_props f [] = Inr []"
| "res_map_props f ((k, v) # ob) =
     res_bind (f k v) (\<lambda>w. res_bind (res_map_props f ob) (\<lambda>ob'. Inr ((k, w) # ob')))"

fun res_map :: "('a \<Rightarrow> 'b result) \<Rightarrow> 'a list \<Rightarrow> 'b list result" where
  "res_map f [] = Inr []"
| "res_map f (x # xs) = res_bind (f x) (\<lambda>y. res_bind (res_map f xs) (\<lambda>ys. Inr (y # ys)))"

lemma res_map_props_cong [fundef_cong]:
  assumes "xs = ys" and "\<And>k v. (k, v) \<in> set ys \<Longrightarrow> f k v = g k v"
  shows "res_map_props f xs = res_map_props g ys"
  using assms(2) unfolding assms(1)
proof (induction ys)
  case (Cons p ys)
  then show ?case by (cases p) auto
qed simp

lemma res_map_cong [fundef_cong]:
  assumes "xs = ys" and "\<And>x. x \<in> set ys \<Longrightarrow> f x = g x"
  shows "res_map f xs = res_map g ys"
  using assms(2) unfolding assms(1) by (induction ys) auto

lemma res_fold_cong [fundef_cong]:
  assumes "s = t" and "xs = ys" and "\<And>s x. x \<in> set ys \<Longrightarrow> f s x = g s x"
  shows "res_fold f s xs = res_fold g t ys"
  using assms(3) unfolding assms(1,2)
proof (induction ys arbitrary: t)
  case (Cons y ys)
  then show ?case by (cases "g t y") auto
qed simp

lemma res_bind_cong [fundef_cong]:
  "r = r' \<Longrightarrow> (\<And>x. r' = Inr x \<Longrightarrow> f x = g x) \<Longrightarrow> res_bind r f = res_bind r' g"
  by (cases r') auto

lemma res_map_props_Inr:
  "res_map_props f xs = Inr ys \<Longrightarrow> list_all2 (\<lambda>(k, v) (k', w). k' = k \<and> f k v = Inr w) xs ys"
proof (induction xs arbitrary: ys)
  case (Cons p xs)
  then show ?case by (cases p) (auto simp: res_bind_Inr_iff)
qed simp

lemma res_map_Inr: "res_map f xs = Inr ys \<Longrightarrow> list_all2 (\<lambda>x y. f x = Inr y) xs ys"
  by (induction xs arbitrary: ys) (auto simp: res_bind_Inr_iff)

lemma res_map_props_mem:
  "res_map_props f xs = Inr ys \<Longrightarrow> (k, w) \<in> set ys \<Longrightarrow> \<exists>v. (k, v) \<in> set xs \<and> f k v = Inr w"
  by (induction f xs arbitrary: ys rule: res_map_props.induct) (auto simp: res_bind_Inr_iff; blast)+

lemma res_map_mem: "res_map f xs = Inr ys \<Longrightarrow> y \<in> set ys \<Longrightarrow> \<exists>x \<in> set xs. f x = Inr y"
  by (induction xs arbitrary: ys) (auto simp: res_bind_Inr_iff; blast)+

lemma list_all2_get:
  "list_all2 (\<lambda>(k, v) (k', w). k' = k \<and> R k v w) xs ys \<Longrightarrow> obj_get xs k = Some v \<Longrightarrow>
    \<exists>w. obj_get ys k = Some w \<and> R k v w"
proof (induction xs ys rule: list_all2_induct)
  case (Cons x xs y ys)
  then show ?case by (cases x; cases y) (auto split: if_splits)
qed simp

subsection \<open>Reading values of type any\<close>

text \<open>Array indices and lengths as property names.\<close>

function string_of_nat :: "nat \<Rightarrow> string" where
  "string_of_nat n = (if n < 10 then [char_of (48 + n)] else string_of_nat (n div 10) @ [char_of (48 + n mod 10)])"
  by pat_completeness auto
termination by (relation "measure id") auto

declare string_of_nat.simps [simp del]

text \<open>
  The own enumerable properties of a value (none for \<open>undefined\<close>, \<open>null\<close>, numbers and booleans, as
  in a spread literal), \<open>Object.keys\<close>, which throws for \<open>undefined\<close> and \<open>null\<close>, and reading one property.
\<close>

fun js_own :: "js \<Rightarrow> (string, js) obj" where
  "js_own (JObj kvs) = kvs"
| "js_own (JArr xs) = zip (map string_of_nat [0..<length xs]) xs"
| "js_own (JStr s) = zip (map string_of_nat [0..<length s]) (map (\<lambda>c. JStr [c]) s)"
| "js_own _ = []"

fun js_keys :: "js \<Rightarrow> string list result" where
  "js_keys JUndef = Inl TypeError"
| "js_keys JNull = Inl TypeError"
| "js_keys v = Inr (obj_keys (js_own v))"

definition js_field :: "js \<Rightarrow> string \<Rightarrow> js" where
  "js_field v k = (case obj_get (js_own v) k of None \<Rightarrow> JUndef | Some w \<Rightarrow> w)"

fun js_prop :: "js \<Rightarrow> string \<Rightarrow> js result" where
  "js_prop JUndef k = Inl TypeError"
| "js_prop JNull k = Inl TypeError"
| "js_prop v k = Inr (js_field v k)"

definition js_spread :: "js \<Rightarrow> js \<Rightarrow> js" where
  "js_spread a b = JObj (obj_spread (js_own a) (js_own b))"

lemma js_field_simps [simp]:
  "js_field (JObj kvs) k = (case obj_get kvs k of None \<Rightarrow> JUndef | Some w \<Rightarrow> w)"
  "js_field JUndef k = JUndef" "js_field JNull k = JUndef"
  "js_field (JBool b) k = JUndef" "js_field (JNum n) k = JUndef"
  by (simp_all add: js_field_def)

lemma truthy_js_prop: "truthy v \<Longrightarrow> js_prop v k = Inr (js_field v k)"
  by (cases v) auto

lemma js_prop_field: "js_prop v k = Inr w \<Longrightarrow> w = js_field v k"
  by (cases v) auto

lemma truthy_js_keys: "truthy v \<Longrightarrow> js_keys v = Inr (obj_keys (js_own v))"
  by (cases v) auto

text \<open>\<open>String(v)\<close>, as a computed property name, a template or a concatenation reads a value.\<close>

fun js_key :: "js \<Rightarrow> string" where
  "js_key (JStr s) = s"
| "js_key JNull = ''null''"
| "js_key (JBool b) = (if b then ''true'' else ''false'')"
| "js_key (JNum n) = (if n < 0 then ''-'' else '''') @ string_of_nat (nat \<bar>n\<bar>)"
| "js_key (JArr xs) = (case map (\<lambda>x. if x = JUndef \<or> x = JNull then '''' else js_key x) xs of
      [] \<Rightarrow> '''' | k # ks \<Rightarrow> k @ concat (map (\<lambda>k'. '','' @ k') ks))"
| "js_key (JObj _) = ''[object Object]''"
| "js_key JUndef = ''undefined''"

text \<open>\<open>typeof v === 'object'\<close> for a value that is not \<open>null\<close>, \<open>Array.isArray\<close>, and the elements of an array.\<close>

definition is_object :: "js \<Rightarrow> bool" where
  "is_object v = (case v of JArr _ \<Rightarrow> True | JObj _ \<Rightarrow> True | _ \<Rightarrow> False)"

definition is_array :: "js \<Rightarrow> bool" where
  "is_array v = (case v of JArr _ \<Rightarrow> True | _ \<Rightarrow> False)"

fun elements :: "js \<Rightarrow> js list" where
  "elements (JArr es) = es"
| "elements _ = []"

lemma is_array_elements: "is_array e \<longleftrightarrow> (\<exists>es. e = JArr es)"
  by (cases e) (auto simp: is_array_def)

lemma is_object_simps [simp]:
  "is_object (JArr es)" "is_object (JObj kvs)" "\<not> is_object JUndef" "\<not> is_object JNull"
  "\<not> is_object (JBool b)" "\<not> is_object (JNum n)" "\<not> is_object (JStr s)"
  by (simp_all add: is_object_def)

text \<open>
  Methods of strings: \<open>toUpperCase\<close> (of ASCII letters), \<open>startsWith\<close>, \<open>includes\<close>, \<open>trim\<close>, and \<open>join\<close> of an array.
\<close>

definition to_upper :: "char \<Rightarrow> char" where
  "to_upper c = (if 97 \<le> (of_char c :: nat) \<and> (of_char c :: nat) \<le> 122
                 then char_of ((of_char c :: nat) - 32) else c)"

abbreviation toUpperCase :: "string \<Rightarrow> string" where "toUpperCase \<equiv> map to_upper"

fun starts_with :: "string \<Rightarrow> string \<Rightarrow> bool" where
  "starts_with [] s = True"
| "starts_with (c # cs) [] = False"
| "starts_with (c # cs) (d # ds) = (c = d \<and> starts_with cs ds)"

fun includes_str :: "string \<Rightarrow> string \<Rightarrow> bool" where
  "includes_str [] t = (t = [])"
| "includes_str (c # cs) t = (starts_with t (c # cs) \<or> includes_str cs t)"

definition is_blank :: "char \<Rightarrow> bool" where
  "is_blank c \<longleftrightarrow> (of_char c :: nat) \<in> {9, 10, 11, 12, 13, 32, 160}"

definition is_digit :: "char \<Rightarrow> bool" where
  "is_digit c \<longleftrightarrow> 48 \<le> (of_char c :: nat) \<and> (of_char c :: nat) \<le> 57"

definition trim_blanks :: "string \<Rightarrow> string" where
  "trim_blanks s = rev (dropWhile is_blank (rev (dropWhile is_blank s)))"

definition join_with :: "string \<Rightarrow> string list \<Rightarrow> string" where
  "join_with sep xs = (case xs of [] \<Rightarrow> [] | x # ys \<Rightarrow> x @ concat (map (\<lambda>y. sep @ y) ys))"

text \<open>\<open>s.replace(pat, repl)\<close> for strings: the first occurrence only.\<close>

fun replace_first :: "string \<Rightarrow> string \<Rightarrow> string \<Rightarrow> string" where
  "replace_first pat repl [] = (if pat = [] then repl else [])"
| "replace_first pat repl (c # cs) =
     (if starts_with pat (c # cs) then repl @ drop (length pat) (c # cs) else c # replace_first pat repl cs)"

text \<open>\<open>s.split(sep)\<close>, and \<open>pathGet(path, object)\<close> of \<open>utils.service.ts\<close>, which stops at \<open>null\<close> and \<open>undefined\<close>.\<close>

fun split_on :: "char \<Rightarrow> string \<Rightarrow> string list" where
  "split_on sep [] = [[]]"
| "split_on sep (c # cs) =
     (if c = sep then [] # split_on sep cs
      else case split_on sep cs of [] \<Rightarrow> [[c]] | w # ws \<Rightarrow> (c # w) # ws)"

lemma split_on_not_Nil [simp]: "split_on sep s \<noteq> []"
  by (induction s) (auto split: list.splits)

fun get_params :: "string list \<Rightarrow> js \<Rightarrow> js" where
  "get_params [] v = v"
| "get_params (p # ps) v = (if v = JUndef \<or> v = JNull then JUndef else get_params ps (js_field v p))"

definition pathGet :: "string \<Rightarrow> js \<Rightarrow> js" where
  "pathGet path v = get_params (split_on (CHR ''.'') path) v"

subsection \<open>Observables of an unchanging store\<close>

text \<open>
  \<open>store.select(f)\<close> emits \<open>f\<close> of the current state and then only changes. For one state an
  observable built from selections therefore either emits one value, or stays silent (a
  \<open>filter\<close> dropped it, or a \<open>combineLatest\<close> has no source to wait for), or fails.
  \<open>distinctUntilChanged\<close>, \<open>publishReplay\<close> and \<open>tag\<close> do not change that value.
\<close>

datatype 'a obs = Emits 'a | Silent | Throws js_error

primrec obs_map :: "('a \<Rightarrow> 'b) \<Rightarrow> 'a obs \<Rightarrow> 'b obs" where
  "obs_map f (Emits x) = Emits (f x)"
| "obs_map f Silent = Silent"
| "obs_map f (Throws e) = Throws e"

primrec obs_switch :: "'a obs \<Rightarrow> ('a \<Rightarrow> 'b obs) \<Rightarrow> 'b obs" where
  "obs_switch (Emits x) f = f x"
| "obs_switch Silent f = Silent"
| "obs_switch (Throws e) f = Throws e"

primrec obs_filter :: "('a \<Rightarrow> bool) \<Rightarrow> 'a obs \<Rightarrow> 'a obs" where
  "obs_filter p (Emits x) = (if p x then Emits x else Silent)"
| "obs_filter p Silent = Silent"
| "obs_filter p (Throws e) = Throws e"

primrec obs_of_result :: "'a result \<Rightarrow> 'a obs" where
  "obs_of_result (Inl e) = Throws e"
| "obs_of_result (Inr x) = Emits x"

text \<open>
  \<open>combineLatest\<close> of a list: an error of any source is the result's error, it emits once every
  source has emitted, and with no source at all it completes without emitting.
\<close>

fun all_latest :: "'a obs list \<Rightarrow> 'a list obs" where
  "all_latest [] = Emits []"
| "all_latest (Throws e # os) = Throws e"
| "all_latest (Silent # os) = (case all_latest os of Throws e \<Rightarrow> Throws e | _ \<Rightarrow> Silent)"
| "all_latest (Emits x # os) = obs_map (\<lambda>xs. x # xs) (all_latest os)"

definition combineLatest :: "'a obs list \<Rightarrow> 'a list obs" where
  "combineLatest os = (if os = [] then Silent else all_latest os)"

definition combineLatest2 :: "'a obs \<Rightarrow> 'b obs \<Rightarrow> ('a \<times> 'b) obs" where
  "combineLatest2 a b = (case a of
       Throws e \<Rightarrow> Throws e
     | Silent \<Rightarrow> (case b of Throws e \<Rightarrow> Throws e | _ \<Rightarrow> Silent)
     | Emits x \<Rightarrow> obs_map (\<lambda>y. (x, y)) b)"

lemma all_latest_Emits: "all_latest (map Emits xs) = Emits xs"
  by (induction xs) auto

lemma all_latest_Emits_iff: "all_latest os = Emits xs \<longleftrightarrow> os = map Emits xs"
proof
  show "all_latest os = Emits xs \<Longrightarrow> os = map Emits xs"
  proof (induction os arbitrary: xs rule: all_latest.induct)
    case (4 x os)
    then show ?case by (cases "all_latest os") auto
  qed (auto split: obs.splits)
qed (simp add: all_latest_Emits)

lemma combineLatest_map_Emits [simp]:
  "combineLatest (map (\<lambda>x. Emits (f x)) xs) = (if xs = [] then Silent else Emits (map f xs))"
proof -
  have "map (\<lambda>x. Emits (f x)) xs = map Emits (map f xs)" by simp
  then show ?thesis by (simp only: combineLatest_def all_latest_Emits) simp
qed

lemma combineLatest2_Emits [simp]: "combineLatest2 (Emits x) (Emits y) = Emits (x, y)"
  by (simp add: combineLatest2_def)

end
