(* ===== verification/Actions.thy ===== *)
theory Actions
  imports Prelude
begin

section \<open>Actions: the messages the reducers receive\<close>

text \<open>
  One datatype per file of \<open>store/actions\<close> (and of \<open>store/types/request.types.ts\<close>), one
  constructor per action class with the class's constructor arguments, and \<open>Action\<close> for the
  union the ngrx store feeds to every reducer. \<open>action_type\<close> is the \<open>type\<close> string of an action,
  with the constants of the source. Actions that carry their type as an argument
  (\<open>APISuccessOrFailedAction\<close>, \<open>EndpointActionComplete\<close>, \<open>GetUserCfRelations\<close>) keep it as one.
  An action no modelled reducer singles out is \<open>OtherA\<close>, with the two properties the pagination
  reducer reads of any action.
\<close>

subsection \<open>Pagination types and actions\<close>

text \<open>A query parameter, and the parameters of a list: \<open>q\<close> holds query parameters, others anything.\<close>

datatype qvalue = QStr string | QArr "string list"

record QParam =
  qp_key :: string
  qp_value :: qvalue
  qp_joiner :: string

datatype param_value = QParams "QParam list" | Param js

type_synonym PaginationParam = "(string, param_value) obj"

record PaginationClientFilter =
  cf_string :: string
  cf_items :: "(string, js) obj"

text \<open>
  The filter of a \<open>SetClientFilter\<close> action may omit the search string or the items (a partial object
  spread over the current filter).
\<close>

record PartialClientFilter =
  pf_string :: "string option"
  pf_items :: "(string, js) obj"

text \<open>
  The request action inside the wrapping actions: the fields of \<open>IRequestAction\<close>,
  \<open>PaginatedAction\<close> and \<open>ICFAction\<close> that the reducers read, what \<open>ChangeUserRole\<close> adds, and in
  \<open>aa_details\<close> the properties a single action class adds (\<open>routeGuid\<close>, \<open>orgGuid\<close> and the like) that the
  reducers of single entity types read.
\<close>

record ChangeUserRole =
  cu_userGuid :: string
  cu_permissionTypeKey :: string
  cu_entityGuid :: string
  cu_isSpace :: bool
  cu_updateConnectedUser :: bool
  cu_orgGuid :: "string option"

record ApiAction =
  aa_type :: string
  aa_entityKey :: "string option"
  aa_guid :: "string option"
  aa_endpointGuid :: "string option"
  aa_updatingKey :: "string option"
  aa_paginationKey :: "string option"
  aa_pageNumber :: "int option"
  aa_method :: js
  aa_removeEntityOnDelete :: bool
  aa_change :: "ChangeUserRole option"
  aa_details :: "(string, js) obj"

text \<open>A plain request for one entity: the fields an action class does not set are \<open>undefined\<close>.\<close>

definition entity_action :: "string \<Rightarrow> string \<Rightarrow> ApiAction" where
  "entity_action entityKey guid =
     \<lparr>aa_type = ''[Request]'', aa_entityKey = Some entityKey, aa_guid = Some guid, aa_endpointGuid = None,
      aa_updatingKey = None, aa_paginationKey = None, aa_pageNumber = None, aa_method = JUndef,
      aa_removeEntityOnDelete = False, aa_change = None, aa_details = []\<rparr>"

text \<open>A plain request for a list.\<close>

definition list_action :: "string \<Rightarrow> string \<Rightarrow> ApiAction" where
  "list_action entityKey paginationKey =
     (entity_action entityKey [])\<lparr>aa_guid := None, aa_paginationKey := Some paginationKey\<rparr>"

lemmas plain_actions = entity_action_def list_action_def

datatype PaginationAction =
    ClearPaginationOfType string
  | ClearPaginationOfEntity string string
  | ResetPagination string string
  | CreatePagination string string "string option"
  | ClearPages string string
  | SetPage string string int bool
  | SetResultCount string string int
  | SetClientPageSize string string int
  | SetClientPage string string int
  | SetClientFilter string string PartialClientFilter
  | SetParams string string PaginationParam bool bool
  | SetInitialParams string string PaginationParam bool bool
  | AddParams string string PaginationParam bool
  | RemoveParams string string "string list" "string list" bool
  | SetPageBusy ApiAction bool js

fun pagination_action_type :: "PaginationAction \<Rightarrow> string" where
  "pagination_action_type (ClearPaginationOfType _) = ''[Pagination] Clear all pages of type''"
| "pagination_action_type (ClearPaginationOfEntity _ _) = ''[Pagination] Clear pagination of entity''"
| "pagination_action_type (ResetPagination _ _) = ''[Pagination] Reset pagination''"
| "pagination_action_type (CreatePagination _ _ _) = ''[Pagination] Create pagination''"
| "pagination_action_type (ClearPages _ _) = ''[Pagination] Clear pages only''"
| "pagination_action_type (SetPage _ _ _ _) = ''[Pagination] Set page''"
| "pagination_action_type (SetResultCount _ _ _) = ''[Pagination] Set result count''"
| "pagination_action_type (SetClientPageSize _ _ _) = ''[Pagination] Set client page size''"
| "pagination_action_type (SetClientPage _ _ _) = ''[Pagination] Set client page''"
| "pagination_action_type (SetClientFilter _ _ _) = ''[Pagination] Set client filter''"
| "pagination_action_type (SetParams _ _ _ _ _) = ''[Pagination] Set Params''"
| "pagination_action_type (SetInitialParams _ _ _ _ _) = ''[Pagination] Set initial params''"
| "pagination_action_type (AddParams _ _ _ _) = ''[Pagination] Add Params''"
| "pagination_action_type (RemoveParams _ _ _ _ _) = ''[Pagination] Remove Params''"
| "pagination_action_type (SetPageBusy _ _ _) = ''[Pagination] Set Page Busy''"

subsection \<open>Request actions\<close>

datatype ApiRequestTypes = FetchType | UpdateType | CreateType | DeleteType

text \<open>The normalised response of a request: entities by type and guid, and the guids of the result.\<close>

record NormalizedResponse =
  nr_entities :: "(string, js) obj option"
  nr_result :: "string list"

datatype RequestAction =
    StartCFAction ApiAction ApiRequestTypes
  | StartRequestAction ApiAction ApiRequestTypes
  | WrapperRequestActionSuccess "NormalizedResponse option" ApiAction ApiRequestTypes "int option" "int option"
  | WrapperRequestActionFailed string ApiAction ApiRequestTypes
  | UpdateCfAction ApiAction bool "string option"
  | APISuccessOrFailedAction string ApiAction js

fun request_action_type :: "RequestAction \<Rightarrow> string" where
  "request_action_type (StartCFAction _ _) = ''API_REQUEST_START''"
| "request_action_type (StartRequestAction _ _) = ''REQUEST_START''"
| "request_action_type (WrapperRequestActionSuccess _ _ _ _ _) = ''REQUEST_SUCCESS''"
| "request_action_type (WrapperRequestActionFailed _ _ _) = ''REQUEST_FAILED''"
| "request_action_type (UpdateCfAction _ _ _) = ''REQUEST_UPDATE''"
| "request_action_type (APISuccessOrFailedAction t _ _) = t"

fun request_api_action :: "RequestAction \<Rightarrow> ApiAction" where
  "request_api_action (StartCFAction a _) = a"
| "request_api_action (StartRequestAction a _) = a"
| "request_api_action (WrapperRequestActionSuccess _ a _ _ _) = a"
| "request_api_action (WrapperRequestActionFailed _ a _) = a"
| "request_api_action (UpdateCfAction a _ _) = a"
| "request_api_action (APISuccessOrFailedAction _ a _) = a"

subsection \<open>Endpoint actions\<close>

definition CONNECT_ENDPOINTS :: string where "CONNECT_ENDPOINTS = ''[Endpoints] Connect''"
definition CONNECT_ENDPOINTS_SUCCESS :: string where "CONNECT_ENDPOINTS_SUCCESS = ''[Endpoints] Connect succeed''"
definition CONNECT_ENDPOINTS_FAILED :: string where "CONNECT_ENDPOINTS_FAILED = ''[Endpoints] Connect failed''"
definition DISCONNECT_ENDPOINTS :: string where "DISCONNECT_ENDPOINTS = ''[Endpoints] Disconnect''"
definition DISCONNECT_ENDPOINTS_SUCCESS :: string where "DISCONNECT_ENDPOINTS_SUCCESS = ''[Endpoints] Disconnect succeed''"
definition DISCONNECT_ENDPOINTS_FAILED :: string where "DISCONNECT_ENDPOINTS_FAILED = ''[Endpoints] Disconnect failed''"
definition REGISTER_ENDPOINTS :: string where "REGISTER_ENDPOINTS = ''[Endpoints] Register''"
definition REGISTER_ENDPOINTS_SUCCESS :: string where "REGISTER_ENDPOINTS_SUCCESS = ''[Endpoints] Register succeed''"
definition REGISTER_ENDPOINTS_FAILED :: string where "REGISTER_ENDPOINTS_FAILED = ''[Endpoints] Register failed''"
definition UNREGISTER_ENDPOINTS :: string where "UNREGISTER_ENDPOINTS = ''[Endpoints] Unregister''"
definition UNREGISTER_ENDPOINTS_SUCCESS :: string where "UNREGISTER_ENDPOINTS_SUCCESS = ''[Endpoints] Unregister succeed''"
definition UNREGISTER_ENDPOINTS_FAILED :: string where "UNREGISTER_ENDPOINTS_FAILED = ''[Endpoints] Unregister failed''"
definition UPDATEREGISTER_ENDPOINTS :: string where "UPDATEREGISTER_ENDPOINTS = ''[Endpoints] Update''"

lemmas endpoint_types =
  CONNECT_ENDPOINTS_def CONNECT_ENDPOINTS_SUCCESS_def CONNECT_ENDPOINTS_FAILED_def
  DISCONNECT_ENDPOINTS_def DISCONNECT_ENDPOINTS_SUCCESS_def DISCONNECT_ENDPOINTS_FAILED_def
  REGISTER_ENDPOINTS_def REGISTER_ENDPOINTS_SUCCESS_def REGISTER_ENDPOINTS_FAILED_def
  UNREGISTER_ENDPOINTS_def UNREGISTER_ENDPOINTS_SUCCESS_def UNREGISTER_ENDPOINTS_FAILED_def
  UPDATEREGISTER_ENDPOINTS_def

text \<open>The user connected to an endpoint, and the response of registering or connecting one.\<close>

record EndpointUser =
  eu_guid :: string
  eu_name :: string
  eu_admin :: bool
  eu_scopes :: "string list option"

record EndpointInfo =
  ei_guid :: string
  ei_user :: "EndpointUser option"

text \<open>
  \<open>EndpointActionComplete type guid endpointType endpoint\<close>, and \<open>EndpointStart type guid endpointType\<close> for
  the actions that start an operation (\<open>ConnectEndpoint\<close>, \<open>DisconnectEndpoint\<close>,
  \<open>UnregisterEndpoint\<close>, \<open>RegisterEndpoint\<close>, \<open>UpdateregisterEndpoint\<close>, all \<open>EndpointAction\<close>s), of
  which the reducers read no more than that; an endpoint being registered or unregistered has no guid (its
  \<open>guid\<close> is a method nobody calls).
\<close>

datatype EndpointAction =
    EndpointActionComplete string string string "EndpointInfo option"
  | EndpointStart string "string option" string

fun endpoint_action_type :: "EndpointAction \<Rightarrow> string" where
  "endpoint_action_type (EndpointActionComplete t _ _ _) = t"
| "endpoint_action_type (EndpointStart t _ _) = t"

fun endpoint_action_endpointType :: "EndpointAction \<Rightarrow> string" where
  "endpoint_action_endpointType (EndpointActionComplete _ _ et _) = et"
| "endpoint_action_endpointType (EndpointStart _ _ et) = et"

subsection \<open>Permission actions\<close>

datatype UserRelationTypes =
    AUDITED_ORGANIZATIONS | BILLING_MANAGED_ORGANIZATION | MANAGED_ORGANIZATION | ORGANIZATIONS
  | AUDITED_SPACES | MANAGED_SPACES | SPACES

text \<open>An organization or space in the answer to a relation request: the properties the reducers read.\<close>

record RelationResource =
  rr_guid :: string
  rr_organization_guid :: string

definition GET_CURRENT_USER_CF_RELATIONS :: string where
  "GET_CURRENT_USER_CF_RELATIONS = ''[Current User] Get CF relations''"
definition GET_CURRENT_USER_CF_RELATIONS_SUCCESS :: string where
  "GET_CURRENT_USER_CF_RELATIONS_SUCCESS = ''[Current User] Get CF relations success''"
definition GET_CURRENT_USER_CF_RELATIONS_FAILED :: string where
  "GET_CURRENT_USER_CF_RELATIONS_FAILED = ''[Current User] Get CF relations failed''"
definition GET_CURRENT_USER_RELATIONS :: string where
  "GET_CURRENT_USER_RELATIONS = ''[Current User] Get relations''"
definition GET_CURRENT_USER_RELATIONS_SUCCESS :: string where
  "GET_CURRENT_USER_RELATIONS_SUCCESS = ''[Current User] Get relations success''"
definition GET_CURRENT_USER_RELATIONS_FAILED :: string where
  "GET_CURRENT_USER_RELATIONS_FAILED = ''[Current User] Get relations failed''"
definition GET_CURRENT_USER_RELATION_SUCCESS :: string where
  "GET_CURRENT_USER_RELATION_SUCCESS = ''[Current User] Get relation success''"

lemmas permission_types =
  GET_CURRENT_USER_CF_RELATIONS_def GET_CURRENT_USER_CF_RELATIONS_SUCCESS_def
  GET_CURRENT_USER_CF_RELATIONS_FAILED_def GET_CURRENT_USER_RELATIONS_def
  GET_CURRENT_USER_RELATIONS_SUCCESS_def GET_CURRENT_USER_RELATIONS_FAILED_def
  GET_CURRENT_USER_RELATION_SUCCESS_def

text \<open>
  \<open>CurrentUsersRelations type\<close> is the request \<open>GetCurrentUsersRelations\<close> or one of its two
  completions (the constants \<open>successAction\<close> and \<open>failedAction\<close> of the permission effects).
\<close>

datatype PermissionsAction =
    CurrentUsersRelations string
  | GetUserCfRelations string string
  | GetCurrentUserRelationsComplete UserRelationTypes string "RelationResource list"

fun permissions_action_type :: "PermissionsAction \<Rightarrow> string" where
  "permissions_action_type (CurrentUsersRelations t) = t"
| "permissions_action_type (GetUserCfRelations _ t) = t"
| "permissions_action_type (GetCurrentUserRelationsComplete _ _ _) = GET_CURRENT_USER_RELATION_SUCCESS"

subsection \<open>Session and delete-tree actions\<close>

record SessionDataEndpoint =
  se_guid :: string
  se_user :: "EndpointUser option"
  se_info :: "(string, js) obj"

record SessionData =
  sd_endpoints :: "(string, (string, SessionDataEndpoint) obj) obj option"
  sd_user :: "EndpointUser option"

datatype AuthAction = VerifiedSession SessionData bool

definition SESSION_VERIFIED :: string where "SESSION_VERIFIED = ''[Auth] Session verified''"

text \<open>
  The actions about the endpoints the backend knows: the session is being verified, the system information
  is fetched, and the targets of a metrics endpoint arrived. A payload is the value the backend sent.
\<close>

datatype SystemAction =
    VerifySession bool bool
  | GetSystemInfo bool
  | GetSystemSuccess js bool
  | GetSystemFailed
  | MetricsAPIActionSuccess string js string

fun system_action_type :: "SystemAction \<Rightarrow> string" where
  "system_action_type (VerifySession _ _) = ''[Auth] Verify session''"
| "system_action_type (GetSystemInfo _) = ''[System] Get info''"
| "system_action_type (GetSystemSuccess _ _) = ''[System] Get info success''"
| "system_action_type GetSystemFailed = ''[System] Get info failed''"
| "system_action_type (MetricsAPIActionSuccess _ _ _) = ''[Metrics] API Success''"

text \<open>A tree of entities to delete, by entity type; a \<open>Set\<close> is a list in insertion order.\<close>

type_synonym IFlatTree = "(string, string list) obj"

datatype RecursiveDeleteAction =
    SetTreeDeleting string IFlatTree
  | SetTreeDeleted string IFlatTree
  | ResetTreeDelete string IFlatTree

fun recursive_action_type :: "RecursiveDeleteAction \<Rightarrow> string" where
  "recursive_action_type (SetTreeDeleting _ _) = ''[Entity] Recursive entity set deleting''"
| "recursive_action_type (SetTreeDeleted _ _) = ''[Entity] Recursive entity set deleted''"
| "recursive_action_type (ResetTreeDelete _ _) = ''[Entity] Recursive entity reset''"

subsection \<open>Types of organization, space and user-role requests\<close>

definition DELETE_ORGANIZATION_SUCCESS :: string where
  "DELETE_ORGANIZATION_SUCCESS = ''[Organization] Delete organization success''"
definition DELETE_SPACE_SUCCESS :: string where
  "DELETE_SPACE_SUCCESS = ''[Space] Delete Success''"
definition ADD_ROLE_SUCCESS :: string where
  "ADD_ROLE_SUCCESS = ''[Users]  Add role success''"
definition REMOVE_ROLE_SUCCESS :: string where
  "REMOVE_ROLE_SUCCESS = ''[Users]  Remove role success''"

lemmas role_change_types =
  DELETE_ORGANIZATION_SUCCESS_def DELETE_SPACE_SUCCESS_def ADD_ROLE_SUCCESS_def REMOVE_ROLE_SUCCESS_def

subsection \<open>All actions\<close>

datatype Action =
    PaginationA PaginationAction
  | RequestA RequestAction
  | EndpointA EndpointAction
  | PermissionsA PermissionsAction
  | AuthA AuthAction
  | SystemA SystemAction
  | RecursiveA RecursiveDeleteAction
  | OtherA string "string option" "string option"

fun action_type :: "Action \<Rightarrow> string" where
  "action_type (PaginationA a) = pagination_action_type a"
| "action_type (RequestA a) = request_action_type a"
| "action_type (EndpointA a) = endpoint_action_type a"
| "action_type (PermissionsA a) = permissions_action_type a"
| "action_type (AuthA a) = SESSION_VERIFIED"
| "action_type (SystemA a) = system_action_type a"
| "action_type (RecursiveA a) = recursive_action_type a"
| "action_type (OtherA t _ _) = t"

end
