(* ===== verification/Reducer_Helper.thy ===== *)
theory Reducer_Helper
  imports Actions
begin

section \<open>Merging states: store/helpers/reducer.helper.ts\<close>

text \<open>
  \<open>mergeState\<close> merges two dictionaries of objects one level deep; the values of both are objects in
  every call, so the tests \<open>typeof \<noteq> 'string'\<close> and \<open>Object.keys(base)\<close> of \<open>shouldMerge\<close> come down to
  whether the base has the key, and how two values are spread is a parameter. The entity store holds
  values of any shape, so \<open>mergeEntity\<close> and \<open>deepMergeState\<close> are over \<open>js\<close> with every test of the source.
  The lemmas give the lookups after a merge: what the new state says wins, the rest is kept.
\<close>

subsection \<open>One level\<close>

definition mergeState :: "('v \<Rightarrow> 'v \<Rightarrow> 'v) \<Rightarrow> ('k, 'v) obj \<Rightarrow> ('k, 'v) obj \<Rightarrow> ('k, 'v) obj" where
  "mergeState spread state newState =
     fold (\<lambda>(k, n) base. obj_set k (case obj_get base k of Some b \<Rightarrow> spread b n | None \<Rightarrow> n) base)
       newState state"

lemma mergeState_simps [simp]:
  "mergeState sp st [] = st"
  "mergeState sp st ((k, n) # new) =
     mergeState sp (obj_set k (case obj_get st k of Some b \<Rightarrow> sp b n | None \<Rightarrow> n) st) new"
  by (simp_all add: mergeState_def)

lemma mergeState_get:
  "wf_obj new \<Longrightarrow> obj_get (mergeState sp st new) k =
     (case obj_get new k of None \<Rightarrow> obj_get st k
      | Some n \<Rightarrow> Some (case obj_get st k of Some b \<Rightarrow> sp b n | None \<Rightarrow> n))"
proof (induction new arbitrary: st)
  case (Cons p new)
  then show ?case by (cases p) (auto split: option.splits)
qed simp

lemma mergeState_keys:
  "set (obj_keys (mergeState sp st new)) = set (obj_keys st) \<union> set (obj_keys new)"
proof (induction new arbitrary: st)
  case (Cons p new)
  then show ?case by (cases p) (auto simp: obj_keys_set)
qed simp

lemma wf_mergeState [keys_intros]: "wf_obj st \<Longrightarrow> wf_obj (mergeState sp st new)"
proof (induction new arbitrary: st)
  case (Cons p new)
  then show ?case by (cases p) (simp add: wf_obj_set)
qed simp

subsection \<open>Entities\<close>

fun is_string :: "js \<Rightarrow> bool" where
  "is_string (JStr _) = True"
| "is_string _ = False"

definition js_at :: "(string, js) obj \<Rightarrow> string \<Rightarrow> js" where
  "js_at ob k = (case obj_get ob k of None \<Rightarrow> JUndef | Some v \<Rightarrow> v)"

definition shouldMerge :: "js \<Rightarrow> js \<Rightarrow> bool" where
  "shouldMerge newValue baseValue \<longleftrightarrow> \<not> is_string newValue \<and> truthy baseValue"

definition mergeEntity :: "js \<Rightarrow> js \<Rightarrow> js result" where
  "mergeEntity baseEntity newEntity =
     (if truthy baseEntity \<and> truthy (js_field baseEntity ''entity'')
      then res_bind (js_prop newEntity ''entity'') (\<lambda>ne.
        Inr (JObj
          [(''entity'', js_spread (js_field baseEntity ''entity'') ne),
           (''metadata'',
             if truthy (js_field baseEntity ''metadata'')
             then js_spread (js_field baseEntity ''metadata'') (js_field newEntity ''metadata'')
             else js_field newEntity ''metadata'')]))
      else Inr (js_spread baseEntity newEntity))"

text \<open>The body of the loop of \<open>deepMergeState\<close> for one entity type: its entities merged one by one.\<close>

definition deepMergeIds :: "js \<Rightarrow> (string, js) obj \<Rightarrow> string list \<Rightarrow> (string, js) obj result" where
  "deepMergeIds newStateEnt baseStateEnt ids =
     res_fold (\<lambda>ent id. res_bind (mergeEntity (js_at ent id) (js_field newStateEnt id))
                 (\<lambda>m. Inr (obj_set id m ent)))
       baseStateEnt ids"

definition deepMergeType :: "js \<Rightarrow> js \<Rightarrow> js result" where
  "deepMergeType baseValue newStateEnt =
     res_bind (js_keys newStateEnt) (\<lambda>ids.
     res_bind (deepMergeIds newStateEnt (js_own baseValue) ids) (\<lambda>baseStateEnt.
       mergeEntity baseValue (JObj baseStateEnt)))"

definition deepMergeState :: "(string, js) obj \<Rightarrow> js \<Rightarrow> (string, js) obj result" where
  "deepMergeState state newState =
     res_bind (js_keys newState) (\<lambda>entityKeys.
       res_fold (\<lambda>baseState entityKey.
         if shouldMerge (js_field newState entityKey) (js_at baseState entityKey)
         then res_bind (deepMergeType (js_at baseState entityKey) (js_field newState entityKey))
                (\<lambda>m. Inr (obj_set entityKey m baseState))
         else Inr (obj_set entityKey (js_field newState entityKey) baseState))
       state entityKeys)"

subsection \<open>pick and composeFn\<close>

definition pick :: "js \<Rightarrow> string list \<Rightarrow> js" where
  "pick ob keys =
     (if truthy ob then JObj (fold (\<lambda>k copy. obj_set k (js_field ob k) copy) keys []) else JNull)"

definition composeFn :: "('a \<Rightarrow> 'a) list \<Rightarrow> 'a \<Rightarrow> 'a" where
  "composeFn fns = fold (\<lambda>nextFn prevFn. (\<lambda>value. nextFn (prevFn value))) (rev fns) (\<lambda>value. value)"

subsection \<open>Lookups after a merge\<close>

lemma js_at_simps [simp]:
  "js_at [] k = JUndef"
  "js_at (obj_set k v ob) k' = (if k' = k then v else js_at ob k')"
  by (simp_all add: js_at_def)

lemma js_at_Cons [simp]: "js_at ((k, v) # ob) k' = (if k' = k then v else js_at ob k')"
  by (simp add: js_at_def)

lemma js_at_obj_del [simp]: "js_at (obj_del k ob) k' = (if k' = k then JUndef else js_at ob k')"
  by (simp add: js_at_def)

lemma js_field_JObj: "js_field (JObj ob) k = js_at ob k"
  by (simp add: js_at_def)

lemma js_field_own: "js_field v k = js_at (js_own v) k"
  by (simp add: js_field_def js_at_def)

lemma js_own_spread: "js_own (js_spread a b) = obj_spread (js_own a) (js_own b)"
  by (simp add: js_spread_def)

lemma js_field_spread:
  "wf_obj (js_own b) \<Longrightarrow>
   js_field (js_spread a b) k = (if obj_get (js_own b) k = None then js_field a k else js_field b k)"
  by (auto simp: js_field_own js_own_spread js_at_def obj_get_spread split: option.splits)

text \<open>
  An entity of the CF API (\<open>{ entity, metadata }\<close>) keeps its own fields and takes those of the new one.
\<close>

definition api_resource :: "js \<Rightarrow> bool" where
  "api_resource v \<longleftrightarrow> truthy v \<and> truthy (js_field v ''entity'')"

lemma mergeEntity_resource:
  assumes "api_resource b" and "truthy n"
  shows "\<exists>m. mergeEntity b n = Inr m \<and>
    js_field m ''entity'' = js_spread (js_field b ''entity'') (js_field n ''entity'')"
  using assms by (simp add: mergeEntity_def api_resource_def truthy_js_prop)

lemma mergeEntity_total: "truthy n \<Longrightarrow> \<exists>m. mergeEntity b n = Inr m \<and> truthy m"
  by (simp add: mergeEntity_def truthy_js_prop js_spread_def)

lemma deepMergeIds_get:
  assumes "deepMergeIds n ent ids = Inr ent'" and "distinct ids"
  shows "if g \<in> set ids
    then \<exists>m. mergeEntity (js_at ent g) (js_field n g) = Inr m \<and> obj_get ent' g = Some m
    else obj_get ent' g = obj_get ent g"
  using assms unfolding deepMergeIds_def
proof (induction ids arbitrary: ent)
  case (Cons i ids)
  then obtain m where m: "mergeEntity (js_at ent i) (js_field n i) = Inr m"
    and rest: "res_fold (\<lambda>ent g. res_bind (mergeEntity (js_at ent g) (js_field n g))
        (\<lambda>m. Inr (obj_set g m ent))) (obj_set i m ent) ids = Inr ent'"
    by (auto simp: res_bind_Inr_iff)
  show ?case using Cons.IH[OF rest] Cons.prems(2) m by (auto split: if_splits)
qed simp

lemma deepMergeIds_total:
  assumes "\<And>g. g \<in> set ids \<Longrightarrow> truthy (js_field n g)"
  shows "\<exists>ent'. deepMergeIds n ent ids = Inr ent'"
proof -
  have "\<exists>ent'. deepMergeIds n ent ids = Inr ent' \<and> True"
    unfolding deepMergeIds_def
    by (rule res_fold_total) (use assms mergeEntity_total in \<open>fastforce simp: res_bind_Inr_iff\<close>)+
  then show ?thesis by blast
qed

lemma deepMergeIds_wf:
  assumes m: "deepMergeIds n ent ids = Inr ent'" and wf: "wf_obj ent"
  shows "wf_obj ent'"
  by (rule res_fold_inv[where P = wf_obj, OF _ wf m[unfolded deepMergeIds_def]])
    (auto simp: res_bind_Inr_iff intro: wf_obj_set)

text \<open>
  A type of the entity store: an object whose properties are entities, none of them under the guid
  \<open>entity\<close> (which would make the whole type look like one entity to \<open>mergeEntity\<close>).
\<close>

definition entity_type :: "js \<Rightarrow> bool" where
  "entity_type v \<longleftrightarrow> (\<exists>ob. v = JObj ob \<and> wf_obj ob \<and> \<not> truthy (js_at ob ''entity''))"

lemma deepMergeType_get:
  assumes b: "entity_type b" and m: "deepMergeType b n = Inr m"
    and wfn: "wf_obj (js_own n)" and nent: "obj_get (js_own n) ''entity'' = None"
  shows "if obj_get (js_own n) g = None then js_field m g = js_field b g
    else \<exists>e. mergeEntity (js_field b g) (js_field n g) = Inr e \<and> js_field m g = e"
    and "entity_type m"
proof -
  from b obtain ob where ob: "b = JObj ob" "wf_obj ob" "\<not> truthy (js_at ob ''entity'')"
    by (auto simp: entity_type_def)
  from m obtain ids ent' where ids: "js_keys n = Inr ids"
    and ent': "deepMergeIds n ob ids = Inr ent'" and mm: "mergeEntity b (JObj ent') = Inr m"
    by (auto simp: deepMergeType_def res_bind_Inr_iff ob)
  have keys: "ids = obj_keys (js_own n)" using ids by (cases n) auto
  then have dist: "distinct ids" using wfn by (simp add: obj_keys_def wf_obj_def)
  have wf': "wf_obj ent'" using deepMergeIds_wf[OF ent' ob(2)] .
  have m_eq: "m = JObj (obj_spread ob ent')"
    using mm ob by (simp add: mergeEntity_def js_field_JObj js_spread_def del: js_field_simps)
  note get = deepMergeIds_get[OF ent' dist]
  have super: "obj_get ent' k = None \<Longrightarrow> obj_get ob k = None" for k
    using get[of k] by (auto split: if_splits)
  have field: "js_field m k = js_at ent' k" for k
    unfolding m_eq using wf' super[of k] by (auto simp: js_at_def obj_get_spread split: option.splits)
  show "if obj_get (js_own n) g = None then js_field m g = js_field b g
    else \<exists>e. mergeEntity (js_field b g) (js_field n g) = Inr e \<and> js_field m g = e"
    using get[of g] unfolding field keys set_obj_keys ob js_field_JObj
    by (auto simp: js_at_def split: if_splits)
  have "\<not> truthy (js_at ent' ''entity'')"
    using get[of "''entity''"] nent ob(3) unfolding keys set_obj_keys by (simp add: js_at_def)
  then have "\<not> truthy (js_field m ''entity'')" by (simp add: field)
  then show "entity_type m"
    unfolding entity_type_def m_eq using wf_obj_spread[OF ob(2)] by (auto simp: js_field_JObj simp del: js_field_simps)
qed

lemma deepMergeType_total:
  assumes "entity_type b" and "truthy n"
    and "\<And>g. g \<in> set (obj_keys (js_own n)) \<Longrightarrow> truthy (js_field n g)"
  shows "\<exists>m. deepMergeType b n = Inr m"
proof -
  obtain ent' where "deepMergeIds n (js_own b) (obj_keys (js_own n)) = Inr ent'"
    using deepMergeIds_total[OF assms(3)] by blast
  moreover obtain m where "mergeEntity b (JObj ent') = Inr m"
    using mergeEntity_total[of "JObj ent'"] by auto
  ultimately show ?thesis
    using assms(2) by (auto simp: deepMergeType_def truthy_js_keys)
qed

lemma composeFn_eq: "composeFn fns = foldr (\<circ>) fns id"
  by (induction fns) (simp_all add: composeFn_def comp_def id_def)

end
