(* ===== verification/Slices.thy ===== *)
theory Slices
  imports Prelude
begin

section \<open>What every slice of the store promises\<close>

text \<open>
  A slice of the ngrx store is a reducer: a step from the state and an action to the next state, or to
  an exception. The locales are the contracts the reducers of the model are proved to meet:

  \<^item> \<open>safe_reducer\<close>: actions that only name what the state knows (\<open>ok\<close>) never throw, and keep the
    invariant;
  \<^item> \<open>framed_step\<close>: a step leaves every cell alone that the action does not touch;
  \<^item> \<open>reducer\<close>: the invariant survives every action that does not throw, \<open>ok\<close> or not; it gives
    \<open>safe_reducer\<close>, and \<open>framed_reducer\<close> adds the frame.

  The lemmas lift one step to the sequence of actions a session dispatches; each component interprets
  the locales with its own reducer.
\<close>

locale safe_reducer =
  fixes step :: "'s \<Rightarrow> 'a \<Rightarrow> 's result"
    and inv :: "'s \<Rightarrow> bool"
    and ok :: "'a \<Rightarrow> bool"
  assumes ok_step: "inv s \<Longrightarrow> ok a \<Longrightarrow> \<exists>s'. step s a = Inr s' \<and> inv s'"
begin

lemma run_total: "inv s \<Longrightarrow> list_all ok as \<Longrightarrow> \<exists>s'. res_fold step s as = Inr s' \<and> inv s'"
  by (rule res_fold_total) (use ok_step in \<open>auto simp: list_all_iff\<close>)

lemma run_safe:
  assumes "inv s" and "list_all ok as" and "res_fold step s as = Inr s'"
  shows "inv s'"
  using run_total[OF assms(1,2)] assms(3) by auto

end

locale framed_step =
  fixes step :: "'s \<Rightarrow> 'a \<Rightarrow> 's result"
    and inv :: "'s \<Rightarrow> bool"
    and at :: "'s \<Rightarrow> 'k \<Rightarrow> 'v"
    and touches :: "'a \<Rightarrow> 'k \<Rightarrow> bool"
  assumes frame_inv: "inv s \<Longrightarrow> step s a = Inr s' \<Longrightarrow> inv s'"
    and step_frame: "inv s \<Longrightarrow> step s a = Inr s' \<Longrightarrow> \<not> touches a k \<Longrightarrow> at s' k = at s k"
begin

lemma run_frame:
  assumes "inv s" and "list_all (\<lambda>a. \<not> touches a k) as" and "res_fold step s as = Inr s'"
  shows "at s' k = at s k"
proof -
  have "inv s' \<and> at s' k = at s k"
    by (rule res_fold_inv[where P = "\<lambda>t. inv t \<and> at t k = at s k", OF _ _ assms(3)])
      (use assms(1,2) in \<open>auto simp: list_all_iff step_frame intro: frame_inv\<close>)
  then show ?thesis ..
qed

end

locale reducer =
  fixes step :: "'s \<Rightarrow> 'a \<Rightarrow> 's result"
    and inv :: "'s \<Rightarrow> bool"
    and ok :: "'a \<Rightarrow> bool"
  assumes step_inv: "inv s \<Longrightarrow> step s a = Inr s' \<Longrightarrow> inv s'"
    and step_total: "inv s \<Longrightarrow> ok a \<Longrightarrow> \<exists>s'. step s a = Inr s'"
begin

lemma run_inv: "inv s \<Longrightarrow> res_fold step s as = Inr s' \<Longrightarrow> inv s'"
  by (rule res_fold_inv[where P = inv and f = step]) (auto intro: step_inv)

end

sublocale reducer \<subseteq> safe_reducer step inv ok
  by unfold_locales (blast dest: step_total step_inv)

locale framed_reducer = reducer +
  fixes at :: "'s \<Rightarrow> 'k \<Rightarrow> 'v"
    and touches :: "'a \<Rightarrow> 'k \<Rightarrow> bool"
  assumes reducer_frame: "inv s \<Longrightarrow> step s a = Inr s' \<Longrightarrow> \<not> touches a k \<Longrightarrow> at s' k = at s k"

sublocale framed_reducer \<subseteq> framed_step step inv at touches
  by unfold_locales (fact step_inv, fact reducer_frame)

end
