(* ===== verification/Requests.thy ===== *)
theory Requests
  imports Reducer_Helper Slices
begin

section \<open>The request section of the store: store/reducers/api-request-reducer\<close>

text \<open>
  For every entity type and guid the store keeps a \<open>RequestInfoState\<close>: is it being fetched, created,
  updated (per updating key) or deleted, did the last request fail. \<open>requestReducer\<close> is
  \<open>requestReducerFactory(entities, requestActions)\<close>: the wrapping request actions move one entity
  through the life of a request, the recursive-delete actions mark a whole tree of entities. The
  section of an unknown entity type is \<open>undefined\<close>, and reading a guid of it throws.
\<close>

subsection \<open>Types: types.ts\<close>

definition rootUpdatingKey :: string where "rootUpdatingKey = ''_root_''"

record ActionState =
  as_busy :: bool
  as_error :: bool
  as_message :: js

record DeleteActionState = ActionState +
  ds_deleted :: bool

definition getDefaultActionState :: ActionState where
  "getDefaultActionState = \<lparr>as_busy = False, as_error = False, as_message = JStr ''''\<rparr>"

definition defaultDeletingActionState :: DeleteActionState where
  "defaultDeletingActionState =
     \<lparr>as_busy = False, as_error = False, as_message = JStr '''', ds_deleted = False\<rparr>"

record RequestInfoState =
  ri_fetching :: bool
  ri_updating :: "(string, ActionState) obj"
  ri_creating :: bool
  ri_deleting :: DeleteActionState
  ri_error :: bool
  ri_response :: "NormalizedResponse option"
  ri_message :: js

definition getDefaultRequestState :: RequestInfoState where
  "getDefaultRequestState =
     \<lparr>ri_fetching = False, ri_updating = [(rootUpdatingKey, getDefaultActionState)],
      ri_creating = False, ri_deleting = defaultDeletingActionState, ri_error = False,
      ri_response = None, ri_message = JStr ''''\<rparr>"

type_synonym IRequestState = "(string, (string, RequestInfoState) obj) obj"

subsection \<open>Helpers: request-helpers.ts\<close>

text \<open>Reading an entity type of the state, which throws where a property of it is then read.\<close>

definition request_type :: "IRequestState \<Rightarrow> string option \<Rightarrow> (string, RequestInfoState) obj result" where
  "request_type state entityKey =
     (case Option.bind entityKey (obj_get state) of None \<Rightarrow> Inl TypeError | Some t \<Rightarrow> Inr t)"

definition getEntityRequestState ::
  "IRequestState \<Rightarrow> string option \<Rightarrow> string \<Rightarrow> RequestInfoState result" where
  "getEntityRequestState state entityKey guid =
     res_bind (request_type state entityKey) (\<lambda>t.
       Inr (case obj_get t guid of Some r \<Rightarrow> r | None \<Rightarrow> getDefaultRequestState))"

definition setEntityRequestState ::
  "IRequestState \<Rightarrow> RequestInfoState \<Rightarrow> string \<Rightarrow> string \<Rightarrow> IRequestState" where
  "setEntityRequestState state requestState entityKey guid =
     mergeState obj_spread state [(entityKey, [(guid, requestState)])]"

text \<open>
  What a response says of the request state of one entity it holds: \<open>fetching\<close> and \<open>error\<close> are kept,
  \<open>deleting\<close> is reset but for \<open>busy\<close>.
\<close>

definition response_entity_state :: "RequestInfoState \<Rightarrow> RequestInfoState" where
  "response_entity_state entState =
     entState\<lparr>ri_deleting := defaultDeletingActionState\<lparr>as_busy := as_busy (ri_deleting entState)\<rparr>\<rparr>"

definition createRequestStateFromResponse ::
  "NormalizedResponse option \<Rightarrow> IRequestState \<Rightarrow> IRequestState result" where
  "createRequestStateFromResponse response state =
     (case Option.bind response nr_entities of
        None \<Rightarrow> Inr state
      | Some entities \<Rightarrow>
          res_fold (\<lambda>newState entityKey.
            res_bind (js_keys (js_at entities entityKey)) (\<lambda>guids.
              res_fold (\<lambda>newState guid.
                res_bind (getEntityRequestState state (Some entityKey) guid) (\<lambda>entState.
                  Inr (setEntityRequestState newState (response_entity_state entState) entityKey guid)))
                newState guids))
            state (obj_keys entities))"

text \<open>\<open>method\<close> is a string of any case, or a number of Angular's \<open>RequestMethod\<close> enumeration.\<close>

definition to_lower :: "char \<Rightarrow> char" where
  "to_lower c = (if 65 \<le> (of_char c :: nat) \<and> (of_char c :: nat) \<le> 90
                 then char_of ((of_char c :: nat) + 32) else c)"

definition RequestMethod_Post :: int where "RequestMethod_Post = 1"
definition RequestMethod_Put :: int where "RequestMethod_Put = 2"
definition RequestMethod_Delete :: int where "RequestMethod_Delete = 3"

definition getRequestTypeFromMethod :: "js \<Rightarrow> ApiRequestTypes" where
  "getRequestTypeFromMethod m =
     (case m of
        JStr s \<Rightarrow>
          (let method = map to_lower s in
           if method = ''post'' then CreateType
           else if method = ''put'' then UpdateType
           else if method = ''delete'' then DeleteType
           else FetchType)
      | JNum n \<Rightarrow>
          (if n = RequestMethod_Post then CreateType
           else if n = RequestMethod_Put then UpdateType
           else if n = RequestMethod_Delete then DeleteType
           else FetchType)
      | _ \<Rightarrow> FetchType)"

fun modifyRequestWithRequestType :: "RequestInfoState \<Rightarrow> ApiRequestTypes \<Rightarrow> RequestInfoState" where
  "modifyRequestWithRequestType r FetchType = r\<lparr>ri_fetching := True\<rparr>"
| "modifyRequestWithRequestType r CreateType = r\<lparr>ri_creating := True\<rparr>"
| "modifyRequestWithRequestType r DeleteType =
     r\<lparr>ri_deleting := defaultDeletingActionState\<lparr>as_busy := True\<rparr>\<rparr>"
| "modifyRequestWithRequestType r UpdateType = r"

text \<open>
  \<open>mergeInnerObject(updateKey, updating, new)\<close>: every caller gives all the fields of an
  \<open>ActionState\<close>, so the merged section is the new one.
\<close>

definition mergeUpdatingState ::
  "string option \<Rightarrow> (string, ActionState) obj \<Rightarrow> ActionState \<Rightarrow> (string, ActionState) obj" where
  "mergeUpdatingState updatingKey updatingState newUpdatingState =
     obj_set (if truthy_str updatingKey then the updatingKey else rootUpdatingKey)
       newUpdatingState updatingState"

definition generateDefaultState :: "string list \<Rightarrow> (string, (string, 'a) obj) obj" where
  "generateDefaultState keys = fold (\<lambda>key defaultState. obj_set key [] defaultState) keys []"

subsection \<open>The steps: start-request.ts, succeed-request.ts, fail-request.ts, update-request.ts\<close>

text \<open>
  Each of the four starts with the guard on \<open>apiAction.guid\<close>, reads the entity's state and writes it
  back; \<open>with_entity_state\<close> is that frame, so the steps show what they change.
\<close>

definition with_entity_state ::
  "IRequestState \<Rightarrow> ApiAction \<Rightarrow> (RequestInfoState \<Rightarrow> RequestInfoState) \<Rightarrow> IRequestState result" where
  "with_entity_state state apiAction f =
     (if truthy_str (aa_guid apiAction)
      then res_bind (getEntityRequestState state (aa_entityKey apiAction) (the (aa_guid apiAction))) (\<lambda>r.
        Inr (setEntityRequestState state (f r) (the (aa_entityKey apiAction)) (the (aa_guid apiAction))))
      else Inr state)"

definition start_state :: "ApiAction \<Rightarrow> ApiRequestTypes \<Rightarrow> RequestInfoState \<Rightarrow> RequestInfoState" where
  "start_state apiAction requestType r =
     (if truthy_str (aa_updatingKey apiAction)
      then r\<lparr>ri_updating := mergeUpdatingState (aa_updatingKey apiAction) (ri_updating r)
               \<lparr>as_busy = True, as_error = False, as_message = JStr ''''\<rparr>\<rparr>
      else modifyRequestWithRequestType r requestType)"

definition startRequest :: "IRequestState \<Rightarrow> ApiAction \<Rightarrow> ApiRequestTypes \<Rightarrow> IRequestState result" where
  "startRequest state apiAction requestType =
     with_entity_state state apiAction (start_state apiAction requestType)"

definition success_state ::
  "ApiAction \<Rightarrow> ApiRequestTypes \<Rightarrow> NormalizedResponse option \<Rightarrow> RequestInfoState \<Rightarrow> RequestInfoState" where
  "success_state apiAction requestType response r =
     (if truthy_str (aa_updatingKey apiAction)
      then r\<lparr>ri_updating := mergeUpdatingState (aa_updatingKey apiAction) (ri_updating r)
               \<lparr>as_busy = False, as_error = False, as_message = JStr ''''\<rparr>\<rparr>
      else if requestType = DeleteType
      then r\<lparr>ri_deleting := (ri_deleting r)\<lparr>as_busy := False, ds_deleted := True\<rparr>\<rparr>
      else r\<lparr>ri_fetching := False, ri_error := False, ri_creating := False, ri_response := response\<rparr>)"

text \<open>
  The state written from the response and the state written for the action's own entity are merged by
  \<open>mergeState\<close>: per entity type, the guids of the second over those of the first.
\<close>

definition succeedRequest ::
  "IRequestState \<Rightarrow> NormalizedResponse option \<Rightarrow> ApiAction \<Rightarrow> ApiRequestTypes \<Rightarrow> IRequestState result" where
  "succeedRequest state response apiAction requestType =
     (if truthy_str (aa_guid apiAction)
      then res_bind (with_entity_state state apiAction (success_state apiAction requestType response)) (\<lambda>own.
           res_bind (createRequestStateFromResponse response state) (\<lambda>fromResponse.
             Inr (mergeState obj_spread fromResponse own)))
      else createRequestStateFromResponse response state)"

definition fail_state ::
  "string \<Rightarrow> ApiAction \<Rightarrow> ApiRequestTypes \<Rightarrow> RequestInfoState \<Rightarrow> RequestInfoState" where
  "fail_state message apiAction requestType r =
     (if truthy_str (aa_updatingKey apiAction)
      then r\<lparr>ri_updating := mergeUpdatingState (aa_updatingKey apiAction) (ri_updating r)
               \<lparr>as_busy = False, as_error = True, as_message = JStr message\<rparr>\<rparr>
      else if requestType = DeleteType
      then r\<lparr>ri_deleting := (ri_deleting r)\<lparr>as_busy := False, ds_deleted := False, as_error := True\<rparr>,
             ri_message := JStr message\<rparr>
      else r\<lparr>ri_fetching := False, ri_error := True, ri_creating := False, ri_message := JStr message\<rparr>)"

definition failRequest ::
  "IRequestState \<Rightarrow> string \<Rightarrow> ApiAction \<Rightarrow> ApiRequestTypes \<Rightarrow> IRequestState result" where
  "failRequest state message apiAction requestType =
     with_entity_state state apiAction (fail_state message apiAction requestType)"

definition update_state :: "ApiAction \<Rightarrow> bool \<Rightarrow> string option \<Rightarrow> RequestInfoState \<Rightarrow> RequestInfoState" where
  "update_state apiAction busy err r =
     r\<lparr>ri_updating := mergeUpdatingState (aa_updatingKey apiAction) (ri_updating r)
         \<lparr>as_busy = busy, as_error = truthy_str err, as_message = JStr ''''\<rparr>\<rparr>"

definition updateRequest :: "IRequestState \<Rightarrow> ApiAction \<Rightarrow> bool \<Rightarrow> string option \<Rightarrow> IRequestState result" where
  "updateRequest state apiAction busy err =
     with_entity_state state apiAction (update_state apiAction busy err)"

subsection \<open>Marking a tree of entities: deleting-child-entities.ts\<close>

text \<open>A \<open>Partial<DeleteActionState>\<close>: \<open>busy\<close> always given, \<open>deleted\<close> perhaps.\<close>

record DeleteObject =
  do_busy :: bool
  do_deleted :: "bool option"

definition spread_deleting :: "DeleteActionState \<Rightarrow> DeleteObject \<Rightarrow> DeleteActionState" where
  "spread_deleting d dob =
     d\<lparr>as_busy := do_busy dob,
       ds_deleted := (case do_deleted dob of None \<Rightarrow> ds_deleted d | Some b \<Rightarrow> b)\<rparr>"

definition setEntityRequestToObject ::
  "string \<Rightarrow> string \<Rightarrow> IRequestState \<Rightarrow> DeleteObject \<Rightarrow> IRequestState" where
  "setEntityRequestToObject entityKey entityId state deleteObject =
     (case obj_get state entityKey of
        None \<Rightarrow> state
      | Some t \<Rightarrow>
          (let entityRequest =
                 (case obj_get t entityId of Some r \<Rightarrow> r | None \<Rightarrow> getDefaultRequestState);
               newEntityRequest =
                 entityRequest\<lparr>ri_deleting := spread_deleting (ri_deleting entityRequest) deleteObject\<rparr>
           in obj_set entityKey (obj_set entityId newEntityRequest t) state))"

definition reduceTreeToRequestState :: "IFlatTree \<Rightarrow> DeleteObject \<Rightarrow> IRequestState \<Rightarrow> IRequestState" where
  "reduceTreeToRequestState tree deleteObject state =
     fold (\<lambda>(entityKey, ids) st.
       fold (\<lambda>entityId st. setEntityRequestToObject entityKey entityId st deleteObject) ids st)
     tree state"

definition setChildEntitiesAsDeleting :: "IRequestState \<Rightarrow> IFlatTree \<Rightarrow> IRequestState" where
  "setChildEntitiesAsDeleting state tree =
     reduceTreeToRequestState tree \<lparr>do_busy = True, do_deleted = None\<rparr> state"

definition setChildEntitiesAsDeleted :: "IRequestState \<Rightarrow> IFlatTree \<Rightarrow> IRequestState" where
  "setChildEntitiesAsDeleted state tree =
     reduceTreeToRequestState tree \<lparr>do_busy = False, do_deleted = Some True\<rparr> state"

definition resetChildEntities :: "IRequestState \<Rightarrow> IFlatTree \<Rightarrow> IRequestState" where
  "resetChildEntities state tree =
     reduceTreeToRequestState tree \<lparr>do_busy = False, do_deleted = Some False\<rparr> state"

subsection \<open>The reducer: request-reducer.factory.ts\<close>

fun apiRequestReducer :: "IRequestState \<Rightarrow> Action \<Rightarrow> IRequestState result" where
  "apiRequestReducer state (RequestA (StartRequestAction a t)) = startRequest state a t"
| "apiRequestReducer state (RequestA (WrapperRequestActionSuccess response a t _ _)) =
     succeedRequest state response a t"
| "apiRequestReducer state (RequestA (WrapperRequestActionFailed message a t)) = failRequest state message a t"
| "apiRequestReducer state (RequestA (UpdateCfAction a busy err)) = updateRequest state a busy err"
| "apiRequestReducer state (RecursiveA (SetTreeDeleting _ tree)) = Inr (setChildEntitiesAsDeleting state tree)"
| "apiRequestReducer state (RecursiveA (ResetTreeDelete _ tree)) = Inr (resetChildEntities state tree)"
| "apiRequestReducer state (RecursiveA (SetTreeDeleted _ tree)) = Inr (setChildEntitiesAsDeleted state tree)"
| "apiRequestReducer state _ = Inr state"


subsection \<open>Reading the section\<close>

text \<open>The entry of an entity, and the state an operation starts from (the default when there is none).\<close>

definition req_get :: "IRequestState \<Rightarrow> string \<Rightarrow> string \<Rightarrow> RequestInfoState option" where
  "req_get s K g = Option.bind (obj_get s K) (\<lambda>t. obj_get t g)"

definition entity_request :: "IRequestState \<Rightarrow> string \<Rightarrow> string \<Rightarrow> RequestInfoState" where
  "entity_request s K g = (case req_get s K g of Some r \<Rightarrow> r | None \<Rightarrow> getDefaultRequestState)"

definition in_response :: "NormalizedResponse option \<Rightarrow> string \<Rightarrow> string \<Rightarrow> bool" where
  "in_response response K g \<longleftrightarrow> (case Option.bind response nr_entities of None \<Rightarrow> False
     | Some entities \<Rightarrow> K \<in> set (obj_keys entities) \<and> g \<in> set (obj_keys (js_own (js_at entities K))))"

definition in_tree :: "IFlatTree \<Rightarrow> string \<Rightarrow> string \<Rightarrow> bool" where
  "in_tree tree K g \<longleftrightarrow> (\<exists>ids. (K, ids) \<in> set tree \<and> g \<in> set ids)"

lemma entity_request_Some [simp]: "req_get s K g = Some r \<Longrightarrow> entity_request s K g = r"
  by (simp add: entity_request_def)

lemma entity_request_None [simp]: "req_get s K g = None \<Longrightarrow> entity_request s K g = getDefaultRequestState"
  by (simp add: entity_request_def)

lemma setEntityRequestState_get [obj_simps]:
  "req_get (setEntityRequestState s r K g) K' g' =
     (if K' = K \<and> g' = g then Some r else req_get s K' g')"
  by (auto simp: req_get_def setEntityRequestState_def split: option.splits)

lemma setEntityRequestState_keys:
  "set (obj_keys (setEntityRequestState s r K g)) = insert K (set (obj_keys s))"
  by (simp add: setEntityRequestState_def mergeState_keys del: mergeState_simps)

lemma getEntityRequestState_Inr:
  "getEntityRequestState s (Some K) g = Inr r \<longleftrightarrow> obj_get s K \<noteq> None \<and> r = entity_request s K g"
  by (auto simp: getEntityRequestState_def request_type_def entity_request_def req_get_def
      split: option.splits)

lemma getEntityRequestState_InrE:
  assumes "getEntityRequestState s ek g = Inr r"
  obtains K where "ek = Some K" "obj_get s K \<noteq> None" "r = entity_request s K g"
proof (cases ek)
  case None
  with assms show thesis by (simp add: getEntityRequestState_def request_type_def)
next
  case (Some K)
  with assms show thesis by (intro that[of K]) (simp_all add: getEntityRequestState_Inr)
qed

lemma with_entity_stateE:
  assumes "with_entity_state s a f = Inr s'" and "truthy_str (aa_guid a)"
  obtains K g where "aa_entityKey a = Some K" "aa_guid a = Some g" "obj_get s K \<noteq> None"
    "s' = setEntityRequestState s (f (entity_request s K g)) K g"
proof -
  obtain g where g: "aa_guid a = Some g" using assms(2) by (cases "aa_guid a") auto
  with assms obtain r where r: "getEntityRequestState s (aa_entityKey a) g = Inr r"
    and s': "s' = setEntityRequestState s (f r) (the (aa_entityKey a)) g"
    by (auto simp: with_entity_state_def res_bind_Inr_iff)
  from r obtain K where "aa_entityKey a = Some K" "obj_get s K \<noteq> None" "r = entity_request s K g"
    by (rule getEntityRequestState_InrE)
  with g s' show thesis by (intro that) auto
qed

lemma with_entity_state_total:
  assumes "aa_entityKey a = Some K" and "obj_get s K \<noteq> None"
  shows "\<exists>s'. with_entity_state s a f = Inr s'"
  using assms by (auto simp: with_entity_state_def getEntityRequestState_def request_type_def)

subsection \<open>Lookups after a response\<close>

lemma response_loop_get:
  assumes "res_fold (\<lambda>newState guid.
      res_bind (getEntityRequestState s (Some K) guid) (\<lambda>entState.
        Inr (setEntityRequestState newState (f entState) K guid))) n guids = Inr n'"
  shows "req_get n' K' g' =
    (if K' = K \<and> g' \<in> set guids then Some (f (entity_request s K g')) else req_get n K' g')"
  using assms
proof (induction guids arbitrary: n)
  case (Cons g guids)
  then obtain r where r: "getEntityRequestState s (Some K) g = Inr r"
    and rest: "res_fold (\<lambda>newState guid.
      res_bind (getEntityRequestState s (Some K) guid) (\<lambda>entState.
        Inr (setEntityRequestState newState (f entState) K guid)))
      (setEntityRequestState n (f r) K g) guids = Inr n'"
    by (auto simp: res_bind_Inr_iff)
  show ?case using Cons.IH[OF rest] r by (auto simp: obj_simps getEntityRequestState_Inr)
qed simp

lemma createRequestStateFromResponse_get:
  assumes "createRequestStateFromResponse response s = Inr s'"
  shows "req_get s' K g =
    (if in_response response K g then Some (response_entity_state (entity_request s K g))
     else req_get s K g)"
proof (cases "Option.bind response nr_entities")
  case None
  with assms show ?thesis by (simp add: createRequestStateFromResponse_def in_response_def)
next
  case (Some entities)
  let ?body = "\<lambda>newState entityKey.
    res_bind (js_keys (js_at entities entityKey)) (\<lambda>guids.
      res_fold (\<lambda>newState guid.
        res_bind (getEntityRequestState s (Some entityKey) guid) (\<lambda>entState.
          Inr (setEntityRequestState newState (response_entity_state entState) entityKey guid)))
        newState guids)"
  have loop: "req_get n' K g =
      (if K \<in> set ks \<and> g \<in> set (obj_keys (js_own (js_at entities K)))
       then Some (response_entity_state (entity_request s K g)) else req_get n K g)"
    if "res_fold ?body n ks = Inr n'" for n ks n'
    using that
  proof (induction ks arbitrary: n)
    case (Cons k ks)
    then obtain guids m where guids: "js_keys (js_at entities k) = Inr guids"
      and m: "res_fold (\<lambda>newState guid.
        res_bind (getEntityRequestState s (Some k) guid) (\<lambda>entState.
          Inr (setEntityRequestState newState (response_entity_state entState) k guid))) n guids = Inr m"
      and rest: "res_fold ?body m ks = Inr n'"
      by (auto simp: res_bind_Inr_iff)
    have "guids = obj_keys (js_own (js_at entities k))"
      using guids by (cases "js_at entities k") auto
    then show ?case
      using Cons.IH[OF rest] response_loop_get[OF m, of K g] by auto
  qed simp
  show ?thesis
    using loop assms Some by (simp add: createRequestStateFromResponse_def in_response_def)
qed

lemma req_get_mergeState_set:
  assumes "wf_obj s" and "\<And>K t. obj_get s K = Some t \<Longrightarrow> wf_obj t" and "obj_get s K0 \<noteq> None"
  shows "req_get (mergeState obj_spread m (setEntityRequestState s r K0 g0)) K g =
    (if K = K0 \<and> g = g0 then Some r
     else case req_get s K g of Some r' \<Rightarrow> Some r' | None \<Rightarrow> req_get m K g)"
proof -
  let ?own = "setEntityRequestState s r K0 g0"
  have wf: "wf_obj ?own"
    using assms(1) by (simp add: setEntityRequestState_def wf_obj_set)
  have wft: "wf_obj t" if "obj_get ?own k = Some t" for k t
    using that assms(2)[of k] assms(2)[of K0] assms(3)
    by (auto simp: setEntityRequestState_def wf_obj_set split: if_splits option.splits)
  have "req_get (mergeState obj_spread m ?own) K g =
    (case req_get ?own K g of Some r' \<Rightarrow> Some r' | None \<Rightarrow> req_get m K g)"
    using wft[of K] by (auto simp: req_get_def mergeState_get[OF wf] obj_get_spread split: option.splits)
  then show ?thesis by (simp add: obj_simps)
qed

subsection \<open>Lookups after marking a tree\<close>

definition marked :: "DeleteObject \<Rightarrow> RequestInfoState \<Rightarrow> RequestInfoState" where
  "marked d r = r\<lparr>ri_deleting := spread_deleting (ri_deleting r) d\<rparr>"

lemma marked_idem [simp]: "marked d (marked d r) = marked d r"
  by (cases r; cases d) (auto simp: marked_def spread_deleting_def split: option.splits)

lemma setEntityRequestToObject_get [obj_simps]:
  "req_get (setEntityRequestToObject K g s d) K' g' =
     (if K' = K \<and> g' = g \<and> obj_get s K \<noteq> None then Some (marked d (entity_request s K g))
      else req_get s K' g')"
  by (auto simp: setEntityRequestToObject_def req_get_def entity_request_def marked_def Let_def
      split: option.splits)

lemma entity_request_setObject [obj_simps]:
  "entity_request (setEntityRequestToObject K g s d) K' g' =
     (if K' = K \<and> g' = g \<and> obj_get s K \<noteq> None then marked d (entity_request s K g)
      else entity_request s K' g')"
  by (simp add: entity_request_def[of "setEntityRequestToObject K g s d"] setEntityRequestToObject_get)
    (auto simp: entity_request_def)

lemma setEntityRequestToObject_known [simp]:
  "obj_get (setEntityRequestToObject K g s d) K' = None \<longleftrightarrow> obj_get s K' = None"
  by (auto simp: setEntityRequestToObject_def Let_def split: option.splits)

lemma mark_ids_get:
  "req_get (fold (\<lambda>i st. setEntityRequestToObject K i st d) ids s) K' g =
     (if K' = K \<and> g \<in> set ids \<and> obj_get s K \<noteq> None then Some (marked d (entity_request s K g))
      else req_get s K' g)
   \<and> (obj_get (fold (\<lambda>i st. setEntityRequestToObject K i st d) ids s) K' = None \<longleftrightarrow> obj_get s K' = None)"
proof (induction ids arbitrary: s)
  case (Cons i ids)
  show ?case
    using Cons[of "setEntityRequestToObject K i s d"] by (auto simp: obj_simps)
qed simp

lemma reduceTreeToRequestState_get:
  "req_get (reduceTreeToRequestState tree d s) K g =
     (if in_tree tree K g \<and> obj_get s K \<noteq> None then Some (marked d (entity_request s K g))
      else req_get s K g)"
  unfolding reduceTreeToRequestState_def
proof (induction tree arbitrary: s)
  case (Cons p tree)
  obtain k ids where p: "p = (k, ids)" by force
  let ?s = "fold (\<lambda>i st. setEntityRequestToObject k i st d) ids s"
  have "req_get ?s K g = (if K = k \<and> g \<in> set ids \<and> obj_get s k \<noteq> None
      then Some (marked d (entity_request s k g)) else req_get s K g)"
    and "obj_get ?s K = None \<longleftrightarrow> obj_get s K = None"
    using mark_ids_get[of k d ids s K g] by blast+
  moreover from this(1) have "entity_request ?s K g = (if K = k \<and> g \<in> set ids \<and> obj_get s k \<noteq> None
      then marked d (entity_request s k g) else entity_request s K g)"
    by (auto simp: entity_request_def)
  ultimately show ?case using Cons[of ?s] by (auto simp: p in_tree_def)
qed (simp add: in_tree_def)


subsection \<open>The section is well formed and known types never throw\<close>

definition wf_requests :: "string list \<Rightarrow> IRequestState \<Rightarrow> bool" where
  "wf_requests keys s \<longleftrightarrow> wf_obj s \<and> (\<forall>K t. obj_get s K = Some t \<longrightarrow> wf_obj t)
     \<and> set keys \<subseteq> set (obj_keys s)"

lemma wf_requests_default: "wf_requests keys (generateDefaultState keys)"
proof -
  have "wf_obj (fold (\<lambda>k d. obj_set k [] d) keys d)
     \<and> (\<forall>K t. obj_get (fold (\<lambda>k d. obj_set k [] d) keys d) K = Some t \<longrightarrow> wf_obj t)
     \<and> set keys \<union> set (obj_keys d) \<subseteq> set (obj_keys (fold (\<lambda>k d. obj_set k [] d) keys d))"
    if "wf_obj d" "\<forall>K t. obj_get d K = Some t \<longrightarrow> wf_obj t" for d :: IRequestState
    using that
  proof (induction keys arbitrary: d)
    case (Cons k keys)
    have "wf_obj (obj_set k [] d)" "\<forall>K t. obj_get (obj_set k [] d) K = Some t \<longrightarrow> wf_obj t"
      using Cons.prems by (auto intro: wf_obj_set)
    from Cons.IH[OF this] show ?case by (auto simp: obj_keys_set)
  qed simp
  from this[of "[]"] show ?thesis by (simp add: wf_requests_def generateDefaultState_def)
qed

lemma wf_requests_known: "wf_requests keys s \<Longrightarrow> K \<in> set keys \<Longrightarrow> obj_get s K \<noteq> None"
  unfolding wf_requests_def set_obj_keys[symmetric] by auto

lemma wf_requests_set:
  "wf_requests keys s \<Longrightarrow> wf_requests keys (setEntityRequestState s r K g)"
  by (auto simp: wf_requests_def setEntityRequestState_def obj_keys_set wf_obj_set wf_obj_spread
      split: option.splits if_splits)

lemma wf_requests_with_state:
  assumes "with_entity_state s a f = Inr s'" and "wf_requests keys s"
  shows "wf_requests keys s'"
proof (cases "truthy_str (aa_guid a)")
  case True
  with assms(1) show ?thesis
    by (rule with_entity_stateE) (simp add: wf_requests_set assms(2))
next
  case False
  with assms show ?thesis by (simp add: with_entity_state_def)
qed

lemma wf_requests_response:
  assumes "createRequestStateFromResponse response s = Inr s'" and wf: "wf_requests keys s"
  shows "wf_requests keys s'"
proof (cases "Option.bind response nr_entities")
  case (Some entities)
  with assms(1) have fold: "res_fold (\<lambda>newState entityKey.
      res_bind (js_keys (js_at entities entityKey)) (\<lambda>guids.
        res_fold (\<lambda>newState guid.
          res_bind (getEntityRequestState s (Some entityKey) guid) (\<lambda>entState.
            Inr (setEntityRequestState newState (response_entity_state entState) entityKey guid)))
          newState guids)) s (obj_keys entities) = Inr s'"
    by (simp add: createRequestStateFromResponse_def)
  show ?thesis
  proof (rule res_fold_inv[where P = "wf_requests keys", OF _ wf fold])
    fix n K n'
    assume n: "wf_requests keys n" and "res_bind (js_keys (js_at entities K)) (\<lambda>guids.
        res_fold (\<lambda>newState guid.
          res_bind (getEntityRequestState s (Some K) guid) (\<lambda>entState.
            Inr (setEntityRequestState newState (response_entity_state entState) K guid)))
          n guids) = Inr n'"
    then obtain guids where inner: "res_fold (\<lambda>newState guid.
          res_bind (getEntityRequestState s (Some K) guid) (\<lambda>entState.
            Inr (setEntityRequestState newState (response_entity_state entState) K guid)))
          n guids = Inr n'"
      by (auto simp: res_bind_Inr_iff)
    show "wf_requests keys n'"
      by (rule res_fold_inv[where P = "wf_requests keys", OF _ n inner])
        (auto simp: res_bind_Inr_iff intro: wf_requests_set)
  qed
qed (use assms in \<open>simp add: createRequestStateFromResponse_def\<close>)

lemma wf_requests_merge:
  assumes "wf_requests keys m" and "wf_requests keys n"
  shows "wf_requests keys (mergeState obj_spread m n)"
  using assms unfolding wf_requests_def
  by (auto simp: mergeState_keys mergeState_get wf_mergeState wf_obj_spread split: option.splits)

lemma wf_requests_object: "wf_requests keys s \<Longrightarrow> wf_requests keys (setEntityRequestToObject K g s d)"
  by (auto simp: wf_requests_def setEntityRequestToObject_def Let_def obj_keys_set wf_obj_set
      split: option.splits if_splits)

lemma wf_requests_tree: "wf_requests keys s \<Longrightarrow> wf_requests keys (reduceTreeToRequestState tree d s)"
  unfolding reduceTreeToRequestState_def
  by (rule fold_inv) (auto intro!: fold_inv wf_requests_object)

lemma apiRequestReducer_wf:
  assumes "apiRequestReducer s a = Inr s'" and "wf_requests keys s"
  shows "wf_requests keys s'"
  using assms
  by (induction s a rule: apiRequestReducer.induct)
    (auto simp: startRequest_def failRequest_def updateRequest_def succeedRequest_def res_bind_Inr_iff
      setChildEntitiesAsDeleting_def setChildEntitiesAsDeleted_def resetChildEntities_def
      intro: wf_requests_with_state wf_requests_response wf_requests_tree wf_requests_merge
      split: if_splits)

text \<open>An action whose entity type, and every type of whose response, is a known one with object values.\<close>

fun known_action :: "string list \<Rightarrow> Action \<Rightarrow> bool" where
  "known_action keys (RequestA a) = (
     (case aa_entityKey (request_api_action a) of None \<Rightarrow> False | Some K \<Rightarrow> K \<in> set keys) \<and>
     (case a of
        WrapperRequestActionSuccess response _ _ _ _ \<Rightarrow>
          (case Option.bind response nr_entities of None \<Rightarrow> True
           | Some es \<Rightarrow> list_all (\<lambda>(K, v). K \<in> set keys \<and> truthy v) es)
      | _ \<Rightarrow> True))"
| "known_action keys _ = True"

lemma createRequestStateFromResponse_total:
  assumes "wf_requests keys s"
    and "\<And>es. Option.bind response nr_entities = Some es \<Longrightarrow>
      list_all (\<lambda>(K, v). K \<in> set keys \<and> truthy v) es"
  shows "\<exists>s'. createRequestStateFromResponse response s = Inr s'"
proof (cases "Option.bind response nr_entities")
  case (Some entities)
  have entry: "K \<in> set keys \<and> truthy (js_at entities K)" if "K \<in> set (obj_keys entities)" for K
  proof -
    from that obtain v where v: "obj_get entities K = Some v" by (auto simp: set_obj_keys)
    then show ?thesis
      using assms(2)[OF Some] obj_get_mem[OF v] by (auto simp: js_at_def list_all_iff)
  qed
  have inner: "\<exists>n'. res_fold (\<lambda>newState guid.
          res_bind (getEntityRequestState s (Some K) guid) (\<lambda>entState.
            Inr (setEntityRequestState newState (response_entity_state entState) K guid)))
          n guids = Inr n' \<and> True" if "K \<in> set keys" for K n guids
    by (rule res_fold_total)
      (use wf_requests_known[OF assms(1) that] in
        \<open>auto simp: getEntityRequestState_def request_type_def\<close>)
  have "\<exists>s'. createRequestStateFromResponse response s = Inr s' \<and> True"
    unfolding createRequestStateFromResponse_def Some option.case
    by (rule res_fold_total) (use entry inner in \<open>auto simp: truthy_js_keys\<close>)
  then show ?thesis by blast
qed (simp add: createRequestStateFromResponse_def)

lemma apiRequestReducer_total:
  assumes "wf_requests keys s" and "known_action keys a"
  shows "\<exists>s'. apiRequestReducer s a = Inr s'"
proof (cases a)
  case (RequestA r)
  with assms(2) obtain K where K: "aa_entityKey (request_api_action r) = Some K" "K \<in> set keys"
    by (auto split: option.splits)
  note frame = with_entity_state_total[OF K(1) wf_requests_known[OF assms(1) K(2)]]
  show ?thesis
  proof (cases r)
    case (WrapperRequestActionSuccess response b t n m)
    have "\<exists>s'. createRequestStateFromResponse response s = Inr s'"
      by (rule createRequestStateFromResponse_total[OF assms(1)])
        (use assms(2) RequestA WrapperRequestActionSuccess in auto)
    with frame[of "success_state b t response"] show ?thesis
      using RequestA WrapperRequestActionSuccess by (auto simp: succeedRequest_def)
  qed (use frame RequestA in \<open>auto simp: startRequest_def failRequest_def updateRequest_def\<close>)
next
  case (RecursiveA r)
  then show ?thesis by (cases r) auto
qed simp_all


subsection \<open>The section as a slice of the store\<close>

text \<open>The entities whose request state an action can change.\<close>

definition names_entity :: "ApiAction \<Rightarrow> string \<Rightarrow> string \<Rightarrow> bool" where
  "names_entity a K g \<longleftrightarrow> aa_entityKey a = Some K \<and> aa_guid a = Some g"

fun request_touches :: "Action \<Rightarrow> string \<times> string \<Rightarrow> bool" where
  "request_touches (RequestA (WrapperRequestActionSuccess response a _ _ _)) (K, g) \<longleftrightarrow>
     names_entity a K g \<or> in_response response K g"
| "request_touches (RequestA r) (K, g) \<longleftrightarrow> names_entity (request_api_action r) K g"
| "request_touches (RecursiveA (SetTreeDeleting _ tree)) (K, g) \<longleftrightarrow> in_tree tree K g"
| "request_touches (RecursiveA (SetTreeDeleted _ tree)) (K, g) \<longleftrightarrow> in_tree tree K g"
| "request_touches (RecursiveA (ResetTreeDelete _ tree)) (K, g) \<longleftrightarrow> in_tree tree K g"
| "request_touches _ _ \<longleftrightarrow> False"

lemma with_entity_state_frame:
  assumes "with_entity_state s a f = Inr s'" and "\<not> names_entity a K g"
  shows "req_get s' K g = req_get s K g"
proof (cases "truthy_str (aa_guid a)")
  case True
  from assms(1) True show ?thesis
    by (rule with_entity_stateE) (use assms(2) in \<open>auto simp: obj_simps names_entity_def\<close>)
qed (use assms in \<open>simp add: with_entity_state_def\<close>)

text \<open>Everything a success action leaves behind, for every entity of the store.\<close>

lemma succeedRequest_get:
  assumes "succeedRequest s response a t = Inr s'" and wf: "wf_requests keys s"
    and "aa_entityKey a = Some K0" and "aa_guid a = Some g0" and "g0 \<noteq> []"
  shows "req_get s' K g =
    (if K = K0 \<and> g = g0 then Some (success_state a t response (entity_request s K0 g0))
     else case req_get s K g of Some r \<Rightarrow> Some r
       | None \<Rightarrow> if in_response response K g then Some (response_entity_state getDefaultRequestState) else None)"
proof -
  from assms obtain own m where own: "with_entity_state s a (success_state a t response) = Inr own"
    and m: "createRequestStateFromResponse response s = Inr m"
    and s': "s' = mergeState obj_spread m own"
    by (auto simp: succeedRequest_def res_bind_Inr_iff)
  have t: "truthy_str (aa_guid a)" using assms(4,5) by simp
  from own t obtain K1 g1 where "aa_entityKey a = Some K1" "aa_guid a = Some g1" "obj_get s K1 \<noteq> None"
    "own = setEntityRequestState s (success_state a t response (entity_request s K1 g1)) K1 g1"
    by (rule with_entity_stateE)
  then have known: "obj_get s K0 \<noteq> None"
    and own_eq: "own = setEntityRequestState s (success_state a t response (entity_request s K0 g0)) K0 g0"
    using assms(3,4) by auto
  have "req_get s' K g = (if K = K0 \<and> g = g0 then Some (success_state a t response (entity_request s K0 g0))
      else case req_get s K g of Some r' \<Rightarrow> Some r' | None \<Rightarrow> req_get m K g)"
    unfolding s' own_eq
    by (rule req_get_mergeState_set) (use wf known in \<open>auto simp: wf_requests_def\<close>)
  then show ?thesis
    by (cases "req_get s K g") (simp_all add: createRequestStateFromResponse_get[OF m])
qed

lemma apiRequestReducer_frame:
  assumes "wf_requests keys s" and "apiRequestReducer s a = Inr s'" and "\<not> request_touches a k"
  shows "case_prod (req_get s') k = case_prod (req_get s) k"
  using assms(2,3,1)
proof (induction a k rule: request_touches.induct)
  case (1 response a t n m K g)
  show ?case
  proof (cases "truthy_str (aa_guid a)")
    case True
    with 1 obtain K0 g0 where "aa_entityKey a = Some K0" "aa_guid a = Some g0" "g0 \<noteq> []"
      by (auto simp: succeedRequest_def res_bind_Inr_iff elim!: with_entity_stateE)
    with 1 show ?thesis
      by (auto simp: succeedRequest_get names_entity_def split: option.splits)
  next
    case False
    with 1 show ?thesis
      by (simp add: succeedRequest_def createRequestStateFromResponse_get)
  qed
qed (auto simp: startRequest_def failRequest_def updateRequest_def
    setChildEntitiesAsDeleting_def setChildEntitiesAsDeleted_def resetChildEntities_def
    reduceTreeToRequestState_get with_entity_state_frame split: if_splits)

interpretation requests: framed_reducer apiRequestReducer "wf_requests keys" "known_action keys"
    "\<lambda>s. case_prod (req_get s)" request_touches
  for keys
  by unfold_locales (rule apiRequestReducer_wf apiRequestReducer_total apiRequestReducer_frame; assumption)+

section \<open>Properties of the request section\<close>

text \<open>Is a request of this type under way for the entity; has the last one failed.\<close>

fun request_busy :: "ApiRequestTypes \<Rightarrow> RequestInfoState \<Rightarrow> bool" where
  "request_busy FetchType r = ri_fetching r"
| "request_busy CreateType r = ri_creating r"
| "request_busy DeleteType r = as_busy (ri_deleting r)"
| "request_busy UpdateType r = False"

fun request_failed :: "ApiRequestTypes \<Rightarrow> RequestInfoState \<Rightarrow> bool" where
  "request_failed DeleteType r = (as_error (ri_deleting r) \<or> \<not> ds_deleted (ri_deleting r))"
| "request_failed _ r = ri_error r"

lemma with_entity_state_known:
  assumes "wf_requests keys s" and "K \<in> set keys" and "aa_entityKey a = Some K" and "aa_guid a = Some g" and "g \<noteq> []"
  shows "with_entity_state s a f = Inr (setEntityRequestState s (f (entity_request s K g)) K g)"
  using wf_requests_known[OF assms(1,2)] assms(3-5)
  by (auto simp: with_entity_state_def getEntityRequestState_def request_type_def entity_request_def req_get_def
      split: option.splits)

lemma entity_request_set [obj_simps]:
  "entity_request (setEntityRequestState s r K g) K' g' =
     (if K' = K \<and> g' = g then r else entity_request s K' g')"
  by (simp add: entity_request_def obj_simps)

lemma succeedRequest_own:
  assumes "wf_requests keys s" and "known_action keys (RequestA (WrapperRequestActionSuccess response a t n m))"
    and "aa_entityKey a = Some K" and "aa_guid a = Some g" and "g \<noteq> []"
  shows "\<exists>s'. apiRequestReducer s (RequestA (WrapperRequestActionSuccess response a t n m)) = Inr s' \<and>
    entity_request s' K g = success_state a t response (entity_request s K g)"
proof -
  obtain s' where s': "apiRequestReducer s (RequestA (WrapperRequestActionSuccess response a t n m)) = Inr s'"
    using apiRequestReducer_total[OF assms(1,2)] by blast
  then have "succeedRequest s response a t = Inr s'" by simp
  from succeedRequest_get[OF this assms(1,3-5), of K g] s' show ?thesis by auto
qed

lemma mark_ids_known [simp]:
  "obj_get (fold (\<lambda>i st. setEntityRequestToObject k i st d) ids s) K = None \<longleftrightarrow> obj_get s K = None"
  using mark_ids_get by blast

lemma reduceTree_known:
  assumes "obj_get s K \<noteq> None"
  shows "obj_get (reduceTreeToRequestState tree d s) K \<noteq> None"
  unfolding reduceTreeToRequestState_def
proof (rule fold_inv[where P = "\<lambda>t. obj_get t K \<noteq> None"])
  fix p and s :: IRequestState
  assume "obj_get s K \<noteq> None"
  then show "obj_get ((case p of (entityKey, ids) \<Rightarrow> \<lambda>st.
      fold (\<lambda>entityId st. setEntityRequestToObject entityKey entityId st d) ids st) s) K \<noteq> None"
    by (cases p) (simp only: prod.case mark_ids_known not_False_eq_True)
qed (rule assms)

lemma entity_request_tree:
  assumes "obj_get s K \<noteq> None"
  shows "entity_request (reduceTreeToRequestState tree d s) K g =
    (if in_tree tree K g then marked d (entity_request s K g) else entity_request s K g)"
  using assms by (auto simp: entity_request_def reduceTreeToRequestState_get)

text \<open>
  C4: The life of a request for one entity: the start action marks the entity as being fetched, created or
  deleted; a success clears the mark and reports no failure (a deleted entity is marked deleted); a failure
  clears the mark and reports the failure.
\<close>

theorem request_lifecycle:
  assumes wf: "wf_requests keys s" and a: "aa_entityKey a = Some K" "aa_guid a = Some g" "g \<noteq> []"
    and no_key: "\<not> truthy_str (aa_updatingKey a)" and t: "t \<noteq> UpdateType"
    and ok: "known_action keys (RequestA (WrapperRequestActionSuccess response a t n m))"
  shows "\<exists>s1. apiRequestReducer s (RequestA (StartRequestAction a t)) = Inr s1
      \<and> request_busy t (entity_request s1 K g)
    \<and> (\<exists>s2. apiRequestReducer s1 (RequestA (WrapperRequestActionSuccess response a t n m)) = Inr s2
      \<and> \<not> request_busy t (entity_request s2 K g) \<and> \<not> request_failed t (entity_request s2 K g))
    \<and> (\<exists>s3. apiRequestReducer s1 (RequestA (WrapperRequestActionFailed msg a t)) = Inr s3
      \<and> \<not> request_busy t (entity_request s3 K g) \<and> request_failed t (entity_request s3 K g))"
proof -
  have K: "K \<in> set keys" using ok a by simp
  define s1 where "s1 = setEntityRequestState s (start_state a t (entity_request s K g)) K g"
  have start: "apiRequestReducer s (RequestA (StartRequestAction a t)) = Inr s1"
    by (simp add: startRequest_def with_entity_state_known[OF wf K a] s1_def)
  have r1: "entity_request s1 K g = modifyRequestWithRequestType (entity_request s K g) t"
    using no_key by (simp add: s1_def obj_simps start_state_def)
  have wf1: "wf_requests keys s1" unfolding s1_def by (rule wf_requests_set[OF wf])
  obtain s2 where s2: "apiRequestReducer s1 (RequestA (WrapperRequestActionSuccess response a t n m)) = Inr s2"
    "entity_request s2 K g = success_state a t response (entity_request s1 K g)"
    using succeedRequest_own[OF wf1 ok a] by blast
  define s3 where "s3 = setEntityRequestState s1 (fail_state msg a t (entity_request s1 K g)) K g"
  have s3: "apiRequestReducer s1 (RequestA (WrapperRequestActionFailed msg a t)) = Inr s3"
    "entity_request s3 K g = fail_state msg a t (entity_request s1 K g)"
    by (simp_all add: failRequest_def with_entity_state_known[OF wf1 K a] s3_def obj_simps)
  show ?thesis
    using start r1 s2 s3 t no_key
    by (cases t) (auto simp: success_state_def fail_state_def defaultDeletingActionState_def)
qed

theorem request_lifecycle_witness:
  "\<exists>s1. apiRequestReducer [(''space'', [])] (RequestA (StartRequestAction (entity_action ''space'' ''s1'') DeleteType)) = Inr s1
      \<and> request_busy DeleteType (entity_request s1 ''space'' ''s1'')"
proof -
  have "\<exists>s1. apiRequestReducer [(''space'', [])] (RequestA (StartRequestAction (entity_action ''space'' ''s1'') DeleteType)) = Inr s1
      \<and> request_busy DeleteType (entity_request s1 ''space'' ''s1'')
      \<and> (\<exists>s2. apiRequestReducer s1 (RequestA (WrapperRequestActionSuccess None (entity_action ''space'' ''s1'') DeleteType None None)) = Inr s2
        \<and> \<not> request_busy DeleteType (entity_request s2 ''space'' ''s1'') \<and> \<not> request_failed DeleteType (entity_request s2 ''space'' ''s1''))
      \<and> (\<exists>s3. apiRequestReducer s1 (RequestA (WrapperRequestActionFailed ''boom'' (entity_action ''space'' ''s1'') DeleteType)) = Inr s3
        \<and> \<not> request_busy DeleteType (entity_request s3 ''space'' ''s1'') \<and> request_failed DeleteType (entity_request s3 ''space'' ''s1''))"
    by (rule request_lifecycle[where keys = "[''space'']"]) (simp_all add: wf_requests_def plain_actions)
  then show ?thesis by blast
qed

text \<open>
  A run of actions over known entity types never throws and keeps the section well formed, whatever the
  order of starts, successes, failures, updates and tree deletions.
\<close>

theorem request_run_never_throws:
  assumes "wf_requests keys s" and "list_all (known_action keys) as"
  shows "\<exists>s'. res_fold apiRequestReducer s as = Inr s' \<and> wf_requests keys s'"
  using assms by (rule requests.run_total)

theorem request_run_never_throws_witness:
  "\<exists>s'. res_fold apiRequestReducer (generateDefaultState [''space''])
      [RequestA (StartRequestAction (entity_action ''space'' ''s1'') FetchType),
       RequestA (WrapperRequestActionFailed ''gone'' (entity_action ''space'' ''s1'') FetchType),
       RecursiveA (SetTreeDeleting ''s1'' [(''space'', [''s1''])])] = Inr s' \<and> wf_requests [''space''] s'"
  by (rule request_run_never_throws) (simp_all add: wf_requests_default plain_actions)

text \<open>
  Requests for other entities do not interfere: after any run of actions none of which names an entity
  (as the target of its request, in its response or in its tree), the request state of that entity is the
  one it had.
\<close>

theorem request_run_frame:
  assumes "wf_requests keys s" and "list_all (\<lambda>a. \<not> request_touches a (K, g)) as"
    and "res_fold apiRequestReducer s as = Inr s'"
  shows "req_get s' K g = req_get s K g"
  using requests.run_frame[OF assms] by simp

theorem request_run_frame_witness:
  "req_get [(''space'', [(''s1'', getDefaultRequestState\<lparr>ri_fetching := True\<rparr>)])] ''space'' ''s2'' = None"
  using request_run_frame[of "[''space'']" "[(''space'', [])]" "''space''" "''s2''"
      "[RequestA (StartRequestAction (entity_action ''space'' ''s1'') FetchType)]"
      "[(''space'', [(''s1'', getDefaultRequestState\<lparr>ri_fetching := True\<rparr>)])]"]
  by (simp add: wf_requests_def plain_actions names_entity_def startRequest_def with_entity_state_def
      getEntityRequestState_def request_type_def start_state_def setEntityRequestState_def req_get_def)

text \<open>
  A list response resets what the store says of the deletion of every entity it holds: after the success
  of a request without a guid, each of them is no longer marked as deleted, with its flags for fetching and
  errors as they were, and no other entity changes.
\<close>

theorem request_list_success:
  assumes "\<not> truthy_str (aa_guid a)"
    and "apiRequestReducer s (RequestA (WrapperRequestActionSuccess response a t n m)) = Inr s'"
  shows "req_get s' K g =
    (if in_response response K g
     then Some ((entity_request s K g)\<lparr>ri_deleting :=
       \<lparr>as_busy = as_busy (ri_deleting (entity_request s K g)), as_error = False, as_message = JStr '''',
        ds_deleted = False\<rparr>\<rparr>)
     else req_get s K g)"
  using assms
  by (simp add: succeedRequest_def createRequestStateFromResponse_get response_entity_state_def
      defaultDeletingActionState_def)

theorem request_list_success_witness:
  "req_get [(''space'', [(''s1'', getDefaultRequestState)])] ''space'' ''s1'' =
    Some (getDefaultRequestState\<lparr>ri_deleting :=
       \<lparr>as_busy = False, as_error = False, as_message = JStr '''', ds_deleted = False\<rparr>\<rparr>)"
  using request_list_success[of "list_action ''space'' ''all''" "[(''space'', [])]"
      "Some \<lparr>nr_entities = Some [(''space'', JObj [(''s1'', JObj [])])], nr_result = [''s1'']\<rparr>" FetchType None None
      "[(''space'', [(''s1'', getDefaultRequestState)])]" "''space''" "''s1''"]
  by (simp add: plain_actions succeedRequest_def createRequestStateFromResponse_def js_at_def
      getEntityRequestState_def request_type_def setEntityRequestState_def in_response_def entity_request_def
      req_get_def response_entity_state_def getDefaultRequestState_def defaultDeletingActionState_def)

text \<open>
  The success of a request for one entity leaves the store's record of every other entity that has one
  exactly as it was, even when the response holds that entity: the merge of the two new states lets the old
  records win. An entity deleted before and found again in such a response stays marked as deleted, unlike
  after a list response.
\<close>

theorem request_success_keeps_known:
  assumes "wf_requests keys s" and "aa_entityKey a = Some K0" and "aa_guid a = Some g0" and "g0 \<noteq> []"
    and "apiRequestReducer s (RequestA (WrapperRequestActionSuccess response a t n m)) = Inr s'"
    and "(K, g) \<noteq> (K0, g0)" and "req_get s K g = Some r"
  shows "req_get s' K g = Some r"
  using succeedRequest_get[of s response a t s' keys K0 g0 K g] assms by auto

theorem request_success_keeps_known_witness:
  "\<exists>s'. apiRequestReducer
      [(''space'', [(''s1'', marked \<lparr>do_busy = False, do_deleted = Some True\<rparr> getDefaultRequestState)])]
      (RequestA (WrapperRequestActionSuccess
        (Some \<lparr>nr_entities = Some [(''space'', JObj [(''s1'', JObj [])])], nr_result = [''s2'']\<rparr>)
        (entity_action ''space'' ''s2'') FetchType None None)) = Inr s'
    \<and> req_get s' ''space'' ''s1'' =
        Some (marked \<lparr>do_busy = False, do_deleted = Some True\<rparr> getDefaultRequestState)"
proof -
  let ?r = "marked \<lparr>do_busy = False, do_deleted = Some True\<rparr> getDefaultRequestState"
  let ?s = "[(''space'', [(''s1'', ?r)])]"
  let ?a = "RequestA (WrapperRequestActionSuccess
        (Some \<lparr>nr_entities = Some [(''space'', JObj [(''s1'', JObj [])])], nr_result = [''s2'']\<rparr>)
        (entity_action ''space'' ''s2'') FetchType None None)"
  have wf: "wf_requests [''space''] ?s" by (simp add: wf_requests_def)
  obtain s' where s': "apiRequestReducer ?s ?a = Inr s'"
    using apiRequestReducer_total[OF wf, of ?a] by (auto simp: plain_actions)
  have "req_get s' ''space'' ''s1'' = Some ?r"
    by (rule request_success_keeps_known[OF wf _ _ _ s', of "''space''" "''s2''"])
      (simp_all add: plain_actions req_get_def)
  with s' show ?thesis by blast
qed

text \<open>
  C32: Marking a tree of entities for deletion and resetting it afterwards undoes the mark: every entity of a
  known type in the tree ends neither busy nor deleted with everything else of its record unchanged, and
  entities outside the tree are never changed; when the deletion completes instead, they end deleted.
\<close>

theorem tree_delete_outcome:
  assumes "obj_get s K \<noteq> None"
  shows "entity_request (resetChildEntities (setChildEntitiesAsDeleting s tree) tree) K g =
      (if in_tree tree K g
       then (entity_request s K g)\<lparr>ri_deleting :=
         (ri_deleting (entity_request s K g))\<lparr>as_busy := False, ds_deleted := False\<rparr>\<rparr>
       else entity_request s K g)
    \<and> entity_request (setChildEntitiesAsDeleted (setChildEntitiesAsDeleting s tree) tree) K g =
      (if in_tree tree K g
       then (entity_request s K g)\<lparr>ri_deleting :=
         (ri_deleting (entity_request s K g))\<lparr>as_busy := False, ds_deleted := True\<rparr>\<rparr>
       else entity_request s K g)"
  using assms reduceTree_known[OF assms]
  by (simp add: resetChildEntities_def setChildEntitiesAsDeleting_def setChildEntitiesAsDeleted_def
      entity_request_tree marked_def spread_deleting_def)

theorem tree_delete_outcome_witness:
  "ds_deleted (ri_deleting (entity_request
     (setChildEntitiesAsDeleted (setChildEntitiesAsDeleting [(''space'', [])] [(''space'', [''s1''])]) [(''space'', [''s1''])])
     ''space'' ''s1''))"
  using tree_delete_outcome[of "[(''space'', [])]" "''space''" "[(''space'', [''s1''])]" "''s1''"]
  by (simp add: in_tree_def)

end
