(* ===== verification/Pagination.thy ===== *)
theory Pagination
  imports Requests
begin

section \<open>A pagination section and its updaters: store/reducers/pagination-reducer\<close>

text \<open>
  For every entity type and pagination key the store keeps a \<open>PaginationEntityState\<close>: which page the
  server is asked for, the guids of the pages that have arrived, the state of the page requests, the
  query parameters, and the paging of the list in the browser. This theory holds that record, the
  helpers of \<open>pagination-reducer.helper.ts\<close> and the updaters of one section, one definition per
  file; \<open>Pagination_Reducer\<close> composes them.

  A property that is not there and one that is \<open>undefined\<close> are both \<open>None\<close>; \<open>pe_seed\<close> tells a missing
  seed (\<open>None\<close>) from a \<open>null\<close> one (\<open>Some None\<close>). The type marks \<open>clientPagination\<close> optional, but every section
  starts as a copy of the default, which has it, and no updater drops it. Page numbers are integer
  property names, which \<open>Object.keys\<close> lists in ascending order.
\<close>

subsection \<open>Types: store/types/pagination.types.ts\<close>

record PaginationClientPagination =
  cp_pageSize :: int
  cp_currentPage :: int
  cp_filter :: PaginationClientFilter
  cp_totalResults :: int

record PaginationEntityState =
  pe_pageCount :: "int option"
  pe_currentPage :: int
  pe_totalResults :: int
  pe_ids :: "(int, string list option) obj"
  pe_pageRequests :: "(int, ActionState) obj"
  pe_params :: PaginationParam
  pe_clientPagination :: PaginationClientPagination
  pe_seed :: "string option option"
  pe_fetching :: "bool option"
  pe_error :: "bool option"
  pe_message :: "string option"

type_synonym PaginationEntityTypeState = "(string, PaginationEntityState) obj"
type_synonym PaginationState = "(string, PaginationEntityTypeState) obj"

definition defaultClientPaginationPageSize :: int where "defaultClientPaginationPageSize = 9"

definition getDefaultPaginationEntityState :: PaginationEntityState where
  "getDefaultPaginationEntityState =
     \<lparr>pe_pageCount = Some 0, pe_currentPage = 1, pe_totalResults = 0, pe_ids = [], pe_pageRequests = [],
      pe_params = [],
      pe_clientPagination =
        \<lparr>cp_pageSize = defaultClientPaginationPageSize, cp_currentPage = 1,
         cp_filter = \<lparr>cf_string = [], cf_items = []\<rparr>, cp_totalResults = 0\<rparr>,
      pe_seed = None, pe_fetching = None, pe_error = None, pe_message = None\<rparr>"

subsection \<open>Query parameters: pagination-reducer.helper.ts\<close>

definition joinQParam :: "QParam \<Rightarrow> string" where
  "joinQParam q = qp_key q @ qp_joiner q @
     (case qp_value q of QArr vs \<Rightarrow> join_with '','' vs | QStr v \<Rightarrow> v)"

definition qParamsToString :: "QParam list \<Rightarrow> string list" where
  "qParamsToString params = map joinQParam params"

fun truthy_qvalue :: "qvalue \<Rightarrow> bool" where
  "truthy_qvalue (QStr s) = (s \<noteq> [])"
| "truthy_qvalue (QArr _) = True"

fun truthy_param :: "param_value \<Rightarrow> bool" where
  "truthy_param (QParams _) = True"
| "truthy_param (Param v) = truthy v"

text \<open>\<open>params.q\<close>, when it is there, and \<open>[].concat(params.q || [])\<close>.\<close>

definition params_q :: "PaginationParam \<Rightarrow> QParam list option" where
  "params_q params = (case obj_get params ''q'' of Some (QParams qs) \<Rightarrow> Some qs | _ \<Rightarrow> None)"

definition q_or_empty :: "PaginationParam \<Rightarrow> QParam list" where
  "q_or_empty params = (case params_q params of Some qs \<Rightarrow> qs | None \<Rightarrow> [])"

text \<open>The loop that replaces the first parameter of the same key, or appends the new one.\<close>

fun updateQParam :: "QParam \<Rightarrow> QParam list \<Rightarrow> QParam list" where
  "updateQParam p [] = [p]"
| "updateQParam p (q # qs) = (if qp_key q = qp_key p then p # qs else q # updateQParam p qs)"

text \<open>\<open>filter((q, index, self) => self.findIndex(qs => qs.key === q.key) === index)\<close>: the first of each key.\<close>

fun firstOfKey :: "string list \<Rightarrow> QParam list \<Rightarrow> QParam list" where
  "firstOfKey seen [] = []"
| "firstOfKey seen (q # qs) =
     (if qp_key q \<in> set seen then firstOfKey seen qs else q # firstOfKey (qp_key q # seen) qs)"

definition getUniqueQParams :: "PaginationParam \<Rightarrow> PaginationParam \<Rightarrow> QParam list" where
  "getUniqueQParams actionParams stateParams =
     (let qActionParams = q_or_empty actionParams;
          qStateParams = fold updateQParam qActionParams (q_or_empty stateParams)
      in if params_q actionParams \<noteq> None
         then filter (\<lambda>q. truthy_qvalue (qp_value q)) (firstOfKey [] (qStateParams @ qActionParams))
         else qStateParams)"

definition removeEmptyParams :: "PaginationParam \<Rightarrow> PaginationParam" where
  "removeEmptyParams params = filter (\<lambda>(k, v). truthy_param v) params"

text \<open>Copying the nested filter leaves the values as they are.\<close>

definition spreadClientPagination :: "PaginationClientPagination \<Rightarrow> PaginationClientPagination" where
  "spreadClientPagination pag = pag\<lparr>cp_filter := (cp_filter pag)\<lparr>cf_items := cf_items (cp_filter pag)\<rparr>\<rparr>"

lemma spreadClientPagination_eq [simp]: "spreadClientPagination pag = pag"
  by (simp add: spreadClientPagination_def)

subsection \<open>Is a page there: pagination-reducer.helper.ts\<close>

definition getCurrentPageRequestInfo :: "PaginationEntityState \<Rightarrow> ActionState" where
  "getCurrentPageRequestInfo pagination =
     (case obj_get (pe_pageRequests pagination) (pe_currentPage pagination) of
        Some r \<Rightarrow> r
      | None \<Rightarrow> \<lparr>as_busy = False, as_error = False, as_message = JStr ''''\<rparr>)"

text \<open>\<open>!!pagination.ids[page]\<close>.\<close>

definition has_page_ids :: "PaginationEntityState \<Rightarrow> int \<Rightarrow> bool" where
  "has_page_ids pagination page \<longleftrightarrow> (case obj_get (pe_ids pagination) page of Some (Some _) \<Rightarrow> True | _ \<Rightarrow> False)"

definition isFetchingPage :: "PaginationEntityState option \<Rightarrow> bool" where
  "isFetchingPage pagination \<longleftrightarrow>
     (case pagination of Some p \<Rightarrow> as_busy (getCurrentPageRequestInfo p) | None \<Rightarrow> False)"

definition isPageReady :: "PaginationEntityState option \<Rightarrow> bool" where
  "isPageReady pagination \<longleftrightarrow>
     (case pagination of
        Some p \<Rightarrow> has_page_ids p (pe_currentPage p) \<and> \<not> isFetchingPage pagination
      | None \<Rightarrow> False)"

definition hasValidOrGettingPage :: "PaginationEntityState option \<Rightarrow> bool" where
  "hasValidOrGettingPage pagination \<longleftrightarrow>
     (case pagination of
        Some p \<Rightarrow> has_page_ids p (pe_currentPage p) \<or> as_busy (getCurrentPageRequestInfo p)
      | None \<Rightarrow> False)"

definition hasError :: "PaginationEntityState option \<Rightarrow> bool" where
  "hasError pagination \<longleftrightarrow>
     (case pagination of Some p \<Rightarrow> as_error (getCurrentPageRequestInfo p) | None \<Rightarrow> False)"

text \<open>
  The observer of \<open>getObservables\<close> that fetches the current page: for each state of the section it sees,
  whether it dispatches the fetch, and the flag \<open>hasDispatchedOnce\<close> afterwards.
\<close>

definition fetchPaginationStep :: "bool \<Rightarrow> bool \<Rightarrow> PaginationEntityState option \<Rightarrow> bool \<times> bool" where
  "fetchPaginationStep isLocal hasDispatchedOnce pagination =
     (if (pagination = None \<and> \<not> hasDispatchedOnce) \<or>
         (\<not> (isLocal \<and> hasDispatchedOnce) \<and> \<not> hasError pagination \<and> \<not> hasValidOrGettingPage pagination)
      then (True, True)
      else (False, hasDispatchedOnce))"

fun fetchPagination :: "bool \<Rightarrow> bool \<Rightarrow> PaginationEntityState option list \<Rightarrow> bool list" where
  "fetchPagination isLocal once [] = []"
| "fetchPagination isLocal once (p # ps) =
     (case fetchPaginationStep isLocal once p of
        (dispatched, once') \<Rightarrow> dispatched # fetchPagination isLocal once' ps)"

subsection \<open>Page requests: pagination-reducer-start.ts, -success.ts, .failure.ts, -update.ts\<close>

definition request_page :: "PaginationEntityState \<Rightarrow> ApiAction \<Rightarrow> int" where
  "request_page state apiAction = num_or (aa_pageNumber apiAction) (pe_currentPage state)"

definition paginationStart :: "PaginationEntityState \<Rightarrow> ApiAction \<Rightarrow> PaginationEntityState" where
  "paginationStart state apiAction =
     state\<lparr>pe_pageRequests :=
       obj_set (request_page state apiAction)
         \<lparr>as_busy = True, as_error = False, as_message = JStr ''''\<rparr> (pe_pageRequests state)\<rparr>"

text \<open>
  The action class has no \<open>result\<close> and the response no \<open>totalPages\<close>, so those reads are \<open>undefined\<close>, as is
  \<open>state[page]\<close>, a property no section has.
\<close>

definition paginationSuccess ::
  "PaginationEntityState \<Rightarrow> NormalizedResponse option \<Rightarrow> ApiAction \<Rightarrow> int option \<Rightarrow> int option \<Rightarrow> PaginationEntityState" where
  "paginationSuccess state response apiAction totalResults totalPages =
     (let totalResults' = num_or totalResults
            (case response of Some r \<Rightarrow> int (length (nr_result r)) | None \<Rightarrow> pe_totalResults state);
          totalPages' = (if truthy_num totalPages then totalPages
            else case response of Some r \<Rightarrow> None | None \<Rightarrow> pe_pageCount state);
          page = request_page state apiAction;
          pageResult = (case response of Some r \<Rightarrow> Some (nr_result r) | None \<Rightarrow> None)
      in state\<lparr>
        pe_pageRequests := obj_set page \<lparr>as_busy = False, as_error = False, as_message = JStr ''''\<rparr> (pe_pageRequests state),
        pe_ids := obj_set page pageResult (pe_ids state),
        pe_pageCount := totalPages',
        pe_totalResults := totalResults',
        pe_clientPagination := (spreadClientPagination (pe_clientPagination state))\<lparr>cp_totalResults := totalResults'\<rparr>\<rparr>)"

definition paginationFailure :: "PaginationEntityState \<Rightarrow> string \<Rightarrow> ApiAction \<Rightarrow> PaginationEntityState" where
  "paginationFailure state message apiAction =
     state\<lparr>pe_pageRequests :=
       obj_set (request_page state apiAction)
         \<lparr>as_busy = False, as_error = True, as_message = JStr message\<rparr> (pe_pageRequests state)\<rparr>"

definition paginationPageBusy :: "PaginationEntityState \<Rightarrow> ApiAction \<Rightarrow> bool \<Rightarrow> js \<Rightarrow> PaginationEntityState" where
  "paginationPageBusy state apiAction busy err =
     state\<lparr>pe_pageRequests :=
       obj_set (request_page state apiAction)
         \<lparr>as_busy = busy, as_error = truthy err, as_message = err\<rparr> (pe_pageRequests state)\<rparr>"

subsection \<open>Paging and filters: pagination-reducer-set-*.ts\<close>

definition paginationSetResultCount :: "PaginationEntityState \<Rightarrow> int \<Rightarrow> PaginationEntityState" where
  "paginationSetResultCount state count =
     (if pe_totalResults state = count \<and> cp_totalResults (pe_clientPagination state) = count
      then state
      else state\<lparr>
        pe_error := Some False,
        pe_totalResults := count,
        pe_clientPagination := (spreadClientPagination (pe_clientPagination state))\<lparr>cp_totalResults := count\<rparr>\<rparr>)"

definition paginationSetPage :: "PaginationEntityState \<Rightarrow> int \<Rightarrow> PaginationEntityState" where
  "paginationSetPage state pageNumber = state\<lparr>pe_error := Some False, pe_currentPage := pageNumber\<rparr>"

definition paginationSetClientPageSize :: "PaginationEntityState \<Rightarrow> int \<Rightarrow> PaginationEntityState" where
  "paginationSetClientPageSize state pageSize =
     state\<lparr>pe_error := Some False,
       pe_clientPagination := (spreadClientPagination (pe_clientPagination state))\<lparr>cp_pageSize := pageSize\<rparr>\<rparr>"

definition paginationSetClientPage :: "PaginationEntityState \<Rightarrow> int \<Rightarrow> PaginationEntityState" where
  "paginationSetClientPage state pageNumber =
     state\<lparr>pe_error := Some False,
       pe_clientPagination := (spreadClientPagination (pe_clientPagination state))\<lparr>cp_currentPage := pageNumber\<rparr>\<rparr>"

definition paginationSetClientFilter :: "PaginationEntityState \<Rightarrow> PartialClientFilter \<Rightarrow> PaginationEntityState" where
  "paginationSetClientFilter state newFilter =
     (let clientPagination = spreadClientPagination (pe_clientPagination state);
          f = cp_filter clientPagination
      in state\<lparr>pe_error := Some False,
        pe_clientPagination := clientPagination\<lparr>cp_filter :=
          f\<lparr>cf_string := (case pf_string newFilter of Some s \<Rightarrow> s | None \<Rightarrow> cf_string f),
            cf_items := obj_spread (cf_items f) (pf_items newFilter)\<rparr>\<rparr>\<rparr>)"

subsection \<open>Parameters: pagination-reducer-set-params.ts, -add-params.ts, -remove-params.ts\<close>

definition resultPerPageParam :: string where "resultPerPageParam = ''results-per-page''"
definition resultPerPageParamDefault :: int where "resultPerPageParamDefault = 5"

definition paginationSetParams :: "PaginationEntityState \<Rightarrow> PaginationParam \<Rightarrow> bool \<Rightarrow> PaginationEntityState" where
  "paginationSetParams state actionParams overwrite =
     (let base = obj_set ''q'' (QParams (getUniqueQParams actionParams (pe_params state)))
            (obj_spread [(resultPerPageParam, Param (JNum resultPerPageParamDefault))] actionParams);
          params = (if overwrite then base else obj_spread base (pe_params state))
      in state\<lparr>pe_params := removeEmptyParams params\<rparr>)"

definition paginationAddParams :: "PaginationEntityState \<Rightarrow> PaginationParam \<Rightarrow> PaginationEntityState" where
  "paginationAddParams state actionParams =
     state\<lparr>pe_params := removeEmptyParams
       (obj_set ''q'' (QParams (getUniqueQParams actionParams (pe_params state)))
         (obj_spread (pe_params state) actionParams))\<rparr>"

text \<open>\<open>action.qs.find(...)\<close> returns the key it found, so the empty key, which is falsy, removes nothing.\<close>

definition paginationRemoveParams ::
  "PaginationEntityState \<Rightarrow> string list \<Rightarrow> string list \<Rightarrow> PaginationEntityState" where
  "paginationRemoveParams state actionParams qs =
     (let params = pe_params state;
          params1 = (case params_q params of
              Some q \<Rightarrow> obj_set ''q'' (QParams (filter (\<lambda>p. \<not> truthy_str (find (\<lambda>k. qp_key p = k) qs)) q)) params
            | None \<Rightarrow> params)
      in state\<lparr>pe_params := fold obj_del actionParams params1\<rparr>)"

subsection \<open>Uniqueness of query parameters\<close>

definition qp_keys :: "QParam list \<Rightarrow> string list" where
  "qp_keys qs = map qp_key qs"

lemma set_updateQParam: "set (qp_keys (updateQParam p qs)) = insert (qp_key p) (set (qp_keys qs))"
  by (induction p qs rule: updateQParam.induct) (auto simp: qp_keys_def)

lemma distinct_updateQParam: "distinct (qp_keys qs) \<Longrightarrow> distinct (qp_keys (updateQParam p qs))"
  by (induction p qs rule: updateQParam.induct)
    (auto simp: qp_keys_def set_updateQParam[unfolded qp_keys_def set_map])

lemma find_updateQParam:
  "find (\<lambda>q. qp_key q = k) (updateQParam p qs) =
     (if qp_key p = k then Some p else find (\<lambda>q. qp_key q = k) qs)"
  by (induction p qs rule: updateQParam.induct) auto

lemma find_fold_updateQParam:
  "find (\<lambda>q. qp_key q = k) (fold updateQParam ps qs) =
     (case find (\<lambda>q. qp_key q = k) (rev ps) of Some p \<Rightarrow> Some p | None \<Rightarrow> find (\<lambda>q. qp_key q = k) qs)"
proof (induction ps rule: rev_induct)
  case (snoc p ps)
  then show ?case by (simp add: find_updateQParam)
qed simp

lemma firstOfKey_keys:
  "distinct (qp_keys (firstOfKey seen qs)) \<and> set (qp_keys (firstOfKey seen qs)) = set (qp_keys qs) - set seen"
  by (induction seen qs rule: firstOfKey.induct) (auto simp: qp_keys_def)

lemma find_firstOfKey:
  "k \<notin> set seen \<Longrightarrow> find (\<lambda>q. qp_key q = k) (firstOfKey seen qs) = find (\<lambda>q. qp_key q = k) qs"
  by (induction seen qs rule: firstOfKey.induct) auto

lemma find_append: "find P (xs @ ys) = (case find P xs of Some x \<Rightarrow> Some x | None \<Rightarrow> find P ys)"
  by (induction xs) auto

lemma find_keyD: "find (\<lambda>q. qp_key q = k) qs = Some q \<Longrightarrow> q \<in> set qs \<and> qp_key q = k"
  by (induction qs) (auto split: if_splits)

lemma find_filter_distinct:
  "distinct (qp_keys qs) \<Longrightarrow>
   find (\<lambda>q. qp_key q = k) (filter P qs) =
     (case find (\<lambda>q. qp_key q = k) qs of Some q \<Rightarrow> if P q then Some q else None | None \<Rightarrow> None)"
  by (induction qs) (auto simp: qp_keys_def find_None_iff image_iff split: option.splits dest!: find_keyD)

lemma unique_params:
  "(params_q ap = None \<longrightarrow> getUniqueQParams ap sp = q_or_empty sp)
   \<and> (params_q ap = Some qs \<longrightarrow>
        distinct (qp_keys (getUniqueQParams ap sp))
      \<and> (\<forall>q \<in> set (getUniqueQParams ap sp). truthy_qvalue (qp_value q))
      \<and> find (\<lambda>q. qp_key q = k) (getUniqueQParams ap sp) =
          (case (case find (\<lambda>q. qp_key q = k) (rev qs) of Some p \<Rightarrow> Some p
                 | None \<Rightarrow> find (\<lambda>q. qp_key q = k) (q_or_empty sp)) of
             Some q \<Rightarrow> if truthy_qvalue (qp_value q) then Some q else None
           | None \<Rightarrow> None))"
proof (cases "params_q ap")
  case None
  then show ?thesis by (simp add: getUniqueQParams_def q_or_empty_def)
next
  case (Some as)
  define st where "st = fold updateQParam as (q_or_empty sp)"
  have eq: "getUniqueQParams ap sp = filter (\<lambda>q. truthy_qvalue (qp_value q)) (firstOfKey [] (st @ as))"
    using Some by (simp add: getUniqueQParams_def q_or_empty_def[of ap] st_def)
  have dist: "distinct (qp_keys (firstOfKey [] (st @ as)))"
    using firstOfKey_keys by blast
  have none: "find (\<lambda>q. qp_key q = k) (rev as) = None \<Longrightarrow> find (\<lambda>q. qp_key q = k) as = None"
    by (simp add: find_None_iff)
  from dist have "distinct (qp_keys (getUniqueQParams ap sp))"
    unfolding eq qp_keys_def by (rule distinct_map_filter)
  moreover have "find (\<lambda>q. qp_key q = k) (firstOfKey [] (st @ as)) =
      (case find (\<lambda>q. qp_key q = k) (rev as) of Some p \<Rightarrow> Some p
       | None \<Rightarrow> find (\<lambda>q. qp_key q = k) (q_or_empty sp))"
    using none by (auto simp: find_firstOfKey find_append st_def find_fold_updateQParam split: option.splits)
  ultimately show ?thesis
    using Some find_filter_distinct[OF dist, of k "\<lambda>q. truthy_qvalue (qp_value q)"] by (auto simp: eq)
qed

lemma wf_filter: "wf_obj ob \<Longrightarrow> wf_obj (filter P ob)"
  by (simp add: wf_obj_def distinct_map_filter)

lemma get_nonempty:
  assumes "wf_obj ob"
  shows "obj_get (removeEmptyParams ob) k = (case obj_get ob k of Some v \<Rightarrow> if truthy_param v then Some v else None | None \<Rightarrow> None)"
  using assms
proof (induction ob)
  case (Cons x ob)
  then show ?case by (cases x; cases "k = fst x") (auto simp: removeEmptyParams_def split: option.splits if_splits)
qed (simp add: removeEmptyParams_def)

text \<open>\<open>q\<close> is the last property written, except where the section's own properties are spread over it.\<close>

lemma q_after:
  assumes "wf_obj (pe_params p)"
  shows "q_or_empty (pe_params (paginationAddParams p ap)) = getUniqueQParams ap (pe_params p)"
    and "q_or_empty (pe_params (paginationSetParams p ap True)) = getUniqueQParams ap (pe_params p)"
    and "obj_get (pe_params (paginationSetParams p ap False)) ''q'' =
      (case obj_get (pe_params p) ''q'' of Some v \<Rightarrow> if truthy_param v then Some v else None
       | None \<Rightarrow> Some (QParams (getUniqueQParams ap (pe_params p))))"
  using assms by (simp_all add: q_or_empty_def params_q_def paginationAddParams_def paginationSetParams_def
      get_nonempty keys_intros obj_get_spread Let_def split: option.splits)

section \<open>Properties of one section\<close>

text \<open>
  C24: Query parameters of a list after parameters are added to it, set over its own, or set beside its
  own while it has no query parameters: each key occurs once, no value is empty, and the value of a key
  is that of the action's last parameter of the key, or else the one the list had; an action that says
  nothing of query parameters leaves them alone. Parameters that are set beside its own leave a list
  that has query parameters with exactly those, whatever the action says. The list's parameters are an
  object, with one value for a name.
\<close>

theorem unique_q_params:
  assumes "wf_obj (pe_params p)"
  shows "(r \<in> {paginationAddParams p ap, paginationSetParams p ap True}
       \<or> r = paginationSetParams p ap False \<and> obj_get (pe_params p) ''q'' = None \<longrightarrow>
     (params_q ap = None \<longrightarrow> q_or_empty (pe_params r) = q_or_empty (pe_params p))
   \<and> (params_q ap = Some qs \<longrightarrow>
        distinct (qp_keys (q_or_empty (pe_params r)))
      \<and> (\<forall>q \<in> set (q_or_empty (pe_params r)). truthy_qvalue (qp_value q))
      \<and> find (\<lambda>q. qp_key q = k) (q_or_empty (pe_params r)) =
          (case (case find (\<lambda>q. qp_key q = k) (rev qs) of Some p \<Rightarrow> Some p
                 | None \<Rightarrow> find (\<lambda>q. qp_key q = k) (q_or_empty (pe_params p))) of
             Some q \<Rightarrow> if truthy_qvalue (qp_value q) then Some q else None
           | None \<Rightarrow> None)))
   \<and> (params_q (pe_params p) = Some own \<longrightarrow>
        params_q (pe_params (paginationSetParams p ap False)) = Some own)"
proof (rule conjI; rule impI)
  assume "r \<in> {paginationAddParams p ap, paginationSetParams p ap True}
       \<or> r = paginationSetParams p ap False \<and> obj_get (pe_params p) ''q'' = None"
  then have "q_or_empty (pe_params r) = getUniqueQParams ap (pe_params p)"
    using q_after[OF assms, of ap] by (auto simp: q_or_empty_def params_q_def)
  then show "(params_q ap = None \<longrightarrow> q_or_empty (pe_params r) = q_or_empty (pe_params p))
   \<and> (params_q ap = Some qs \<longrightarrow>
        distinct (qp_keys (q_or_empty (pe_params r)))
      \<and> (\<forall>q \<in> set (q_or_empty (pe_params r)). truthy_qvalue (qp_value q))
      \<and> find (\<lambda>q. qp_key q = k) (q_or_empty (pe_params r)) =
          (case (case find (\<lambda>q. qp_key q = k) (rev qs) of Some p \<Rightarrow> Some p
                 | None \<Rightarrow> find (\<lambda>q. qp_key q = k) (q_or_empty (pe_params p))) of
             Some q \<Rightarrow> if truthy_qvalue (qp_value q) then Some q else None
           | None \<Rightarrow> None))"
    using unique_params[of ap "pe_params p" qs k] by simp
next
  assume "params_q (pe_params p) = Some own"
  then show "params_q (pe_params (paginationSetParams p ap False)) = Some own"
    using q_after(3)[OF assms, of ap]
    by (simp add: params_q_def split: option.splits param_value.splits)
qed

text \<open>
  The witness gives the theorem a list with an old value for \<open>name\<close> and an action that replaces it,
  once by setting over the list's parameters and once beside them.
\<close>

theorem unique_q_params_witness:
  "find (\<lambda>q. qp_key q = ''name'') (q_or_empty (pe_params (paginationSetParams
       (getDefaultPaginationEntityState\<lparr>pe_params :=
          [(''q'', QParams [\<lparr>qp_key = ''name'', qp_value = QStr ''old'', qp_joiner = '':''\<rparr>])]\<rparr>)
       [(''q'', QParams [\<lparr>qp_key = ''name'', qp_value = QStr ''new'', qp_joiner = '':''\<rparr>])] True))) =
     Some \<lparr>qp_key = ''name'', qp_value = QStr ''new'', qp_joiner = '':''\<rparr>
   \<and> params_q (pe_params (paginationSetParams
       (getDefaultPaginationEntityState\<lparr>pe_params :=
          [(''q'', QParams [\<lparr>qp_key = ''name'', qp_value = QStr ''old'', qp_joiner = '':''\<rparr>])]\<rparr>)
       [(''q'', QParams [\<lparr>qp_key = ''name'', qp_value = QStr ''new'', qp_joiner = '':''\<rparr>])] False)) =
     Some [\<lparr>qp_key = ''name'', qp_value = QStr ''old'', qp_joiner = '':''\<rparr>]"
proof -
  define old new where "old = \<lparr>qp_key = ''name'', qp_value = QStr ''old'', qp_joiner = '':''\<rparr>"
    and "new = \<lparr>qp_key = ''name'', qp_value = QStr ''new'', qp_joiner = '':''\<rparr>"
  define l where "l = getDefaultPaginationEntityState\<lparr>pe_params := [(''q'', QParams [old])]\<rparr>"
  have wf: "wf_obj (pe_params l)" by (simp add: l_def)
  show ?thesis
    unfolding old_def[symmetric] new_def[symmetric] l_def[symmetric]
    using unique_q_params[OF wf, of "paginationSetParams l [(''q'', QParams [new])] True"
        "[(''q'', QParams [new])]" "[new]" "''name''" "[old]"]
    by (simp add: params_q_def l_def new_def)
qed

text \<open>
  C30: A page request that has started counts as under way, so the page is not asked for again; when it
  succeeds the page is ready and holds exactly the guids of the response; when it fails the page is not
  asked for again either, because the section has an error.
\<close>

theorem page_request_lifecycle:
  assumes "request_page p a = pe_currentPage p"
  shows "hasValidOrGettingPage (Some (paginationStart p a))
    \<and> isFetchingPage (Some (paginationStart p a)) \<and> \<not> isPageReady (Some (paginationStart p a))
    \<and> isPageReady (Some (paginationSuccess (paginationStart p a) (Some r) a n m))
    \<and> obj_get (pe_ids (paginationSuccess (paginationStart p a) (Some r) a n m)) (pe_currentPage p) =
        Some (Some (nr_result r))
    \<and> \<not> hasError (Some (paginationSuccess (paginationStart p a) (Some r) a n m))
    \<and> hasError (Some (paginationFailure (paginationStart p a) msg a))
    \<and> \<not> fst (fetchPaginationStep isLocal once (Some (paginationStart p a)))
    \<and> \<not> fst (fetchPaginationStep isLocal once (Some (paginationFailure (paginationStart p a) msg a)))"
  using assms
  by (simp add: paginationStart_def paginationSuccess_def paginationFailure_def Let_def request_page_def
      hasValidOrGettingPage_def isFetchingPage_def isPageReady_def hasError_def getCurrentPageRequestInfo_def
      has_page_ids_def fetchPaginationStep_def)

theorem page_request_lifecycle_witness:
  "isPageReady (Some (paginationSuccess (paginationStart getDefaultPaginationEntityState (list_action ''space'' ''all''))
     (Some \<lparr>nr_entities = None, nr_result = [''s1'']\<rparr>) (list_action ''space'' ''all'') None None))"
  using page_request_lifecycle[of getDefaultPaginationEntityState "list_action ''space'' ''all''"
      "\<lparr>nr_entities = None, nr_result = [''s1'']\<rparr>" None None "''boom''" False False]
  by (simp add: request_page_def plain_actions getDefaultPaginationEntityState_def)

lemma fetchPagination_local_once: "count_list (fetchPagination True True ps) True = 0"
proof (induction ps)
  case (Cons p ps)
  then show ?case by (simp add: fetchPaginationStep_def)
qed simp

text \<open>
  C34: The observer of a local list asks for its page at most once, whatever states of the section it
  sees; and the observer of any list never asks while the page is there, is being fetched or has failed.
\<close>

theorem local_list_fetches_once:
  "count_list (fetchPagination True once ps) True \<le> 1
   \<and> (hasError (Some p) \<or> hasValidOrGettingPage (Some p) \<longrightarrow> \<not> fst (fetchPaginationStep isLocal once (Some p)))"
proof -
  have "count_list (fetchPagination True once ps) True \<le> 1"
  proof (induction ps arbitrary: once)
    case (Cons p ps)
    then show ?case by (cases once) (auto simp: fetchPaginationStep_def fetchPagination_local_once)
  qed simp
  then show ?thesis by (auto simp: fetchPaginationStep_def)
qed

theorem local_list_fetches_once_witness:
  "\<not> fst (fetchPaginationStep False False (Some (paginationStart getDefaultPaginationEntityState (list_action ''space'' ''all''))))"
  using local_list_fetches_once[of False "[]"
      "paginationStart getDefaultPaginationEntityState (list_action ''space'' ''all'')" False]
  by (simp add: hasValidOrGettingPage_def getCurrentPageRequestInfo_def paginationStart_def request_page_def
      getDefaultPaginationEntityState_def plain_actions)

end
