(* ===== verification/Pagination_Reducer.thy ===== *)
theory Pagination_Reducer
  imports Pagination
begin

section \<open>The pagination slice of the store: pagination.reducer.ts\<close>

text \<open>
  \<open>paginate\<close> is the reducer of the \<open>pagination\<close> slice: a few action types act on the slice or on a
  whole entity type (create, clear, reset, endpoint actions), every other action that carries an entity
  key and a pagination key goes to the updater of that one section. The section of an unknown entity
  type is \<open>undefined\<close>, and reading a pagination key of it throws.
\<close>

subsection \<open>Creating a section: pagination-reducer-create-pagination.ts\<close>

text \<open>\<open>state[entityKey]\<close>, of which a property is then read.\<close>

definition pagination_type :: "PaginationState \<Rightarrow> string \<Rightarrow> PaginationEntityTypeState result" where
  "pagination_type state entityKey =
     (case obj_get state entityKey of None \<Rightarrow> Inl TypeError | Some t \<Rightarrow> Inr t)"

definition hasResultCountChanged :: "PaginationEntityState \<Rightarrow> PaginationEntityState \<Rightarrow> bool" where
  "hasResultCountChanged currentPagination seedPagination \<longleftrightarrow>
     cp_totalResults (pe_clientPagination seedPagination) \<noteq> cp_totalResults (pe_clientPagination currentPagination)"

definition getCurrentPage :: "PaginationEntityState \<Rightarrow> PaginationEntityState \<Rightarrow> int" where
  "getCurrentPage currentPagination seedPagination =
     (if hasResultCountChanged currentPagination seedPagination then 1
      else cp_currentPage (pe_clientPagination currentPagination))"

definition mergePaginationSections ::
  "PaginationEntityState \<Rightarrow> PaginationEntityState \<Rightarrow> PaginationClientPagination" where
  "mergePaginationSections currentPagination seedPagination =
     (spreadClientPagination (pe_clientPagination currentPagination))\<lparr>
       cp_totalResults := cp_totalResults (spreadClientPagination (pe_clientPagination seedPagination)),
       cp_currentPage := getCurrentPage currentPagination seedPagination\<rparr>"

definition createNew ::
  "PaginationState \<Rightarrow> PaginationEntityTypeState \<Rightarrow> string \<Rightarrow> string \<Rightarrow> PaginationEntityState \<Rightarrow> PaginationState" where
  "createNew state t entityKey paginationKey defaultState =
     obj_set entityKey (obj_set paginationKey defaultState t) state"

definition mergeWithSeed ::
  "PaginationState \<Rightarrow> PaginationEntityTypeState \<Rightarrow> string \<Rightarrow> string \<Rightarrow> string \<Rightarrow> PaginationEntityState \<Rightarrow> PaginationState" where
  "mergeWithSeed state t entityKey paginationKey seed defaultState =
     (let currentPagination = (case obj_get t paginationKey of Some p \<Rightarrow> p | None \<Rightarrow> defaultState);
          seeded = obj_get t seed;
          seedPagination = (case seeded of Some p \<Rightarrow> p | None \<Rightarrow> defaultState);
          section = seedPagination\<lparr>
            pe_pageCount := pe_pageCount currentPagination,
            pe_currentPage := pe_currentPage currentPagination,
            pe_clientPagination := mergePaginationSections currentPagination seedPagination,
            pe_seed := Some (if seeded \<noteq> None then Some seed else None)\<rparr>
      in obj_set entityKey (obj_set paginationKey section t) state)"

definition createNewPaginationSection ::
  "PaginationState \<Rightarrow> string \<Rightarrow> string \<Rightarrow> string option \<Rightarrow> PaginationEntityState \<Rightarrow> PaginationState result" where
  "createNewPaginationSection state entityKey paginationKey seed defaultState =
     res_bind (pagination_type state entityKey) (\<lambda>t.
       Inr (if truthy_str seed then mergeWithSeed state t entityKey paginationKey (the seed) defaultState
            else if obj_get t paginationKey \<noteq> None then state
            else createNew state t entityKey paginationKey defaultState))"

subsection \<open>Clearing: pagination-reducer-clear-pages.ts, -reset-pagination.ts, -clear-pagination-*.ts\<close>

text \<open>A step on a section that is there; nothing happens when it, or its entity type, is not.\<close>

definition on_section ::
  "(PaginationEntityState \<Rightarrow> PaginationEntityState) \<Rightarrow> PaginationState \<Rightarrow> string \<Rightarrow> string \<Rightarrow> PaginationState" where
  "on_section f state entityKey paginationKey =
     (case obj_get state entityKey of
        None \<Rightarrow> state
      | Some t \<Rightarrow> (case obj_get t paginationKey of
          None \<Rightarrow> state
        | Some p \<Rightarrow> obj_set entityKey (obj_set paginationKey (f p) t) state))"

definition paginationClearPages :: "PaginationState \<Rightarrow> string \<Rightarrow> string \<Rightarrow> PaginationState" where
  "paginationClearPages state entityKey paginationKey =
     on_section (\<lambda>p. p\<lparr>pe_ids := [], pe_currentPage := 1\<rparr>) state entityKey paginationKey"

definition paginationResetPagination :: "PaginationState \<Rightarrow> string \<Rightarrow> string \<Rightarrow> PaginationState" where
  "paginationResetPagination state entityKey paginationKey =
     on_section (\<lambda>p. p\<lparr>pe_ids := [], pe_pageRequests := [], pe_fetching := Some False, pe_pageCount := Some 0,
         pe_currentPage := 1, pe_totalResults := 0, pe_error := Some False, pe_message := Some ''''\<rparr>)
       state entityKey paginationKey"

definition paginationClearType :: "PaginationState \<Rightarrow> string \<Rightarrow> PaginationEntityState \<Rightarrow> PaginationState" where
  "paginationClearType state entityKey defaultPaginationEntityState =
     (case obj_get state entityKey of
        None \<Rightarrow> state
      | Some t \<Rightarrow> obj_set entityKey (obj_map (\<lambda>_. defaultPaginationEntityState) t) state)"

definition endpoint_entity_keys :: "string list" where
  "endpoint_entity_keys = [''application'', ''space'', ''organization'', ''service'', ''user'', ''serviceInstance'']"

definition clearEndpointEntities :: "PaginationState \<Rightarrow> string \<Rightarrow> PaginationEntityState \<Rightarrow> PaginationState" where
  "clearEndpointEntities state endpointType defaultPaginationEntityState =
     (if endpointType = ''web''
      then fold (\<lambda>k st. paginationClearType st k defaultPaginationEntityState) endpoint_entity_keys state
      else state)"

text \<open>
  Removing a guid from the pages of a section. Each page that holds it makes a new section out of the
  section as it was at the start, so of several pages with the guid only the last one loses it.
\<close>

definition page_keys :: "PaginationEntityState \<Rightarrow> int list" where
  "page_keys p = sort (obj_keys (pe_ids p))"

definition removeFromPage :: "PaginationEntityState \<Rightarrow> string \<Rightarrow> int \<Rightarrow> string list \<Rightarrow> PaginationEntityState" where
  "removeFromPage p guid pageKey page =
     p\<lparr>pe_ids := obj_set pageKey (Some (remove1 guid page)) (pe_ids p),
       pe_totalResults := pe_totalResults p - 1,
       pe_clientPagination := (spreadClientPagination (pe_clientPagination p))\<lparr>
         cp_totalResults := cp_totalResults (pe_clientPagination p) - 1, cp_currentPage := 1\<rparr>\<rparr>"

definition clearEntityOfSection :: "string \<Rightarrow> PaginationEntityState \<Rightarrow> PaginationEntityState result" where
  "clearEntityOfSection guid p =
     res_fold (\<lambda>section pageKey.
         case obj_get (pe_ids p) pageKey of
           Some (Some page) \<Rightarrow> Inr (if guid \<in> set page then removeFromPage p guid pageKey page else section)
         | _ \<Rightarrow> Inl TypeError)
       p (page_keys p)"

definition paginationClearOfEntity :: "PaginationState \<Rightarrow> string \<Rightarrow> string \<Rightarrow> PaginationState result" where
  "paginationClearOfEntity state entityKey guid =
     (case obj_get state entityKey of
        None \<Rightarrow> Inr state
      | Some t \<Rightarrow> res_bind (res_obj_map (clearEntityOfSection guid) t) (\<lambda>t'. Inr (obj_set entityKey t' state)))"

subsection \<open>The updater of one section, and the reducer: pagination.reducer.ts\<close>

fun updatePagination :: "PaginationEntityState \<Rightarrow> Action \<Rightarrow> PaginationEntityState" where
  "updatePagination state (RequestA (StartRequestAction a _)) = paginationStart state a"
| "updatePagination state (RequestA (WrapperRequestActionSuccess response a _ totalResults totalPages)) =
     paginationSuccess state response a totalResults totalPages"
| "updatePagination state (RequestA (WrapperRequestActionFailed message a _)) = paginationFailure state message a"
| "updatePagination state (PaginationA (SetResultCount _ _ count)) = paginationSetResultCount state count"
| "updatePagination state (PaginationA (SetPage _ _ pageNumber _)) = paginationSetPage state pageNumber"
| "updatePagination state (PaginationA (SetInitialParams _ _ params _ overwrite)) = paginationSetParams state params overwrite"
| "updatePagination state (PaginationA (SetParams _ _ params _ overwrite)) = paginationSetParams state params overwrite"
| "updatePagination state (PaginationA (AddParams _ _ params _)) = paginationAddParams state params"
| "updatePagination state (PaginationA (RemoveParams _ _ params qs _)) = paginationRemoveParams state params qs"
| "updatePagination state (PaginationA (SetClientPageSize _ _ pageSize)) = paginationSetClientPageSize state pageSize"
| "updatePagination state (PaginationA (SetClientPage _ _ pageNumber)) = paginationSetClientPage state pageNumber"
| "updatePagination state (PaginationA (SetClientFilter _ _ f)) = paginationSetClientFilter state f"
| "updatePagination state (PaginationA (SetPageBusy a busy err)) = paginationPageBusy state a busy err"
| "updatePagination state _ = state"

text \<open>The keys of an action, its own or those of the request action it wraps; \<open>None\<close> where it has none.\<close>

fun getActionKey :: "Action \<Rightarrow> string option" where
  "getActionKey (RequestA a) = aa_entityKey (request_api_action a)"
| "getActionKey (PaginationA (ClearPaginationOfType ek)) = Some ek"
| "getActionKey (PaginationA (ClearPaginationOfEntity ek _)) = Some ek"
| "getActionKey (PaginationA (ResetPagination ek _)) = Some ek"
| "getActionKey (PaginationA (CreatePagination ek _ _)) = Some ek"
| "getActionKey (PaginationA (ClearPages ek _)) = Some ek"
| "getActionKey (PaginationA (SetPage ek _ _ _)) = Some ek"
| "getActionKey (PaginationA (SetResultCount ek _ _)) = Some ek"
| "getActionKey (PaginationA (SetClientPageSize ek _ _)) = Some ek"
| "getActionKey (PaginationA (SetClientPage ek _ _)) = Some ek"
| "getActionKey (PaginationA (SetClientFilter ek _ _)) = Some ek"
| "getActionKey (PaginationA (SetParams ek _ _ _ _)) = Some ek"
| "getActionKey (PaginationA (SetInitialParams ek _ _ _ _)) = Some ek"
| "getActionKey (PaginationA (AddParams ek _ _ _)) = Some ek"
| "getActionKey (PaginationA (RemoveParams ek _ _ _ _)) = Some ek"
| "getActionKey (PaginationA (SetPageBusy a _ _)) = aa_entityKey a"
| "getActionKey (OtherA _ ek _) = ek"
| "getActionKey _ = None"

fun getPaginationKeyFromAction :: "Action \<Rightarrow> string option" where
  "getPaginationKeyFromAction (RequestA a) = aa_paginationKey (request_api_action a)"
| "getPaginationKeyFromAction (PaginationA (ResetPagination _ pk)) = Some pk"
| "getPaginationKeyFromAction (PaginationA (CreatePagination _ pk _)) = Some pk"
| "getPaginationKeyFromAction (PaginationA (ClearPages _ pk)) = Some pk"
| "getPaginationKeyFromAction (PaginationA (SetPage _ pk _ _)) = Some pk"
| "getPaginationKeyFromAction (PaginationA (SetResultCount _ pk _)) = Some pk"
| "getPaginationKeyFromAction (PaginationA (SetClientPageSize _ pk _)) = Some pk"
| "getPaginationKeyFromAction (PaginationA (SetClientPage _ pk _)) = Some pk"
| "getPaginationKeyFromAction (PaginationA (SetClientFilter _ pk _)) = Some pk"
| "getPaginationKeyFromAction (PaginationA (SetParams _ pk _ _ _)) = Some pk"
| "getPaginationKeyFromAction (PaginationA (SetInitialParams _ pk _ _ _)) = Some pk"
| "getPaginationKeyFromAction (PaginationA (AddParams _ pk _ _)) = Some pk"
| "getPaginationKeyFromAction (PaginationA (RemoveParams _ pk _ _ _)) = Some pk"
| "getPaginationKeyFromAction (PaginationA (SetPageBusy a _ _)) = aa_paginationKey a"
| "getPaginationKeyFromAction (OtherA _ _ pk) = pk"
| "getPaginationKeyFromAction _ = None"

text \<open>\<open>{ ...base, ...updated }\<close> of two sections: an optional property the update lacks is kept.\<close>

definition spread_section :: "PaginationEntityState \<Rightarrow> PaginationEntityState \<Rightarrow> PaginationEntityState" where
  "spread_section base updated = updated\<lparr>
     pe_seed := (case pe_seed updated of None \<Rightarrow> pe_seed base | x \<Rightarrow> x),
     pe_fetching := (case pe_fetching updated of None \<Rightarrow> pe_fetching base | x \<Rightarrow> x),
     pe_error := (case pe_error updated of None \<Rightarrow> pe_error base | x \<Rightarrow> x),
     pe_message := (case pe_message updated of None \<Rightarrow> pe_message base | x \<Rightarrow> x)\<rparr>"

definition enterPaginationReducer :: "PaginationState \<Rightarrow> Action \<Rightarrow> PaginationState result" where
  "enterPaginationReducer state action =
     (if action_type action \<noteq> [] \<and> truthy_str (getActionKey action) \<and> truthy_str (getPaginationKeyFromAction action)
      then (let key = the (getActionKey action); paginationKey = the (getPaginationKeyFromAction action) in
        res_bind (pagination_type state key) (\<lambda>t.
          let updated = updatePagination
                (case obj_get t paginationKey of Some p \<Rightarrow> p | None \<Rightarrow> getDefaultPaginationEntityState) action
          in Inr (if obj_get t paginationKey = Some updated then state
                  else obj_set key (mergeState spread_section t [(paginationKey, updated)]) state)))
      else Inr state)"

definition isEndpointAction :: "string \<Rightarrow> bool" where
  "isEndpointAction t \<longleftrightarrow>
     t = DISCONNECT_ENDPOINTS_SUCCESS \<or> t = CONNECT_ENDPOINTS_SUCCESS \<or> t = UNREGISTER_ENDPOINTS"

fun paginate :: "PaginationState \<Rightarrow> Action \<Rightarrow> PaginationState result" where
  "paginate state (RequestA (StartCFAction _ _)) = Inr state"
| "paginate state (PaginationA (CreatePagination ek pk seed)) =
     createNewPaginationSection state ek pk seed getDefaultPaginationEntityState"
| "paginate state (PaginationA (ClearPages ek pk)) = Inr (paginationClearPages state ek pk)"
| "paginate state (PaginationA (ResetPagination ek pk)) = Inr (paginationResetPagination state ek pk)"
| "paginate state (PaginationA (ClearPaginationOfType ek)) =
     Inr (paginationClearType state (if ek \<noteq> [] then ek else ''application'') getDefaultPaginationEntityState)"
| "paginate state (PaginationA (ClearPaginationOfEntity ek guid)) = paginationClearOfEntity state ek guid"
| "paginate state (EndpointA a) =
     (if isEndpointAction (endpoint_action_type a)
      then Inr (clearEndpointEntities state (endpoint_action_endpointType a) getDefaultPaginationEntityState)
      else enterPaginationReducer state (EndpointA a))"
| "paginate state a = enterPaginationReducer state a"

text \<open>The initial state: every entity type of \<open>defaultCfEntitiesState\<close>, with no section.\<close>

definition defaultPaginationState :: PaginationState where
  "defaultPaginationState = map (\<lambda>k. (k, []))
     [''application'', ''stack'', ''space'', ''organization'', ''route'', ''event'', ''endpoint'',
      ''githubBranches'', ''githubCommits'', ''user'', ''domain'', ''environmentVars'', ''stats'', ''summary'',
      ''serviceInstance'', ''servicePlan'', ''service'', ''serviceBinding'', ''buildpack'', ''securityGroup'',
      ''featureFlag'', ''private_domains'', ''space_quota_definition'', ''metrics'', ''servicePlanVisibility'',
      ''serviceBroker'']"

subsection \<open>Selectors: store/selectors/pagination.selectors.ts\<close>

definition selectPaginationState :: "string \<Rightarrow> string \<Rightarrow> PaginationState \<Rightarrow> PaginationEntityState option" where
  "selectPaginationState entityKey paginationKey state =
     obj_get (case obj_get state entityKey of Some t \<Rightarrow> t | None \<Rightarrow> []) paginationKey"

subsection \<open>Reading the slice\<close>

definition section_of :: "PaginationState \<Rightarrow> string \<times> string \<Rightarrow> PaginationEntityState option" where
  "section_of s k = selectPaginationState (fst k) (snd k) s"

lemma section_of_type: "section_of s (K, P) = Option.bind (obj_get s K) (\<lambda>t. obj_get t P)"
  by (simp add: section_of_def selectPaginationState_def split: option.splits)

lemma updatePagination_optional:
  "pe_seed (updatePagination p a) = pe_seed p"
  "pe_fetching (updatePagination p a) = pe_fetching p"
  "pe_message (updatePagination p a) = pe_message p"
  "pe_error (updatePagination p a) \<in> {pe_error p, Some False}"
  by (induction p a rule: updatePagination.induct)
    (simp_all add: paginationStart_def paginationSuccess_def paginationFailure_def paginationPageBusy_def
      paginationSetResultCount_def paginationSetPage_def paginationSetParams_def paginationAddParams_def
      paginationRemoveParams_def paginationSetClientPageSize_def paginationSetClientPage_def
      paginationSetClientFilter_def Let_def)

text \<open>No updater drops a property, so merging the updated section over the old one gives the updated one.\<close>

lemma spread_updated [simp]: "spread_section p (updatePagination p a) = updatePagination p a"
  using updatePagination_optional[of p a]
  by (cases "updatePagination p a") (auto simp: spread_section_def split: option.splits)

lemma section_set_type:
  "section_of (obj_set K t s) (K', P) = (if K' = K then obj_get t P else section_of s (K', P))"
  by (simp add: section_of_type)

definition enters :: "Action \<Rightarrow> string \<times> string \<Rightarrow> bool" where
  "enters a k \<longleftrightarrow> action_type a \<noteq> [] \<and> getActionKey a = Some (fst k) \<and> fst k \<noteq> []
     \<and> getPaginationKeyFromAction a = Some (snd k) \<and> snd k \<noteq> []"

text \<open>The section an action starts from: the one there, or the default one.\<close>

definition section_or_default :: "PaginationState \<Rightarrow> string \<times> string \<Rightarrow> PaginationEntityState" where
  "section_or_default s k =
     (case section_of s k of Some p \<Rightarrow> p | None \<Rightarrow> getDefaultPaginationEntityState)"

text \<open>Either an action has no section, or its section becomes the updated one.\<close>

lemma enterPaginationReducer_cases:
  assumes "enterPaginationReducer s a = Inr s'"
  obtains (none) "s' = s" "\<And>k. \<not> enters a k"
  | (updated) K P t where "enters a (K, P)" "obj_get s K = Some t"
      "s' = obj_set K (obj_set P (updatePagination (section_or_default s (K, P)) a) t) s"
proof (cases "\<exists>K P. enters a (K, P)")
  case False
  then have no: "\<not> enters a k" for k by (cases k) blast
  from no[of "(the (getActionKey a), the (getPaginationKeyFromAction a))"] assms have "s' = s"
    by (auto simp: enterPaginationReducer_def enters_def truthy_str_def split: option.splits if_splits)
  then show thesis using no by (rule none)
next
  case True
  then obtain K P where e: "enters a (K, P)" by blast
  from assms e obtain t where t: "obj_get s K = Some t"
    by (auto simp: enterPaginationReducer_def enters_def pagination_type_def split: option.splits)
  have upd: "section_or_default s (K, P) =
      (case obj_get t P of Some p \<Rightarrow> p | None \<Rightarrow> getDefaultPaginationEntityState)"
    by (simp add: section_or_default_def section_of_type t)
  from assms e t have "s' = obj_set K (obj_set P (updatePagination (section_or_default s (K, P)) a) t) s"
    unfolding upd
    by (cases "obj_get t P") (auto simp: enterPaginationReducer_def enters_def pagination_type_def Let_def
        obj_set_same split: if_splits)
  with e t show thesis by (rule updated)
qed

lemma enterPaginationReducer_get:
  assumes "enterPaginationReducer s a = Inr s'"
  shows "section_of s' k =
    (if enters a k then Some (updatePagination (section_or_default s k) a) else section_of s k)"
  using assms
proof (cases rule: enterPaginationReducer_cases)
  case (updated K P t)
  then have "enters a k \<longleftrightarrow> k = (K, P)" by (cases k) (auto simp: enters_def)
  with updated show ?thesis by (cases k) (auto simp: section_of_type split: option.splits)
qed simp

lemma on_section_get:
  "section_of (on_section f s K P) k =
     (if k = (K, P) then map_option f (section_of s k) else section_of s k)"
  by (cases k) (auto simp: on_section_def section_of_type split: option.splits)

lemma paginationClearType_get:
  "section_of (paginationClearType s K d) k =
     (if fst k = K then map_option (\<lambda>_. d) (section_of s k) else section_of s k)"
  by (cases k) (auto simp: paginationClearType_def section_of_type split: option.splits)

lemma clear_types_get:
  "section_of (fold (\<lambda>k st. paginationClearType st k d) ks s) k =
     (if fst k \<in> set ks then map_option (\<lambda>_. d) (section_of s k) else section_of s k)"
proof (induction ks arbitrary: s)
  case (Cons k' ks)
  show ?case unfolding fold.simps o_apply Cons by (auto simp: paginationClearType_get option.map_comp comp_def)
qed simp

lemma clearEndpointEntities_get:
  "section_of (clearEndpointEntities s et d) k =
     (if et = ''web'' \<and> fst k \<in> set endpoint_entity_keys then map_option (\<lambda>_. d) (section_of s k)
      else section_of s k)"
  by (simp add: clearEndpointEntities_def clear_types_get)

lemma paginationClearOfEntity_get:
  assumes "paginationClearOfEntity s K guid = Inr s'"
  shows "case section_of s (K', P) of
      None \<Rightarrow> section_of s' (K', P) = None
    | Some p \<Rightarrow> (if K' = K then \<exists>q. clearEntityOfSection guid p = Inr q \<and> section_of s' (K', P) = Some q
        else section_of s' (K', P) = Some p)"
proof (cases "obj_get s K")
  case None
  with assms show ?thesis
    by (auto simp: paginationClearOfEntity_def section_of_type split: option.splits)
next
  case (Some t)
  with assms obtain t' where t': "res_obj_map (clearEntityOfSection guid) t = Inr t'" "s' = obj_set K t' s"
    by (auto simp: paginationClearOfEntity_def res_bind_Inr_iff)
  show ?thesis
    using res_obj_map_get[OF t'(1), of P] Some
    by (auto simp: t'(2) section_set_type section_of_type split: option.splits)
qed

lemma createNewPaginationSection_get:
  assumes "createNewPaginationSection s K P seed d = Inr s'" and "k \<noteq> (K, P)"
  shows "section_of s' k = section_of s k"
  using assms
  by (cases k) (auto simp: createNewPaginationSection_def pagination_type_def mergeWithSeed_def createNew_def
      Let_def section_of_type split: option.splits if_splits)

subsection \<open>The slice keeps its shape and known types never throw\<close>

text \<open>
  Well formed: property names are distinct, every page that is recorded has arrived, and the entity types of
  \<open>keys\<close> are there.
\<close>

definition wf_section :: "PaginationEntityState \<Rightarrow> bool" where
  "wf_section p \<longleftrightarrow> wf_obj (pe_ids p) \<and> (\<forall>n. obj_get (pe_ids p) n \<noteq> Some None)"

definition wf_pagination :: "string list \<Rightarrow> PaginationState \<Rightarrow> bool" where
  "wf_pagination keys s \<longleftrightarrow> set keys \<subseteq> set (obj_keys s)
     \<and> (\<forall>K t. obj_get s K = Some t \<longrightarrow> wf_obj t \<and> (\<forall>P p. obj_get t P = Some p \<longrightarrow> wf_section p))"

lemma wf_section_default [simp]: "wf_section getDefaultPaginationEntityState"
  by (simp add: wf_section_def getDefaultPaginationEntityState_def)

lemma wf_pagination_default: "wf_pagination (obj_keys defaultPaginationState) defaultPaginationState"
  by (auto simp: wf_pagination_def defaultPaginationState_def split: if_splits)

lemma wf_pagination_known: "wf_pagination keys s \<Longrightarrow> K \<in> set keys \<Longrightarrow> obj_get s K \<noteq> None"
  unfolding wf_pagination_def set_obj_keys[symmetric] by auto

text \<open>An action whose entity type is known and which, if it ends a page request, brings a response.\<close>

fun response_there :: "Action \<Rightarrow> bool" where
  "response_there (RequestA (WrapperRequestActionSuccess response _ _ _ _)) = (response \<noteq> None)"
| "response_there _ = True"

definition pagination_ok :: "string list \<Rightarrow> Action \<Rightarrow> bool" where
  "pagination_ok keys a \<longleftrightarrow> response_there a \<and>
     (case getActionKey a of None \<Rightarrow> True | Some K \<Rightarrow> K \<in> set keys)"

lemma wf_updatePagination: "wf_section p \<Longrightarrow> response_there a \<Longrightarrow> wf_section (updatePagination p a)"
  by (induction p a rule: updatePagination.induct)
    (auto simp: wf_section_def paginationStart_def paginationSuccess_def paginationFailure_def paginationPageBusy_def
      paginationSetResultCount_def paginationSetPage_def paginationSetParams_def paginationAddParams_def
      paginationRemoveParams_def paginationSetClientPageSize_def paginationSetClientPage_def
      paginationSetClientFilter_def Let_def wf_obj_set split: if_splits)

lemma wf_set_type:
  "wf_pagination keys s \<Longrightarrow> wf_obj t \<Longrightarrow> (\<And>P p. obj_get t P = Some p \<Longrightarrow> wf_section p) \<Longrightarrow>
   wf_pagination keys (obj_set K t s)"
  by (auto simp: wf_pagination_def obj_keys_set)

lemma wf_set_section:
  assumes "wf_pagination keys s" and "obj_get s K = Some t" and "wf_section p"
  shows "wf_pagination keys (obj_set K (obj_set P p t) s)"
  using assms by (intro wf_set_type) (auto simp: wf_pagination_def wf_obj_set split: if_splits)

lemma wf_get_section:
  "wf_pagination keys s \<Longrightarrow> obj_get s K = Some t \<Longrightarrow> obj_get t P = Some p \<Longrightarrow> wf_section p"
  by (auto simp: wf_pagination_def)

lemma wf_enter:
  assumes "enterPaginationReducer s a = Inr s'" and wf: "wf_pagination keys s" and "response_there a"
  shows "wf_pagination keys s'"
  using assms(1)
proof (cases rule: enterPaginationReducer_cases)
  case (updated K P t)
  have "wf_section (section_or_default s (K, P))"
    using wf_get_section[OF wf updated(2), of P]
    by (auto simp: section_or_default_def section_of_type updated(2) split: option.splits)
  with updated assms(3) show ?thesis by (auto intro!: wf_set_section[OF wf] wf_updatePagination)
qed (use wf in simp)

lemma wf_on_section:
  assumes "wf_pagination keys s" and "\<And>p. wf_section p \<Longrightarrow> wf_section (f p)"
  shows "wf_pagination keys (on_section f s K P)"
  using assms by (auto simp: on_section_def intro!: wf_set_section dest: wf_get_section split: option.splits)

lemma wf_clearType: "wf_pagination keys s \<Longrightarrow> wf_section d \<Longrightarrow> wf_pagination keys (paginationClearType s K d)"
  by (auto simp: paginationClearType_def wf_pagination_def obj_keys_set wf_obj_map split: option.splits if_splits)

lemma wf_removeFromPage: "wf_section p \<Longrightarrow> wf_section (removeFromPage p g n page)"
  by (auto simp: wf_section_def removeFromPage_def wf_obj_set split: if_splits)

lemma clearEntityOfSection_Inr:
  assumes "wf_section p"
  shows "\<exists>q. clearEntityOfSection g p = Inr q \<and> wf_section q"
  unfolding clearEntityOfSection_def
  by (rule res_fold_total)
    (use assms in \<open>auto simp: page_keys_def set_obj_keys wf_section_def[of p] wf_removeFromPage split: option.splits\<close>)

lemma wf_clearOfEntity:
  assumes "paginationClearOfEntity s K g = Inr s'" and "wf_pagination keys s"
  shows "wf_pagination keys s'"
proof (cases "obj_get s K")
  case (Some t)
  with assms obtain t' where t': "res_obj_map (clearEntityOfSection g) t = Inr t'" "s' = obj_set K t' s"
    by (auto simp: paginationClearOfEntity_def res_bind_Inr_iff)
  have "wf_obj t'" using res_obj_map_keys[OF t'(1)] assms(2) Some
    by (simp add: wf_obj_def obj_keys_def wf_pagination_def)
  moreover have "wf_section p" if "obj_get t' P = Some p" for P p
  proof -
    from that res_obj_map_get(1)[OF t'(1), of P] obtain q where q: "obj_get t P = Some q" by auto
    with res_obj_map_get(2)[OF t'(1) q] that clearEntityOfSection_Inr[of q g] wf_get_section[OF assms(2) Some q]
    show ?thesis by auto
  qed
  ultimately show ?thesis unfolding t'(2) by (intro wf_set_type assms(2))
qed (use assms in \<open>simp add: paginationClearOfEntity_def\<close>)

lemma wf_section_upd [simp]:
  "wf_section (p\<lparr>pe_pageCount := x\<rparr>) = wf_section p"
  "wf_section (p\<lparr>pe_currentPage := y\<rparr>) = wf_section p"
  "wf_section (p\<lparr>pe_clientPagination := z\<rparr>) = wf_section p"
  "wf_section (p\<lparr>pe_seed := w\<rparr>) = wf_section p"
  by (simp_all add: wf_section_def)

lemma wf_createNew:
  assumes "createNewPaginationSection s K P seed d = Inr s'" and wf: "wf_pagination keys s" and d: "wf_section d"
  shows "wf_pagination keys s'"
proof -
  from assms(1) obtain t where t: "obj_get s K = Some t"
    by (auto simp: createNewPaginationSection_def pagination_type_def split: option.splits)
  have set: "wf_pagination keys (obj_set K (obj_set P p t) s)" if "wf_section p" for p
    by (rule wf_set_section[OF wf t that])
  have seeded: "wf_section p" if "obj_get t Q = Some p" for Q p by (rule wf_get_section[OF wf t that])
  show ?thesis
    using assms(1) wf d t set seeded
    by (auto simp: createNewPaginationSection_def pagination_type_def mergeWithSeed_def createNew_def Let_def
        split: if_splits option.splits intro!: set)
qed

lemma paginate_wf:
  assumes "paginate s a = Inr s'" and "wf_pagination keys s" and "response_there a"
  shows "wf_pagination keys s'"
proof -
  have enter: "enterPaginationReducer s a = Inr s' \<Longrightarrow> wf_pagination keys s'"
    using wf_enter assms(2,3) by blast
  have endp: "wf_pagination keys (clearEndpointEntities s et getDefaultPaginationEntityState)" for et
    using assms(2) by (auto simp: clearEndpointEntities_def intro!: fold_inv[where P = "wf_pagination keys"] wf_clearType)
  show ?thesis
    using assms enter endp wf_clearType[OF assms(2) wf_section_default]
    by (induction s a rule: paginate.induct)
      (auto simp: paginationClearPages_def paginationResetPagination_def wf_section_def
        intro: wf_createNew[OF _ _ wf_section_default] wf_clearOfEntity intro!: wf_on_section split: if_splits)
qed

lemma enter_total:
  assumes "wf_pagination keys s" and "pagination_ok keys a"
  shows "\<exists>s'. enterPaginationReducer s a = Inr s'"
proof (cases "getActionKey a")
  case (Some K)
  then have "obj_get s K \<noteq> None"
    using assms(2) wf_pagination_known[OF assms(1), of K] by (simp add: pagination_ok_def)
  then show ?thesis using Some by (auto simp: enterPaginationReducer_def pagination_type_def Let_def)
qed (simp add: enterPaginationReducer_def)

lemma paginate_total:
  assumes wf: "wf_pagination keys s" and ok: "pagination_ok keys a"
  shows "\<exists>s'. paginate s a = Inr s'"
proof -
  note enter = enter_total[OF wf ok]
  have clear: "\<exists>s'. paginationClearOfEntity s K g = Inr s'" for K g
  proof (cases "obj_get s K")
    case (Some t)
    have "wf_section p" if "(P, p) \<in> set t" for P p
      using that wf Some obj_get_wf[of t P p] by (auto simp: wf_pagination_def)
    then obtain t' where "res_obj_map (clearEntityOfSection g) t = Inr t'"
      using res_obj_map_total[of t "clearEntityOfSection g"] clearEntityOfSection_Inr by blast
    with Some show ?thesis by (simp add: paginationClearOfEntity_def)
  qed (simp add: paginationClearOfEntity_def)
  show ?thesis
    using enter clear ok wf_pagination_known[OF wf]
    by (induction s a rule: paginate.induct)
      (auto simp: pagination_ok_def createNewPaginationSection_def pagination_type_def split: option.splits)
qed

subsection \<open>The slice as a reducer\<close>

text \<open>The sections an action can change.\<close>

fun pagination_touches :: "Action \<Rightarrow> string \<times> string \<Rightarrow> bool" where
  "pagination_touches (RequestA (StartCFAction _ _)) k = False"
| "pagination_touches (PaginationA (CreatePagination ek pk _)) k = (k = (ek, pk))"
| "pagination_touches (PaginationA (ClearPages ek pk)) k = (k = (ek, pk))"
| "pagination_touches (PaginationA (ResetPagination ek pk)) k = (k = (ek, pk))"
| "pagination_touches (PaginationA (ClearPaginationOfType ek)) k =
     (fst k = (if ek \<noteq> [] then ek else ''application''))"
| "pagination_touches (PaginationA (ClearPaginationOfEntity ek _)) k = (fst k = ek)"
| "pagination_touches (EndpointA a) k =
     (isEndpointAction (endpoint_action_type a) \<and> endpoint_action_endpointType a = ''web''
      \<and> fst k \<in> set endpoint_entity_keys)"
| "pagination_touches a k = enters a k"

lemma not_enters_endpoint [simp]: "\<not> enters (EndpointA a) k"
  by (simp add: enters_def)

lemma paginate_frame:
  assumes "paginate s a = Inr s'" and "\<not> pagination_touches a k"
  shows "section_of s' k = section_of s k"
  using assms
proof (induction a k rule: pagination_touches.induct)
  case (6 ek g k)
  then show ?case
    using paginationClearOfEntity_get[of s ek g s' "fst k" "snd k"] by (auto split: option.splits)
qed (auto simp: enterPaginationReducer_get createNewPaginationSection_get paginationClearPages_def
    paginationResetPagination_def on_section_get paginationClearType_get clearEndpointEntities_get
    split: if_splits)

interpretation pagination: safe_reducer paginate "wf_pagination keys" "pagination_ok keys"
  for keys
  by unfold_locales (meson paginate_total paginate_wf pagination_ok_def)

interpretation pagination_frame: framed_step paginate "\<lambda>_. True" section_of pagination_touches
  by unfold_locales (simp_all add: paginate_frame)

text \<open>
  Clearing an entity from the pages of a section: the last page that holds it wins.
\<close>

definition page_of :: "PaginationEntityState \<Rightarrow> int \<Rightarrow> string list" where
  "page_of p n = (case obj_get (pe_ids p) n of Some (Some page) \<Rightarrow> page | _ \<Rightarrow> [])"

lemma page_of_remove:
  "page_of (removeFromPage p guid n page) m = (if m = n then remove1 guid page else page_of p m)"
  by (simp add: page_of_def removeFromPage_def)

lemma clear_fold:
  assumes "\<And>n. n \<in> set ns \<Longrightarrow> \<exists>page. obj_get (pe_ids p) n = Some (Some page)" and "sorted ns"
  shows "\<exists>q'. res_fold (\<lambda>section pageKey.
         case obj_get (pe_ids p) pageKey of
           Some (Some page) \<Rightarrow> Inr (if guid \<in> set page then removeFromPage p guid pageKey page else section)
         | _ \<Rightarrow> Inl TypeError) q ns = Inr q' \<and>
     ((\<forall>n \<in> set ns. guid \<notin> set (page_of p n)) \<and> q' = q \<or>
      (\<exists>n \<in> set ns. guid \<in> set (page_of p n) \<and> (\<forall>m \<in> set ns. guid \<in> set (page_of p m) \<longrightarrow> m \<le> n)
        \<and> q' = removeFromPage p guid n (page_of p n)))"
  using assms
proof (induction ns arbitrary: q)
  case (Cons n ns)
  from Cons.prems(1) obtain page where page: "obj_get (pe_ids p) n = Some (Some page)" by auto
  then have "page_of p n = page" by (simp add: page_of_def)
  moreover have "\<forall>m \<in> set ns. n \<le> m" using Cons.prems(2) by simp
  ultimately show ?case
    using Cons.IH[of "if guid \<in> set page then removeFromPage p guid n page else q"] Cons.prems page
    by (cases "guid \<in> set page") (simp_all, blast+)
qed simp

lemma clearEntityOfSection_last:
  assumes "wf_section p"
  obtains (absent) "clearEntityOfSection guid p = Inr p" "\<And>n. guid \<notin> set (page_of p n)"
  | (held) n where "clearEntityOfSection guid p = Inr (removeFromPage p guid n (page_of p n))"
      "guid \<in> set (page_of p n)" "\<And>m. guid \<in> set (page_of p m) \<Longrightarrow> m \<le> n"
proof -
  have pages: "n \<in> set (page_keys p) \<Longrightarrow> \<exists>page. obj_get (pe_ids p) n = Some (Some page)" for n
    using assms by (auto simp: page_keys_def set_obj_keys wf_section_def) (metis option.exhaust)
  have key: "n \<in> set (page_keys p)" if "guid \<in> set (page_of p n)" for n
    using that by (cases "obj_get (pe_ids p) n") (auto simp: page_keys_def set_obj_keys page_of_def)
  have "sorted (page_keys p)" by (simp add: page_keys_def)
  from clear_fold[OF pages this, where guid = guid and q = p] show thesis
    unfolding clearEntityOfSection_def[symmetric] using key absent held by blast
qed

lemma clearEntityOfSection_throws:
  "clearEntityOfSection guid p = Inl e \<longleftrightarrow> e = TypeError \<and> (\<exists>n. obj_get (pe_ids p) n = Some None)"
proof -
  have "res_fold (\<lambda>section pageKey.
         case obj_get (pe_ids p) pageKey of
           Some (Some page) \<Rightarrow> Inr (if guid \<in> set page then removeFromPage p guid pageKey page else section)
         | _ \<Rightarrow> Inl TypeError) q ns = Inl e \<longleftrightarrow>
       e = TypeError \<and> (\<exists>n \<in> set ns. obj_get (pe_ids p) n = Some None)"
    if "set ns \<subseteq> set (obj_keys (pe_ids p))" for q ns
    using that
  proof (induction ns arbitrary: q)
    case (Cons n ns)
    then obtain v where "obj_get (pe_ids p) n = Some v" by (auto simp: set_obj_keys)
    with Cons show ?case by (cases v) auto
  qed simp
  from this[of "page_keys p" p] show ?thesis
    by (auto simp: clearEntityOfSection_def page_keys_def set_obj_keys)
qed

lemma res_obj_map_throws:
  assumes "\<And>v e. f v = Inl e \<Longrightarrow> e = TypeError"
  shows "res_obj_map f ob = Inl e \<longleftrightarrow> e = TypeError \<and> (\<exists>v \<in> set (obj_values ob). f v = Inl TypeError)"
proof (induction ob)
  case (Cons p ob)
  obtain k v where p: "p = (k, v)" by force
  show ?case
  proof (cases "f v")
    case (Inl e')
    with assms[OF this] p show ?thesis by auto
  next
    case (Inr w)
    with Cons p show ?thesis by (auto simp: res_bind_Inl_iff)
  qed
qed simp

section \<open>Properties of the pagination slice\<close>

text \<open>
  Whatever pagination, request and endpoint actions a session dispatches over known entity types, the
  pagination reducer never throws and the slice keeps its shape: every section stays well formed and every
  known entity type stays there.
\<close>

theorem pagination_run_never_throws:
  assumes "wf_pagination keys s" and "list_all (pagination_ok keys) as"
  shows "\<exists>s'. res_fold paginate s as = Inr s' \<and> wf_pagination keys s'"
  using assms by (rule pagination.run_total)

theorem pagination_run_never_throws_witness:
  "\<exists>s'. res_fold paginate defaultPaginationState
      [PaginationA (CreatePagination ''space'' ''all'' None),
       RequestA (StartRequestAction (list_action ''space'' ''all'') FetchType),
       PaginationA (ClearPaginationOfEntity ''space'' ''s1''),
       EndpointA (EndpointStart UNREGISTER_ENDPOINTS None ''web'')] = Inr s'
    \<and> wf_pagination (obj_keys defaultPaginationState) s'"
  by (rule pagination_run_never_throws[OF wf_pagination_default])
    (simp add: pagination_ok_def plain_actions defaultPaginationState_def)

text \<open>
  Lists do not interfere: after any run of actions none of which touches a section (by its two keys, by
  clearing its entity type, or by an endpoint event) that section is the one it was, or still absent.
\<close>

theorem pagination_run_frame:
  assumes "list_all (\<lambda>a. \<not> pagination_touches a (K, P)) as" and "res_fold paginate s as = Inr s'"
  shows "selectPaginationState K P s' = selectPaginationState K P s"
  using pagination_frame.run_frame[OF TrueI assms] by (simp add: section_of_def)

theorem pagination_run_frame_witness:
  "selectPaginationState ''space'' ''some'' [(''space'', [(''all'', getDefaultPaginationEntityState)])] = None"
  using pagination_run_frame[of "''space''" "''some''" "[PaginationA (CreatePagination ''space'' ''all'' None)]"
      "[(''space'', [])]" "[(''space'', [(''all'', getDefaultPaginationEntityState)])]"]
  by (simp add: createNewPaginationSection_def pagination_type_def createNew_def selectPaginationState_def)

text \<open>
  C12: When the reducer throws: only for an action that creates a section in, or goes to a section of, an
  entity type the slice does not have, or that clears an entity from an entity type one of whose sections
  recorded a page without guids (a request that succeeded with no response); always a TypeError.
\<close>

theorem pagination_throws_iff:
  assumes "\<And>K t. obj_get s K = Some t \<Longrightarrow> wf_obj t"
  shows "paginate s a = Inl e \<longleftrightarrow> e = TypeError \<and>
    (case a of
       PaginationA (CreatePagination K P seed) \<Rightarrow> obj_get s K = None
     | PaginationA (ClearPages K P) \<Rightarrow> False
     | PaginationA (ResetPagination K P) \<Rightarrow> False
     | PaginationA (ClearPaginationOfType K) \<Rightarrow> False
     | PaginationA (ClearPaginationOfEntity K g) \<Rightarrow>
         (\<exists>P p n. selectPaginationState K P s = Some p \<and> obj_get (pe_ids p) n = Some None)
     | RequestA (StartCFAction b t) \<Rightarrow> False
     | _ \<Rightarrow> (\<exists>K P. enters a (K, P) \<and> obj_get s K = None))"
proof -
  have enter: "enterPaginationReducer s a = Inl e \<longleftrightarrow> e = TypeError \<and> (\<exists>K P. enters a (K, P) \<and> obj_get s K = None)"
    by (cases "getActionKey a"; cases "getPaginationKeyFromAction a")
      (auto simp: enterPaginationReducer_def enters_def pagination_type_def Let_def split: option.splits)
  have clear: "paginationClearOfEntity s K g = Inl e \<longleftrightarrow> e = TypeError \<and>
      (\<exists>P p n. selectPaginationState K P s = Some p \<and> obj_get (pe_ids p) n = Some None)" for K g
  proof (cases "obj_get s K")
    case (Some t)
    have "(\<exists>p \<in> set (obj_values t). \<exists>n. obj_get (pe_ids p) n = Some None) \<longleftrightarrow>
        (\<exists>P p n. obj_get t P = Some p \<and> obj_get (pe_ids p) n = Some None)"
      using set_obj_values[OF assms[OF Some]] by blast
    then have "res_obj_map (clearEntityOfSection g) t = Inl e \<longleftrightarrow>
        e = TypeError \<and> (\<exists>P p n. obj_get t P = Some p \<and> obj_get (pe_ids p) n = Some None)"
      by (subst res_obj_map_throws) (auto simp: clearEntityOfSection_throws)
    then show ?thesis
      by (auto simp: paginationClearOfEntity_def selectPaginationState_def Some res_bind_Inl_iff)
  qed (simp add: paginationClearOfEntity_def selectPaginationState_def)
  show ?thesis
    using enter clear
    by (induction s a rule: paginate.induct)
      (auto simp: createNewPaginationSection_def pagination_type_def split: option.splits)
qed

theorem pagination_throws_iff_witness:
  "paginate [(''space'', [(''all'',
       paginationSuccess getDefaultPaginationEntityState None (list_action ''space'' ''all'') None None)])]
     (PaginationA (ClearPaginationOfEntity ''space'' ''s1'')) = Inl TypeError"
proof -
  let ?p = "paginationSuccess getDefaultPaginationEntityState None (list_action ''space'' ''all'') None None"
  have "obj_get (pe_ids ?p) 1 = Some None"
    by (simp add: paginationSuccess_def Let_def request_page_def getDefaultPaginationEntityState_def plain_actions)
  then show ?thesis
    by (subst pagination_throws_iff) (auto simp: selectPaginationState_def split: if_splits)
qed

text \<open>The number of results of a list and the number its browser paging counts.\<close>

definition totals_agree :: "PaginationState \<Rightarrow> bool" where
  "totals_agree s \<longleftrightarrow> (\<forall>k p. section_of s k = Some p \<longrightarrow>
     cp_totalResults (pe_clientPagination p) = pe_totalResults p)"

fun resets :: "Action \<Rightarrow> bool" where
  "resets (PaginationA (ResetPagination _ _)) = True"
| "resets _ = False"

lemma totals_updatePagination:
  "cp_totalResults (pe_clientPagination p) = pe_totalResults p \<Longrightarrow>
   cp_totalResults (pe_clientPagination (updatePagination p a)) = pe_totalResults (updatePagination p a)"
  by (induction p a rule: updatePagination.induct)
    (simp_all add: paginationStart_def paginationSuccess_def paginationFailure_def paginationPageBusy_def
      paginationSetResultCount_def paginationSetPage_def paginationSetParams_def paginationAddParams_def
      paginationRemoveParams_def paginationSetClientPageSize_def paginationSetClientPage_def
      paginationSetClientFilter_def Let_def)

lemma totals_default [simp]:
  "cp_totalResults (pe_clientPagination getDefaultPaginationEntityState) = pe_totalResults getDefaultPaginationEntityState"
  by (simp add: getDefaultPaginationEntityState_def)

lemma totals_enter:
  assumes "enterPaginationReducer s a = Inr s'" and "totals_agree s"
  shows "totals_agree s'"
  using assms(2)
  by (auto simp: totals_agree_def enterPaginationReducer_get[OF assms(1)] section_or_default_def
      intro!: totals_updatePagination split: if_splits option.splits)

lemma totals_clearEntity:
  assumes "clearEntityOfSection g p = Inr q"
    and "cp_totalResults (pe_clientPagination p) = pe_totalResults p"
  shows "cp_totalResults (pe_clientPagination q) = pe_totalResults q"
  using assms(1) unfolding clearEntityOfSection_def
  by (rule res_fold_inv[rotated 2])
    (use assms(2) in \<open>auto simp: removeFromPage_def split: option.splits if_splits\<close>)

lemma totals_clearOfEntity:
  assumes "paginationClearOfEntity s K g = Inr s'" and "totals_agree s"
  shows "totals_agree s'"
  unfolding totals_agree_def
proof (intro allI impI)
  fix k q
  assume q: "section_of s' k = Some q"
  obtain K' P where k: "k = (K', P)" by force
  from paginationClearOfEntity_get[OF assms(1), of K' P] assms(2) q
  show "cp_totalResults (pe_clientPagination q) = pe_totalResults q"
    by (auto simp: k totals_agree_def dest: totals_clearEntity split: option.splits if_splits)
qed

text \<open>What creating a section leaves in it.\<close>

lemma createNewPaginationSection_section:
  assumes "createNewPaginationSection s K P seed d = Inr s'"
  shows "section_of s' (K, P) = Some (
    let own = (case section_of s (K, P) of Some p \<Rightarrow> p | None \<Rightarrow> d);
        source = section_of s (K, the seed);
        seedling = (case source of Some p \<Rightarrow> p | None \<Rightarrow> d)
    in if truthy_str seed then seedling\<lparr>
         pe_pageCount := pe_pageCount own, pe_currentPage := pe_currentPage own,
         pe_clientPagination := mergePaginationSections own seedling,
         pe_seed := Some (if source = None then None else Some (the seed))\<rparr>
       else own)"
  using assms
  by (auto simp: createNewPaginationSection_def pagination_type_def createNew_def mergeWithSeed_def Let_def
      section_of_type split: option.splits if_splits)

lemma totals_create:
  assumes c: "createNewPaginationSection s K P seed getDefaultPaginationEntityState = Inr s'" and "totals_agree s"
  shows "totals_agree s'"
  unfolding totals_agree_def
proof (intro allI impI)
  fix k q
  assume q: "section_of s' k = Some q"
  show "cp_totalResults (pe_clientPagination q) = pe_totalResults q"
  proof (cases "k = (K, P)")
    case True
    with q createNewPaginationSection_section[OF c] assms(2) show ?thesis
      by (auto simp: totals_agree_def Let_def mergePaginationSections_def split: option.splits if_splits)
  next
    case False
    with q createNewPaginationSection_get[OF c False] assms(2) show ?thesis
      unfolding totals_agree_def by metis
  qed
qed

lemma totals_clears:
  "totals_agree s \<Longrightarrow> totals_agree (paginationClearType s K getDefaultPaginationEntityState)"
  "totals_agree s \<Longrightarrow> totals_agree (clearEndpointEntities s et getDefaultPaginationEntityState)"
  "totals_agree s \<Longrightarrow> totals_agree (paginationClearPages s K P)"
  by (auto simp: totals_agree_def paginationClearType_get clearEndpointEntities_get paginationClearPages_def
      on_section_get split: if_splits)

lemma totals_paginate:
  assumes "paginate s a = Inr s'" and "totals_agree s" and "\<not> resets a"
  shows "totals_agree s'"
  using assms
  by (induction s a rule: paginate.induct)
    (auto intro: totals_clears totals_enter totals_create totals_clearOfEntity split: if_splits)

text \<open>
  C26: The number of results a list shows and the number its browser paging counts agree: every action keeps
  the two equal in all sections (page requests, seeds, clears of an entity, of pages, of types and endpoint
  events included), except resetting a section, which only resets the first.
\<close>

theorem totals_stay_equal:
  assumes "totals_agree s" and "list_all (\<lambda>a. \<not> resets a) as" and "res_fold paginate s as = Inr s'"
  shows "totals_agree s'"
  by (rule res_fold_inv[where P = totals_agree, OF _ assms(1,3)])
    (use assms(2) in \<open>auto simp: list_all_iff dest: totals_paginate\<close>)

theorem totals_stay_equal_witness:
  "totals_agree [(''space'', [(''all'', paginationSetResultCount getDefaultPaginationEntityState 7)])]"
  by (rule totals_stay_equal[of "[(''space'', [(''all'', getDefaultPaginationEntityState)])]"
        "[PaginationA (SetResultCount ''space'' ''all'' 7)]"])
    (auto simp: totals_agree_def section_of_def selectPaginationState_def enterPaginationReducer_def
      pagination_type_def Let_def paginationSetResultCount_def spread_section_def getDefaultPaginationEntityState_def
      split: if_splits)

text \<open>
  C31: Clearing a deleted entity from the lists of its type: in each section only the highest page that
  holds the guid loses it (its first occurrence), so a guid held by one page once is gone and a guid held by
  two pages stays in the lower one; the number of results drops by one where it was held, the other pages, the
  current page and the page requests stay as they are. The sections of every other type are the ones they were.
\<close>

theorem clear_entity_highest_page:
  assumes "paginate s (PaginationA (ClearPaginationOfEntity K guid)) = Inr s'"
    and "selectPaginationState K P s = Some p" and "wf_section p"
  shows "\<exists>q. selectPaginationState K P s' = Some q
    \<and> (\<forall>n. page_of q n = (if guid \<in> set (page_of p n) \<and> (\<forall>m. guid \<in> set (page_of p m) \<longrightarrow> m \<le> n)
          then remove1 guid (page_of p n) else page_of p n))
    \<and> pe_totalResults q = (if \<exists>n. guid \<in> set (page_of p n) then pe_totalResults p - 1 else pe_totalResults p)
    \<and> pe_currentPage q = pe_currentPage p \<and> pe_pageRequests q = pe_pageRequests p
    \<and> (\<forall>K' P'. K' \<noteq> K \<longrightarrow> selectPaginationState K' P' s' = selectPaginationState K' P' s)"
proof -
  have clear: "paginationClearOfEntity s K guid = Inr s'" using assms(1) by simp
  have others: "\<forall>K' P'. K' \<noteq> K \<longrightarrow> selectPaginationState K' P' s' = selectPaginationState K' P' s"
  proof (intro allI impI)
    fix K' P' assume "K' \<noteq> K"
    with paginationClearOfEntity_get[OF clear, of K' P'] show "selectPaginationState K' P' s' = selectPaginationState K' P' s"
      by (auto simp: section_of_def split: option.splits)
  qed
  from paginationClearOfEntity_get[OF clear, of K P] assms(2)
  obtain q where q: "clearEntityOfSection guid p = Inr q" "selectPaginationState K P s' = Some q"
    by (auto simp: section_of_def)
  from assms(3) show ?thesis
  proof (cases rule: clearEntityOfSection_last[of p guid])
    case absent
    with q others show ?thesis by auto
  next
    case (held n)
    have "q = removeFromPage p guid n (page_of p n)" using q(1) held(1) by simp
    moreover have "guid \<in> set (page_of p k) \<and> (\<forall>m. guid \<in> set (page_of p m) \<longrightarrow> m \<le> k) \<longleftrightarrow> k = n" for k
      using held(2,3) order_antisym by blast
    ultimately show ?thesis
      using q(2) held(2) others by (auto simp: page_of_remove) (simp_all add: removeFromPage_def)
  qed
qed

theorem clear_entity_highest_page_witness:
  "\<exists>q. page_of q 1 = [''s1'', ''s2''] \<and> page_of q 2 = [] \<and>
     pe_totalResults q = 2 \<and>
     paginate [(''space'', [(''all'', getDefaultPaginationEntityState\<lparr>pe_ids := [(1, Some [''s1'', ''s2'']), (2, Some [''s1''])],
       pe_totalResults := 3\<rparr>)])] (PaginationA (ClearPaginationOfEntity ''space'' ''s1'')) = Inr [(''space'', [(''all'', q)])]"
proof -
  let ?p = "getDefaultPaginationEntityState\<lparr>pe_ids := [(1, Some [''s1'', ''s2'']), (2, Some [''s1''])],
       pe_totalResults := 3\<rparr>"
  let ?s = "[(''space'', [(''all'', ?p)])]"
  let ?a = "PaginationA (ClearPaginationOfEntity ''space'' ''s1'')"
  have wf: "wf_section ?p" by (simp add: wf_section_def)
  obtain q where run: "paginate ?s ?a = Inr [(''space'', [(''all'', q)])]"
    using clearEntityOfSection_Inr[OF wf, of "''s1''"] by (auto simp: paginationClearOfEntity_def)
  have page: "page_of ?p n = (if n = 1 then [''s1'', ''s2''] else if n = 2 then [''s1''] else [])" for n
    by (simp add: page_of_def)
  have holds: "(\<forall>m. ''s1'' \<in> set (page_of ?p m) \<longrightarrow> m \<le> n) \<longleftrightarrow> 2 \<le> n" for n
    using page by auto
  from clear_entity_highest_page[OF run _ wf, of "''all''"]
  have "page_of q n = (if ''s1'' \<in> set (page_of ?p n) \<and> 2 \<le> n then remove1 ''s1'' (page_of ?p n) else page_of ?p n)"
    "pe_totalResults q = (if \<exists>n. ''s1'' \<in> set (page_of ?p n) then 2 else 3)" for n
    by (auto simp: selectPaginationState_def holds)
  moreover have "\<exists>n. ''s1'' \<in> set (page_of ?p n)" by (rule exI[of _ 1]) (simp add: page)
  ultimately show ?thesis using run page by (intro exI[of _ q]) simp
qed

text \<open>
  Connecting or disconnecting a Cloud Foundry endpoint, or starting to unregister one, empties every
  list of its applications, spaces, organizations, services, users and service instances, and no other; the
  other endpoint events, the end of an unregistration and failures among them, change no list.
\<close>

theorem endpoint_event_resets:
  shows "\<exists>s'. paginate s (EndpointA a) = Inr s' \<and> selectPaginationState K P s' =
    (if isEndpointAction (endpoint_action_type a) \<and> endpoint_action_endpointType a = ''web''
        \<and> K \<in> set endpoint_entity_keys
     then map_option (\<lambda>_. getDefaultPaginationEntityState) (selectPaginationState K P s)
     else selectPaginationState K P s)
    \<and> (endpoint_action_type a \<in> {REGISTER_ENDPOINTS, REGISTER_ENDPOINTS_SUCCESS, CONNECT_ENDPOINTS,
         CONNECT_ENDPOINTS_FAILED, DISCONNECT_ENDPOINTS, DISCONNECT_ENDPOINTS_FAILED, UNREGISTER_ENDPOINTS_SUCCESS,
         UNREGISTER_ENDPOINTS_FAILED} \<longrightarrow> s' = s)"
  using clearEndpointEntities_get[of s "endpoint_action_endpointType a" getDefaultPaginationEntityState "(K, P)"]
  by (auto simp: section_of_def enterPaginationReducer_def isEndpointAction_def endpoint_types)

theorem endpoint_event_resets_witness:
  "\<exists>s'. paginate [(''space'', [(''all'', paginationSetPage getDefaultPaginationEntityState 4)])]
      (EndpointA (EndpointStart UNREGISTER_ENDPOINTS None ''web'')) = Inr s'
    \<and> selectPaginationState ''space'' ''all'' s' = Some getDefaultPaginationEntityState"
  using endpoint_event_resets[of "[(''space'', [(''all'', paginationSetPage getDefaultPaginationEntityState 4)])]"
      "EndpointStart UNREGISTER_ENDPOINTS None ''web''" "''space''" "''all''"]
  by (simp add: isEndpointAction_def endpoint_entity_keys_def selectPaginationState_def)

text \<open>
  Creating a section. With a seed it starts with the pages, requests, parameters and number of results of
  the seed (or of an empty section) and its own page position, going back to the first browser page exactly
  when the number of results changed; without a seed an existing section is left as it is and a missing one
  starts empty.
\<close>

theorem create_section:
  assumes "paginate s (PaginationA (CreatePagination K P seed)) = Inr s'"
  shows "\<exists>q. selectPaginationState K P s' = Some q
    \<and> (let own = (case selectPaginationState K P s of Some p \<Rightarrow> p | None \<Rightarrow> getDefaultPaginationEntityState);
           source = (case selectPaginationState K (the seed) s of Some p \<Rightarrow> p | None \<Rightarrow> getDefaultPaginationEntityState)
       in if truthy_str seed then
          pe_ids q = pe_ids source \<and> pe_pageRequests q = pe_pageRequests source \<and> pe_params q = pe_params source
          \<and> pe_totalResults q = pe_totalResults source \<and> pe_currentPage q = pe_currentPage own
          \<and> cp_totalResults (pe_clientPagination q) = cp_totalResults (pe_clientPagination source)
          \<and> cp_pageSize (pe_clientPagination q) = cp_pageSize (pe_clientPagination own)
          \<and> cp_currentPage (pe_clientPagination q) =
              (if cp_totalResults (pe_clientPagination source) = cp_totalResults (pe_clientPagination own)
               then cp_currentPage (pe_clientPagination own) else 1)
        else q = own)"
  using createNewPaginationSection_section[of s K P seed getDefaultPaginationEntityState s'] assms
  by (simp add: section_of_def Let_def mergePaginationSections_def getCurrentPage_def hasResultCountChanged_def)

theorem create_section_witness:
  "selectPaginationState ''space'' ''mine'' [(''space'', [(''mine'', getDefaultPaginationEntityState)])] =
     Some getDefaultPaginationEntityState"
  using create_section[of "[(''space'', [])]" "''space''" "''mine''" None
      "[(''space'', [(''mine'', getDefaultPaginationEntityState)])]"]
  by (simp add: createNewPaginationSection_def pagination_type_def createNew_def selectPaginationState_def)

end
