(* ===== verification/Request_Data.thy ===== *)
theory Request_Data
  imports Reducer_Helper Slices
begin

section \<open>The entity store: api-request-data-reducer, api-request-reducers.generator.ts\<close>

text \<open>
  The \<open>requestData\<close> slice holds the entities themselves, by type and guid, as the API sent them.
  \<open>entitiesReducer\<close> is \<open>requestDataReducerFactory(entities, requestActions)\<close>: a successful request merges
  its response into the store or deletes its entity, a completed recursive delete removes a tree of
  entities. \<open>chainReducers\<close> runs the reducers of single entity types after it.
\<close>

subsection \<open>request-data-reducer.factory.ts\<close>

text \<open>The two \<open>for in\<close> loops that copy everything but one entity.\<close>

definition deleteEntity :: "(string, js) obj \<Rightarrow> string option \<Rightarrow> string option \<Rightarrow> (string, js) obj" where
  "deleteEntity state entityKey guid =
     map (\<lambda>(entityTypeKey, v).
       (entityTypeKey,
        if Some entityTypeKey = entityKey then JObj (filter (\<lambda>(entityGuid, _). Some entityGuid \<noteq> guid) (js_own v))
        else v)) state"

text \<open>\<open>const { [id]: omit, ...newState } = state[entityKey]\<close> throws when the entity type is not there.\<close>

definition reduceIdsToState :: "string \<Rightarrow> (string, js) obj \<Rightarrow> string \<Rightarrow> (string, js) obj result" where
  "reduceIdsToState entityKey state i =
     (if js_at state entityKey \<in> {JUndef, JNull} then Inl TypeError
      else Inr (obj_set entityKey (JObj (obj_del i (js_own (js_at state entityKey)))) state))"

definition reduceTreeToState :: "(string, js) obj \<Rightarrow> string \<times> string list \<Rightarrow> (string, js) obj result" where
  "reduceTreeToState state = (\<lambda>(entityKey, ids). res_fold (reduceIdsToState entityKey) state ids)"

definition cleanStateFromFlatTree :: "(string, js) obj \<Rightarrow> IFlatTree \<Rightarrow> (string, js) obj result" where
  "cleanStateFromFlatTree state tree = res_fold reduceTreeToState state tree"

fun entitiesReducer :: "(string, js) obj \<Rightarrow> Action \<Rightarrow> (string, js) obj result" where
  "entitiesReducer state (RequestA (WrapperRequestActionSuccess response apiAction requestType _ _)) =
     (if \<not> truthy_str (aa_updatingKey apiAction) \<and> requestType = DeleteType
      then Inr (deleteEntity state (aa_entityKey apiAction) (aa_guid apiAction))
      else case response of
          Some r \<Rightarrow> deepMergeState state (case nr_entities r of Some es \<Rightarrow> JObj es | None \<Rightarrow> JUndef)
        | None \<Rightarrow> Inr state)"
| "entitiesReducer state (RecursiveA (SetTreeDeleted _ tree)) = cleanStateFromFlatTree state tree"
| "entitiesReducer state _ = Inr state"

subsection \<open>api-request-reducers.generator.ts\<close>

text \<open>
  Per key, the reducers of the key's type run in order on its value; the value is stored when it changed.
  The state is a dictionary of any values, so the definition serves both sections.
\<close>

definition run_chain ::
  "('v option \<Rightarrow> 'a \<Rightarrow> 'v option result) list \<Rightarrow> 'a \<Rightarrow> 'v option \<Rightarrow> 'v option result" where
  "run_chain reducers action v = res_fold (\<lambda>st reducer. reducer st action) v reducers"

definition chainReducers ::
  "(('k, 'v) obj \<Rightarrow> 'a \<Rightarrow> ('k, 'v) obj result) \<Rightarrow>
   ('k, ('v option \<Rightarrow> 'a \<Rightarrow> 'v option result) list) obj \<Rightarrow>
   ('k, 'v) obj \<Rightarrow> 'a \<Rightarrow> ('k, 'v) obj result" where
  "chainReducers baseReducer extraReducers state action =
     res_bind (baseReducer state action) (\<lambda>newState.
       res_fold (\<lambda>newState (key, reducers).
         res_bind (run_chain reducers action (obj_get newState key)) (\<lambda>nextState.
           case nextState of
             Some v \<Rightarrow> Inr (if nextState \<noteq> obj_get newState key then obj_set key v newState else newState)
           | None \<Rightarrow> Inr newState))
         newState extraReducers)"

subsection \<open>Lookups\<close>

text \<open>One entity of the store, \<open>undefined\<close> when it is not there.\<close>

definition entity_at :: "(string, js) obj \<Rightarrow> string \<Rightarrow> string \<Rightarrow> js" where
  "entity_at s K g = js_field (js_at s K) g"

lemma obj_get_filter_key:
  "obj_get (filter (\<lambda>(k, _). P k) ob) k = (if P k then obj_get ob k else None)"
  by (induction ob) auto

lemma js_at_deleteEntity:
  "js_at (deleteEntity s K g) K' =
     (case obj_get s K' of None \<Rightarrow> JUndef
      | Some v \<Rightarrow> if Some K' = K then JObj (filter (\<lambda>(k, _). Some k \<noteq> g) (js_own v)) else v)"
  by (induction s) (auto simp: deleteEntity_def js_at_def)

lemma entity_at_deleteEntity:
  "entity_at (deleteEntity s K g) K' g' =
     (if Some K' = K \<and> Some g' = g then JUndef else entity_at s K' g')"
  unfolding entity_at_def js_at_deleteEntity
  by (cases "obj_get s K'") (auto simp: js_field_def js_at_def obj_get_filter_key)

lemma entity_at_set: "entity_at (obj_set K v s) K' g = (if K' = K then js_field v g else entity_at s K' g)"
  by (simp add: entity_at_def)

lemma reduceIds_entity:
  assumes "reduceIdsToState K s i = Inr s'"
  shows "entity_at s' K' g = (if K' = K \<and> g = i then JUndef else entity_at s K' g)"
  using assms
  by (auto simp: reduceIdsToState_def entity_at_set entity_at_def js_field_def split: if_splits)

lemma fold_ids_entity:
  assumes "res_fold (reduceIdsToState K) s ids = Inr s'"
  shows "entity_at s' K' g = (if K' = K \<and> g \<in> set ids then JUndef else entity_at s K' g)"
  using assms
proof (induction ids arbitrary: s)
  case (Cons i ids)
  then obtain t where "reduceIdsToState K s i = Inr t" "res_fold (reduceIdsToState K) t ids = Inr s'"
    by (auto simp: res_bind_Inr_iff)
  with Cons.IH[of t] reduceIds_entity[of K s i t K' g] show ?case by auto
qed simp

lemma clean_tree_entity:
  assumes "cleanStateFromFlatTree s tree = Inr s'"
  shows "entity_at s' K g = (if \<exists>ids. (K, ids) \<in> set tree \<and> g \<in> set ids then JUndef else entity_at s K g)"
  using assms unfolding cleanStateFromFlatTree_def
proof (induction tree arbitrary: s)
  case (Cons p tree)
  obtain K0 ids0 where p: "p = (K0, ids0)" by force
  have "reduceTreeToState s p = res_fold (reduceIdsToState K0) s ids0" by (simp add: p reduceTreeToState_def)
  with Cons.prems obtain t where t: "res_fold (reduceIdsToState K0) s ids0 = Inr t" "res_fold reduceTreeToState t tree = Inr s'"
    by (auto simp: res_bind_Inr_iff)
  show ?case unfolding Cons.IH[OF t(2)] fold_ids_entity[OF t(1)] by (auto simp: p)
qed simp

text \<open>A loop that replaces one value after the other.\<close>

lemma res_fold_set_at:
  assumes "res_fold (\<lambda>s k. res_bind (f k (js_at s k)) (\<lambda>m. Inr (obj_set k m s))) s ks = Inr s'" and "distinct ks"
  shows "if k \<in> set ks then f k (js_at s k) = Inr (js_at s' k) else js_at s' k = js_at s k"
  using assms
proof (induction ks arbitrary: s)
  case (Cons k0 ks)
  then obtain m where m: "f k0 (js_at s k0) = Inr m"
    and rest: "res_fold (\<lambda>s k. res_bind (f k (js_at s k)) (\<lambda>m. Inr (obj_set k m s))) (obj_set k0 m s) ks = Inr s'"
    by (auto simp: res_bind_Inr_iff)
  show ?case using Cons.IH[OF rest] Cons.prems(2) m by (auto split: if_splits)
qed simp

lemma deepMergeState_loop:
  "deepMergeState s (JObj es) =
     res_fold (\<lambda>s k. res_bind
         (if shouldMerge (js_at es k) (js_at s k) then deepMergeType (js_at s k) (js_at es k) else Inr (js_at es k))
         (\<lambda>m. Inr (obj_set k m s))) s (obj_keys es)"
proof -
  have "(\<lambda>s k. if shouldMerge (js_field (JObj es) k) (js_at s k)
        then res_bind (deepMergeType (js_at s k) (js_field (JObj es) k)) (\<lambda>m. Inr (obj_set k m s))
        else Inr (obj_set k (js_field (JObj es) k) s)) =
      (\<lambda>s k. res_bind
         (if shouldMerge (js_at es k) (js_at s k) then deepMergeType (js_at s k) (js_at es k) else Inr (js_at es k))
         (\<lambda>m. Inr (obj_set k m s)))"
    by (intro ext) (simp add: js_field_JObj del: js_field_simps)
  then show ?thesis by (simp add: deepMergeState_def del: js_field_simps)
qed

subsection \<open>The store stays a store of entities\<close>

text \<open>
  Well formed: every entity type is an object of entities (and \<open>keys\<close> are there). A well-formed response
  brings entity types of the same shape whose values are objects.
\<close>

definition wf_data :: "string list \<Rightarrow> (string, js) obj \<Rightarrow> bool" where
  "wf_data keys s \<longleftrightarrow> set keys \<subseteq> set (obj_keys s) \<and> (\<forall>K v. obj_get s K = Some v \<longrightarrow> entity_type v)"

definition entity_object :: "js \<Rightarrow> bool" where
  "entity_object v \<longleftrightarrow> (case v of JObj ob \<Rightarrow> wf_obj ob | _ \<Rightarrow> False)"

definition wf_response :: "(string, js) obj \<Rightarrow> bool" where
  "wf_response es \<longleftrightarrow> wf_obj es \<and> (\<forall>K v. obj_get es K = Some v \<longrightarrow>
     (\<exists>ob. v = JObj ob \<and> wf_obj ob \<and> obj_get ob ''entity'' = None \<and> list_all entity_object (obj_values ob)))"

lemma entity_type_truthy: "entity_type v \<Longrightarrow> truthy v \<and> \<not> is_string v \<and> v \<noteq> JUndef \<and> v \<noteq> JNull"
  by (auto simp: entity_type_def)

lemma wf_response_at:
  assumes "wf_response es" and "obj_get es K = Some v"
  shows "entity_type v" "truthy v" "\<not> is_string v" "wf_obj (js_own v)" "obj_get (js_own v) ''entity'' = None"
    "\<And>g e. obj_get (js_own v) g = Some e \<Longrightarrow> entity_object e"
proof -
  from assms obtain ob where ob: "v = JObj ob" "wf_obj ob" "obj_get ob ''entity'' = None"
    "list_all entity_object (obj_values ob)"
    by (auto simp: wf_response_def)
  then show "entity_type v" "truthy v" "\<not> is_string v" "wf_obj (js_own v)" "obj_get (js_own v) ''entity'' = None"
    by (auto simp: entity_type_def js_at_def)
  show "\<And>g e. obj_get (js_own v) g = Some e \<Longrightarrow> entity_object e"
    using ob set_obj_values[OF ob(2)] by (auto simp: list_all_iff)
qed

lemma entity_object_truthy: "entity_object e \<Longrightarrow> truthy e"
  by (cases e) (auto simp: entity_object_def)

lemma mergeEntity_new: "entity_object e \<Longrightarrow> mergeEntity JUndef e = Inr e"
proof (cases e)
  case (JObj ob)
  assume "entity_object e"
  have "obj_spread a ob = a @ ob" if "wf_obj ob" "\<And>k. k \<in> set (obj_keys ob) \<Longrightarrow> obj_get a k = None" for a
    using that
  proof (induction ob arbitrary: a)
    case (Cons p ob)
    obtain k v where p: "p = (k, v)" by force
    have "obj_set k v a = a @ [(k, v)]" if "obj_get a k = None" for a :: "(string, js) obj"
      using that by (induction a) (auto split: if_splits)
    moreover have "obj_get (a @ [(k, v)]) k' = None" if "k' \<in> set (obj_keys ob)" for k'
      using Cons.prems that by (auto simp: p obj_get_def map_add_def set_obj_keys)
    ultimately show ?case using Cons p by simp
  qed simp
  from this[of "[]"] \<open>entity_object e\<close> show ?thesis
    by (simp add: JObj mergeEntity_def js_spread_def entity_object_def)
qed (auto simp: entity_object_def)

text \<open>One entity type after a merge.\<close>

lemma merge_type:
  assumes n: "wf_response es" "obj_get es K = Some n" and b: "b = JUndef \<or> entity_type b"
  shows "\<exists>m. (if shouldMerge n b then deepMergeType b n else Inr n) = Inr m \<and> entity_type m
    \<and> (\<forall>g. if obj_get (js_own n) g = None then js_field m g = js_field b g
         else mergeEntity (js_field b g) (js_field n g) = Inr (js_field m g))"
proof (cases "b = JUndef")
  case True
  note r = wf_response_at[OF n]
  have "mergeEntity (js_field b g) (js_field n g) = Inr (js_field n g)" if "obj_get (js_own n) g \<noteq> None" for g
    using that r(6)[of g] mergeEntity_new True by (auto simp: js_field_def)
  then show ?thesis using True r(1) by (auto simp: shouldMerge_def js_field_def)
next
  case False
  note r = wf_response_at[OF n]
  from False b have b: "entity_type b" by simp
  have "truthy (js_field n g)" if "g \<in> set (obj_keys (js_own n))" for g
    using that r(6)[of g] entity_object_truthy by (auto simp: set_obj_keys js_field_def)
  from deepMergeType_total[OF b r(2) this] obtain m where m: "deepMergeType b n = Inr m" by blast
  have "if obj_get (js_own n) g = None then js_field m g = js_field b g
    else mergeEntity (js_field b g) (js_field n g) = Inr (js_field m g)" for g
    using deepMergeType_get(1)[OF b m r(4,5), of g] by (auto split: if_splits)
  then show ?thesis
    using m deepMergeType_get(2)[OF b m r(4,5)] r(3) entity_type_truthy[OF b] by (auto simp: shouldMerge_def)
qed

text \<open>The whole store after a merge: it does not throw, and every entity is merged or left alone.\<close>

lemma deepMergeState_total:
  assumes s: "wf_data keys s" and es: "wf_response es"
  shows "\<exists>s'. deepMergeState s (JObj es) = Inr s' \<and> wf_data keys s'"
  unfolding deepMergeState_loop
proof (rule res_fold_total[where P = "wf_data keys", OF _ s])
  fix t K
  assume K: "K \<in> set (obj_keys es)" and t: "wf_data keys t"
  from K obtain n where n: "obj_get es K = Some n" by (auto simp: set_obj_keys)
  have "js_at t K = JUndef \<or> entity_type (js_at t K)"
    using t by (auto simp: js_at_def wf_data_def split: option.splits)
  from merge_type[OF es n this] obtain m where
    "(if shouldMerge n (js_at t K) then deepMergeType (js_at t K) n else Inr n) = Inr m" "entity_type m" by blast
  moreover have "js_at es K = n" by (simp add: js_at_def n)
  ultimately show "\<exists>t'. res_bind
      (if shouldMerge (js_at es K) (js_at t K) then deepMergeType (js_at t K) (js_at es K) else Inr (js_at es K))
      (\<lambda>m. Inr (obj_set K m t)) = Inr t' \<and> wf_data keys t'"
    using t by (auto simp: wf_data_def obj_keys_set)
qed

lemma deepMergeState_entity:
  assumes s: "wf_data keys s" and es: "wf_response es" and m: "deepMergeState s (JObj es) = Inr s'"
  shows "if obj_get (js_own (js_at es K)) g = None then entity_at s' K g = entity_at s K g
    else mergeEntity (entity_at s K g) (entity_at es K g) = Inr (entity_at s' K g)"
proof -
  have dist: "distinct (obj_keys es)" using es by (simp add: wf_response_def wf_obj_def obj_keys_def)
  note step = res_fold_set_at[OF m[unfolded deepMergeState_loop] dist, of K]
  show ?thesis
  proof (cases "obj_get es K")
    case None
    then have "K \<notin> set (obj_keys es)" by (simp add: set_obj_keys)
    with step None show ?thesis by (simp add: entity_at_def js_at_def)
  next
    case (Some n)
    then have at: "js_at es K = n" "K \<in> set (obj_keys es)" by (auto simp: js_at_def set_obj_keys)
    have "js_at s K = JUndef \<or> entity_type (js_at s K)"
      using s by (auto simp: js_at_def wf_data_def split: option.splits)
    from merge_type[OF es Some this] step at show ?thesis by (auto simp: entity_at_def)
  qed
qed

lemma wf_data_delete: "wf_data keys s \<Longrightarrow> wf_data keys (deleteEntity s K g)"
proof -
  assume s: "wf_data keys s"
  have keys: "obj_keys (deleteEntity s K g) = obj_keys s"
    by (induction s) (auto simp: deleteEntity_def)
  have get: "obj_get (deleteEntity s K g) K' = map_option (\<lambda>v.
      if Some K' = K then JObj (filter (\<lambda>(k, _). Some k \<noteq> g) (js_own v)) else v) (obj_get s K')" for K'
    by (induction s) (auto simp: deleteEntity_def)
  have "entity_type (JObj (filter (\<lambda>(k, _). P k) ob))" if "wf_obj ob" "\<not> truthy (js_at ob ''entity'')"
    for P :: "string \<Rightarrow> bool" and ob
    using that by (auto simp: entity_type_def js_at_def obj_get_filter_key wf_obj_def distinct_map_filter)
  then have "entity_type v \<Longrightarrow> entity_type (JObj (filter (\<lambda>(k, _). Some k \<noteq> g) (js_own v)))" for v
    unfolding entity_type_def[of v] by auto
  then show ?thesis
    using s by (auto simp: wf_data_def keys get)
qed

lemma reduceIds_wf:
  assumes "wf_data keys s" and "K \<in> set keys"
  shows "\<exists>s'. reduceIdsToState K s i = Inr s' \<and> wf_data keys s'"
proof -
  from assms have "obj_get s K \<noteq> None" unfolding set_obj_keys[symmetric] wf_data_def by blast
  then obtain v where v: "obj_get s K = Some v" "entity_type v" using assms(1) by (auto simp: wf_data_def)
  have "entity_type (JObj (obj_del i (js_own v)))"
    using v(2) by (auto simp: entity_type_def wf_obj_del)
  then show ?thesis
    using v entity_type_truthy[OF v(2)] assms(1) by (auto simp: reduceIdsToState_def js_at_def wf_data_def obj_keys_set)
qed

lemma clean_tree_wf:
  assumes "wf_data keys s" and "list_all (\<lambda>(K, ids). ids = [] \<or> K \<in> set keys) tree"
  shows "\<exists>s'. cleanStateFromFlatTree s tree = Inr s' \<and> wf_data keys s'"
  unfolding cleanStateFromFlatTree_def
proof (rule res_fold_total[where P = "wf_data keys", OF _ assms(1)])
  fix t p
  assume p: "p \<in> set tree" and t: "wf_data keys t"
  obtain K ids where [simp]: "p = (K, ids)" by force
  have "res_fold (reduceIdsToState K) t ids = Inr t" if "ids = []" using that by simp
  moreover have "\<exists>t'. res_fold (reduceIdsToState K) t ids = Inr t' \<and> wf_data keys t'" if "K \<in> set keys"
    by (rule res_fold_total[where P = "wf_data keys", OF _ t]) (rule reduceIds_wf[OF _ that])
  ultimately show "\<exists>t'. reduceTreeToState t p = Inr t' \<and> wf_data keys t'"
    using p t assms(2) by (auto simp: reduceTreeToState_def list_all_iff)
qed

text \<open>Actions that bring well-formed responses and name known types in trees.\<close>

fun data_ok :: "string list \<Rightarrow> Action \<Rightarrow> bool" where
  "data_ok keys (RequestA (WrapperRequestActionSuccess (Some r) _ _ _ _)) =
     (case nr_entities r of Some es \<Rightarrow> wf_response es | None \<Rightarrow> False)"
| "data_ok keys (RecursiveA (SetTreeDeleted _ tree)) = list_all (\<lambda>(K, ids). ids = [] \<or> K \<in> set keys) tree"
| "data_ok keys _ = True"

lemma entitiesReducer_step:
  assumes s: "wf_data keys s" and ok: "data_ok keys a"
  shows "\<exists>s'. entitiesReducer s a = Inr s' \<and> wf_data keys s'"
  using assms
proof (induction keys a rule: data_ok.induct)
  case (1 keys r a t n m)
  then obtain es where es: "nr_entities r = Some es" "wf_response es" by (auto split: option.splits)
  with 1(1) deepMergeState_total[OF 1(1) es(2)] wf_data_delete[OF 1(1)] show ?case by auto
next
  case (2 keys i tree)
  with clean_tree_wf show ?case by simp
qed (auto intro: wf_data_delete)

interpretation data: safe_reducer entitiesReducer "wf_data keys" "data_ok keys"
  for keys
  by unfold_locales (rule entitiesReducer_step)

section \<open>Properties of the entity store\<close>

text \<open>
  Whatever responses, deletions and tree deletions arrive, a run over well-formed responses and known
  types never throws, and the store stays a store of entities.
\<close>

theorem data_run_never_throws:
  assumes "wf_data keys s" and "list_all (data_ok keys) as"
  shows "\<exists>s'. res_fold entitiesReducer s as = Inr s' \<and> wf_data keys s'"
  using assms by (rule data.run_total)

theorem data_run_never_throws_witness:
  "\<exists>s'. res_fold entitiesReducer [(''space'', JObj [])]
      [RequestA (WrapperRequestActionSuccess
         (Some \<lparr>nr_entities = Some [(''space'', JObj [(''s1'', JObj [(''entity'', JObj [])])])], nr_result = [''s1'']\<rparr>)
         (list_action ''space'' ''all'') FetchType None None),
       RecursiveA (SetTreeDeleted ''s1'' [(''space'', [''s1''])])] = Inr s' \<and> wf_data [''space''] s'"
  by (rule data_run_never_throws)
    (simp_all add: wf_data_def entity_type_def wf_response_def entity_object_def)

text \<open>
  C25: The success of a request merges its response into the store and touches nothing else: every entity the
  response does not hold is the one it was, and every entity it holds becomes the merge of the stored one and
  the new one; if the stored one is an API resource it keeps the fields of its \<open>entity\<close> part that the new one
  lacks and takes the others from it.
\<close>

theorem success_merges_response:
  assumes "wf_data keys s" and "nr_entities r = Some es" and "wf_response es"
    and "truthy_str (aa_updatingKey a) \<or> t \<noteq> DeleteType"
  shows "\<exists>s'. entitiesReducer s (RequestA (WrapperRequestActionSuccess (Some r) a t n m)) = Inr s'
    \<and> (\<forall>K g. if obj_get (js_own (js_at es K)) g = None then entity_at s' K g = entity_at s K g
         else mergeEntity (entity_at s K g) (entity_at es K g) = Inr (entity_at s' K g)
           \<and> (api_resource (entity_at s K g) \<longrightarrow>
               js_field (entity_at s' K g) ''entity'' =
                 js_spread (js_field (entity_at s K g) ''entity'') (js_field (entity_at es K g) ''entity''))
           \<and> (entity_at s K g = JUndef \<longrightarrow> entity_at s' K g = entity_at es K g))"
proof -
  obtain s' where s': "deepMergeState s (JObj es) = Inr s'"
    using deepMergeState_total[OF assms(1,3)] by blast
  have obj: "entity_object (entity_at es K g)" if "obj_get (js_own (js_at es K)) g \<noteq> None" for K g
  proof -
    from that obtain e where e: "obj_get (js_own (js_at es K)) g = Some e" by auto
    then obtain v where v: "obj_get es K = Some v" by (cases "obj_get es K") (auto simp: js_at_def)
    with e show ?thesis
      using wf_response_at(6)[OF assms(3) v, of g e] by (simp add: entity_at_def js_at_def js_field_def)
  qed
  note entity = deepMergeState_entity[OF assms(1,3) s']
  have run: "entitiesReducer s (RequestA (WrapperRequestActionSuccess (Some r) a t n m)) = Inr s'"
    using assms(2,4) s' by auto
  have "if obj_get (js_own (js_at es K)) g = None then entity_at s' K g = entity_at s K g
    else mergeEntity (entity_at s K g) (entity_at es K g) = Inr (entity_at s' K g)
      \<and> (api_resource (entity_at s K g) \<longrightarrow> js_field (entity_at s' K g) ''entity'' =
          js_spread (js_field (entity_at s K g) ''entity'') (js_field (entity_at es K g) ''entity''))
      \<and> (entity_at s K g = JUndef \<longrightarrow> entity_at s' K g = entity_at es K g)" for K g
  proof (cases "obj_get (js_own (js_at es K)) g = None")
    case True
    with entity[of K g] show ?thesis by simp
  next
    case False
    then have m: "mergeEntity (entity_at s K g) (entity_at es K g) = Inr (entity_at s' K g)"
      using entity[of K g] by simp
    note o = obj[OF False]
    have "js_field (entity_at s' K g) ''entity'' =
        js_spread (js_field (entity_at s K g) ''entity'') (js_field (entity_at es K g) ''entity'')"
      if "api_resource (entity_at s K g)"
      using mergeEntity_resource[OF that entity_object_truthy[OF o]] m by auto
    moreover have "entity_at s' K g = entity_at es K g" if "entity_at s K g = JUndef"
      using m mergeEntity_new[OF o] that by simp
    ultimately show ?thesis unfolding if_not_P[OF False] using m by blast
  qed
  with run show ?thesis by blast
qed

theorem success_merges_response_witness:
  "\<exists>s'. entitiesReducer [(''space'', JObj [(''s2'', JNum 1)])] (RequestA (WrapperRequestActionSuccess
         (Some \<lparr>nr_entities = Some [(''space'', JObj [(''s1'', JObj [])])], nr_result = [''s1'']\<rparr>)
         (list_action ''space'' ''all'') FetchType None None)) = Inr s'
    \<and> entity_at s' ''space'' ''s2'' = JNum 1 \<and> entity_at s' ''space'' ''s1'' = JObj []"
proof -
  let ?es = "[(''space'', JObj [(''s1'', JObj [])])]"
  let ?s = "[(''space'', JObj [(''s2'', JNum 1)])]"
  let ?P = "\<lambda>s' K g. if obj_get (js_own (js_at ?es K)) g = None then entity_at s' K g = entity_at ?s K g
         else mergeEntity (entity_at ?s K g) (entity_at ?es K g) = Inr (entity_at s' K g)
           \<and> (api_resource (entity_at ?s K g) \<longrightarrow>
               js_field (entity_at s' K g) ''entity'' =
                 js_spread (js_field (entity_at ?s K g) ''entity'') (js_field (entity_at ?es K g) ''entity''))
           \<and> (entity_at ?s K g = JUndef \<longrightarrow> entity_at s' K g = entity_at ?es K g)"
  let ?a = "RequestA (WrapperRequestActionSuccess (Some \<lparr>nr_entities = Some ?es, nr_result = [''s1'']\<rparr>)
       (list_action ''space'' ''all'') FetchType None None)"
  have "\<exists>s'. entitiesReducer ?s ?a = Inr s' \<and> (\<forall>K g. ?P s' K g)"
    by (rule success_merges_response[of "[''space'']"])
      (simp_all add: wf_data_def entity_type_def wf_response_def entity_object_def)
  then obtain s' where s': "entitiesReducer ?s ?a = Inr s'" and get: "\<And>K g. ?P s' K g" by blast
  have "entity_at s' ''space'' ''s2'' = JNum 1" using get[of "''space''" "''s2''"] by (simp add: entity_at_def)
  moreover have "entity_at s' ''space'' ''s1'' = JObj []" using get[of "''space''" "''s1''"] by (simp add: entity_at_def)
  ultimately show ?thesis using s' by blast
qed

text \<open>When a tree cannot be deleted: a type is missing in the state, and deleting from the types before does not change that.\<close>

lemma reduce_ids_throws:
  "if js_at s K \<in> {JUndef, JNull} \<and> ids \<noteq> [] then reduceTreeToState s (K, ids) = Inl TypeError
   else \<exists>s'. reduceTreeToState s (K, ids) = Inr s' \<and> (\<forall>K'. js_at s' K' \<in> {JUndef, JNull} \<longleftrightarrow> js_at s K' \<in> {JUndef, JNull})"
proof (induction ids arbitrary: s)
  case (Cons i ids)
  show ?case
  proof (cases "js_at s K \<in> {JUndef, JNull}")
    case False
    let ?s = "obj_set K (JObj (obj_del i (js_own (js_at s K)))) s"
    have "js_at ?s K' \<in> {JUndef, JNull} \<longleftrightarrow> js_at s K' \<in> {JUndef, JNull}" for K'
      using False by (auto simp: js_at_def)
    with Cons.IH[of ?s] False show ?thesis
      by (auto simp: reduceTreeToState_def reduceIdsToState_def split: if_splits)
  qed (simp add: reduceTreeToState_def reduceIdsToState_def)
qed (simp add: reduceTreeToState_def)

lemma clean_tree_throws:
  "if \<exists>(K, ids) \<in> set tree. ids \<noteq> [] \<and> js_at s K \<in> {JUndef, JNull}
   then res_fold reduceTreeToState s tree = Inl TypeError else \<exists>s'. res_fold reduceTreeToState s tree = Inr s'"
proof (induction tree arbitrary: s)
  case (Cons x tree)
  obtain K ids where x: "x = (K, ids)" by force
  show ?case
  proof (cases "js_at s K \<in> {JUndef, JNull} \<and> ids \<noteq> []")
    case True
    with reduce_ids_throws[of s K ids] show ?thesis by (auto simp: x)
  next
    case False
    with reduce_ids_throws[of s K ids] obtain s' where s': "reduceTreeToState s (K, ids) = Inr s'"
      "\<And>K'. js_at s' K' \<in> {JUndef, JNull} \<longleftrightarrow> js_at s K' \<in> {JUndef, JNull}"
      by auto
    have "(\<exists>(K, ids) \<in> set (x # tree). ids \<noteq> [] \<and> js_at s K \<in> {JUndef, JNull}) \<longleftrightarrow>
        (\<exists>(K, ids) \<in> set tree. ids \<noteq> [] \<and> js_at s' K \<in> {JUndef, JNull})"
      unfolding s'(2) using False by (auto simp: x)
    with Cons.IH[of s'] s'(1) show ?thesis by (simp add: x)
  qed
qed simp

text \<open>
  C33: Deleting. The success of a delete request removes exactly its entity (a request that deletes only a part,
  with an updating key, does not). The completed deletion of a tree throws exactly when the tree has an entity of a type
  the store does not have, and otherwise removes exactly the entities of the tree.
\<close>

theorem delete_removes_exactly:
  assumes "\<not> truthy_str (aa_updatingKey a)"
  shows "(\<exists>s'. entitiesReducer s (RequestA (WrapperRequestActionSuccess response a DeleteType n m)) = Inr s' \<and>
      (\<forall>K g. entity_at s' K g =
        (if Some K = aa_entityKey a \<and> Some g = aa_guid a then JUndef else entity_at s K g)))
    \<and> (if \<exists>(K, ids) \<in> set tree. ids \<noteq> [] \<and> js_at s K \<in> {JUndef, JNull}
       then entitiesReducer s (RecursiveA (SetTreeDeleted i tree)) = Inl TypeError
       else \<exists>s'. entitiesReducer s (RecursiveA (SetTreeDeleted i tree)) = Inr s' \<and>
         (\<forall>K g. entity_at s' K g =
           (if \<exists>ids. (K, ids) \<in> set tree \<and> g \<in> set ids then JUndef else entity_at s K g)))"
  using assms clean_tree_throws[of tree s] clean_tree_entity[of s tree]
  by (auto simp: entity_at_deleteEntity cleanStateFromFlatTree_def)

theorem delete_removes_exactly_witness:
  "\<exists>s'. entitiesReducer [(''space'', JObj [(''s1'', JNum 1), (''s2'', JNum 2)])]
      (RequestA (WrapperRequestActionSuccess None (entity_action ''space'' ''s1'') DeleteType None None)) = Inr s'
    \<and> entity_at s' ''space'' ''s1'' = JUndef \<and> entity_at s' ''space'' ''s2'' = JNum 2"
proof -
  let ?s = "[(''space'', JObj [(''s1'', JNum 1), (''s2'', JNum 2)])]"
  let ?a = "entity_action ''space'' ''s1''"
  have "\<not> truthy_str (aa_updatingKey ?a)" by (simp add: plain_actions)
  from delete_removes_exactly[OF this, of ?s None None None "[]" "''x''"]
  obtain s' where "entitiesReducer ?s (RequestA (WrapperRequestActionSuccess None ?a DeleteType None None)) = Inr s'"
    "\<And>K g. entity_at s' K g = (if Some K = aa_entityKey ?a \<and> Some g = aa_guid ?a then JUndef else entity_at ?s K g)"
    by blast
  then show ?thesis by (auto simp: plain_actions entity_at_def)
qed

end
