(* ===== verification/Entity_Reducers.thy ===== *)
theory Entity_Reducers
  imports Request_Data Requests
begin

section \<open>Reducers of single entity types, and the two request slices composed\<close>

text \<open>
  \<open>api-request-reducers.generator.ts\<close> chains reducers of single entity types after the two base reducers:
  users, routes, service instances, application summaries, applications, spaces and organizations keep
  references to one another in their entities, and these reducers mend the references when a request about one
  of them succeeds. Every reducer is a function of the entity type's value, of type \<open>any\<close>, so reading
  a property of a missing entity is the \<open>TypeError\<close> it is in the source.

  A reducer that rebuilds the entity type (\<open>newState\<close>) does it over \<open>Object.keys\<close> or
  \<open>Object.values\<close> in property order. Values the interfaces declare as arrays are arrays, \<open>undefined\<close>
  or \<open>null\<close>: an array method or a spread of anything else is a \<open>TypeError\<close> in the model. The entities
  of a response are taken as not shared with the store (\<open>updateUserMissingRoles\<close> writes into them).
\<close>

subsection \<open>Property access on values of type any\<close>

text \<open>\<open>{ ...v, [k]: w }\<close>, and the elements of an array.\<close>

definition js_with :: "js \<Rightarrow> string \<Rightarrow> js \<Rightarrow> js" where
  "js_with v k w = JObj (obj_set k w (js_own v))"

fun js_array :: "js \<Rightarrow> js list result" where
  "js_array (JArr xs) = Inr xs"
| "js_array _ = Inl TypeError"

definition js_str :: "string option \<Rightarrow> js" where
  "js_str s = (case s of Some t \<Rightarrow> JStr t | None \<Rightarrow> JUndef)"

lemma js_with_simps [simp]:
  "js_field (js_with v k w) k' = (if k' = k then w else js_field v k')"
  "js_own (js_with v k w) = obj_set k w (js_own v)"
  "truthy (js_with v k w)"
  "js_prop (js_with v k w) k' = Inr (if k' = k then w else js_field v k')"
  "js_with v k w \<noteq> JUndef" "js_with v k w \<noteq> JNull"
  by (simp_all add: js_with_def js_field_def)

lemma js_prop_Inr: "js_prop v k = Inr w \<longleftrightarrow> v \<noteq> JUndef \<and> v \<noteq> JNull \<and> w = js_field v k"
  by (cases v) auto

text \<open>\<open>{ ...v, entity: { ...v.entity, [k]: w } }\<close>, which throws when \<open>v\<close> is not there.\<close>

definition with_entity_field :: "js \<Rightarrow> string \<Rightarrow> js \<Rightarrow> js result" where
  "with_entity_field v k w =
     res_bind (js_prop v ''entity'') (\<lambda>e. Inr (js_with v ''entity'' (js_with e k w)))"

text \<open>A property of the entity part, \<open>v.entity[k]\<close>.\<close>

definition entity_field :: "js \<Rightarrow> string \<Rightarrow> js result" where
  "entity_field v k = res_bind (js_prop v ''entity'') (\<lambda>e. js_prop e k)"

definition metadata_guid :: "js \<Rightarrow> js result" where
  "metadata_guid v = res_bind (js_prop v ''metadata'') (\<lambda>m. js_prop m ''guid'')"

text \<open>What an action class adds to the request action, \<open>apiAction.k\<close>.\<close>

definition detail :: "ApiAction \<Rightarrow> string \<Rightarrow> js" where
  "detail a k = js_at (aa_details a) k"

subsection \<open>Types of the actions\<close>

definition ASSIGN_ROUTE_SUCCESS :: string where "ASSIGN_ROUTE_SUCCESS = ''[Application] Assign route success''"
definition UNMAP_ROUTE_SUCCESS :: string where "UNMAP_ROUTE_SUCCESS = ''[Application Routes] Unmap route success''"
definition DELETE_ROUTE_SUCCESS :: string where "DELETE_ROUTE_SUCCESS = ''[Application Routes] Delete success''"
definition CREATE_SPACE_SUCCESS :: string where "CREATE_SPACE_SUCCESS = ''[Space] Create Success''"
definition CREATE_APP_SUCCESS :: string where "CREATE_APP_SUCCESS = ''[Application] Create success''"
definition UPDATE_APP_SUCCESS :: string where "UPDATE_APP_SUCCESS = ''[Application] Update success''"
definition DELETE_APP_SUCCESS :: string where "DELETE_APP_SUCCESS = ''[Application] Delete success''"
definition DELETE_SERVICE_BINDING_ACTION_SUCCESS :: string where
  "DELETE_SERVICE_BINDING_ACTION_SUCCESS = ''[ Service Instances ] Delete Service Binding success''"
definition CREATE_SERVICE_BINDING_ACTION_SUCCESS :: string where
  "CREATE_SERVICE_BINDING_ACTION_SUCCESS = ''[ Service Instances ] Create Service Binding success''"
definition UPDATE_SERVICE_INSTANCE_SUCCESS :: string where
  "UPDATE_SERVICE_INSTANCE_SUCCESS = ''[Service Instances] Update Service Instance success''"
definition GET_ORGANIZATION_USERS_SUCCESS :: string where
  "GET_ORGANIZATION_USERS_SUCCESS = ''[Organization] Get all org users success''"

lemmas entity_event_types =
  ASSIGN_ROUTE_SUCCESS_def UNMAP_ROUTE_SUCCESS_def DELETE_ROUTE_SUCCESS_def CREATE_SPACE_SUCCESS_def
  CREATE_APP_SUCCESS_def UPDATE_APP_SUCCESS_def DELETE_APP_SUCCESS_def DELETE_SERVICE_BINDING_ACTION_SUCCESS_def
  CREATE_SERVICE_BINDING_ACTION_SUCCESS_def UPDATE_SERVICE_INSTANCE_SUCCESS_def GET_ORGANIZATION_USERS_SUCCESS_def

subsection \<open>Routes: routes.reducer.ts\<close>

definition addAppFromRoute :: "js \<Rightarrow> js \<Rightarrow> js result" where
  "addAppFromRoute entity appGuid =
     res_bind (js_prop entity ''apps'') (\<lambda>apps.
     res_bind (if truthy apps then js_array apps else Inr []) (\<lambda>oldApps.
       Inr (js_with entity ''apps'' (JArr (oldApps @ [appGuid])))))"

definition removeAppFromRoute :: "js \<Rightarrow> js \<Rightarrow> js result" where
  "removeAppFromRoute entity appGuid =
     res_bind (js_prop entity ''apps'') (\<lambda>apps.
       if truthy apps
       then res_bind (js_array apps) (\<lambda>xs. Inr (js_with entity ''apps'' (JArr (filter (\<lambda>app. app \<noteq> appGuid) xs))))
       else Inr entity)"

fun routeReducer :: "js \<Rightarrow> Action \<Rightarrow> js result" where
  "routeReducer state (RequestA (APISuccessOrFailedAction t a response)) =
     (if t = ASSIGN_ROUTE_SUCCESS then
        res_bind (js_prop state (js_key (detail a ''routeGuid''))) (\<lambda>addAppRoute.
        res_bind (js_prop addAppRoute ''entity'') (\<lambda>entity.
        res_bind (addAppFromRoute entity (js_str (aa_guid a))) (\<lambda>entity'.
          Inr (js_with state (js_key (detail a ''routeGuid'')) (js_with addAppRoute ''entity'' entity')))))
      else if t = UNMAP_ROUTE_SUCCESS then
        res_bind (js_prop state (js_key (detail a ''routeGuid''))) (\<lambda>removeAppRoute.
        res_bind (js_prop removeAppRoute ''entity'') (\<lambda>entity.
        res_bind (removeAppFromRoute entity (detail a ''appGuid'')) (\<lambda>entity'.
          Inr (js_with state (js_key (detail a ''routeGuid'')) (js_with removeAppRoute ''entity'' entity')))))
      else Inr state)"
| "routeReducer state _ = Inr state"

text \<open>The summaries of applications lose a route: \<open>newState\<close> filters on the guid inside the route's entity.\<close>

definition filter_by :: "(js \<Rightarrow> js result) \<Rightarrow> js \<Rightarrow> js list \<Rightarrow> js list result" where
  "filter_by f v xs = res_fold (\<lambda>ys x. res_bind (f x) (\<lambda>w. Inr (if w \<noteq> v then ys @ [x] else ys))) [] xs"

definition summary_without_route :: "js \<Rightarrow> js \<Rightarrow> js \<Rightarrow> js \<Rightarrow> js result" where
  "summary_without_route currentState appGuid routeGuid state =
     (if \<not> truthy currentState then Inr state
      else
        res_bind (entity_field currentState ''routes'') (\<lambda>routes.
        res_bind (js_array routes) (\<lambda>rs.
        res_bind (filter_by (\<lambda>r. entity_field r ''guid'') routeGuid rs) (\<lambda>rs'.
        res_bind (with_entity_field currentState ''routes'' (JArr rs')) (\<lambda>summary.
          Inr (js_with state (js_key appGuid) summary))))))"

fun updateAppSummaryRoutesReducer :: "js \<Rightarrow> Action \<Rightarrow> js result" where
  "updateAppSummaryRoutesReducer state (RequestA (APISuccessOrFailedAction t a response)) =
     (if t = UNMAP_ROUTE_SUCCESS then
        res_bind (js_prop state (js_key (detail a ''appGuid''))) (\<lambda>currentState.
          summary_without_route currentState (detail a ''appGuid'') (detail a ''routeGuid'') state)
      else if t = DELETE_ROUTE_SUCCESS then
        if truthy (detail a ''appGuids'') then
          res_bind (js_array (detail a ''appGuids'')) (\<lambda>appGuids.
            res_fold (\<lambda>mutatedState appGuid.
                res_bind (js_prop state (js_key appGuid)) (\<lambda>currentState.
                  summary_without_route currentState appGuid (js_str (aa_guid a)) mutatedState))
              state appGuids)
        else if truthy (detail a ''appGuid'') then
          res_bind (js_prop state (js_key (detail a ''appGuid''))) (\<lambda>currentState.
            summary_without_route currentState (detail a ''appGuid'') (js_str (aa_guid a)) state)
        else Inr state
      else Inr state)"
| "updateAppSummaryRoutesReducer state _ = Inr state"

subsection \<open>Applications: application-route.reducer.ts and endpoint-disconnect-application.reducer.ts\<close>

text \<open>\<open>applyNewRoutes\<close> rebuilds the entity type keyed by \<open>app.metadata.guid\<close>.\<close>

definition applyNewRoutes :: "js \<Rightarrow> js \<Rightarrow> js list \<Rightarrow> js result" where
  "applyNewRoutes state appGuid newRoutes =
     res_bind (res_fold (\<lambda>entities app.
         res_bind (metadata_guid app) (\<lambda>g.
           if g = appGuid
           then res_bind (js_prop app ''entity'') (\<lambda>e.
             Inr (obj_set (js_key g) (js_with app ''entity'' (js_with e ''routes'' (JArr newRoutes))) entities))
           else Inr (obj_set (js_key g) app entities)))
       [] (obj_values (js_own state)))
     (\<lambda>entities. Inr (JObj entities))"

text \<open>\<open>state[appGuid].entity.routes || []\<close>, when the application is there.\<close>

definition old_routes :: "js \<Rightarrow> js result" where
  "old_routes app = res_bind (entity_field app ''routes'') (\<lambda>r. Inr (if truthy r then r else JArr []))"

definition addApplicationRoutes :: "js \<Rightarrow> js \<Rightarrow> js \<Rightarrow> js result" where
  "addApplicationRoutes state appGuid routeGuid =
     (if \<not> truthy appGuid then Inr state
      else res_bind (js_prop state (js_key appGuid)) (\<lambda>app.
        if \<not> truthy app then Inr state
        else res_bind (old_routes app) (\<lambda>r. res_bind (js_array r) (\<lambda>oldRoutes.
          applyNewRoutes state appGuid (oldRoutes @ [routeGuid])))))"

definition removeApplicationRoute :: "js \<Rightarrow> js \<Rightarrow> js \<Rightarrow> js result" where
  "removeApplicationRoute state appGuid routeGuid =
     (if \<not> truthy appGuid then Inr state
      else res_bind (js_prop state (js_key appGuid)) (\<lambda>app.
        if \<not> truthy app then Inr state
        else res_bind (old_routes app) (\<lambda>r. res_bind (js_array r) (\<lambda>oldRoutes.
          applyNewRoutes state appGuid (filter (\<lambda>route. route \<noteq> routeGuid) oldRoutes)))))"

fun updateApplicationRoutesReducer :: "js \<Rightarrow> Action \<Rightarrow> js result" where
  "updateApplicationRoutesReducer state (RequestA (APISuccessOrFailedAction t a response)) =
     (if t = ASSIGN_ROUTE_SUCCESS then addApplicationRoutes state (js_str (aa_guid a)) (detail a ''routeGuid'')
      else if t = DELETE_ROUTE_SUCCESS \<or> t = UNMAP_ROUTE_SUCCESS
      then removeApplicationRoute state (detail a ''appGuid'') (js_str (aa_guid a))
      else Inr state)"
| "updateApplicationRoutesReducer state _ = Inr state"

definition deletionApplicationFromEndpoint :: "js \<Rightarrow> string \<Rightarrow> js result" where
  "deletionApplicationFromEndpoint state endpointGuid =
     (if state = JUndef \<or> state = JNull then Inl TypeError
      else res_bind (res_fold (\<lambda>newEntities app.
          res_bind (entity_field app ''cfGuid'') (\<lambda>c.
            if c = JStr endpointGuid then Inr newEntities
            else res_bind (metadata_guid app) (\<lambda>g.
              Inr (if truthy g then obj_set (js_key g) app newEntities else newEntities))))
        [] (obj_values (js_own state)))
      (\<lambda>newEntities. Inr (JObj newEntities)))"

fun endpointDisconnectApplicationReducer :: "js \<Rightarrow> Action \<Rightarrow> js result" where
  "endpointDisconnectApplicationReducer state (EndpointA (EndpointActionComplete t g _ _)) =
     (if t = DISCONNECT_ENDPOINTS_SUCCESS \<or> t = UNREGISTER_ENDPOINTS_SUCCESS
      then deletionApplicationFromEndpoint state g else Inr state)"
| "endpointDisconnectApplicationReducer state _ = Inr state"

subsection \<open>Spaces: application-add-remove-reducer.ts\<close>

text \<open>\<open>{ entity: { apps } }\<close>, what is merged into a space.\<close>

definition apps_update :: "js list \<Rightarrow> js" where
  "apps_update apps = JObj [(''entity'', JObj [(''apps'', JArr apps)])]"

text \<open>\<open>deepMergeState(state, updatedSpaces)\<close> when there is something to merge.\<close>

definition merge_spaces :: "js \<Rightarrow> (string, js) obj \<Rightarrow> js result" where
  "merge_spaces state updatedSpaces =
     (if updatedSpaces = [] then Inr state
      else res_bind (deepMergeState (js_own state) (JObj updatedSpaces)) (\<lambda>s. Inr (JObj s)))"

definition addApplicationToSpace :: "js \<Rightarrow> js \<Rightarrow> js result" where
  "addApplicationToSpace state response =
     (let apps = js_field (js_field response ''entities'') ''application'' in
      if truthy response \<and> truthy (js_field response ''entities'') \<and> truthy apps
      then res_bind (res_fold (\<lambda>updatedSpaces app.
          res_bind (entity_field app ''space_guid'') (\<lambda>spaceGuid.
          res_bind (js_prop state (js_key spaceGuid)) (\<lambda>space.
          res_bind (entity_field space ''apps'') (\<lambda>spaceApps.
            if truthy spaceApps
            then res_bind (js_array spaceApps) (\<lambda>old. res_bind (metadata_guid app) (\<lambda>g.
              Inr (obj_set (js_key spaceGuid) (apps_update (old @ [g])) updatedSpaces)))
            else Inr updatedSpaces))))
        [] (obj_values (js_own apps)))
        (merge_spaces state)
      else Inr state)"

definition deleteApplicationFromSpace :: "js \<Rightarrow> string option \<Rightarrow> js result" where
  "deleteApplicationFromSpace state appGuid =
     res_bind (js_keys state) (\<lambda>spaceGuids.
     res_bind (res_fold (\<lambda>updatedSpaces spaceGuid.
         res_bind (entity_field (js_field state spaceGuid) ''apps'') (\<lambda>apps.
           if truthy apps
           then res_bind (js_array apps) (\<lambda>xs.
             Inr (if js_str appGuid \<in> set xs
                  then obj_set spaceGuid (apps_update (filter (\<lambda>g. g \<noteq> js_str appGuid) xs)) updatedSpaces
                  else updatedSpaces))
           else Inr updatedSpaces))
       [] spaceGuids)
       (merge_spaces state))"

fun applicationAddRemoveReducer :: "js \<Rightarrow> Action \<Rightarrow> js result" where
  "applicationAddRemoveReducer state (RequestA (APISuccessOrFailedAction t a response)) =
     (if t = CREATE_APP_SUCCESS then addApplicationToSpace state response
      else if t = DELETE_APP_SUCCESS then deleteApplicationFromSpace state (aa_guid a)
      else Inr state)"
| "applicationAddRemoveReducer state _ = Inr state"

subsection \<open>Organizations: organization-space.reducer.ts\<close>

text \<open>Is this space (a guid, or a whole space) the one with the guid? And the index of the first one that is.\<close>

definition is_space :: "js \<Rightarrow> js \<Rightarrow> bool result" where
  "is_space guid space =
     (if is_string space then Inr (space = guid) else res_bind (metadata_guid space) (\<lambda>g. Inr (g = guid)))"

fun find_index :: "('x \<Rightarrow> bool result) \<Rightarrow> 'x list \<Rightarrow> nat option result" where
  "find_index p [] = Inr None"
| "find_index p (x # xs) =
     res_bind (p x) (\<lambda>b. if b then Inr (Some 0) else res_bind (find_index p xs) (\<lambda>r. Inr (map_option Suc r)))"

definition splice_at :: "nat \<Rightarrow> 'x list \<Rightarrow> 'x list" where
  "splice_at i xs = take i xs @ drop (Suc i) xs"

definition new_org_spaces :: "js \<Rightarrow> ApiAction \<Rightarrow> js result" where
  "new_org_spaces org a =
     (if aa_removeEntityOnDelete a then
        res_bind (entity_field org ''spaces'') (\<lambda>spaces.
        res_bind (js_array spaces) (\<lambda>xs.
        res_bind (find_index (is_space (js_str (aa_guid a))) xs) (\<lambda>i.
          Inr (case i of Some n \<Rightarrow> JArr (splice_at n xs) | None \<Rightarrow> JNull))))
      else Inr JNull)"

definition deleteOrgSpaces :: "js \<Rightarrow> js \<Rightarrow> ApiAction \<Rightarrow> js result" where
  "deleteOrgSpaces state orgGuid a =
     (if \<not> truthy orgGuid then Inr state
      else res_bind (js_keys state) (\<lambda>orgGuids.
        if js_key orgGuid \<notin> set orgGuids then Inr state
        else res_bind (res_fold (\<lambda>newState currentGuid.
            let org = js_field state currentGuid in
            if currentGuid = js_key orgGuid
            then res_bind (new_org_spaces org a) (\<lambda>newSpaces.
              res_bind (if truthy org then js_prop org ''entity'' else Inl TypeError) (\<lambda>e.
                Inr (obj_set currentGuid (js_with org ''entity'' (js_with e ''spaces'' newSpaces)) newState)))
            else Inr (obj_set currentGuid org newState))
          [] orgGuids)
        (\<lambda>newState. Inr (JObj newState))))"

fun updateOrganizationSpaceReducer :: "js \<Rightarrow> Action \<Rightarrow> js result" where
  "updateOrganizationSpaceReducer state (RequestA (APISuccessOrFailedAction t a response)) =
     (if t = DELETE_SPACE_SUCCESS \<or> t = CREATE_SPACE_SUCCESS
      then deleteOrgSpaces state (detail a ''orgGuid'') a else Inr state)"
| "updateOrganizationSpaceReducer state _ = Inr state"

subsection \<open>Service instances: service-instance.reducer.ts\<close>

text \<open>\<open>bindings ? bindings.filter(b => b !== guid) : bindings\<close>.\<close>

definition removeBinding :: "js \<Rightarrow> js \<Rightarrow> js result" where
  "removeBinding bindings guid =
     (if truthy bindings then res_bind (js_array bindings) (\<lambda>bs. Inr (JArr (filter (\<lambda>b. b \<noteq> guid) bs)))
      else Inr bindings)"

text \<open>\<open>[].concat(bindings, guid)\<close>: an array is spliced in, anything else is one element.\<close>

definition concat_binding :: "js \<Rightarrow> js \<Rightarrow> js" where
  "concat_binding bindings guid = JArr ((case bindings of JArr bs \<Rightarrow> bs | b \<Rightarrow> [b]) @ [guid])"

definition js_details :: "ApiAction \<Rightarrow> js \<Rightarrow> string list \<Rightarrow> js" where
  "js_details a v ks = fold (\<lambda>k e. js_with e k (detail a k)) ks v"

fun serviceInstanceReducer :: "js \<Rightarrow> Action \<Rightarrow> js result" where
  "serviceInstanceReducer state (RequestA (APISuccessOrFailedAction t a response)) =
     (if t = DELETE_SERVICE_BINDING_ACTION_SUCCESS then
        res_bind (js_prop state (js_key (detail a ''serviceInstanceGuid''))) (\<lambda>inst.
        res_bind (entity_field inst ''service_bindings'') (\<lambda>bindings.
        res_bind (removeBinding bindings (js_str (aa_guid a))) (\<lambda>bindings'.
        res_bind (with_entity_field inst ''service_bindings'' bindings') (\<lambda>inst'.
          Inr (js_with state (js_key (detail a ''serviceInstanceGuid'')) inst')))))
      else if t = UPDATE_SERVICE_INSTANCE_SUCCESS then
        res_bind (js_prop state (js_key (js_str (aa_guid a)))) (\<lambda>inst.
        res_bind (js_prop inst ''entity'') (\<lambda>e.
          Inr (js_with state (js_key (js_str (aa_guid a)))
            (js_with inst ''entity'' (js_details a (JObj (js_own e)) [''name'', ''tags'', ''params''])))))
      else if t = CREATE_SERVICE_BINDING_ACTION_SUCCESS then
        res_bind (js_prop response ''entities'') (\<lambda>entities.
        res_bind (js_prop entities ''serviceBinding'') (\<lambda>newBindings.
        res_bind (js_prop response ''result'') (\<lambda>r. res_bind (js_prop r ''0'') (\<lambda>newGuid.
        res_bind (js_prop newBindings (js_key newGuid)) (\<lambda>newBinding.
        res_bind (metadata_guid newBinding) (\<lambda>serviceBindingGuid.
        res_bind (js_prop state (js_key (detail a ''serviceInstanceGuid''))) (\<lambda>inst.
        res_bind (entity_field inst ''service_bindings'') (\<lambda>bindings.
        res_bind (with_entity_field inst ''service_bindings'' (concat_binding bindings serviceBindingGuid)) (\<lambda>inst'.
          Inr (js_with state (js_key (detail a ''serviceInstanceGuid'')) inst'))))))))))
      else Inr state)"
| "serviceInstanceReducer state _ = Inr state"

subsection \<open>Users: users.reducer.ts and user.types.ts\<close>

text \<open>The role lists of a user, \<open>CfUserRoleParams\<close>, and which one a role belongs to (\<open>properties\<close>).\<close>

definition CfUserRoleParams :: "string list" where
  "CfUserRoleParams =
     [''organizations'', ''managed_organizations'', ''billing_managed_organizations'', ''audited_organizations'',
      ''spaces'', ''managed_spaces'', ''audited_spaces'']"

definition role_param :: "bool \<Rightarrow> string \<Rightarrow> string option" where
  "role_param isSpace permissionType =
     (if isSpace
      then map_of [(''managers'', ''managed_spaces''), (''auditors'', ''audited_spaces''), (''developers'', ''spaces'')]
             permissionType
      else map_of [(''managers'', ''managed_organizations''), (''billing_managers'', ''billing_managed_organizations''),
             (''auditors'', ''audited_organizations''), (''users'', ''organizations'')] permissionType)"

definition isOrgRole :: "string \<Rightarrow> bool" where
  "isOrgRole role \<longleftrightarrow> role = ''audited_organizations'' \<or> role = ''billing_managed_organizations''
     \<or> role = ''managed_organizations'' \<or> role = ''organizations''"

definition updatePermission :: "js \<Rightarrow> string \<Rightarrow> bool \<Rightarrow> string \<Rightarrow> bool \<Rightarrow> js result" where
  "updatePermission user entityGuid isSpace permissionType add =
     (let paramName = (case role_param isSpace permissionType of Some p \<Rightarrow> p | None \<Rightarrow> ''undefined'') in
      res_bind (js_prop user paramName) (\<lambda>v. res_bind (js_array v) (\<lambda>xs.
        Inr (js_with user paramName
          (JArr (if add then xs @ [JStr entityGuid] else filter (\<lambda>g. g \<noteq> JStr entityGuid) xs))))))"

text \<open>
  The roles a user of a response misses: \<open>oldMissingRoles\<close> are those the store recorded, and the new
  record holds the missing ones that were not in it.
\<close>

definition default_missing :: js where
  "default_missing = JObj [(''org'', JArr []), (''space'', JArr [])]"

definition new_missing :: "js \<Rightarrow> js \<Rightarrow> (string list \<times> string list) result" where
  "new_missing entity oldMissing =
     res_fold (\<lambda>(org, space) roleParam.
         res_bind (js_prop entity roleParam) (\<lambda>v.
           if truthy v then Inr (org, space)
           else res_bind (js_prop oldMissing (if isOrgRole roleParam then ''org'' else ''space'')) (\<lambda>old.
             res_bind (js_array old) (\<lambda>xs.
               Inr (if JStr roleParam \<in> set xs then (org, space)
                    else if isOrgRole roleParam then (org @ [roleParam], space)
                    else (org, space @ [roleParam]))))))
       ([], []) CfUserRoleParams"

definition missing_roles :: "string list \<times> string list \<Rightarrow> js" where
  "missing_roles = (\<lambda>(org, space). JObj [(''org'', JArr (map JStr org)), (''space'', JArr (map JStr space))])"

text \<open>\<open>(users[guid] ? users[guid].entity.missingRoles : null) || getDefaultCfUserMissingRoles()\<close>.\<close>

definition old_missing :: "js \<Rightarrow> js \<Rightarrow> js result" where
  "old_missing users guid =
     res_bind (js_prop users (js_key guid)) (\<lambda>known.
     res_bind (if truthy known then entity_field known ''missingRoles'' else Inr JNull) (\<lambda>m.
       Inr (if truthy m then m else default_missing)))"

definition updateUserMissingRoles :: "js \<Rightarrow> js \<Rightarrow> js result" where
  "updateUserMissingRoles users response =
     res_bind (js_prop response ''entities'') (\<lambda>entities.
     res_bind (js_prop entities ''user'') (\<lambda>usersInResponse.
       if \<not> truthy usersInResponse then Inr users
       else res_bind (res_fold (\<lambda>(changes, us) (g, user).
           res_bind (js_prop user ''entity'') (\<lambda>entity.
           res_bind (js_prop entity ''guid'') (\<lambda>guid.
           res_bind (old_missing users guid) (\<lambda>oldMissingRoles.
           res_bind (new_missing entity oldMissingRoles) (\<lambda>newMissingRoles.
             Inr (changes \<or> fst newMissingRoles \<noteq> [] \<or> snd newMissingRoles \<noteq> [],
                  us @ [(g, js_with user ''entity'' (js_with entity ''missingRoles'' (missing_roles newMissingRoles)))]))))))
         (False, []) (js_own usersInResponse))
       (\<lambda>(haveUpdatedUsers, us).
         if haveUpdatedUsers
         then res_bind (deepMergeState (js_own users) (JObj us)) (\<lambda>s. Inr (JObj s))
         else Inr users)))"

fun userReducer :: "js \<Rightarrow> Action \<Rightarrow> js result" where
  "userReducer state (RequestA (APISuccessOrFailedAction t a response)) =
     (if t = ADD_ROLE_SUCCESS \<or> t = REMOVE_ROLE_SUCCESS then
        case aa_change a of
          None \<Rightarrow> Inl TypeError
        | Some ch \<Rightarrow>
            res_bind (js_prop state (cu_userGuid ch)) (\<lambda>user.
            res_bind (js_prop user ''entity'') (\<lambda>entity.
            res_bind (updatePermission entity (cu_entityGuid ch) (cu_isSpace ch) (cu_permissionTypeKey ch)
                (t = ADD_ROLE_SUCCESS)) (\<lambda>entity'.
              Inr (js_with state (cu_userGuid ch) (js_with user ''entity'' entity')))))
      else if t = GET_ORGANIZATION_USERS_SUCCESS then updateUserMissingRoles state response
      else Inr state)"
| "userReducer state _ = Inr state"

fun endpointDisconnectUserReducer :: "js \<Rightarrow> Action \<Rightarrow> js result" where
  "endpointDisconnectUserReducer state (EndpointA (EndpointActionComplete t cfGuid endpointType _)) =
     (if endpointType = ''web'' \<and> t = DISCONNECT_ENDPOINTS_SUCCESS then
        if state = JUndef \<or> state = JNull then Inl TypeError
        else res_bind (res_fold (\<lambda>newUsers u.
            res_bind (entity_field u ''cfGuid'') (\<lambda>c.
              if c = JStr cfGuid then Inr newUsers
              else res_bind (metadata_guid u) (\<lambda>g. Inr (obj_set (js_key g) u newUsers))))
          [] (obj_values (js_own state)))
        (\<lambda>newUsers. Inr (JObj newUsers))
      else Inr state)"
| "endpointDisconnectUserReducer state _ = Inr state"

text \<open>
  The lists of users an organization or space keeps per role. \<open>newEntityState\<close> tests \<open>!add && !exists\<close>
  before it splices at \<open>index\<close>, which is \<open>-1\<close> there: the last user goes.
\<close>

definition newEntityState :: "js \<Rightarrow> ApiAction \<Rightarrow> ChangeUserRole \<Rightarrow> bool \<Rightarrow> js result" where
  "newEntityState state a ch add =
     res_bind (js_prop state (js_key (js_str (aa_guid a)))) (\<lambda>apiResource.
       if \<not> truthy apiResource then Inr state
       else res_bind (entity_field apiResource (cu_permissionTypeKey ch)) (\<lambda>roles.
         if \<not> truthy roles then Inr state
         else res_bind (js_array roles) (\<lambda>rs.
           let exists = JStr (cu_userGuid ch) \<in> set rs in
           if add \<and> \<not> exists
           then res_bind (with_entity_field apiResource (cu_permissionTypeKey ch) (JArr (rs @ [JStr (cu_userGuid ch)])))
             (\<lambda>r. Inr (js_with state (js_key (js_str (aa_guid a))) r))
           else if \<not> add \<and> \<not> exists
           then res_bind (with_entity_field apiResource (cu_permissionTypeKey ch) (JArr (butlast rs)))
             (\<lambda>r. Inr (js_with state (js_key (js_str (aa_guid a))) r))
           else Inr state)))"

fun userSpaceOrgReducer :: "bool \<Rightarrow> js \<Rightarrow> Action \<Rightarrow> js result" where
  "userSpaceOrgReducer isSpace state (RequestA (APISuccessOrFailedAction t a response)) =
     (if t = ADD_ROLE_SUCCESS \<or> t = REMOVE_ROLE_SUCCESS then
        case aa_change a of
          None \<Rightarrow> Inr state
        | Some ch \<Rightarrow>
            if isSpace = cu_isSpace ch then newEntityState state a ch (t = ADD_ROLE_SUCCESS) else Inr state
      else Inr state)"
| "userSpaceOrgReducer isSpace state _ = Inr state"

subsection \<open>Statistics of application instances: app-stats-request.reducer.ts\<close>

text \<open>
  This one works on the request slice: once an application is stopped or scaled to no instances, the
  statistics of the application and of each of its instances (\<open>guid-0\<close>, \<open>guid-1\<close>, ...) that the slice has a
  record of are marked as deleted.
\<close>

definition deleteAppStat :: "string \<Rightarrow> (string, RequestInfoState) obj \<Rightarrow> (string, RequestInfoState) obj" where
  "deleteAppStat key newState =
     (case obj_get newState key of
        None \<Rightarrow> newState
      | Some r \<Rightarrow> obj_set key (r\<lparr>ri_deleting := (ri_deleting r)\<lparr>ds_deleted := True\<rparr>\<rparr>) newState)"

definition instance_keys :: "string \<Rightarrow> js \<Rightarrow> string list" where
  "instance_keys guid instances =
     (case instances of JNum n \<Rightarrow> map (\<lambda>i. guid @ ''-'' @ string_of_nat i) [0..<nat n] | _ \<Rightarrow> [])"

definition markAppStatsAsDeleted ::
  "(string, RequestInfoState) obj option \<Rightarrow> ApiAction \<Rightarrow> (string, RequestInfoState) obj option" where
  "markAppStatsAsDeleted state a =
     (let new = detail a ''newApplication''; existing = detail a ''existingApplication'';
          guid = js_key (js_str (aa_guid a))
      in if \<not> truthy new \<or> \<not> truthy existing then state
         else if js_field new ''state'' \<noteq> JStr ''STOPPED'' \<and> js_field new ''instances'' \<noteq> JNum 0 then state
         else Some (fold deleteAppStat (guid # instance_keys guid (js_field existing ''instances''))
           (case state of Some t \<Rightarrow> t | None \<Rightarrow> [])))"

fun appStatsReducer ::
  "(string, RequestInfoState) obj option \<Rightarrow> Action \<Rightarrow> (string, RequestInfoState) obj option" where
  "appStatsReducer state (RequestA (APISuccessOrFailedAction t a response)) =
     (if t = UPDATE_APP_SUCCESS then markAppStatsAsDeleted state a else state)"
| "appStatsReducer state _ = state"

end
