(* ===== verification/System_Endpoints.thy ===== *)
theory System_Endpoints
  imports Entity_Reducers
begin

section \<open>The endpoints in the entity store: system-endpoints.reducer.ts\<close>

text \<open>
  The endpoint type of the entity store holds what the backend says of the registered endpoints, with two
  properties of the front end: \<open>connectionStatus\<close>, which follows the connect and disconnect actions, and
  \<open>metricsAvailable\<close>.
\<close>

definition connection_status :: "js \<Rightarrow> js" where
  "connection_status endpoint = js_field endpoint ''connectionStatus''"

text \<open>\<open>fetchingEndpointInfo\<close>: an endpoint without a status is being checked.\<close>

definition fetchingEndpointInfo :: "js \<Rightarrow> js result" where
  "fetchingEndpointInfo state =
     res_bind (res_fold (\<lambda>(modified, fetchingState) guid.
         res_bind (js_prop (js_at fetchingState guid) ''connectionStatus'') (\<lambda>status.
           if truthy status then Inr (modified, fetchingState)
           else Inr (True, obj_set guid (js_with (js_at fetchingState guid) ''connectionStatus'' (JStr ''checking''))
                      fetchingState)))
       (False, js_own state) (obj_keys (js_own state)))
     (\<lambda>(modified, fetchingState). Inr (if modified then JObj fetchingState else state))"

definition endpointHasMetrics :: "js \<Rightarrow> bool" where
  "endpointHasMetrics endpoint \<longleftrightarrow> truthy endpoint \<and> truthy (js_field endpoint ''metadata'')
     \<and> truthy (js_field (js_field endpoint ''metadata'') ''metrics'')"

text \<open>
  \<open>getAllEndpointIds(endpoints = {}, payloadEndpoints = {})\<close>: the guids of both, each once; \<open>null\<close> throws.
\<close>

definition or_empty :: "js \<Rightarrow> js" where
  "or_empty v = (if v = JUndef then JObj [] else v)"

definition getAllEndpointIds :: "js \<Rightarrow> js \<Rightarrow> string list result" where
  "getAllEndpointIds endpoints payloadEndpoints =
     res_bind (js_keys (or_empty endpoints)) (\<lambda>a. res_bind (js_keys (or_empty payloadEndpoints)) (\<lambda>b.
       Inr (fold (\<lambda>k ks. if k \<in> set ks then ks else ks @ [k]) (a @ b) [])))"

text \<open>One endpoint of the payload spread over the one of the store.\<close>

definition update_endpoint :: "js \<Rightarrow> (string, js) obj \<Rightarrow> string \<Rightarrow> (string, js) obj result" where
  "update_endpoint payloadEndpoints newState guid =
     res_bind (js_prop payloadEndpoints guid) (\<lambda>endpointInfo.
       Inr (obj_set guid
         (js_with (js_spread (js_at newState guid) endpointInfo) ''metricsAvailable'' (JBool (endpointHasMetrics endpointInfo)))
         newState))"

definition succeedEndpointInfo :: "js \<Rightarrow> js \<Rightarrow> js result" where
  "succeedEndpointInfo state payload_endpoints =
     res_bind (js_keys payload_endpoints) (\<lambda>types.
     res_bind (res_fold (\<lambda>newState type.
         res_bind (getAllEndpointIds (js_at newState type) (js_field payload_endpoints type)) (\<lambda>guids.
           res_fold (update_endpoint (js_field payload_endpoints type)) newState guids))
       (js_own state) types)
     (\<lambda>newState. Inr (JObj newState)))"

definition changeEndpointConnectionStatus :: "js \<Rightarrow> string option \<Rightarrow> string \<Rightarrow> js result" where
  "changeEndpointConnectionStatus state guid connectionStatus =
     (if \<not> truthy_str guid then Inr state
      else res_bind (js_prop state (the guid)) (\<lambda>endpoint.
        Inr (js_with state (the guid) (js_with endpoint ''connectionStatus'' (JStr connectionStatus)))))"

definition updateMetricsInfo :: "js \<Rightarrow> string \<Rightarrow> js \<Rightarrow> string \<Rightarrow> js result" where
  "updateMetricsInfo state endpointGuid response queryType =
     (if queryType = ''targets'' then
        res_bind (js_prop state endpointGuid) (\<lambda>existingEndpoint.
        res_bind (js_prop existingEndpoint ''metadata'') (\<lambda>metadata.
        res_bind (js_prop response ''data'') (\<lambda>targets.
          Inr (js_with state endpointGuid
            (js_with existingEndpoint ''metadata'' (js_with metadata ''metrics_targets'' targets))))))
      else Inr state)"

text \<open>\<open>sessionData.endpoints\<close> as the backend sent it.\<close>

definition session_endpoints :: "SessionData \<Rightarrow> js" where
  "session_endpoints sessionData =
     (case sd_endpoints sessionData of
        None \<Rightarrow> JUndef
      | Some types \<Rightarrow> JObj (obj_map (\<lambda>es. JObj (obj_map (\<lambda>e. JObj (se_info e)) es)) types))"

definition event_guid :: "EndpointAction \<Rightarrow> string option" where
  "event_guid a = (case a of EndpointActionComplete _ g _ _ \<Rightarrow> Some g | EndpointStart _ g _ \<Rightarrow> g)"

text \<open>The status an endpoint event leaves, if it is one the reducer knows.\<close>

definition status_of_event :: "string \<Rightarrow> string option" where
  "status_of_event t =
     (if t = CONNECT_ENDPOINTS_FAILED \<or> t = DISCONNECT_ENDPOINTS_SUCCESS then Some ''disconnected''
      else if t = DISCONNECT_ENDPOINTS_FAILED \<or> t = CONNECT_ENDPOINTS_SUCCESS then Some ''connected''
      else if t = CONNECT_ENDPOINTS \<or> t = DISCONNECT_ENDPOINTS then Some ''checking''
      else None)"

fun systemEndpointsReducer :: "js \<Rightarrow> Action \<Rightarrow> js result" where
  "systemEndpointsReducer state (SystemA (VerifySession _ _)) = fetchingEndpointInfo state"
| "systemEndpointsReducer state (SystemA (GetSystemInfo _)) = fetchingEndpointInfo state"
| "systemEndpointsReducer state (AuthA (VerifiedSession sessionData _)) =
     succeedEndpointInfo state (session_endpoints sessionData)"
| "systemEndpointsReducer state (SystemA (GetSystemSuccess payload _)) =
     res_bind (js_prop payload ''endpoints'') (succeedEndpointInfo state)"
| "systemEndpointsReducer state (EndpointA a) =
     (case status_of_event (endpoint_action_type a) of
        Some status \<Rightarrow> changeEndpointConnectionStatus state (event_guid a) status
      | None \<Rightarrow> Inr state)"
| "systemEndpointsReducer state (SystemA (MetricsAPIActionSuccess endpointGuid response queryType)) =
     updateMetricsInfo state endpointGuid response queryType"
| "systemEndpointsReducer state _ = Inr state"

end
