(* ===== verification/Request_Slices.thy ===== *)
theory Request_Slices
  imports System_Endpoints
begin

section \<open>The two request slices composed: api-request-reducers.generator.ts\<close>

text \<open>
  \<open>requestReducer\<close> and \<open>requestDataReducer\<close> are the base reducers with the reducers of single entity types
  chained after them, as the store runs them.
\<close>

subsection \<open>The two slices: requestReducer and requestDataReducer\<close>

text \<open>
  A reducer of one entity type in the chain: the value is \<open>undefined\<close> when the type is not there.
\<close>

definition on_value :: "(js \<Rightarrow> 'a \<Rightarrow> js result) \<Rightarrow> js option \<Rightarrow> 'a \<Rightarrow> js option result" where
  "on_value red v action =
     res_bind (red (case v of Some j \<Rightarrow> j | None \<Rightarrow> JUndef) action)
       (\<lambda>j. Inr (if j = JUndef then None else Some j))"

definition extraReducers :: "(string, (js option \<Rightarrow> Action \<Rightarrow> js option result) list) obj" where
  "extraReducers =
     [(''user'', [on_value userReducer, on_value endpointDisconnectUserReducer]),
      (''route'', [on_value routeReducer]),
      (''serviceInstance'', [on_value serviceInstanceReducer]),
      (''endpoint'', [on_value systemEndpointsReducer]),
      (''summary'', [on_value updateAppSummaryRoutesReducer]),
      (''application'', [on_value updateApplicationRoutesReducer, on_value endpointDisconnectApplicationReducer]),
      (''space'', [on_value endpointDisconnectApplicationReducer, on_value applicationAddRemoveReducer,
         on_value (userSpaceOrgReducer True)]),
      (''organization'', [on_value updateOrganizationSpaceReducer, on_value endpointDisconnectApplicationReducer,
         on_value (userSpaceOrgReducer False)])]"

definition requestDataReducer :: "(string, js) obj \<Rightarrow> Action \<Rightarrow> (string, js) obj result" where
  "requestDataReducer = chainReducers entitiesReducer extraReducers"

definition requestReducer :: "IRequestState \<Rightarrow> Action \<Rightarrow> IRequestState result" where
  "requestReducer = chainReducers apiRequestReducer [(''stats'', [\<lambda>st action. Inr (appStatsReducer st action)])]"

text \<open>The entity types the slices start with.\<close>

definition entities :: "string list" where
  "entities =
     [''application'', ''stack'', ''space'', ''organization'', ''route'', ''event'', ''endpoint'', ''domain'', ''system'',
      ''routerReducer'', ''createApplication'', ''uaaSetup'', ''user'', ''cloudFoundryInfo'', ''githubRepo'',
      ''githubBranches'', ''githubCommits'', ''environmentVars'', ''stats'', ''summary'', ''quota_definition'',
      ''buildpack'', ''securityGroup'', ''servicePlan'', ''service'', ''serviceBinding'', ''serviceInstance'',
      ''featureFlag'', ''private_domains'', ''space_quota_definition'', ''metrics'', ''userProfile'',
      ''servicePlanVisibility'', ''serviceBroker'']"

subsection \<open>The chain\<close>

text \<open>
  A chain over distinct keys: the base reducer runs first, then each key's reducers on the value that left.
\<close>

lemma chain_loop_get:
  assumes "res_fold (\<lambda>newState (key, reducers).
       res_bind (run_chain reducers a (obj_get newState key)) (\<lambda>nextState.
         case nextState of
           Some v \<Rightarrow> Inr (if nextState \<noteq> obj_get newState key then obj_set key v newState else newState)
         | None \<Rightarrow> Inr newState)) s ex = Inr s'"
    and "wf_obj ex"
  shows "case obj_get ex k of
      None \<Rightarrow> obj_get s' k = obj_get s k
    | Some rs \<Rightarrow> \<exists>v. run_chain rs a (obj_get s k) = Inr v \<and> obj_get s' k = (if v = None then obj_get s k else v)"
  using assms
proof (induction ex arbitrary: s)
  case (Cons p ex)
  obtain k0 rs0 where p: "p = (k0, rs0)" by force
  from Cons.prems(1) obtain v where v: "run_chain rs0 a (obj_get s k0) = Inr v"
    by (auto simp: p res_bind_Inr_iff)
  define t where "t = (case v of Some w \<Rightarrow> if v \<noteq> obj_get s k0 then obj_set k0 w s else s | None \<Rightarrow> s)"
  have step: "(case v of Some w \<Rightarrow> Inr (if v \<noteq> obj_get s k0 then obj_set k0 w s else s) | None \<Rightarrow> Inr s) = Inr t"
    by (cases v) (simp_all add: t_def)
  have rest: "res_fold (\<lambda>newState (key, reducers).
       res_bind (run_chain reducers a (obj_get newState key)) (\<lambda>nextState.
         case nextState of
           Some v \<Rightarrow> Inr (if nextState \<noteq> obj_get newState key then obj_set key v newState else newState)
         | None \<Rightarrow> Inr newState)) t ex = Inr s'"
    using Cons.prems(1) unfolding p by (simp add: v step)
  have "wf_obj ex" and new: "obj_get ex k0 = None" using Cons.prems(2) by (auto simp: p)
  note IH = Cons.IH[OF rest this(1)]
  have t: "obj_get t k = (if k = k0 then if v = None then obj_get s k0 else v else obj_get s k)" for k
    by (cases v) (auto simp: t_def)
  show ?case using IH new by (cases "k = k0") (auto simp: p t v split: option.splits)
qed simp

lemma chain_get:
  assumes "chainReducers base ex s a = Inr s'" and "wf_obj ex"
  shows "\<exists>t. base s a = Inr t \<and> (\<forall>k. case obj_get ex k of
      None \<Rightarrow> obj_get s' k = obj_get t k
    | Some rs \<Rightarrow> \<exists>v. run_chain rs a (obj_get t k) = Inr v \<and> obj_get s' k = (if v = None then obj_get t k else v))"
proof -
  from assms(1) obtain t where t: "base s a = Inr t" and rest: "res_fold (\<lambda>newState (key, reducers).
       res_bind (run_chain reducers a (obj_get newState key)) (\<lambda>nextState.
         case nextState of
           Some v \<Rightarrow> Inr (if nextState \<noteq> obj_get newState key then obj_set key v newState else newState)
         | None \<Rightarrow> Inr newState)) t ex = Inr s'"
    by (auto simp: chainReducers_def res_bind_Inr_iff)
  show ?thesis using t chain_loop_get[OF rest assms(2)] by blast
qed

lemma chain_get_other:
  assumes "chainReducers base ex s a = Inr s'" and "wf_obj ex" and "base s a = Inr t" and "obj_get ex k = None"
  shows "obj_get s' k = obj_get t k"
  using chain_get[OF assms(1,2)] assms(3,4) by (auto dest: spec[of _ k])

lemma chain_get_key:
  assumes "chainReducers base ex s a = Inr s'" and "wf_obj ex" and "base s a = Inr t" and "obj_get ex k = Some rs"
  shows "\<exists>v. run_chain rs a (obj_get t k) = Inr v \<and> obj_get s' k = (if v = None then obj_get t k else v)"
proof -
  from chain_get[OF assms(1,2)] assms(3) have "case obj_get ex k of
      None \<Rightarrow> obj_get s' k = obj_get t k
    | Some rs \<Rightarrow> \<exists>v. run_chain rs a (obj_get t k) = Inr v \<and> obj_get s' k = (if v = None then obj_get t k else v)"
    by auto
  with assms(4) show ?thesis by simp
qed

lemma chain_total:
  assumes "base s a = Inr t" and "wf_obj ex"
    and "\<And>k rs. obj_get ex k = Some rs \<Longrightarrow> \<exists>v. run_chain rs a (obj_get t k) = Inr v"
  shows "\<exists>s'. chainReducers base ex s a = Inr s'"
proof -
  have "\<exists>s'. res_fold (\<lambda>newState (key, reducers).
       res_bind (run_chain reducers a (obj_get newState key)) (\<lambda>nextState.
         case nextState of
           Some v \<Rightarrow> Inr (if nextState \<noteq> obj_get newState key then obj_set key v newState else newState)
         | None \<Rightarrow> Inr newState)) t ex = Inr s'"
    using assms(2,3)
  proof (induction ex arbitrary: t)
    case (Cons p ex)
    obtain k0 rs0 where p: "p = (k0, rs0)" by force
    from Cons.prems(2)[of k0 rs0] obtain v where v: "run_chain rs0 a (obj_get t k0) = Inr v" by (auto simp: p)
    define u where "u = (case v of Some w \<Rightarrow> if v \<noteq> obj_get t k0 then obj_set k0 w t else t | None \<Rightarrow> t)"
    have step: "(case v of Some w \<Rightarrow> Inr (if v \<noteq> obj_get t k0 then obj_set k0 w t else t) | None \<Rightarrow> Inr t) = Inr u"
      by (cases v) (simp_all add: u_def)
    have new: "wf_obj ex" "obj_get ex k0 = None" using Cons.prems(1) by (auto simp: p)
    have "\<exists>v. run_chain rs a (obj_get u k) = Inr v" if k: "obj_get ex k = Some rs" for k rs
    proof -
      from k new(2) have "k \<noteq> k0" by auto
      then have "obj_get u k = obj_get t k" by (cases v) (auto simp: u_def)
      with Cons.prems(2)[of k rs] k \<open>k \<noteq> k0\<close> show ?thesis by (simp add: p)
    qed
    from Cons.IH[OF new(1) this] show ?case by (simp add: p v step)
  qed simp
  with assms(1) show ?thesis by (simp add: chainReducers_def)
qed

lemma run_chain_simps [simp]:
  "run_chain [] a v = Inr v"
  "run_chain (r # rs) a v = res_bind (r v a) (run_chain rs a)"
  by (simp_all add: run_chain_def res_bind_def split: sum.split)

lemma on_value_simps [simp]:
  "on_value r (Some j) a = res_bind (r j a) (\<lambda>j. Inr (if j = JUndef then None else Some j))"
  "on_value r None a = res_bind (r JUndef a) (\<lambda>j. Inr (if j = JUndef then None else Some j))"
  by (simp_all add: on_value_def)

lemma wf_extraReducers: "wf_obj extraReducers"
  by (simp add: extraReducers_def)

subsection \<open>Entities of an endpoint\<close>

text \<open>
  A type of API resources keyed by their guids, and the resources of one Cloud Foundry endpoint: the front end
  writes the endpoint's guid into the entity part of everything it fetches from it.
\<close>

definition resource_keyed :: "string \<Rightarrow> js \<Rightarrow> bool" where
  "resource_keyed g e \<longleftrightarrow> g \<noteq> [] \<and> truthy e \<and> truthy (js_field e ''entity'') \<and> metadata_guid e = Inr (JStr g)"

definition resources_keyed :: "js \<Rightarrow> bool" where
  "resources_keyed v \<longleftrightarrow>
     (case v of JObj ob \<Rightarrow> wf_obj ob \<and> list_all (\<lambda>(g, e). resource_keyed g e) ob | _ \<Rightarrow> False)"

definition of_endpoint :: "string \<Rightarrow> js \<Rightarrow> bool" where
  "of_endpoint ep e \<longleftrightarrow> js_field (js_field e ''entity'') ''cfGuid'' = JStr ep"

definition without_endpoint :: "string \<Rightarrow> js \<Rightarrow> js" where
  "without_endpoint ep v = JObj (filter (\<lambda>(g, e). \<not> of_endpoint ep e) (js_own v))"

lemma obj_set_new: "obj_get ob k = None \<Longrightarrow> obj_set k v ob = ob @ [(k, v)]"
  by (induction ob) (auto split: if_splits)

lemma obj_get_append: "obj_get (a @ b) k = (case obj_get a k of Some v \<Rightarrow> Some v | None \<Rightarrow> obj_get b k)"
  by (induction a) auto

lemma entity_field_truthy:
  "truthy e \<Longrightarrow> truthy (js_field e ''entity'') \<Longrightarrow> entity_field e k = Inr (js_field (js_field e ''entity'') k)"
  by (simp add: entity_field_def truthy_js_prop)

text \<open>The loop both disconnect reducers run: keep what does not belong to the endpoint.\<close>

lemma purge_loop:
  assumes "\<And>e acc. (\<exists>g. resource_keyed g e) \<Longrightarrow> f acc e =
      (if of_endpoint ep e then Inr acc else res_bind (metadata_guid e) (\<lambda>g. Inr (obj_set (js_key g) e acc)))"
    and "wf_obj ob" and "list_all (\<lambda>(g, e). resource_keyed g e) ob" and "\<And>g. obj_get ob g \<noteq> None \<Longrightarrow> obj_get acc g = None"
  shows "res_fold f acc (obj_values ob) = Inr (acc @ filter (\<lambda>(g, e). \<not> of_endpoint ep e) ob)"
  using assms(2-4)
proof (induction ob arbitrary: acc)
  case (Cons p ob)
  obtain g e where p: "p = (g, e)" by force
  have e: "resource_keyed g e" using Cons.prems(2) by (simp add: p)
  then have m: "metadata_guid e = Inr (JStr g)" by (simp add: resource_keyed_def)
  have fe: "f acc e = (if of_endpoint ep e then Inr acc else res_bind (metadata_guid e) (\<lambda>g. Inr (obj_set (js_key g) e acc)))"
    by (rule assms(1)) (use e in blast)
  have acc: "obj_get acc g = None" using Cons.prems(3)[of g] by (simp add: p)
  have IH: "res_fold f acc' (obj_values ob) = Inr (acc' @ filter (\<lambda>(g, e). \<not> of_endpoint ep e) ob)"
    if "\<And>g'. obj_get ob g' \<noteq> None \<Longrightarrow> obj_get acc' g' = None" for acc'
    by (rule Cons.IH) (use Cons.prems that in \<open>auto simp: p\<close>)
  show ?case
  proof (cases "of_endpoint ep e")
    case True
    have "res_fold f acc (obj_values ob) = Inr (acc @ filter (\<lambda>(g, e). \<not> of_endpoint ep e) ob)"
      by (rule IH) (use Cons.prems in \<open>auto simp: p split: if_splits\<close>)
    with True fe show ?thesis by (simp add: p)
  next
    case False
    have "res_fold f (acc @ [(g, e)]) (obj_values ob) = Inr ((acc @ [(g, e)]) @ filter (\<lambda>(g, e). \<not> of_endpoint ep e) ob)"
      by (rule IH) (use Cons.prems in \<open>auto simp: p obj_get_append split: if_splits\<close>)
    with False fe m acc show ?thesis by (simp add: p obj_set_new)
  qed
qed simp

lemma disconnect_apps:
  assumes "resources_keyed v"
  shows "deletionApplicationFromEndpoint v ep = Inr (without_endpoint ep v)"
proof -
  from assms obtain ob where v: "v = JObj ob" and ob: "wf_obj ob" "list_all (\<lambda>(g, e). resource_keyed g e) ob"
    by (auto simp: resources_keyed_def split: js.splits)
  let ?f = "\<lambda>newEntities app. res_bind (entity_field app ''cfGuid'') (\<lambda>c.
            if c = JStr ep then Inr newEntities
            else res_bind (metadata_guid app) (\<lambda>g.
              Inr (if truthy g then obj_set (js_key g) app newEntities else newEntities)))"
  have "res_fold ?f [] (obj_values ob) = Inr ([] @ filter (\<lambda>(g, e). \<not> of_endpoint ep e) ob)"
    by (rule purge_loop[OF _ ob]) (auto simp: resource_keyed_def of_endpoint_def entity_field_truthy)
  then show ?thesis by (simp add: deletionApplicationFromEndpoint_def v without_endpoint_def)
qed

lemma disconnect_users:
  assumes "resources_keyed v"
  shows "endpointDisconnectUserReducer v (EndpointA (EndpointActionComplete DISCONNECT_ENDPOINTS_SUCCESS ep ''web'' i)) =
    Inr (without_endpoint ep v)"
proof -
  from assms obtain ob where v: "v = JObj ob" and ob: "wf_obj ob" "list_all (\<lambda>(g, e). resource_keyed g e) ob"
    by (auto simp: resources_keyed_def split: js.splits)
  let ?f = "\<lambda>newUsers u. res_bind (entity_field u ''cfGuid'') (\<lambda>c.
              if c = JStr ep then Inr newUsers
              else res_bind (metadata_guid u) (\<lambda>g. Inr (obj_set (js_key g) u newUsers)))"
  have "res_fold ?f [] (obj_values ob) = Inr ([] @ filter (\<lambda>(g, e). \<not> of_endpoint ep e) ob)"
    by (rule purge_loop[OF _ ob]) (auto simp: resource_keyed_def of_endpoint_def entity_field_truthy)
  then show ?thesis by (simp add: v without_endpoint_def)
qed

lemma without_endpoint_get:
  assumes "resources_keyed v"
  shows "js_field (without_endpoint ep v) g = (if of_endpoint ep (js_field v g) then JUndef else js_field v g)"
proof -
  from assms obtain ob where v: "v = JObj ob" and ob: "wf_obj ob"
    by (auto simp: resources_keyed_def split: js.splits)
  have "obj_get (filter (\<lambda>(g, e). P e) ob) g = (case obj_get ob g of Some e \<Rightarrow> if P e then Some e else None | None \<Rightarrow> None)" for P
    using ob by (induction ob) auto
  then show ?thesis by (auto simp: v without_endpoint_def of_endpoint_def split: option.splits)
qed

lemma without_endpoint_defined [simp]: "without_endpoint ep v \<noteq> JUndef" "JUndef \<noteq> without_endpoint ep v"
  by (simp_all add: without_endpoint_def)

lemma resources_keyed_defined: "resources_keyed v \<Longrightarrow> v \<noteq> JUndef"
  by (auto simp: resources_keyed_def)

text \<open>What each chain makes of a disconnect; a type that is not there stays so.\<close>

definition disconnected :: "string \<Rightarrow> string \<Rightarrow> js option \<Rightarrow> js option" where
  "disconnected ep K v =
     (case v of
        None \<Rightarrow> None
      | Some w \<Rightarrow>
          if K \<in> {''user'', ''application'', ''space'', ''organization''} then Some (without_endpoint ep w)
          else if K = ''endpoint''
          then Some (js_with w ep (js_with (js_field w ep) ''connectionStatus'' (JStr ''disconnected'')))
          else Some w)"

lemma disconnect_chain:
  assumes rs: "obj_get extraReducers K = Some rs" and ep: "ep \<noteq> []"
    and four: "K \<in> {''user'', ''application'', ''space'', ''organization''} \<Longrightarrow> \<exists>w. v = Some w \<and> resources_keyed w"
    and eps: "K = ''endpoint'' \<Longrightarrow> \<exists>ob. v = Some (JObj ob)"
  shows "\<exists>w. run_chain rs (EndpointA (EndpointActionComplete DISCONNECT_ENDPOINTS_SUCCESS ep ''web'' i)) v = Inr w
    \<and> (if w = None then v else w) = disconnected ep K v"
proof -
  let ?a = "EndpointA (EndpointActionComplete DISCONNECT_ENDPOINTS_SUCCESS ep ''web'' i)"
  note types = endpoint_types
  consider "K \<in> {''user'', ''application'', ''space'', ''organization''}" | "K = ''endpoint''"
    | "K \<in> {''route'', ''serviceInstance'', ''summary''}"
    using rs by (auto simp: extraReducers_def split: if_splits)
  then show ?thesis
  proof cases
    case 1
    then obtain w where w: "v = Some w" "resources_keyed w" using four by blast
    note d = resources_keyed_defined[OF w(2)]
    show ?thesis using 1 rs
      by (auto simp: extraReducers_def w d disconnected_def disconnect_apps[OF w(2)]
        disconnect_users[OF w(2)] simp del: endpointDisconnectUserReducer.simps split: if_splits)
  next
    case 2
    then obtain ob where v: "v = Some (JObj ob)" using eps by blast
    then show ?thesis using 2 rs ep
      by (auto simp: extraReducers_def disconnected_def status_of_event_def types changeEndpointConnectionStatus_def
        event_guid_def js_with_def split: if_splits)
  next
    case 3
    then show ?thesis using rs
      by (cases v) (auto simp: extraReducers_def disconnected_def split: if_splits)
  qed
qed

section \<open>Properties of the composed slices\<close>

text \<open>
  C35: Disconnecting a Cloud Foundry endpoint purges the entity store of its users, applications, spaces and
  organizations, and marks the endpoint as disconnected: these entities are gone, every other entity of these
  types, and every entity of all other types (the endpoint's routes and service instances too), is the one it
  was.
\<close>

theorem disconnect_purges_endpoint:
  assumes "ep \<noteq> []" and "obj_get s ''endpoint'' = Some (JObj eps)"
    and "list_all (\<lambda>K. resources_keyed (js_at s K)) [''user'', ''application'', ''space'', ''organization'']"
  shows "\<exists>s'. requestDataReducer s
        (EndpointA (EndpointActionComplete DISCONNECT_ENDPOINTS_SUCCESS ep ''web'' i)) = Inr s'
    \<and> (\<forall>K g. K \<noteq> ''endpoint'' \<longrightarrow> entity_at s' K g =
        (if K \<in> {''user'', ''application'', ''space'', ''organization''} \<and> of_endpoint ep (entity_at s K g)
         then JUndef else entity_at s K g))
    \<and> connection_status (entity_at s' ''endpoint'' ep) = JStr ''disconnected''
    \<and> (\<forall>g. g \<noteq> ep \<longrightarrow> entity_at s' ''endpoint'' g = entity_at s ''endpoint'' g)"
proof -
  let ?a = "EndpointA (EndpointActionComplete DISCONNECT_ENDPOINTS_SUCCESS ep ''web'' i)"
  have four: "\<exists>w. obj_get s K = Some w \<and> resources_keyed w"
    if "K \<in> {''user'', ''application'', ''space'', ''organization''}" for K
    using assms(3) that by (auto simp: js_at_def resources_keyed_def split: option.splits)
  have chain: "\<exists>w. run_chain rs ?a (obj_get s K) = Inr w \<and> (if w = None then obj_get s K else w) = disconnected ep K (obj_get s K)"
    if "obj_get extraReducers K = Some rs" for K rs
    by (rule disconnect_chain[OF that assms(1)]) (use four assms(2) in auto)
  have base: "entitiesReducer s ?a = Inr s" by simp
  have "\<exists>s'. chainReducers entitiesReducer extraReducers s ?a = Inr s'"
    by (rule chain_total[where base = entitiesReducer and t = s, OF _ wf_extraReducers]) (simp, use chain in blast)
  then obtain s' where s': "requestDataReducer s ?a = Inr s'"
    unfolding requestDataReducer_def by blast
  have get: "obj_get s' K = disconnected ep K (obj_get s K)" for K
  proof (cases "obj_get extraReducers K")
    case None
    with chain_get_other[OF s'[unfolded requestDataReducer_def] wf_extraReducers base]
    have "obj_get s' K = obj_get s K" by blast
    with None show ?thesis
      by (cases "obj_get s K") (auto simp: disconnected_def extraReducers_def split: if_splits)
  next
    case (Some rs)
    from chain_get_key[OF s'[unfolded requestDataReducer_def] wf_extraReducers base Some]
    obtain v where "run_chain rs ?a (obj_get s K) = Inr v" "obj_get s' K = (if v = None then obj_get s K else v)"
      by blast
    with chain[OF Some] show ?thesis by auto
  qed
  have "entity_at s' K g = (if K \<in> {''user'', ''application'', ''space'', ''organization''} \<and> of_endpoint ep (entity_at s K g)
         then JUndef else entity_at s K g)" if "K \<noteq> ''endpoint''" for K g
  proof (cases "K \<in> {''user'', ''application'', ''space'', ''organization''}")
    case True
    then obtain w where w: "obj_get s K = Some w" "resources_keyed w" using four by blast
    have "entity_at s' K g = js_field (without_endpoint ep w) g"
      using True get[of K] w(1) by (simp add: entity_at_def js_at_def disconnected_def)
    then show ?thesis using True w by (simp add: without_endpoint_get entity_at_def js_at_def)
  next
    case False
    then have "obj_get s' K = obj_get s K" using get[of K] that by (cases "obj_get s K") (auto simp: disconnected_def)
    with False show ?thesis by (simp add: entity_at_def js_at_def)
  qed
  moreover have "connection_status (entity_at s' ''endpoint'' ep) = JStr ''disconnected''"
    "\<forall>g. g \<noteq> ep \<longrightarrow> entity_at s' ''endpoint'' g = entity_at s ''endpoint'' g"
    using get[of "''endpoint''"] assms(2)
    by (simp_all add: disconnected_def entity_at_def js_at_def js_with_def connection_status_def)
  ultimately show ?thesis using s' by blast
qed

theorem disconnect_purges_endpoint_witness:
  "\<exists>s'. requestDataReducer
      [(''endpoint'', JObj []), (''user'', JObj []), (''application'', JObj []), (''organization'', JObj []),
       (''route'', JObj [(''r1'', JObj [(''entity'', JObj [(''cfGuid'', JStr ''cf1'')])])]),
       (''space'', JObj [(''s1'', JObj [(''entity'', JObj [(''cfGuid'', JStr ''cf1'')]), (''metadata'', JObj [(''guid'', JStr ''s1'')])]),
          (''s2'', JObj [(''entity'', JObj [(''cfGuid'', JStr ''cf2'')]), (''metadata'', JObj [(''guid'', JStr ''s2'')])])])]
      (EndpointA (EndpointActionComplete DISCONNECT_ENDPOINTS_SUCCESS ''cf1'' ''web'' None)) = Inr s'
    \<and> entity_at s' ''space'' ''s1'' = JUndef \<and> entity_at s' ''space'' ''s2'' \<noteq> JUndef
    \<and> entity_at s' ''route'' ''r1'' \<noteq> JUndef"
proof -
  let ?s = "[(''endpoint'', JObj []), (''user'', JObj []), (''application'', JObj []), (''organization'', JObj []),
       (''route'', JObj [(''r1'', JObj [(''entity'', JObj [(''cfGuid'', JStr ''cf1'')])])]),
       (''space'', JObj [(''s1'', JObj [(''entity'', JObj [(''cfGuid'', JStr ''cf1'')]), (''metadata'', JObj [(''guid'', JStr ''s1'')])]),
          (''s2'', JObj [(''entity'', JObj [(''cfGuid'', JStr ''cf2'')]), (''metadata'', JObj [(''guid'', JStr ''s2'')])])])]"
  have "\<exists>s'. requestDataReducer ?s (EndpointA (EndpointActionComplete DISCONNECT_ENDPOINTS_SUCCESS ''cf1'' ''web'' None)) = Inr s'
    \<and> (\<forall>K g. K \<noteq> ''endpoint'' \<longrightarrow> entity_at s' K g =
        (if K \<in> {''user'', ''application'', ''space'', ''organization''} \<and> of_endpoint ''cf1'' (entity_at ?s K g)
         then JUndef else entity_at ?s K g))
    \<and> connection_status (entity_at s' ''endpoint'' ''cf1'') = JStr ''disconnected''
    \<and> (\<forall>g. g \<noteq> ''cf1'' \<longrightarrow> entity_at s' ''endpoint'' g = entity_at ?s ''endpoint'' g)"
    by (rule disconnect_purges_endpoint)
      (simp_all add: resources_keyed_def resource_keyed_def metadata_guid_def js_at_def)
  then obtain s' where s': "requestDataReducer ?s (EndpointA (EndpointActionComplete DISCONNECT_ENDPOINTS_SUCCESS ''cf1'' ''web'' None)) = Inr s'"
    and g: "\<And>K g. K \<noteq> ''endpoint'' \<Longrightarrow> entity_at s' K g =
        (if K \<in> {''user'', ''application'', ''space'', ''organization''} \<and> of_endpoint ''cf1'' (entity_at ?s K g)
         then JUndef else entity_at ?s K g)" by blast
  have "entity_at s' ''space'' ''s1'' = JUndef" "entity_at s' ''space'' ''s2'' \<noteq> JUndef" "entity_at s' ''route'' ''r1'' \<noteq> JUndef"
    using g[of "''space''" "''s1''"] g[of "''space''" "''s2''"] g[of "''route''" "''r1''"]
    by (simp_all add: entity_at_def js_at_def of_endpoint_def)
  with s' show ?thesis by blast
qed

text \<open>The success action of adding or removing a role.\<close>

definition role_event :: "bool \<Rightarrow> ApiAction \<Rightarrow> js \<Rightarrow> Action" where
  "role_event add a response =
     RequestA (APISuccessOrFailedAction (if add then ADD_ROLE_SUCCESS else REMOVE_ROLE_SUCCESS) a response)"

text \<open>
  The users an organization or a space lists under a role, after the role was given to or taken from a user:
  giving appends a user who is not listed; taking never removes the user who is listed, and when the user is not
  listed it drops the last one. Entities of the other kind, and all other entities of the same kind, stay.
\<close>

theorem role_list_after_change:
  assumes "js_prop state g = Inr res" and "truthy res"
    and "entity_field res (cu_permissionTypeKey ch) = Inr (JArr rs)"
    and "aa_guid a = Some g" and "aa_change a = Some ch"
  shows "\<exists>s'. userSpaceOrgReducer (cu_isSpace ch) state (role_event add a resp) = Inr s'
    \<and> entity_field (js_field s' g) (cu_permissionTypeKey ch) = Inr (JArr
        (if JStr (cu_userGuid ch) \<in> set rs then rs
         else if add then rs @ [JStr (cu_userGuid ch)] else butlast rs))
    \<and> (\<forall>g'. g' \<noteq> g \<longrightarrow> js_field s' g' = js_field state g')
    \<and> userSpaceOrgReducer (\<not> cu_isSpace ch) state (role_event add a resp) = Inr state"
proof -
  from assms(1) have res: "js_field state g = res" by (auto simp: js_prop_Inr)
  from assms(3) obtain e where e: "js_prop res ''entity'' = Inr e" "js_prop e (cu_permissionTypeKey ch) = Inr (JArr rs)"
    by (auto simp: entity_field_def res_bind_Inr_iff)
  show ?thesis
    using assms e res
    by (auto simp: role_event_def role_change_types newEntityState_def js_str_def with_entity_field_def entity_field_def Let_def)
qed

theorem role_list_after_change_witness:
  "\<exists>s'. userSpaceOrgReducer True (JObj [(''s1'', JObj [(''entity'', JObj [(''managers'', JArr [JStr ''u1'', JStr ''u2''])])])])
      (role_event False ((entity_action ''space'' ''s1'')\<lparr>aa_change := Some \<lparr>cu_userGuid = ''u3'',
         cu_permissionTypeKey = ''managers'', cu_entityGuid = ''s1'', cu_isSpace = True, cu_updateConnectedUser = False,
         cu_orgGuid = None\<rparr>\<rparr>) JUndef) = Inr s'
    \<and> entity_field (js_field s' ''s1'') ''managers'' = Inr (JArr [JStr ''u1''])"
proof -
  let ?ch = "\<lparr>cu_userGuid = ''u3'', cu_permissionTypeKey = ''managers'', cu_entityGuid = ''s1'', cu_isSpace = True,
    cu_updateConnectedUser = False, cu_orgGuid = None\<rparr>"
  let ?st = "JObj [(''s1'', JObj [(''entity'', JObj [(''managers'', JArr [JStr ''u1'', JStr ''u2''])])])]"
  let ?a = "(entity_action ''space'' ''s1'')\<lparr>aa_change := Some ?ch\<rparr>"
  have "\<exists>s'. userSpaceOrgReducer (cu_isSpace ?ch) ?st (role_event False ?a JUndef) = Inr s'
    \<and> entity_field (js_field s' ''s1'') (cu_permissionTypeKey ?ch) = Inr (JArr
        (if JStr (cu_userGuid ?ch) \<in> set [JStr ''u1'', JStr ''u2''] then [JStr ''u1'', JStr ''u2'']
         else if False then [JStr ''u1'', JStr ''u2''] @ [JStr (cu_userGuid ?ch)] else butlast [JStr ''u1'', JStr ''u2'']))
    \<and> (\<forall>g'. g' \<noteq> ''s1'' \<longrightarrow> js_field s' g' = js_field ?st g')
    \<and> userSpaceOrgReducer (\<not> cu_isSpace ?ch) ?st (role_event False ?a JUndef) = Inr ?st"
    by (rule role_list_after_change[where res = "JObj [(''entity'', JObj [(''managers'', JArr [JStr ''u1'', JStr ''u2''])])]"])
      (simp_all add: plain_actions entity_field_def js_field_def)
  then obtain s' where "userSpaceOrgReducer (cu_isSpace ?ch) ?st (role_event False ?a JUndef) = Inr s'"
    and "entity_field (js_field s' ''s1'') (cu_permissionTypeKey ?ch) = Inr (JArr
        (if JStr (cu_userGuid ?ch) \<in> set [JStr ''u1'', JStr ''u2''] then [JStr ''u1'', JStr ''u2'']
         else if False then [JStr ''u1'', JStr ''u2''] @ [JStr (cu_userGuid ?ch)] else butlast [JStr ''u1'', JStr ''u2'']))"
    by blast
  then show ?thesis by (intro exI[of _ s']) simp
qed

text \<open>
  A role given to a user and taken again, in the users of the entity store: both actions succeed when the user and
  its list for the role are there, and the list ends as the old one without the guid, so as the old one if the
  user did not have the role; the user's other properties and the other users are untouched.
\<close>

theorem user_role_roundtrip:
  assumes "js_prop state (cu_userGuid ch) = Inr user" and "js_prop user ''entity'' = Inr e"
    and "role_param (cu_isSpace ch) (cu_permissionTypeKey ch) = Some p" and "js_prop e p = Inr (JArr xs)"
    and "aa_change a = Some ch"
  shows "\<exists>s1 s2. userReducer state (role_event True a r1) = Inr s1
    \<and> entity_field (js_field s1 (cu_userGuid ch)) p = Inr (JArr (xs @ [JStr (cu_entityGuid ch)]))
    \<and> userReducer s1 (role_event False a r2) = Inr s2
    \<and> entity_field (js_field s2 (cu_userGuid ch)) p = Inr (JArr (filter (\<lambda>g. g \<noteq> JStr (cu_entityGuid ch)) xs))
    \<and> (JStr (cu_entityGuid ch) \<notin> set xs \<longrightarrow> entity_field (js_field s2 (cu_userGuid ch)) p = Inr (JArr xs))
    \<and> (\<forall>q. q \<noteq> p \<longrightarrow> entity_field (js_field s2 (cu_userGuid ch)) q = Inr (js_field e q))
    \<and> (\<forall>u. u \<noteq> cu_userGuid ch \<longrightarrow> js_field s2 u = js_field state u)"
proof -
  have same: "filter (\<lambda>g. g \<noteq> JStr (cu_entityGuid ch)) xs = xs" if "JStr (cu_entityGuid ch) \<notin> set xs"
    using that by (induction xs) auto
  show ?thesis
    using assms
    by (auto simp: role_event_def role_change_types updatePermission_def entity_field_def same Let_def)
qed

theorem user_role_roundtrip_witness:
  "\<exists>s1 s2. userReducer (JObj [(''u1'', JObj [(''entity'', JObj [(''spaces'', JArr [JStr ''s1''])])])])
        (role_event True ((entity_action ''space'' ''s2'')\<lparr>aa_change := Some \<lparr>cu_userGuid = ''u1'',
           cu_permissionTypeKey = ''developers'', cu_entityGuid = ''s2'', cu_isSpace = True,
           cu_updateConnectedUser = False, cu_orgGuid = None\<rparr>\<rparr>) JUndef) = Inr s1
    \<and> userReducer s1 (role_event False ((entity_action ''space'' ''s2'')\<lparr>aa_change := Some \<lparr>cu_userGuid = ''u1'',
           cu_permissionTypeKey = ''developers'', cu_entityGuid = ''s2'', cu_isSpace = True,
           cu_updateConnectedUser = False, cu_orgGuid = None\<rparr>\<rparr>) JUndef) = Inr s2
    \<and> entity_field (js_field s2 ''u1'') ''spaces'' = Inr (JArr [JStr ''s1''])"
proof -
  let ?ch = "\<lparr>cu_userGuid = ''u1'', cu_permissionTypeKey = ''developers'', cu_entityGuid = ''s2'', cu_isSpace = True,
    cu_updateConnectedUser = False, cu_orgGuid = None\<rparr>"
  let ?st = "JObj [(''u1'', JObj [(''entity'', JObj [(''spaces'', JArr [JStr ''s1''])])])]"
  let ?a = "(entity_action ''space'' ''s2'')\<lparr>aa_change := Some ?ch\<rparr>"
  have "js_prop ?st (cu_userGuid ?ch) = Inr (JObj [(''entity'', JObj [(''spaces'', JArr [JStr ''s1''])])])"
    "js_prop (JObj [(''entity'', JObj [(''spaces'', JArr [JStr ''s1''])])]) ''entity'' = Inr (JObj [(''spaces'', JArr [JStr ''s1''])])"
    "role_param (cu_isSpace ?ch) (cu_permissionTypeKey ?ch) = Some ''spaces''"
    "js_prop (JObj [(''spaces'', JArr [JStr ''s1''])]) ''spaces'' = Inr (JArr [JStr ''s1''])"
    "aa_change ?a = Some ?ch" "JStr (cu_entityGuid ?ch) \<notin> set [JStr ''s1'']"
    by (simp_all add: js_field_def role_param_def)
  from user_role_roundtrip[OF this(1-5), of JUndef JUndef] this(6)
  obtain s1 s2 where "userReducer ?st (role_event True ?a JUndef) = Inr s1"
    "userReducer s1 (role_event False ?a JUndef) = Inr s2"
    "entity_field (js_field s2 (cu_userGuid ?ch)) ''spaces'' = Inr (JArr [JStr ''s1''])"
    by blast
  then show ?thesis by (intro exI[of _ s1] exI[of _ s2]) simp
qed

text \<open>The answer to the creation of an application.\<close>

definition created_app :: "string \<Rightarrow> js \<Rightarrow> js" where
  "created_app g app = JObj [(''entities'', JObj [(''application'', JObj [(g, app)])])]"

text \<open>
  Creating an application and the list of applications of its space. If the store has the space and its list,
  the new guid is appended to that list and no other space changes; if the space has no list, nothing changes; if
  the store does not have the space, the reducer throws a TypeError, and so the whole entity slice throws.
\<close>

theorem created_app_joins_space:
  assumes "entity_field app ''space_guid'' = Inr (JStr sp)" and "metadata_guid app = Inr (JStr g)"
  shows "(obj_get ob sp = None \<longrightarrow>
      applicationAddRemoveReducer (JObj ob) (RequestA (APISuccessOrFailedAction CREATE_APP_SUCCESS a (created_app g app))) =
        Inl TypeError
      \<and> (obj_get s ''space'' = Some (JObj ob) \<longrightarrow>
          (\<forall>s'. requestDataReducer s (RequestA (APISuccessOrFailedAction CREATE_APP_SUCCESS a (created_app g app))) \<noteq> Inr s')))
    \<and> (obj_get ob sp = Some (JObj [(''entity'', JObj e), (''metadata'', m)]) \<and> obj_get e ''apps'' = None \<longrightarrow>
      applicationAddRemoveReducer (JObj ob) (RequestA (APISuccessOrFailedAction CREATE_APP_SUCCESS a (created_app g app))) =
        Inr (JObj ob))
    \<and> (obj_get ob sp = Some (JObj [(''entity'', JObj e), (''metadata'', m)]) \<and> obj_get e ''apps'' = Some (JArr xs)
        \<and> obj_get e ''entity'' = None \<and> wf_obj e \<longrightarrow>
      (\<exists>s'. applicationAddRemoveReducer (JObj ob) (RequestA (APISuccessOrFailedAction CREATE_APP_SUCCESS a (created_app g app))) =
          Inr s'
        \<and> entity_field (js_field s' sp) ''apps'' = Inr (JArr (xs @ [JStr g]))
        \<and> (\<forall>g'. g' \<noteq> sp \<longrightarrow> js_field s' g' = js_field (JObj ob) g')))"
proof -
  let ?act = "RequestA (APISuccessOrFailedAction CREATE_APP_SUCCESS a (created_app g app))"
  note defs = addApplicationToSpace_def created_app_def merge_spaces_def assms(1,2)
  have none: "applicationAddRemoveReducer (JObj ob) ?act = Inl TypeError" if "obj_get ob sp = None"
    using that by (simp add: defs entity_field_def[of JUndef])
  have throws: "requestDataReducer s ?act \<noteq> Inr s'" if "obj_get ob sp = None" "obj_get s ''space'' = Some (JObj ob)" for s'
  proof
    assume run: "requestDataReducer s ?act = Inr s'"
    have "entitiesReducer s ?act = Inr s" by simp
    from chain_get_key[OF run[unfolded requestDataReducer_def] wf_extraReducers this, of "''space''"] that none[OF that(1)]
    show False by (simp add: extraReducers_def)
  qed
  have no_list: "applicationAddRemoveReducer (JObj ob) ?act = Inr (JObj ob)"
    if "obj_get ob sp = Some (JObj [(''entity'', JObj e), (''metadata'', m)])" "obj_get e ''apps'' = None"
    using that by (simp add: defs entity_field_def[of "JObj [(''entity'', JObj e), (''metadata'', m)]"])
  have listed: "\<exists>s'. applicationAddRemoveReducer (JObj ob) ?act = Inr s'
        \<and> entity_field (js_field s' sp) ''apps'' = Inr (JArr (xs @ [JStr g]))
        \<and> (\<forall>g'. g' \<noteq> sp \<longrightarrow> js_field s' g' = js_field (JObj ob) g')"
    if "obj_get ob sp = Some (JObj [(''entity'', JObj e), (''metadata'', m)])" "obj_get e ''apps'' = Some (JArr xs)"
      "obj_get e ''entity'' = None" "wf_obj e"
  proof -
    have apps: "entity_field (JObj [(''entity'', JObj e), (''metadata'', m)]) ''apps'' = Inr (JArr xs)"
      using that by (simp add: entity_field_def)
    let ?v = "obj_spread e (obj_set ''apps'' (JArr (xs @ [JStr g])) e)"
    let ?n = "if truthy m then JObj (obj_spread (js_own m) (js_own m)) else m"
    have "applicationAddRemoveReducer (JObj ob) ?act = merge_spaces (JObj ob) [(sp, apps_update (xs @ [JStr g]))]"
      using that by (simp add: addApplicationToSpace_def created_app_def assms(1,2) apps)
    also have "\<dots> = Inr (JObj (obj_set sp (JObj [(''entity'', JObj ?v), (''metadata'', ?n)]) ob))"
      using that by (simp add: merge_spaces_def apps_update_def deepMergeState_def deepMergeType_def deepMergeIds_def
        shouldMerge_def mergeEntity_def js_at_def js_spread_def)
    finally have run: "applicationAddRemoveReducer (JObj ob) ?act = \<dots>" .
    have "obj_get ?v ''apps'' = Some (JArr (xs @ [JStr g]))"
      using that by (simp add: obj_get_spread wf_obj_set)
    then show ?thesis unfolding run by (simp add: entity_field_def)
  qed
  show ?thesis using none throws no_list listed by blast
qed

theorem created_app_joins_space_witness:
  "\<exists>s'. applicationAddRemoveReducer (JObj [(''s1'', JObj [(''entity'', JObj [(''apps'', JArr [JStr ''a1''])]), (''metadata'', JObj [])])])
      (RequestA (APISuccessOrFailedAction CREATE_APP_SUCCESS (entity_action ''application'' ''a2'')
        (created_app ''a2'' (JObj [(''entity'', JObj [(''space_guid'', JStr ''s1'')]), (''metadata'', JObj [(''guid'', JStr ''a2'')])])))) = Inr s'
    \<and> entity_field (js_field s' ''s1'') ''apps'' = Inr (JArr [JStr ''a1'', JStr ''a2''])"
proof -
  let ?app = "JObj [(''entity'', JObj [(''space_guid'', JStr ''s1'')]), (''metadata'', JObj [(''guid'', JStr ''a2'')])]"
  have "entity_field ?app ''space_guid'' = Inr (JStr ''s1'')" "metadata_guid ?app = Inr (JStr ''a2'')"
    by (simp_all add: entity_field_def metadata_guid_def js_field_def)
  from created_app_joins_space[OF this,
      where ob = "[(''s1'', JObj [(''entity'', JObj [(''apps'', JArr [JStr ''a1''])]), (''metadata'', JObj [])])]"
      and e = "[(''apps'', JArr [JStr ''a1''])]" and m = "JObj []" and xs = "[JStr ''a1'']" and a = "entity_action ''application'' ''a2''"]
  show ?thesis by (force simp: wf_obj_def)
qed

end
