(* ===== verification/Roles.thy ===== *)
theory Roles
  imports Actions Slices
begin

section \<open>The roles of the connected user: store/reducers/current-user-roles-reducer\<close>

text \<open>
  The \<open>currentUserRoles\<close> slice keeps what the user may do: for the console itself (\<open>internal\<close>) and, per
  Cloud Foundry endpoint, the global roles that follow from the token's scopes and the roles in its
  organizations and spaces. \<open>currentUserRolesReducer\<close> fills it from the session, from the answers to the
  seven relation requests, and from role changes, deletions and endpoint events. Reading a property of an
  endpoint or organization that is not there throws.

  Role flags are read and written by name (\<open>org_flag\<close>, \<open>set_org_flag\<close>); a name that is no flag of the
  record is read as \<open>undefined\<close> (\<open>None\<close>), and writing it adds a property nothing reads.
\<close>

subsection \<open>Types: current-user-roles.types.ts\<close>

record RolesRequestState =
  rs_initialised :: bool
  rs_fetching :: bool
  rs_error :: bool

record IGlobalRolesState =
  gr_isAdmin :: bool
  gr_isReadOnlyAdmin :: bool
  gr_isGlobalAuditor :: bool
  gr_canRead :: bool
  gr_canWrite :: bool
  gr_scopes :: "string list"

record ISpaceRoleState =
  sr_orgId :: "string option"
  sr_isManager :: bool
  sr_isAuditor :: bool
  sr_isDeveloper :: bool

record IOrgRoleState =
  or_isManager :: bool
  or_isAuditor :: bool
  or_isBillingManager :: bool
  or_isUser :: bool
  or_spaceGuids :: "string list"

type_synonym ISpacesRoleState = "(string, ISpaceRoleState) obj"
type_synonym IOrgsRoleState = "(string, IOrgRoleState) obj"

record ICfRolesState =
  cr_global :: IGlobalRolesState
  cr_spaces :: ISpacesRoleState
  cr_organizations :: IOrgsRoleState
  cr_state :: RolesRequestState

type_synonym IAllCfRolesState = "(string, ICfRolesState) obj"

record IStratosRolesState =
  st_isAdmin :: bool
  st_scopes :: "string list"

record ICurrentUserRolesState =
  ur_internal :: IStratosRolesState
  ur_cf :: IAllCfRolesState
  ur_state :: RolesRequestState

definition getDefaultRolesRequestState :: RolesRequestState where
  "getDefaultRolesRequestState = \<lparr>rs_initialised = False, rs_fetching = False, rs_error = False\<rparr>"

definition getDefaultEndpointRoles :: ICfRolesState where
  "getDefaultEndpointRoles =
     \<lparr>cr_global = \<lparr>gr_isAdmin = False, gr_isReadOnlyAdmin = False, gr_isGlobalAuditor = False,
        gr_canRead = False, gr_canWrite = False, gr_scopes = []\<rparr>,
      cr_spaces = [], cr_organizations = [], cr_state = getDefaultRolesRequestState\<rparr>"

definition getDefaultState :: ICurrentUserRolesState where
  "getDefaultState =
     \<lparr>ur_internal = \<lparr>st_isAdmin = False, st_scopes = []\<rparr>, ur_cf = [], ur_state = getDefaultRolesRequestState\<rparr>"

subsection \<open>Names of roles and scopes: current-user-permissions.config.ts\<close>

definition CF_ADMIN_GROUP :: string where "CF_ADMIN_GROUP = ''cloud_controller.admin''"
definition CF_READ_ONLY_ADMIN_GROUP :: string where "CF_READ_ONLY_ADMIN_GROUP = ''cloud_controller.admin_read_only''"
definition CF_ADMIN_GLOBAL_AUDITOR_GROUP :: string where
  "CF_ADMIN_GLOBAL_AUDITOR_GROUP = ''cloud_controller.global_auditor''"
definition CF_WRITE_SCOPE :: string where "CF_WRITE_SCOPE = ''cloud_controller.write''"
definition CF_READ_SCOPE :: string where "CF_READ_SCOPE = ''cloud_controller.write''"

lemmas scope_strings =
  CF_ADMIN_GROUP_def CF_READ_ONLY_ADMIN_GROUP_def CF_ADMIN_GLOBAL_AUDITOR_GROUP_def CF_WRITE_SCOPE_def CF_READ_SCOPE_def

fun org_flag :: "IOrgRoleState \<Rightarrow> string \<Rightarrow> bool option" where
  "org_flag r p =
     (if p = ''isManager'' then Some (or_isManager r)
      else if p = ''isAuditor'' then Some (or_isAuditor r)
      else if p = ''isBillingManager'' then Some (or_isBillingManager r)
      else if p = ''isUser'' then Some (or_isUser r) else None)"

fun set_org_flag :: "string \<Rightarrow> bool \<Rightarrow> IOrgRoleState \<Rightarrow> IOrgRoleState" where
  "set_org_flag p b r =
     (if p = ''isManager'' then r\<lparr>or_isManager := b\<rparr>
      else if p = ''isAuditor'' then r\<lparr>or_isAuditor := b\<rparr>
      else if p = ''isBillingManager'' then r\<lparr>or_isBillingManager := b\<rparr>
      else if p = ''isUser'' then r\<lparr>or_isUser := b\<rparr> else r)"

fun space_flag :: "ISpaceRoleState \<Rightarrow> string \<Rightarrow> bool option" where
  "space_flag r p =
     (if p = ''isManager'' then Some (sr_isManager r)
      else if p = ''isAuditor'' then Some (sr_isAuditor r)
      else if p = ''isDeveloper'' then Some (sr_isDeveloper r) else None)"

fun set_space_flag :: "string \<Rightarrow> bool \<Rightarrow> ISpaceRoleState \<Rightarrow> ISpaceRoleState" where
  "set_space_flag p b r =
     (if p = ''isManager'' then r\<lparr>sr_isManager := b\<rparr>
      else if p = ''isAuditor'' then r\<lparr>sr_isAuditor := b\<rparr>
      else if p = ''isDeveloper'' then r\<lparr>sr_isDeveloper := b\<rparr> else r)"

declare org_flag.simps [simp del] set_org_flag.simps [simp del] space_flag.simps [simp del] set_space_flag.simps [simp del]

subsection \<open>Adding and removing roles: current-user-reducer.helpers.ts\<close>

text \<open>\<open>roleFinalReducer\<close>: the roles of one organization or space after a relation is found or not.\<close>

type_synonym 'r roleFinalReducer =
  "'r option \<Rightarrow> UserRelationTypes \<Rightarrow> bool \<Rightarrow> RelationResource option \<Rightarrow> 'r result"

definition addNewRoles ::
  "(string, 'r) obj \<Rightarrow> UserRelationTypes \<Rightarrow> RelationResource list \<Rightarrow> 'r roleFinalReducer \<Rightarrow>
   ((string, 'r) obj \<times> string list) result" where
  "addNewRoles state relationType datas role =
     res_fold (\<lambda>(newState, addedIds) d.
         res_bind (role (obj_get newState (rr_guid d)) relationType True (Some d)) (\<lambda>r.
           Inr (obj_set (rr_guid d) r newState, addedIds @ [rr_guid d])))
       (state, []) datas"

definition removeOldRoles ::
  "(string, 'r) obj \<Rightarrow> UserRelationTypes \<Rightarrow> string list \<Rightarrow> 'r roleFinalReducer \<Rightarrow> (string, 'r) obj result" where
  "removeOldRoles state relationType newIds role =
     res_fold (\<lambda>currentState i.
         if i \<in> set newIds then Inr state
         else res_bind (role (obj_get currentState i) relationType False None) (\<lambda>r.
           Inr (obj_set i r currentState)))
       state (obj_keys state)"

definition isOrgRelation :: "UserRelationTypes \<Rightarrow> bool" where
  "isOrgRelation t \<longleftrightarrow>
     t = AUDITED_ORGANIZATIONS \<or> t = BILLING_MANAGED_ORGANIZATION \<or> t = MANAGED_ORGANIZATION \<or> t = ORGANIZATIONS"

definition isSpaceRelation :: "UserRelationTypes \<Rightarrow> bool" where
  "isSpaceRelation t \<longleftrightarrow> t = AUDITED_SPACES \<or> t = MANAGED_SPACES \<or> t = SPACES"

subsection \<open>current-user-roles-org.reducer.ts, -orgs.reducer.ts\<close>

definition defaultUserOrgRoleState :: IOrgRoleState where
  "defaultUserOrgRoleState =
     \<lparr>or_isManager = False, or_isAuditor = False, or_isBillingManager = False, or_isUser = False, or_spaceGuids = []\<rparr>"

definition createOrgRoleStateState :: IOrgRoleState where
  "createOrgRoleStateState = defaultUserOrgRoleState\<lparr>or_spaceGuids := or_spaceGuids defaultUserOrgRoleState\<rparr>"

fun org_role_step :: "IOrgRoleState \<Rightarrow> UserRelationTypes \<Rightarrow> bool \<Rightarrow> IOrgRoleState" where
  "org_role_step state AUDITED_ORGANIZATIONS b = state\<lparr>or_isAuditor := b\<rparr>"
| "org_role_step state BILLING_MANAGED_ORGANIZATION b = state\<lparr>or_isBillingManager := b\<rparr>"
| "org_role_step state MANAGED_ORGANIZATION b = state\<lparr>or_isManager := b\<rparr>"
| "org_role_step state ORGANIZATIONS b = state\<lparr>or_isUser := b\<rparr>"
| "org_role_step state _ b = state"

definition currentUserOrgRoleReducer :: "IOrgRoleState roleFinalReducer" where
  "currentUserOrgRoleReducer state relationType userHasRelation d =
     Inr (org_role_step (case state of Some r \<Rightarrow> r | None \<Rightarrow> createOrgRoleStateState) relationType userHasRelation)"

definition currentUserOrgRolesReducer ::
  "IOrgsRoleState \<Rightarrow> UserRelationTypes \<Rightarrow> RelationResource list \<Rightarrow> IOrgsRoleState result" where
  "currentUserOrgRolesReducer state relationType datas =
     res_bind (addNewRoles state relationType datas currentUserOrgRoleReducer) (\<lambda>(newState, addedIds).
       removeOldRoles newState relationType addedIds currentUserOrgRoleReducer)"

subsection \<open>current-user-roles-space.reducer.ts, -spaces.reducer.ts\<close>

definition defaultUserSpaceRoleState :: ISpaceRoleState where
  "defaultUserSpaceRoleState =
     \<lparr>sr_orgId = None, sr_isManager = False, sr_isAuditor = False, sr_isDeveloper = False\<rparr>"

definition addId :: "ISpaceRoleState \<Rightarrow> RelationResource option \<Rightarrow> ISpaceRoleState result" where
  "addId state space =
     (if \<not> truthy_str (sr_orgId state)
      then (case space of None \<Rightarrow> Inl TypeError | Some d \<Rightarrow> Inr (state\<lparr>sr_orgId := Some (rr_organization_guid d)\<rparr>))
      else Inr state)"

fun applyRoles :: "ISpaceRoleState \<Rightarrow> UserRelationTypes \<Rightarrow> bool \<Rightarrow> ISpaceRoleState" where
  "applyRoles state AUDITED_SPACES b = state\<lparr>sr_isAuditor := b\<rparr>"
| "applyRoles state MANAGED_SPACES b = state\<lparr>sr_isManager := b\<rparr>"
| "applyRoles state SPACES b = state\<lparr>sr_isDeveloper := b\<rparr>"
| "applyRoles state _ b = state"

definition currentUserSpaceRoleReducer :: "ISpaceRoleState roleFinalReducer" where
  "currentUserSpaceRoleReducer state relationType userHasRelation space =
     res_bind (addId (case state of Some r \<Rightarrow> r | None \<Rightarrow> defaultUserSpaceRoleState) space) (\<lambda>idState.
       Inr (applyRoles idState relationType userHasRelation))"

definition currentUserSpaceRolesReducer ::
  "ISpacesRoleState \<Rightarrow> UserRelationTypes \<Rightarrow> RelationResource list \<Rightarrow> ISpacesRoleState result" where
  "currentUserSpaceRolesReducer state relationType datas =
     res_bind (addNewRoles state relationType datas currentUserSpaceRoleReducer) (\<lambda>(newState, addedIds).
       removeOldRoles newState relationType addedIds currentUserSpaceRoleReducer)"

subsection \<open>current-user-cf-roles.reducer.ts, current-user-base-cf-role.reducer.ts\<close>

definition assign_space :: "RelationResource \<Rightarrow> IOrgsRoleState \<Rightarrow> IOrgsRoleState" where
  "assign_space space newOrganizations =
     (let orgGuid = rr_organization_guid space;
          org = (case obj_get newOrganizations orgGuid of Some r \<Rightarrow> r | None \<Rightarrow> createOrgRoleStateState);
          spaceGuids = or_spaceGuids org
      in if rr_guid space \<in> set spaceGuids then newOrganizations
         else obj_set orgGuid (org\<lparr>or_spaceGuids := spaceGuids @ [rr_guid space]\<rparr>) newOrganizations)"

definition assignSpaceToOrg :: "IOrgsRoleState \<Rightarrow> RelationResource list \<Rightarrow> IOrgsRoleState" where
  "assignSpaceToOrg organizations spaces = fold assign_space spaces organizations"

definition currentUserCFRolesReducer ::
  "ICfRolesState \<Rightarrow> UserRelationTypes \<Rightarrow> RelationResource list \<Rightarrow> ICfRolesState result" where
  "currentUserCFRolesReducer state relationType datas =
     (if isOrgRelation relationType
      then res_bind (currentUserOrgRolesReducer (cr_organizations state) relationType datas) (\<lambda>orgs.
        Inr (state\<lparr>cr_organizations := orgs\<rparr>))
      else if isSpaceRelation relationType
      then res_bind (currentUserSpaceRolesReducer (cr_spaces state) relationType datas) (\<lambda>spaces.
        Inr (state\<lparr>cr_spaces := spaces, cr_organizations := assignSpaceToOrg (cr_organizations state) datas\<rparr>))
      else Inr state)"

definition currentUserBaseCFRolesReducer ::
  "IAllCfRolesState \<Rightarrow> UserRelationTypes \<Rightarrow> string \<Rightarrow> RelationResource list \<Rightarrow> IAllCfRolesState result" where
  "currentUserBaseCFRolesReducer state relationType endpointGuid datas =
     (let state = (if obj_get state endpointGuid = None
          then obj_set endpointGuid getDefaultEndpointRoles state else state);
          cf = (case obj_get state endpointGuid of Some c \<Rightarrow> c | None \<Rightarrow> getDefaultEndpointRoles)
      in res_bind (currentUserCFRolesReducer cf relationType datas) (\<lambda>cf'.
        Inr (obj_set endpointGuid cf' state)))"

subsection \<open>current-user-request-state.reducers.ts\<close>

text \<open>\<open>None\<close> where the \<open>switch\<close> has no case.\<close>

definition currentUserRolesRequestStateReducer :: "RolesRequestState \<Rightarrow> string \<Rightarrow> RolesRequestState option" where
  "currentUserRolesRequestStateReducer state t =
     (if t = GET_CURRENT_USER_RELATIONS \<or> t = GET_CURRENT_USER_CF_RELATIONS
      then Some (state\<lparr>rs_fetching := True\<rparr>)
      else if t = GET_CURRENT_USER_RELATIONS_SUCCESS \<or> t = GET_CURRENT_USER_CF_RELATIONS_SUCCESS
      then Some (state\<lparr>rs_initialised := True, rs_fetching := False\<rparr>)
      else if t = GET_CURRENT_USER_RELATIONS_FAILED \<or> t = GET_CURRENT_USER_CF_RELATIONS_FAILED
      then Some (state\<lparr>rs_fetching := False, rs_error := True\<rparr>)
      else None)"

definition currentUserCfRolesRequestStateReducer ::
  "IAllCfRolesState \<Rightarrow> string \<Rightarrow> string \<Rightarrow> IAllCfRolesState result" where
  "currentUserCfRolesRequestStateReducer cf cfGuid t =
     (case obj_get cf cfGuid of
        None \<Rightarrow> Inl TypeError
      | Some c \<Rightarrow> Inr (obj_set cfGuid
          (c\<lparr>cr_state := (case currentUserRolesRequestStateReducer (cr_state c) t of
               Some r \<Rightarrow> r | None \<Rightarrow> cr_state c)\<rparr>) cf))"

subsection \<open>current-user-role-session.reducer.ts\<close>

definition role_of_scope :: "string \<Rightarrow> IGlobalRolesState \<Rightarrow> IGlobalRolesState" where
  "role_of_scope scope roles =
     (let roles = (if scope = CF_ADMIN_GROUP then roles\<lparr>gr_isAdmin := True\<rparr> else roles);
          roles = (if scope = CF_READ_ONLY_ADMIN_GROUP then roles\<lparr>gr_isReadOnlyAdmin := True\<rparr> else roles);
          roles = (if scope = CF_ADMIN_GLOBAL_AUDITOR_GROUP then roles\<lparr>gr_isGlobalAuditor := True\<rparr> else roles);
          roles = (if scope = CF_READ_SCOPE then roles\<lparr>gr_canRead := True\<rparr> else roles)
      in if scope = CF_WRITE_SCOPE then roles\<lparr>gr_canWrite := True\<rparr> else roles)"

text \<open>\<open>scopes.reduce\<close> throws when the endpoint's user came without scopes.\<close>

definition getEndpointRoles :: "string list option \<Rightarrow> IGlobalRolesState \<Rightarrow> IGlobalRolesState result" where
  "getEndpointRoles scopes globalEndpointState =
     (case scopes of
        None \<Rightarrow> Inl TypeError
      | Some ss \<Rightarrow> Inr (fold role_of_scope ss (globalEndpointState\<lparr>gr_scopes := ss\<rparr>)))"

definition propagateEndpointAdminPermissions ::
  "ICfRolesState option \<Rightarrow> EndpointUser option \<Rightarrow> ICfRolesState result" where
  "propagateEndpointAdminPermissions state user =
     (let st = (case state of Some c \<Rightarrow> c | None \<Rightarrow> getDefaultEndpointRoles);
          scopes = (case user of Some u \<Rightarrow> eu_scopes u | None \<Rightarrow> Some [])
      in res_bind (getEndpointRoles scopes (cr_global st)) (\<lambda>global. Inr (st\<lparr>cr_global := global\<rparr>)))"

definition propagateEndpointsAdminPermissions ::
  "IAllCfRolesState \<Rightarrow> SessionDataEndpoint list \<Rightarrow> IAllCfRolesState result" where
  "propagateEndpointsAdminPermissions cfState endpoints =
     res_fold (\<lambda>state endpoint.
         res_bind (propagateEndpointAdminPermissions (obj_get state (se_guid endpoint)) (se_user endpoint)) (\<lambda>c.
           Inr (obj_set (se_guid endpoint) c state)))
       cfState endpoints"

definition applyInternalScopes ::
  "ICurrentUserRolesState \<Rightarrow> IAllCfRolesState \<Rightarrow> EndpointUser option \<Rightarrow> ICurrentUserRolesState" where
  "applyInternalScopes state cfRoles user =
     (let internalRoles = (case user of
            Some u \<Rightarrow> (ur_internal state)\<lparr>
              st_scopes := (case eu_scopes u of Some ss \<Rightarrow> ss | None \<Rightarrow> []), st_isAdmin := eu_admin u\<rparr>
          | None \<Rightarrow> ur_internal state)
      in state\<lparr>ur_cf := cfRoles, ur_internal := internalRoles\<rparr>)"

definition roleInfoFromSessionReducer :: "ICurrentUserRolesState \<Rightarrow> SessionData \<Rightarrow> ICurrentUserRolesState result" where
  "roleInfoFromSessionReducer state sessionData =
     (case Option.bind (sd_endpoints sessionData) (\<lambda>endpoints. obj_get endpoints ''cf'') of
        None \<Rightarrow> Inl TypeError
      | Some cf \<Rightarrow> res_bind (propagateEndpointsAdminPermissions (ur_cf state) (obj_values cf)) (\<lambda>cfRoles.
          Inr (applyInternalScopes state cfRoles (sd_user sessionData))))"

definition updateNewlyConnectedEndpoint ::
  "ICurrentUserRolesState \<Rightarrow> string \<Rightarrow> string \<Rightarrow> EndpointInfo option \<Rightarrow> ICurrentUserRolesState result" where
  "updateNewlyConnectedEndpoint state guid endpointType endpoint =
     (if endpointType \<noteq> ''web'' then Inr state
      else case endpoint of
          None \<Rightarrow> Inl TypeError
        | Some e \<Rightarrow> res_bind (propagateEndpointsAdminPermissions (ur_cf state) [\<lparr>se_guid = guid, se_user = ei_user e, se_info = []\<rparr>])
            (\<lambda>cfRoles. Inr (state\<lparr>ur_cf := cfRoles\<rparr>)))"

subsection \<open>current-user-roles-clear.reducers.ts\<close>

definition removeEndpointRoles :: "ICurrentUserRolesState \<Rightarrow> string \<Rightarrow> string \<Rightarrow> ICurrentUserRolesState" where
  "removeEndpointRoles state guid endpointType =
     (if endpointType \<noteq> ''web'' \<or> obj_get (ur_cf state) guid = None then state
      else state\<lparr>ur_cf := obj_del guid (ur_cf state)\<rparr>)"

text \<open>\<open>state[guid]\<close> of the whole slice: its own three properties.\<close>

definition addEndpoint ::
  "ICurrentUserRolesState \<Rightarrow> string \<Rightarrow> EndpointInfo option \<Rightarrow> ICurrentUserRolesState result" where
  "addEndpoint state endpointType endpoint =
     (case endpoint of
        None \<Rightarrow> Inl TypeError
      | Some e \<Rightarrow> Inr (
          if endpointType \<noteq> ''web'' \<or> ei_guid e \<in> {''internal'', ''cf'', ''state''} then state
          else state\<lparr>ur_cf := obj_set (ei_guid e) getDefaultEndpointRoles (ur_cf state)\<rparr>))"

text \<open>\<open>state.cf[endpointGuid]\<close>, of which a property is then read.\<close>

definition cf_roles :: "ICurrentUserRolesState \<Rightarrow> string option \<Rightarrow> ICfRolesState result" where
  "cf_roles state endpointGuid =
     (case Option.bind endpointGuid (obj_get (ur_cf state)) of None \<Rightarrow> Inl TypeError | Some c \<Rightarrow> Inr c)"

definition removeOrgOrSpaceRoles ::
  "ICurrentUserRolesState \<Rightarrow> string option \<Rightarrow> string option \<Rightarrow> bool \<Rightarrow> ICurrentUserRolesState result" where
  "removeOrgOrSpaceRoles state endpointGuid orgOrSpaceId spaces =
     res_bind (cf_roles state endpointGuid) (\<lambda>c. Inr (
       case orgOrSpaceId of None \<Rightarrow> state | Some i \<Rightarrow>
         if spaces
         then (if obj_get (cr_spaces c) i = None then state
               else state\<lparr>ur_cf := obj_set (the endpointGuid) (c\<lparr>cr_spaces := obj_del i (cr_spaces c)\<rparr>) (ur_cf state)\<rparr>)
         else (if obj_get (cr_organizations c) i = None then state
               else state\<lparr>ur_cf :=
                 obj_set (the endpointGuid) (c\<lparr>cr_organizations := obj_del i (cr_organizations c)\<rparr>) (ur_cf state)\<rparr>)))"

definition removeSpaceIdFromOrg ::
  "ICurrentUserRolesState \<Rightarrow> string option \<Rightarrow> string option \<Rightarrow> ICurrentUserRolesState result" where
  "removeSpaceIdFromOrg state endpointGuid spaceGuid =
     res_bind (cf_roles state endpointGuid) (\<lambda>c.
       case Option.bind spaceGuid (obj_get (cr_spaces c)) of
         None \<Rightarrow> Inr state
       | Some space \<Rightarrow> (case Option.bind (sr_orgId space) (obj_get (cr_organizations c)) of
           None \<Rightarrow> Inl TypeError
         | Some org \<Rightarrow> Inr (state\<lparr>ur_cf := obj_set (the endpointGuid)
             (c\<lparr>cr_organizations := obj_set (the (sr_orgId space))
                (org\<lparr>or_spaceGuids := filter (\<lambda>i. Some i \<noteq> spaceGuid) (or_spaceGuids org)\<rparr>) (cr_organizations c)\<rparr>)
             (ur_cf state)\<rparr>)))"

text \<open>The state without the space is computed and dropped.\<close>

definition removeSpaceRoles :: "ICurrentUserRolesState \<Rightarrow> ApiAction \<Rightarrow> ICurrentUserRolesState result" where
  "removeSpaceRoles state apiAction =
     res_bind (removeOrgOrSpaceRoles state (aa_endpointGuid apiAction) (aa_guid apiAction) True) (\<lambda>_.
       removeSpaceIdFromOrg state (aa_endpointGuid apiAction) (aa_guid apiAction))"

definition cleanUpOrgSpaces ::
  "ICurrentUserRolesState \<Rightarrow> string list \<Rightarrow> string option \<Rightarrow> ICurrentUserRolesState" where
  "cleanUpOrgSpaces state spaceIds endpointGuid =
     (case Option.bind endpointGuid (obj_get (ur_cf state)) of
        None \<Rightarrow> state
      | Some c \<Rightarrow> if spaceIds = [] then state
          else state\<lparr>ur_cf := obj_set (the endpointGuid)
            (c\<lparr>cr_spaces := fold obj_del spaceIds (cr_spaces c)\<rparr>) (ur_cf state)\<rparr>)"

text \<open>The list of the organization's spaces is empty: reading it is commented out in the source.\<close>

definition removeOrgRoles :: "ICurrentUserRolesState \<Rightarrow> ApiAction \<Rightarrow> ICurrentUserRolesState result" where
  "removeOrgRoles state apiAction =
     res_bind (cf_roles state (aa_endpointGuid apiAction)) (\<lambda>c.
       if Option.bind (aa_guid apiAction) (obj_get (cr_organizations c)) = None then Inr state
       else res_bind (removeOrgOrSpaceRoles state (aa_endpointGuid apiAction) (aa_guid apiAction) False) (\<lambda>newState.
         Inr (cleanUpOrgSpaces newState [] (aa_endpointGuid apiAction))))"

subsection \<open>current-user-roles-changed.reducers.ts\<close>

text \<open>The names of the roles as the CF API spells them; an unknown one gives \<open>undefined\<close>.\<close>

definition userRoleNameToPermissionName :: "string \<Rightarrow> string option" where
  "userRoleNameToPermissionName roleName =
     (if roleName = ''auditors'' then Some ''isAuditor''
      else if roleName = ''billing_managers'' then Some ''isBillingManager''
      else if roleName = ''managers'' then Some ''isManager''
      else if roleName = ''users'' then Some ''isUser''
      else if roleName = ''developers'' then Some ''isDeveloper''
      else None)"

definition spreadState :: "ICurrentUserRolesState \<Rightarrow> string \<Rightarrow> ICfRolesState \<Rightarrow> ICurrentUserRolesState" where
  "spreadState state cfGuid cf = state\<lparr>ur_cf := obj_set cfGuid cf (ur_cf state)\<rparr>"

definition handleOrgRoleChange ::
  "ICurrentUserRolesState \<Rightarrow> string \<Rightarrow> ICfRolesState \<Rightarrow> string \<Rightarrow> IOrgRoleState \<Rightarrow> string \<Rightarrow> bool \<Rightarrow>
   ICurrentUserRolesState" where
  "handleOrgRoleChange state endpointGuid cf orgGuid orgState permType isAdd =
     spreadState state endpointGuid
       (cf\<lparr>cr_organizations := obj_set orgGuid (set_org_flag permType isAdd orgState) (cr_organizations cf)\<rparr>)"

definition handleSpaceRoleChange ::
  "ICurrentUserRolesState \<Rightarrow> string \<Rightarrow> ICfRolesState \<Rightarrow> string option \<Rightarrow> string \<Rightarrow> ISpaceRoleState \<Rightarrow> string \<Rightarrow>
   bool \<Rightarrow> ICurrentUserRolesState result" where
  "handleSpaceRoleChange state endpointGuid cf orgGuid spaceGuid spaceState permType isAdd =
     (let spacePermissions = set_space_flag permType isAdd spaceState in
      case Option.bind orgGuid (obj_get (cr_organizations cf)) of
        None \<Rightarrow> Inl TypeError
      | Some org \<Rightarrow>
          let spaceGuids =
            (if isAdd \<and> spaceGuid \<notin> set (or_spaceGuids org) then or_spaceGuids org @ [spaceGuid]
             else if \<not> isAdd \<and> spaceGuid \<in> set (or_spaceGuids org) \<and> \<not> sr_isAuditor spacePermissions
               \<and> \<not> sr_isDeveloper spacePermissions \<and> \<not> sr_isManager spacePermissions
             then filter (\<lambda>guid. guid \<noteq> spaceGuid) (or_spaceGuids org)
             else or_spaceGuids org)
          in Inr (spreadState state endpointGuid (cf\<lparr>
            cr_organizations := obj_set (the orgGuid) (org\<lparr>or_spaceGuids := spaceGuids\<rparr>) (cr_organizations cf),
            cr_spaces := obj_set spaceGuid spacePermissions (cr_spaces cf)\<rparr>)))"

definition updateAfterRoleChange ::
  "ICurrentUserRolesState \<Rightarrow> bool \<Rightarrow> ApiAction \<Rightarrow> ICurrentUserRolesState result" where
  "updateAfterRoleChange state isAdd apiAction =
     (case aa_change apiAction of
        None \<Rightarrow> Inr state
      | Some ch \<Rightarrow>
          if \<not> cu_updateConnectedUser ch then Inr state
          else res_bind (cf_roles state (aa_endpointGuid apiAction)) (\<lambda>cf.
            let endpointGuid = the (aa_endpointGuid apiAction);
                permissionType = (case userRoleNameToPermissionName (cu_permissionTypeKey ch) of
                   Some p \<Rightarrow> p | None \<Rightarrow> ''undefined'')
            in if cu_isSpace ch
               then (let entity = (case obj_get (cr_spaces cf) (cu_entityGuid ch) of
                         Some r \<Rightarrow> r
                       | None \<Rightarrow> defaultUserSpaceRoleState\<lparr>sr_orgId := cu_orgGuid ch\<rparr>)
                     in if space_flag entity permissionType = Some isAdd then Inr state
                        else handleSpaceRoleChange state endpointGuid cf (cu_orgGuid ch) (cu_entityGuid ch) entity
                          permissionType isAdd)
               else (let entity = (case obj_get (cr_organizations cf) (cu_entityGuid ch) of
                         Some r \<Rightarrow> r | None \<Rightarrow> defaultUserOrgRoleState)
                     in if org_flag entity permissionType = Some isAdd then Inr state
                        else Inr (handleOrgRoleChange state endpointGuid cf (cu_entityGuid ch) entity permissionType isAdd))))"

subsection \<open>current-user-roles.reducer.ts\<close>

fun currentUserRolesReducer :: "ICurrentUserRolesState \<Rightarrow> Action \<Rightarrow> ICurrentUserRolesState result" where
  "currentUserRolesReducer state (PermissionsA (GetCurrentUserRelationsComplete relationType endpointGuid datas)) =
     res_bind (currentUserBaseCFRolesReducer (ur_cf state) relationType endpointGuid datas) (\<lambda>cf.
       Inr (state\<lparr>ur_cf := cf\<rparr>))"
| "currentUserRolesReducer state (AuthA (VerifiedSession sessionData _)) = roleInfoFromSessionReducer state sessionData"
| "currentUserRolesReducer state (EndpointA (EndpointActionComplete t guid endpointType endpoint)) =
     (if t = REGISTER_ENDPOINTS_SUCCESS then addEndpoint state endpointType endpoint
      else if t = CONNECT_ENDPOINTS_SUCCESS then updateNewlyConnectedEndpoint state guid endpointType endpoint
      else if t = DISCONNECT_ENDPOINTS_SUCCESS \<or> t = UNREGISTER_ENDPOINTS_SUCCESS
      then Inr (removeEndpointRoles state guid endpointType)
      else Inr state)"
| "currentUserRolesReducer state (RequestA (APISuccessOrFailedAction t apiAction _)) =
     (if t = DELETE_ORGANIZATION_SUCCESS then removeOrgRoles state apiAction
      else if t = DELETE_SPACE_SUCCESS then removeSpaceRoles state apiAction
      else if t = ADD_ROLE_SUCCESS then updateAfterRoleChange state True apiAction
      else if t = REMOVE_ROLE_SUCCESS then updateAfterRoleChange state False apiAction
      else Inr state)"
| "currentUserRolesReducer state (PermissionsA (CurrentUsersRelations t)) =
     (if t \<in> {GET_CURRENT_USER_RELATIONS, GET_CURRENT_USER_RELATIONS_SUCCESS, GET_CURRENT_USER_RELATIONS_FAILED}
      then (case currentUserRolesRequestStateReducer (ur_state state) t of
          Some r \<Rightarrow> Inr (state\<lparr>ur_state := r\<rparr>) | None \<Rightarrow> Inr state)
      else Inr state)"
| "currentUserRolesReducer state (PermissionsA (GetUserCfRelations cfGuid t)) =
     (if t \<in> {GET_CURRENT_USER_CF_RELATIONS, GET_CURRENT_USER_CF_RELATIONS_SUCCESS, GET_CURRENT_USER_CF_RELATIONS_FAILED}
      then res_bind (currentUserCfRolesRequestStateReducer (ur_cf state) cfGuid t) (\<lambda>cf. Inr (state\<lparr>ur_cf := cf\<rparr>))
      else Inr state)"
| "currentUserRolesReducer state _ = Inr state"

subsection \<open>The interface of the role reducers\<close>

text \<open>
  What \<open>addNewRoles\<close> and \<open>removeOldRoles\<close> rely on of the \<open>roleFinalReducer\<close> they are given: a relation that is
  found sets its flag, one that is not clears it, the flags of the other relations stay, and once the roles
  are \<open>settled\<close> (they know what the reducer needs to know) it works without a resource.
\<close>

definition flags_or :: "('r \<Rightarrow> bool) \<Rightarrow> 'r option \<Rightarrow> bool" where
  "flags_or flag r = (case r of None \<Rightarrow> False | Some x \<Rightarrow> flag x)"

lemma flags_or_simps [simp]: "flags_or flag None = False" "flags_or flag (Some x) = flag x"
  by (simp_all add: flags_or_def)

definition roles_settled :: "('r \<Rightarrow> bool) \<Rightarrow> (string, 'r) obj \<Rightarrow> bool" where
  "roles_settled settled st \<longleftrightarrow> (\<forall>i r. obj_get st i = Some r \<longrightarrow> settled r)"

lemma roles_settled_set: "roles_settled S st \<Longrightarrow> S r \<Longrightarrow> roles_settled S (obj_set i r st)"
  by (auto simp: roles_settled_def)

text \<open>The entries after the last kept one, in property order.\<close>

definition trailing :: "string list \<Rightarrow> string list \<Rightarrow> string list" where
  "trailing keys kept = takeWhile (\<lambda>k. k \<notin> set kept) (rev keys)"

lemma obj_keys_set_eq:
  "obj_keys (obj_set k v ob) = (if k \<in> set (obj_keys ob) then obj_keys ob else obj_keys ob @ [k])"
  by (induction ob) auto

text \<open>An entry that loses its flag when \<open>found\<close> are the entries that have the relation.\<close>

definition lost :: "(string, 'r) obj \<Rightarrow> string list \<Rightarrow> string \<Rightarrow> bool" where
  "lost st found i \<longleftrightarrow> set found \<subseteq> set (obj_keys st) \<and> i \<in> set (trailing (obj_keys st) found)"

definition has_flag ::
  "(UserRelationTypes \<Rightarrow> 'r \<Rightarrow> bool) \<Rightarrow> UserRelationTypes \<Rightarrow> (string, 'r) obj \<Rightarrow> string \<Rightarrow> bool" where
  "has_flag flag t st i \<longleftrightarrow> flags_or (flag t) (obj_get st i)"

lemma has_flag_set: "has_flag flag t (obj_set k r st) i \<longleftrightarrow> (if i = k then flag t r else has_flag flag t st i)"
  by (simp add: has_flag_def)

locale role_reducer =
  fixes role :: "'r roleFinalReducer"
    and relation :: "UserRelationTypes \<Rightarrow> bool"
    and flag :: "UserRelationTypes \<Rightarrow> 'r \<Rightarrow> bool"
    and good :: "RelationResource \<Rightarrow> bool"
    and settled :: "'r \<Rightarrow> bool"
  assumes role_found: "relation t \<Longrightarrow> good d \<Longrightarrow> (\<And>x. st = Some x \<Longrightarrow> settled x) \<Longrightarrow>
      \<exists>r. role st t True (Some d) = Inr r \<and> settled r \<and> (\<forall>t'. flag t' r \<longleftrightarrow> t' = t \<or> flags_or (flag t') st)"
    and role_lost: "relation t \<Longrightarrow> settled x \<Longrightarrow>
      \<exists>r. role (Some x) t False None = Inr r \<and> settled r \<and> (\<forall>t'. flag t' r \<longleftrightarrow> t' \<noteq> t \<and> flag t' x)"
begin

lemma addNewRoles_spec:
  assumes t: "relation t" and settled: "roles_settled settled st"
    and ds: "list_all good ds"
  shows "\<exists>st' extra. addNewRoles st t ds role = Inr (st', map rr_guid ds) \<and> roles_settled settled st'
    \<and> obj_keys st' = obj_keys st @ extra \<and> set extra = rr_guid ` set ds - set (obj_keys st)
    \<and> (\<forall>t' i. has_flag flag t' st' i \<longleftrightarrow> t' = t \<and> i \<in> rr_guid ` set ds \<or> has_flag flag t' st i)"
  using ds
proof (induction ds rule: rev_induct)
  case (snoc d ds)
  then obtain st' extra where IH: "addNewRoles st t ds role = Inr (st', map rr_guid ds)"
    "roles_settled settled st'" "obj_keys st' = obj_keys st @ extra"
    "set extra = rr_guid ` set ds - set (obj_keys st)"
    "\<And>t' i. has_flag flag t' st' i \<longleftrightarrow> t' = t \<and> i \<in> rr_guid ` set ds \<or> has_flag flag t' st i"
    by auto
  from snoc.prems have "good d" by simp
  moreover have "settled x" if "obj_get st' (rr_guid d) = Some x" for x
    using IH(2) that by (simp add: roles_settled_def)
  ultimately obtain r where r: "role (obj_get st' (rr_guid d)) t True (Some d) = Inr r" "settled r"
    "\<And>t'. flag t' r \<longleftrightarrow> t' = t \<or> flags_or (flag t') (obj_get st' (rr_guid d))"
    using role_found[OF t] by metis
  let ?st = "obj_set (rr_guid d) r st'"
  let ?extra = "if rr_guid d \<in> set (obj_keys st') then extra else extra @ [rr_guid d]"
  have "addNewRoles st t (ds @ [d]) role = Inr (?st, map rr_guid (ds @ [d]))"
    using IH(1) r(1) by (simp add: addNewRoles_def res_fold_append)
  moreover have "roles_settled settled ?st" by (rule roles_settled_set[OF IH(2) r(2)])
  moreover have "obj_keys ?st = obj_keys st @ ?extra" using IH(3) by (simp add: obj_keys_set_eq)
  moreover have "set ?extra = rr_guid ` set (ds @ [d]) - set (obj_keys st)" using IH(3,4) by auto
  moreover have "has_flag flag t' ?st i \<longleftrightarrow> t' = t \<and> i \<in> rr_guid ` set (ds @ [d]) \<or> has_flag flag t' st i" for t' i
    using IH(5)[of t' i] r(3)[of t'] by (auto simp: has_flag_set has_flag_def[of _ _ st'])
  ultimately show ?case by blast
qed (simp add: addNewRoles_def settled)

lemma removeOldRoles_spec:
  assumes t: "relation t" and settled: "roles_settled settled st"
  shows "\<exists>st'. removeOldRoles st t kept role = Inr st' \<and> roles_settled settled st' \<and> set (obj_keys st') = set (obj_keys st)
    \<and> (\<forall>t' i. has_flag flag t' st' i \<longleftrightarrow> has_flag flag t' st i \<and> \<not> (t' = t \<and> i \<in> set (trailing (obj_keys st) kept)))"
proof -
  have "\<exists>st'. res_fold (\<lambda>currentState i.
         if i \<in> set kept then Inr st
         else res_bind (role (obj_get currentState i) t False None) (\<lambda>r. Inr (obj_set i r currentState)))
       st ks = Inr st' \<and> roles_settled settled st' \<and> set (obj_keys st') = set (obj_keys st)
    \<and> (\<forall>t' i. has_flag flag t' st' i \<longleftrightarrow> has_flag flag t' st i \<and> \<not> (t' = t \<and> i \<in> set (trailing ks kept)))"
    (is "\<exists>st'. res_fold ?f st ks = _ \<and> _")
    if "set ks \<subseteq> set (obj_keys st)" for ks
    using that
  proof (induction ks rule: rev_induct)
    case Nil
    then show ?case using settled by (simp add: trailing_def)
  next
    case (snoc k ks)
    then obtain st' where IH: "res_fold ?f st ks = Inr st'"
      "roles_settled settled st'" "set (obj_keys st') = set (obj_keys st)"
      "\<And>t' i. has_flag flag t' st' i \<longleftrightarrow> has_flag flag t' st i \<and> \<not> (t' = t \<and> i \<in> set (trailing ks kept))"
      by auto
    show ?case
    proof (cases "k \<in> set kept")
      case True
      then show ?thesis using IH(1) settled by (simp add: res_fold_append trailing_def)
    next
      case False
      from snoc.prems IH(3) obtain x where x: "obj_get st' k = Some x" by (metis in_mono list.set_intros(1) not_Some_eq set_append set_obj_keys UnI2)
      with IH(2) have "settled x" by (simp add: roles_settled_def)
      from role_lost[OF t this] obtain r where r: "role (Some x) t False None = Inr r" "settled r"
        "\<And>t'. flag t' r \<longleftrightarrow> t' \<noteq> t \<and> flag t' x" by blast
      let ?st = "obj_set k r st'"
      have "res_fold ?f st (ks @ [k]) = Inr ?st" using IH(1) x r(1) False by (simp add: res_fold_append)
      moreover have "roles_settled settled ?st" by (rule roles_settled_set[OF IH(2) r(2)])
      moreover have "set (obj_keys ?st) = set (obj_keys st)"
        using IH(3) snoc.prems by (simp add: obj_keys_set insert_absorb)
      moreover have "has_flag flag t' ?st i \<longleftrightarrow> has_flag flag t' st i \<and> \<not> (t' = t \<and> i \<in> set (trailing (ks @ [k]) kept))" for t' i
        using IH(4)[of t' i] r(3)[of t'] x False by (auto simp: has_flag_set has_flag_def[of _ _ st'] trailing_def)
      ultimately show ?thesis by blast
    qed
  qed
  from this[of "obj_keys st"] show ?thesis unfolding removeOldRoles_def by auto
qed

text \<open>
  A refresh: the found relations are added, then the old ones removed. A relation that was not found again
  loses its flag exactly when all the ones found again were known before and stand before it.
\<close>

lemma refresh_spec:
  assumes t: "relation t" and settled: "roles_settled settled st"
    and ds: "list_all good ds"
  shows "\<exists>st'. res_bind (addNewRoles st t ds role) (\<lambda>(newState, addedIds). removeOldRoles newState t addedIds role) = Inr st'
    \<and> roles_settled settled st' \<and> set (obj_keys st') = set (obj_keys st) \<union> rr_guid ` set ds
    \<and> (\<forall>t' i. has_flag flag t' st' i \<longleftrightarrow>
        (if t' = t then i \<in> rr_guid ` set ds \<or> has_flag flag t st i \<and> \<not> lost st (map rr_guid ds) i else has_flag flag t' st i))"
proof -
  from addNewRoles_spec[OF assms] obtain st1 extra where st1:
    "addNewRoles st t ds role = Inr (st1, map rr_guid ds)" "roles_settled settled st1"
    "obj_keys st1 = obj_keys st @ extra" "set extra = rr_guid ` set ds - set (obj_keys st)"
    "\<And>t' i. has_flag flag t' st1 i \<longleftrightarrow> t' = t \<and> i \<in> rr_guid ` set ds \<or> has_flag flag t' st i" by blast
  from removeOldRoles_spec[OF t st1(2)] obtain st2 where st2:
    "removeOldRoles st1 t (map rr_guid ds) role = Inr st2" "roles_settled settled st2" "set (obj_keys st2) = set (obj_keys st1)"
    "\<And>t' i. has_flag flag t' st2 i \<longleftrightarrow> has_flag flag t' st1 i \<and> \<not> (t' = t \<and> i \<in> set (trailing (obj_keys st1) (map rr_guid ds)))"
    by blast
  have tr: "i \<in> set (trailing (obj_keys st1) (map rr_guid ds)) \<longleftrightarrow> lost st (map rr_guid ds) i" for i
  proof (cases "extra = []")
    case True
    then show ?thesis using st1(3,4) by (auto simp: lost_def)
  next
    case False
    then have "last extra \<in> set extra" by simp
    then have "last extra \<in> rr_guid ` set ds" "\<not> rr_guid ` set ds \<subseteq> set (obj_keys st)" using st1(4) by auto
    moreover have "rev (obj_keys st1) = last extra # tl (rev (obj_keys st1))"
      using False st1(3) by (metis hd_Cons_tl hd_rev last_appendR append_is_Nil_conv rev_is_Nil_conv)
    ultimately show ?thesis by (metis lost_def trailing_def image_set takeWhile.simps(2) list.set(1) empty_iff)
  qed
  have kept: "i \<in> rr_guid ` set ds \<Longrightarrow> \<not> lost st (map rr_guid ds) i" for i
    by (auto simp: lost_def trailing_def dest: set_takeWhileD)
  have "has_flag flag t' st2 i \<longleftrightarrow>
      (if t' = t then i \<in> rr_guid ` set ds \<or> has_flag flag t st i \<and> \<not> lost st (map rr_guid ds) i else has_flag flag t' st i)" for t' i
    using st2(4)[of t' i] st1(5)[of t' i] tr[of i] kept[of i] by auto
  moreover have "set (obj_keys st2) = set (obj_keys st) \<union> rr_guid ` set ds"
    using st2(3) st1(3,4) by auto
  ultimately show ?thesis using st1(1) st2(1,2) by simp
qed

end

text \<open>The flag of a relation in the roles of an organization, and of a space.\<close>

fun org_relation :: "UserRelationTypes \<Rightarrow> IOrgRoleState \<Rightarrow> bool" where
  "org_relation AUDITED_ORGANIZATIONS r = or_isAuditor r"
| "org_relation BILLING_MANAGED_ORGANIZATION r = or_isBillingManager r"
| "org_relation MANAGED_ORGANIZATION r = or_isManager r"
| "org_relation ORGANIZATIONS r = or_isUser r"
| "org_relation _ r = False"

fun space_relation :: "UserRelationTypes \<Rightarrow> ISpaceRoleState \<Rightarrow> bool" where
  "space_relation AUDITED_SPACES r = sr_isAuditor r"
| "space_relation MANAGED_SPACES r = sr_isManager r"
| "space_relation SPACES r = sr_isDeveloper r"
| "space_relation _ r = False"

lemma org_role_step_relation:
  "isOrgRelation t \<Longrightarrow> org_relation t' (org_role_step r t b) \<longleftrightarrow> (if t' = t then b else org_relation t' r)"
  by (cases t; cases t') (simp_all add: isOrgRelation_def)

lemma applyRoles_relation:
  "isSpaceRelation t \<Longrightarrow> space_relation t' (applyRoles r t b) \<longleftrightarrow> (if t' = t then b else space_relation t' r)"
  by (cases t; cases t') (simp_all add: isSpaceRelation_def)

lemma applyRoles_org [simp]: "sr_orgId (applyRoles r t b) = sr_orgId r"
  by (cases t) simp_all

lemma default_relations [simp]:
  "\<not> org_relation t createOrgRoleStateState" "\<not> org_relation t defaultUserOrgRoleState"
  "\<not> space_relation t defaultUserSpaceRoleState"
  by (cases t; simp add: createOrgRoleStateState_def defaultUserOrgRoleState_def defaultUserSpaceRoleState_def)+

lemma default_space_org [simp]: "sr_orgId defaultUserSpaceRoleState = None"
  by (simp add: defaultUserSpaceRoleState_def)

lemma space_relation_org [simp]: "space_relation t (r\<lparr>sr_orgId := i\<rparr>) = space_relation t r"
  by (cases t) simp_all

interpretation org_roles: role_reducer currentUserOrgRoleReducer isOrgRelation org_relation "\<lambda>_. True" "\<lambda>_. True"
  by unfold_locales
    (auto simp: currentUserOrgRoleReducer_def org_role_step_relation flags_or_def split: option.splits)

text \<open>The organization of a space is set, and one of \<open>A\<close>.\<close>

definition in_orgs :: "string set \<Rightarrow> string option \<Rightarrow> bool" where
  "in_orgs A i \<longleftrightarrow> truthy_str i \<and> the i \<in> A"

interpretation space_roles: role_reducer currentUserSpaceRoleReducer isSpaceRelation space_relation
    "\<lambda>d. in_orgs A (Some (rr_organization_guid d))" "\<lambda>r. in_orgs A (sr_orgId r)"
  for A
  by unfold_locales
    (auto simp: currentUserSpaceRoleReducer_def addId_def applyRoles_relation flags_or_def in_orgs_def
      split: option.splits)

subsection \<open>The slice as a reducer\<close>

text \<open>The endpoints an action can change.\<close>

fun roles_touches :: "Action \<Rightarrow> string \<Rightarrow> bool" where
  "roles_touches (PermissionsA (GetCurrentUserRelationsComplete _ e _)) ep = (ep = e)"
| "roles_touches (PermissionsA (GetUserCfRelations g _)) ep = (ep = g)"
| "roles_touches (AuthA (VerifiedSession sessionData _)) ep =
     (case Option.bind (sd_endpoints sessionData) (\<lambda>es. obj_get es ''cf'') of
        None \<Rightarrow> False | Some cf \<Rightarrow> ep \<in> se_guid ` set (obj_values cf))"
| "roles_touches (EndpointA (EndpointActionComplete t guid _ endpoint)) ep =
     (ep = guid \<or> (case endpoint of None \<Rightarrow> False | Some e \<Rightarrow> ep = ei_guid e))"
| "roles_touches (RequestA (APISuccessOrFailedAction _ a _)) ep = (aa_endpointGuid a = Some ep)"
| "roles_touches _ ep = False"

lemma base_roles_get:
  assumes "currentUserBaseCFRolesReducer cf t e ds = Inr cf'"
  obtains c where "currentUserCFRolesReducer
      (case obj_get cf e of Some c \<Rightarrow> c | None \<Rightarrow> getDefaultEndpointRoles) t ds = Inr c"
    "\<And>ep. obj_get cf' ep = (if ep = e then Some c else obj_get cf ep)"
  using assms
  by (cases "obj_get cf e") (auto simp: currentUserBaseCFRolesReducer_def Let_def res_bind_Inr_iff)

lemma propagate_frame:
  assumes "propagateEndpointsAdminPermissions cf es = Inr cf'" and "ep \<notin> se_guid ` set es"
  shows "obj_get cf' ep = obj_get cf ep"
  using assms(1) unfolding propagateEndpointsAdminPermissions_def
  by (rule res_fold_inv[where P = "\<lambda>c. obj_get c ep = obj_get cf ep", rotated 2])
    (use assms(2) in \<open>auto simp: res_bind_Inr_iff\<close>)

lemma cf_roles_Inr: "cf_roles s e = Inr c \<longleftrightarrow> (\<exists>g. e = Some g \<and> obj_get (ur_cf s) g = Some c)"
  by (auto simp: cf_roles_def split: option.splits bind_splits)

lemma spreadState_cf [simp]: "ur_cf (spreadState s g c) = obj_set g c (ur_cf s)"
  by (simp add: spreadState_def)

lemma removeSpaceIdFromOrg_cases:
  assumes "removeSpaceIdFromOrg s e g = Inr s'"
  obtains (same) "s' = s"
  | (removed) ep c i sp org og where "e = Some ep" "obj_get (ur_cf s) ep = Some c" "g = Some i"
      "obj_get (cr_spaces c) i = Some sp" "sr_orgId sp = Some org" "obj_get (cr_organizations c) org = Some og"
      "s' = s\<lparr>ur_cf := obj_set ep (c\<lparr>cr_organizations :=
         obj_set org (og\<lparr>or_spaceGuids := filter (\<lambda>j. j \<noteq> i) (or_spaceGuids og)\<rparr>) (cr_organizations c)\<rparr>) (ur_cf s)\<rparr>"
proof -
  from assms obtain ep c where c: "e = Some ep" "obj_get (ur_cf s) ep = Some c"
    by (auto simp: removeSpaceIdFromOrg_def res_bind_Inr_iff cf_roles_Inr)
  show thesis
  proof (cases "Option.bind g (obj_get (cr_spaces c))")
    case None
    with assms c same show ?thesis by (simp add: removeSpaceIdFromOrg_def cf_roles_def)
  next
    case (Some sp)
    then obtain i where i: "g = Some i" "obj_get (cr_spaces c) i = Some sp" by (cases g) auto
    with assms c obtain org og where "sr_orgId sp = Some org" "obj_get (cr_organizations c) org = Some og"
      by (cases "sr_orgId sp") (auto simp: removeSpaceIdFromOrg_def cf_roles_def split: option.splits)
    with assms c i removed show ?thesis by (simp add: removeSpaceIdFromOrg_def cf_roles_def)
  qed
qed

lemma removeSpaceIdFromOrg_frame:
  "removeSpaceIdFromOrg s e g = Inr s' \<Longrightarrow> e \<noteq> Some ep \<Longrightarrow> obj_get (ur_cf s') ep = obj_get (ur_cf s) ep"
  by (erule removeSpaceIdFromOrg_cases) auto

lemma currentUserRolesReducer_frame:
  assumes "currentUserRolesReducer s a = Inr s'" and "\<not> roles_touches a ep"
  shows "obj_get (ur_cf s') ep = obj_get (ur_cf s) ep"
  using assms
proof (induction s a rule: currentUserRolesReducer.induct)
  case (1 s t e ds)
  then show ?case by (auto simp: res_bind_Inr_iff elim!: base_roles_get)
next
  case (2 s sessionData u)
  then show ?case
    by (auto simp: roleInfoFromSessionReducer_def applyInternalScopes_def Let_def res_bind_Inr_iff
        dest: propagate_frame split: option.splits)
next
  case (3 s t guid et endpoint)
  then show ?case
    by (auto simp: addEndpoint_def updateNewlyConnectedEndpoint_def removeEndpointRoles_def res_bind_Inr_iff
        dest!: propagate_frame split: option.splits if_splits)
next
  case (4 s t a r)
  then show ?case
    by (auto simp: removeOrgRoles_def removeSpaceRoles_def removeOrgOrSpaceRoles_def removeSpaceIdFromOrg_frame
        cleanUpOrgSpaces_def updateAfterRoleChange_def handleSpaceRoleChange_def handleOrgRoleChange_def Let_def
        res_bind_Inr_iff cf_roles_Inr split: option.splits if_splits)
next
  case (5 s t)
  then show ?case by (auto split: option.splits if_splits)
next
  case (6 s g t)
  then show ?case
    by (auto simp: currentUserCfRolesRequestStateReducer_def res_bind_Inr_iff split: option.splits if_splits)
qed auto

interpretation roles_frame: framed_step currentUserRolesReducer "\<lambda>_. True" "\<lambda>s. obj_get (ur_cf s)" roles_touches
  by unfold_locales (simp_all add: currentUserRolesReducer_frame)

text \<open>
  When nothing throws: the endpoints \<open>E\<close> are there, the organizations \<open>Os\<close> of theirs are there, and every
  space knows its organization, which is there.
\<close>

definition cf_wf :: "string set \<Rightarrow> ICfRolesState \<Rightarrow> bool" where
  "cf_wf os c \<longleftrightarrow> os \<subseteq> set (obj_keys (cr_organizations c))
     \<and> roles_settled (\<lambda>r. in_orgs (set (obj_keys (cr_organizations c))) (sr_orgId r)) (cr_spaces c)"

definition roles_wf :: "string set \<Rightarrow> (string \<times> string) set \<Rightarrow> ICurrentUserRolesState \<Rightarrow> bool" where
  "roles_wf E Os s \<longleftrightarrow> fst ` Os \<subseteq> E \<and> E \<subseteq> set (obj_keys (ur_cf s))
     \<and> (\<forall>ep c. obj_get (ur_cf s) ep = Some c \<longrightarrow> cf_wf {org. (ep, org) \<in> Os} c)"

lemma roles_settled_mono:
  "roles_settled S st \<Longrightarrow> (\<And>r. S r \<Longrightarrow> S' r) \<Longrightarrow> roles_settled S' st"
  by (auto simp: roles_settled_def)

lemma in_orgs_mono: "in_orgs A i \<Longrightarrow> A \<subseteq> B \<Longrightarrow> in_orgs B i"
  by (auto simp: in_orgs_def)

lemma cf_wf_update:
  assumes "cf_wf os c" and "set (obj_keys (cr_organizations c)) \<subseteq> set (obj_keys orgs)"
    and "roles_settled (\<lambda>r. in_orgs (set (obj_keys orgs)) (sr_orgId r)) spaces"
  shows "cf_wf os (c\<lparr>cr_organizations := orgs, cr_spaces := spaces\<rparr>)"
    and "cf_wf os (c\<lparr>cr_spaces := spaces, cr_organizations := orgs\<rparr>)"
  using assms by (auto simp: cf_wf_def)

lemma cf_wf_orgs:
  assumes "cf_wf os c" and "set (obj_keys (cr_organizations c)) \<subseteq> set (obj_keys orgs)"
  shows "cf_wf os (c\<lparr>cr_organizations := orgs\<rparr>)"
proof -
  have "roles_settled (\<lambda>r. in_orgs (set (obj_keys orgs)) (sr_orgId r)) (cr_spaces c)"
    using assms by (auto simp: cf_wf_def elim: roles_settled_mono in_orgs_mono)
  then show ?thesis using assms by (auto simp: cf_wf_def)
qed

lemma cf_wf_other [simp]:
  "cf_wf os (c\<lparr>cr_global := g\<rparr>) = cf_wf os c" "cf_wf os (c\<lparr>cr_state := r\<rparr>) = cf_wf os c"
  by (simp_all add: cf_wf_def)

lemma cf_wf_default [simp]: "cf_wf {} getDefaultEndpointRoles"
  by (simp add: cf_wf_def getDefaultEndpointRoles_def roles_settled_def)

lemma roles_wf_get: "roles_wf E Os s \<Longrightarrow> obj_get (ur_cf s) ep = Some c \<Longrightarrow> cf_wf {org. (ep, org) \<in> Os} c"
  by (simp add: roles_wf_def)

lemma roles_wf_or_default:
  "roles_wf E Os s \<Longrightarrow>
   cf_wf {org. (ep, org) \<in> Os} (case obj_get (ur_cf s) ep of Some c \<Rightarrow> c | None \<Rightarrow> getDefaultEndpointRoles)"
proof (cases "obj_get (ur_cf s) ep")
  case None
  assume "roles_wf E Os s"
  with None have "{org. (ep, org) \<in> Os} = {}" by (force simp: roles_wf_def set_obj_keys)
  with None show ?thesis by (simp only: option.case cf_wf_default)
qed (simp add: roles_wf_def)

lemma roles_wf_set:
  assumes "roles_wf E Os s" and "cf_wf {org. (ep, org) \<in> Os} c"
  shows "roles_wf E Os (s\<lparr>ur_cf := obj_set ep c (ur_cf s)\<rparr>)"
  using assms by (auto simp: roles_wf_def obj_keys_set)

lemma roles_wf_cf: "roles_wf E Os s \<Longrightarrow> ur_cf s' = ur_cf s \<Longrightarrow> roles_wf E Os s'"
  by (simp add: roles_wf_def)

lemma roles_wf_known: "roles_wf E Os s \<Longrightarrow> ep \<in> E \<Longrightarrow> \<exists>c. obj_get (ur_cf s) ep = Some c"
  unfolding roles_wf_def using set_obj_keys[of ep "ur_cf s"] by auto

text \<open>An endpoint whose user, if it has one, came with scopes.\<close>

definition has_scopes :: "EndpointUser option \<Rightarrow> bool" where
  "has_scopes u \<longleftrightarrow> (case u of Some x \<Rightarrow> eu_scopes x \<noteq> None | None \<Rightarrow> True)"

fun roles_ok :: "string set \<Rightarrow> (string \<times> string) set \<Rightarrow> Action \<Rightarrow> bool" where
  "roles_ok E Os (PermissionsA (GetCurrentUserRelationsComplete t _ ds)) =
     (isSpaceRelation t \<longrightarrow> list_all (\<lambda>d. rr_organization_guid d \<noteq> []) ds)"
| "roles_ok E Os (PermissionsA (GetUserCfRelations g _)) = (g \<in> E)"
| "roles_ok E Os (AuthA (VerifiedSession sessionData _)) =
     (case Option.bind (sd_endpoints sessionData) (\<lambda>es. obj_get es ''cf'') of
        None \<Rightarrow> False | Some cf \<Rightarrow> list_all (\<lambda>e. has_scopes (se_user e)) (obj_values cf))"
| "roles_ok E Os (EndpointA (EndpointActionComplete t guid _ endpoint)) =
     (if t = REGISTER_ENDPOINTS_SUCCESS then (case endpoint of Some e \<Rightarrow> ei_guid e \<notin> E | None \<Rightarrow> False)
      else if t = CONNECT_ENDPOINTS_SUCCESS then (case endpoint of Some e \<Rightarrow> has_scopes (ei_user e) | None \<Rightarrow> False)
      else if t = DISCONNECT_ENDPOINTS_SUCCESS \<or> t = UNREGISTER_ENDPOINTS_SUCCESS then guid \<notin> E else True)"
| "roles_ok E Os (RequestA (APISuccessOrFailedAction t a _)) =
     (if t = DELETE_ORGANIZATION_SUCCESS then False
      else if t = DELETE_SPACE_SUCCESS then (\<exists>ep \<in> E. aa_endpointGuid a = Some ep)
      else if t = ADD_ROLE_SUCCESS \<or> t = REMOVE_ROLE_SUCCESS then
        (case aa_change a of None \<Rightarrow> True | Some ch \<Rightarrow> cu_updateConnectedUser ch \<longrightarrow>
          (\<exists>ep \<in> E. aa_endpointGuid a = Some ep \<and>
             (cu_isSpace ch \<longrightarrow> (\<exists>org. org \<noteq> [] \<and> cu_orgGuid ch = Some org \<and> (ep, org) \<in> Os))))
      else True)"
| "roles_ok E Os _ = True"

lemma assign_space_keys:
  "set (obj_keys (assign_space d orgs)) = insert (rr_organization_guid d) (set (obj_keys orgs))"
  by (cases "obj_get orgs (rr_organization_guid d)")
    (auto simp: assign_space_def Let_def obj_keys_set insert_absorb set_obj_keys createOrgRoleStateState_def
      defaultUserOrgRoleState_def)

lemma assignSpaceToOrg_keys:
  "set (obj_keys (assignSpaceToOrg orgs ds)) = set (obj_keys orgs) \<union> rr_organization_guid ` set ds"
  unfolding assignSpaceToOrg_def by (induction ds arbitrary: orgs) (auto simp: assign_space_keys)

lemma currentUserCFRolesReducer_step:
  assumes c: "cf_wf os c" and ok: "isSpaceRelation t \<longrightarrow> list_all (\<lambda>d. rr_organization_guid d \<noteq> []) ds"
  shows "\<exists>c'. currentUserCFRolesReducer c t ds = Inr c' \<and> cf_wf os c'"
proof (cases "isOrgRelation t")
  case True
  have "roles_settled (\<lambda>_. True) (cr_organizations c)" by (simp add: roles_settled_def)
  from org_roles.refresh_spec[OF True this, of ds] obtain orgs where
    "currentUserOrgRolesReducer (cr_organizations c) t ds = Inr orgs"
    "set (obj_keys orgs) = set (obj_keys (cr_organizations c)) \<union> rr_guid ` set ds"
    by (auto simp: currentUserOrgRolesReducer_def list_all_iff)
  with True cf_wf_orgs[OF c, of orgs] show ?thesis by (auto simp: currentUserCFRolesReducer_def)
next
  case False
  let ?orgs = "assignSpaceToOrg (cr_organizations c) ds"
  let ?A = "set (obj_keys ?orgs)"
  have sub: "set (obj_keys (cr_organizations c)) \<subseteq> ?A" by (simp add: assignSpaceToOrg_keys)
  show ?thesis
  proof (cases "isSpaceRelation t")
    case True
    have "roles_settled (\<lambda>r. in_orgs ?A (sr_orgId r)) (cr_spaces c)"
      using c sub by (auto simp: cf_wf_def elim: roles_settled_mono in_orgs_mono)
    moreover have "list_all (\<lambda>d. in_orgs ?A (Some (rr_organization_guid d))) ds"
      using ok True by (auto simp: in_orgs_def list_all_iff assignSpaceToOrg_keys)
    ultimately obtain spaces where
      "currentUserSpaceRolesReducer (cr_spaces c) t ds = Inr spaces" "roles_settled (\<lambda>r. in_orgs ?A (sr_orgId r)) spaces"
      using space_roles.refresh_spec[OF True, of ?A "cr_spaces c" ds] by (auto simp: currentUserSpaceRolesReducer_def)
    with False True cf_wf_update(2)[OF c sub, of spaces] show ?thesis by (auto simp: currentUserCFRolesReducer_def)
  qed (use c False in \<open>auto simp: currentUserCFRolesReducer_def\<close>)
qed

lemma propagate_step:
  assumes "roles_wf E Os s" and "list_all (\<lambda>e. has_scopes (se_user e)) es"
  shows "\<exists>cf. propagateEndpointsAdminPermissions (ur_cf s) es = Inr cf \<and> roles_wf E Os (s\<lparr>ur_cf := cf\<rparr>)"
  unfolding propagateEndpointsAdminPermissions_def
proof (rule res_fold_total[where P = "\<lambda>cf. roles_wf E Os (s\<lparr>ur_cf := cf\<rparr>)"])
  fix cf e
  assume e: "e \<in> set es" and cf: "roles_wf E Os (s\<lparr>ur_cf := cf\<rparr>)"
  have "has_scopes (se_user e)" using e assms(2) by (simp add: list_all_iff)
  then obtain g where g: "propagateEndpointAdminPermissions (obj_get cf (se_guid e)) (se_user e) =
      Inr ((case obj_get cf (se_guid e) of Some c \<Rightarrow> c | None \<Rightarrow> getDefaultEndpointRoles)\<lparr>cr_global := g\<rparr>)"
    by (cases "se_user e") (auto simp: propagateEndpointAdminPermissions_def getEndpointRoles_def has_scopes_def Let_def)
  from roles_wf_set[OF cf, of "se_guid e"] roles_wf_or_default[OF cf, of "se_guid e"]
  show "\<exists>cf'. res_bind (propagateEndpointAdminPermissions (obj_get cf (se_guid e)) (se_user e))
      (\<lambda>c. Inr (obj_set (se_guid e) c cf)) = Inr cf' \<and> roles_wf E Os (s\<lparr>ur_cf := cf'\<rparr>)"
    by (auto simp: g)
qed (use assms(1) in simp)

lemma removeSpaceIdFromOrg_step:
  assumes s: "roles_wf E Os s" and ep: "ep \<in> E"
  shows "\<exists>s'. removeSpaceIdFromOrg s (Some ep) g = Inr s' \<and> roles_wf E Os s'"
proof -
  from roles_wf_known[OF s ep] obtain c where c: "obj_get (ur_cf s) ep = Some c" by blast
  note wf = roles_wf_get[OF s c]
  show ?thesis
  proof (cases "Option.bind g (obj_get (cr_spaces c))")
    case None
    then show ?thesis using s c by (simp add: removeSpaceIdFromOrg_def cf_roles_def)
  next
    case (Some sp)
    then obtain i where i: "g = Some i" "obj_get (cr_spaces c) i = Some sp" by (cases g) auto
    then have "in_orgs (set (obj_keys (cr_organizations c))) (sr_orgId sp)"
      using wf by (auto simp: cf_wf_def roles_settled_def)
    then obtain org og where org: "sr_orgId sp = Some org" "obj_get (cr_organizations c) org = Some og"
      by (cases "sr_orgId sp") (auto simp: in_orgs_def set_obj_keys)
    have "roles_wf E Os (s\<lparr>ur_cf := obj_set ep (c\<lparr>cr_organizations :=
        obj_set org (og\<lparr>or_spaceGuids := f og\<rparr>) (cr_organizations c)\<rparr>) (ur_cf s)\<rparr>)" for f
      by (rule roles_wf_set[OF s], rule cf_wf_orgs[OF wf]) (auto simp: obj_keys_set)
    then show ?thesis using i org c by (simp add: removeSpaceIdFromOrg_def cf_roles_def)
  qed
qed

lemma updateAfterRoleChange_step:
  assumes s: "roles_wf E Os s" and ch: "aa_change a = Some ch" "cu_updateConnectedUser ch"
    and ep: "ep \<in> E" "aa_endpointGuid a = Some ep"
    and sp: "cu_isSpace ch \<Longrightarrow> \<exists>org. org \<noteq> [] \<and> cu_orgGuid ch = Some org \<and> (ep, org) \<in> Os"
  shows "\<exists>s'. updateAfterRoleChange s isAdd a = Inr s' \<and> roles_wf E Os s'"
proof -
  from roles_wf_known[OF s ep(1)] obtain c where c: "obj_get (ur_cf s) ep = Some c" by blast
  note wf = roles_wf_get[OF s c]
  have cf: "cf_roles s (Some ep) = Inr c" using c by (simp add: cf_roles_def)
  show ?thesis
  proof (cases "cu_isSpace ch")
    case False
    have "roles_wf E Os (spreadState s ep (c\<lparr>cr_organizations := obj_set i r (cr_organizations c)\<rparr>))" for i r
      unfolding spreadState_def by (rule roles_wf_set[OF s], rule cf_wf_orgs[OF wf]) (auto simp: obj_keys_set)
    then show ?thesis
      using False ch ep s by (auto simp: updateAfterRoleChange_def cf handleOrgRoleChange_def Let_def)
  next
    case True
    from sp[OF True] obtain org where org: "org \<noteq> []" "cu_orgGuid ch = Some org" "(ep, org) \<in> Os" by blast
    then have known: "org \<in> set (obj_keys (cr_organizations c))" using wf by (auto simp: cf_wf_def)
    then obtain og where og: "obj_get (cr_organizations c) org = Some og" by (auto simp: set_obj_keys)
    define entity where "entity = (case obj_get (cr_spaces c) (cu_entityGuid ch) of
       Some r \<Rightarrow> r | None \<Rightarrow> defaultUserSpaceRoleState\<lparr>sr_orgId := cu_orgGuid ch\<rparr>)"
    have ent: "in_orgs (set (obj_keys (cr_organizations c))) (sr_orgId entity)"
      using wf org known by (auto simp: entity_def cf_wf_def roles_settled_def in_orgs_def split: option.splits)
    have keep: "sr_orgId (set_space_flag p b r) = sr_orgId r" for p b r by (simp add: set_space_flag.simps)
    have new: "roles_wf E Os (spreadState s ep (c\<lparr>cr_organizations := obj_set org og' (cr_organizations c),
        cr_spaces := obj_set (cu_entityGuid ch) (set_space_flag p isAdd entity) (cr_spaces c)\<rparr>))" for og' p
      unfolding spreadState_def
      by (rule roles_wf_set[OF s], rule cf_wf_update(1)[OF wf])
        (use wf ent known in \<open>auto simp: obj_keys_set keep cf_wf_def insert_absorb intro!: roles_settled_set\<close>)
    show ?thesis
      using True ch ep s new
      by (auto simp: updateAfterRoleChange_def cf entity_def[symmetric] handleSpaceRoleChange_def org og Let_def)
  qed
qed

lemma currentUserRolesReducer_step:
  assumes s: "roles_wf E Os s" and ok: "roles_ok E Os a"
  shows "\<exists>s'. currentUserRolesReducer s a = Inr s' \<and> roles_wf E Os s'"
  using assms
proof (induction s a rule: currentUserRolesReducer.induct)
  case (1 s t e ds)
  from currentUserCFRolesReducer_step[OF roles_wf_or_default[OF 1(1), of e], of t ds] 1(2) obtain c where
    c: "currentUserCFRolesReducer (case obj_get (ur_cf s) e of Some c \<Rightarrow> c | None \<Rightarrow> getDefaultEndpointRoles) t ds = Inr c"
    "cf_wf {org. (e, org) \<in> Os} c" by auto
  have eq: "currentUserBaseCFRolesReducer (ur_cf s) t e ds = Inr (obj_set e c
      (if obj_get (ur_cf s) e = None then obj_set e getDefaultEndpointRoles (ur_cf s) else ur_cf s))"
    using c(1) by (cases "obj_get (ur_cf s) e") (auto simp: currentUserBaseCFRolesReducer_def Let_def)
  show ?case
    unfolding currentUserRolesReducer.simps eq using 1(1) c(2) by (auto simp: roles_wf_def obj_keys_set)
next
  case (2 s sessionData u)
  then obtain cf where cf: "Option.bind (sd_endpoints sessionData) (\<lambda>es. obj_get es ''cf'') = Some cf"
    "list_all (\<lambda>e. has_scopes (se_user e)) (obj_values cf)" by (auto split: option.splits)
  from propagate_step[OF 2(1) cf(2)] cf(1) show ?case
    by (auto simp: roleInfoFromSessionReducer_def applyInternalScopes_def Let_def roles_wf_def)
next
  case (3 s t guid et endpoint)
  have del: "roles_wf E Os (removeEndpointRoles s guid et)" if "guid \<notin> E"
    using 3(1) that by (auto simp: removeEndpointRoles_def roles_wf_def set_obj_keys split: if_splits)
  have add: "\<exists>s'. addEndpoint s et (Some e) = Inr s' \<and> roles_wf E Os s'" if "ei_guid e \<notin> E" for e
  proof -
    from 3(1) that have "{org. (ei_guid e, org) \<in> Os} = {}" by (force simp: roles_wf_def)
    then have "cf_wf {org. (ei_guid e, org) \<in> Os} getDefaultEndpointRoles" by (simp only: cf_wf_default)
    from roles_wf_set[OF 3(1) this] 3(1) show ?thesis by (simp add: addEndpoint_def)
  qed
  have conn: "\<exists>s'. updateNewlyConnectedEndpoint s guid et (Some e) = Inr s' \<and> roles_wf E Os s'"
    if "has_scopes (ei_user e)" for e
    using propagate_step[OF 3(1), of "[\<lparr>se_guid = guid, se_user = ei_user e, se_info = []\<rparr>]"] that 3(1)
    by (auto simp: updateNewlyConnectedEndpoint_def)
  show ?case
    using 3 del add conn by (auto split: option.splits if_splits)
next
  case (4 s t a r)
  have space: "\<exists>s'. removeSpaceRoles s a = Inr s' \<and> roles_wf E Os s'" if "ep \<in> E" "aa_endpointGuid a = Some ep" for ep
    using removeSpaceIdFromOrg_step[OF 4(1) that(1), of "aa_guid a"] roles_wf_known[OF 4(1) that(1)] that(2)
    by (auto simp: removeSpaceRoles_def removeOrgOrSpaceRoles_def cf_roles_def)
  have role: "\<exists>s'. updateAfterRoleChange s b a = Inr s' \<and> roles_wf E Os s'"
    if "case aa_change a of None \<Rightarrow> True | Some ch \<Rightarrow> cu_updateConnectedUser ch \<longrightarrow>
          (\<exists>ep \<in> E. aa_endpointGuid a = Some ep \<and>
             (cu_isSpace ch \<longrightarrow> (\<exists>org. org \<noteq> [] \<and> cu_orgGuid ch = Some org \<and> (ep, org) \<in> Os)))" for b
  proof (cases "\<exists>ch. aa_change a = Some ch \<and> cu_updateConnectedUser ch")
    case True
    then obtain ch where ch: "aa_change a = Some ch" "cu_updateConnectedUser ch" by blast
    with that obtain ep where ep: "ep \<in> E" "aa_endpointGuid a = Some ep"
      "cu_isSpace ch \<Longrightarrow> \<exists>org. org \<noteq> [] \<and> cu_orgGuid ch = Some org \<and> (ep, org) \<in> Os" by auto
    from updateAfterRoleChange_step[OF 4(1) ch ep] show ?thesis .
  qed (use 4(1) in \<open>auto simp: updateAfterRoleChange_def split: option.splits\<close>)
  show ?case using 4 space role by (auto split: if_splits)
next
  case (5 s t)
  then show ?case by (auto intro: roles_wf_cf split: option.splits)
next
  case (6 s g t)
  then have g: "g \<in> E" by simp
  from roles_wf_known[OF 6(1) g] obtain c where c: "obj_get (ur_cf s) g = Some c" by blast
  from roles_wf_set[OF 6(1)] roles_wf_get[OF 6(1) c] show ?case
    using 6(1) by (auto simp: currentUserCfRolesRequestStateReducer_def c)
qed auto

interpretation roles: safe_reducer currentUserRolesReducer "roles_wf E Os" "roles_ok E Os"
  for E Os
  by unfold_locales (rule currentUserRolesReducer_step)

lemma assign_space_has:
  "\<exists>org. obj_get (assign_space d orgs) (rr_organization_guid d) = Some org \<and> rr_guid d \<in> set (or_spaceGuids org)"
  by (cases "obj_get orgs (rr_organization_guid d)")
    (auto simp: assign_space_def Let_def createOrgRoleStateState_def defaultUserOrgRoleState_def)

lemma assign_space_keeps:
  assumes "obj_get orgs i = Some org" and "sp \<in> set (or_spaceGuids org)"
  shows "\<exists>org. obj_get (assign_space d orgs) i = Some org \<and> sp \<in> set (or_spaceGuids org)"
  using assms by (auto simp: assign_space_def Let_def)

lemma assignSpaceToOrg_has:
  "d \<in> set ds \<Longrightarrow> \<exists>org. obj_get (assignSpaceToOrg orgs ds) (rr_organization_guid d) = Some org
     \<and> rr_guid d \<in> set (or_spaceGuids org)"
proof (induction ds rule: rev_induct)
  case (snoc x ds)
  then show ?case
    using assign_space_has[of d "assignSpaceToOrg orgs ds"] assign_space_keeps[of "assignSpaceToOrg orgs ds"]
    by (auto simp: assignSpaceToOrg_def)
qed simp

section \<open>Properties of the roles slice\<close>

text \<open>The organizations, spaces and global roles the slice has for an endpoint.\<close>

definition orgs_at :: "ICurrentUserRolesState \<Rightarrow> string \<Rightarrow> IOrgsRoleState" where
  "orgs_at s ep = (case obj_get (ur_cf s) ep of Some c \<Rightarrow> cr_organizations c | None \<Rightarrow> [])"

definition spaces_at :: "ICurrentUserRolesState \<Rightarrow> string \<Rightarrow> ISpacesRoleState" where
  "spaces_at s ep = (case obj_get (ur_cf s) ep of Some c \<Rightarrow> cr_spaces c | None \<Rightarrow> [])"

definition global_at :: "ICurrentUserRolesState \<Rightarrow> string \<Rightarrow> IGlobalRolesState" where
  "global_at s ep = cr_global (case obj_get (ur_cf s) ep of Some c \<Rightarrow> c | None \<Rightarrow> getDefaultEndpointRoles)"

lemma relations_complete:
  assumes "currentUserCFRolesReducer (case obj_get (ur_cf s) ep of Some c \<Rightarrow> c | None \<Rightarrow> getDefaultEndpointRoles) t ds = Inr c"
  shows "\<exists>s'. currentUserRolesReducer s (PermissionsA (GetCurrentUserRelationsComplete t ep ds)) = Inr s'
    \<and> orgs_at s' ep = cr_organizations c \<and> spaces_at s' ep = cr_spaces c"
  using assms
  by (cases "obj_get (ur_cf s) ep") (auto simp: currentUserBaseCFRolesReducer_def Let_def orgs_at_def spaces_at_def)

lemma at_or_default:
  "cr_organizations (case obj_get (ur_cf s) ep of Some c \<Rightarrow> c | None \<Rightarrow> getDefaultEndpointRoles) = orgs_at s ep"
  "cr_spaces (case obj_get (ur_cf s) ep of Some c \<Rightarrow> c | None \<Rightarrow> getDefaultEndpointRoles) = spaces_at s ep"
  by (simp_all add: orgs_at_def spaces_at_def getDefaultEndpointRoles_def split: option.splits)

text \<open>
  C17: The answer to a relation request for organizations: every organization in the answer has the relation
  afterwards, the other relations are as they were, and an organization that is no longer in the answer loses
  the relation exactly when every organization of the answer was known before and comes before it in the
  slice; one that stands before a kept organization keeps a relation the user no longer has.
\<close>

theorem org_relation_refresh:
  assumes "isOrgRelation t"
  shows "\<exists>s'. currentUserRolesReducer s (PermissionsA (GetCurrentUserRelationsComplete t ep ds)) = Inr s'
    \<and> (\<forall>t' i. has_flag org_relation t' (orgs_at s' ep) i \<longleftrightarrow>
        (if t' = t
         then i \<in> rr_guid ` set ds
           \<or> has_flag org_relation t (orgs_at s ep) i \<and> \<not> lost (orgs_at s ep) (map rr_guid ds) i
         else has_flag org_relation t' (orgs_at s ep) i))"
proof -
  let ?c = "case obj_get (ur_cf s) ep of Some c \<Rightarrow> c | None \<Rightarrow> getDefaultEndpointRoles"
  have "roles_settled (\<lambda>_. True) (cr_organizations ?c)" by (simp add: roles_settled_def)
  from org_roles.refresh_spec[OF assms this, of ds] obtain orgs where orgs:
    "currentUserOrgRolesReducer (cr_organizations ?c) t ds = Inr orgs"
    "\<And>t' i. has_flag org_relation t' orgs i \<longleftrightarrow>
        (if t' = t then i \<in> rr_guid ` set ds
           \<or> has_flag org_relation t (cr_organizations ?c) i \<and> \<not> lost (cr_organizations ?c) (map rr_guid ds) i
         else has_flag org_relation t' (cr_organizations ?c) i)"
    unfolding currentUserOrgRolesReducer_def by (auto simp: list_all_iff)
  have "currentUserCFRolesReducer ?c t ds = Inr (?c\<lparr>cr_organizations := orgs\<rparr>)"
    using assms orgs(1) by (simp add: currentUserCFRolesReducer_def)
  from relations_complete[OF this] orgs(2) show ?thesis unfolding at_or_default by auto
qed

theorem org_relation_refresh_witness:
  "\<exists>s'. currentUserRolesReducer
      (getDefaultState\<lparr>ur_cf := [(''cf1'', getDefaultEndpointRoles\<lparr>cr_organizations :=
         [(''o1'', createOrgRoleStateState\<lparr>or_isManager := True\<rparr>), (''o2'', createOrgRoleStateState\<lparr>or_isManager := True\<rparr>)]\<rparr>)]\<rparr>)
      (PermissionsA (GetCurrentUserRelationsComplete MANAGED_ORGANIZATION ''cf1''
         [\<lparr>rr_guid = ''o2'', rr_organization_guid = ''''\<rparr>])) = Inr s'
    \<and> has_flag org_relation MANAGED_ORGANIZATION (orgs_at s' ''cf1'') ''o1''"
proof -
  let ?os = "[(''o1'', createOrgRoleStateState\<lparr>or_isManager := True\<rparr>), (''o2'', createOrgRoleStateState\<lparr>or_isManager := True\<rparr>)]"
  let ?s = "getDefaultState\<lparr>ur_cf := [(''cf1'', getDefaultEndpointRoles\<lparr>cr_organizations := ?os\<rparr>)]\<rparr>"
  let ?d = "\<lparr>rr_guid = ''o2'', rr_organization_guid = ''''\<rparr>"
  have "isOrgRelation MANAGED_ORGANIZATION" by (simp add: isOrgRelation_def)
  from org_relation_refresh[OF this, of ?s "''cf1''" "[?d]"] obtain s' where s':
    "currentUserRolesReducer ?s (PermissionsA (GetCurrentUserRelationsComplete MANAGED_ORGANIZATION ''cf1'' [?d])) = Inr s'"
    "has_flag org_relation MANAGED_ORGANIZATION (orgs_at s' ''cf1'') ''o1'' \<longleftrightarrow>
       ''o1'' \<in> rr_guid ` set [?d] \<or> has_flag org_relation MANAGED_ORGANIZATION (orgs_at ?s ''cf1'') ''o1''
         \<and> \<not> lost (orgs_at ?s ''cf1'') (map rr_guid [?d]) ''o1''"
    by (metis (no_types, lifting))
  moreover have "orgs_at ?s ''cf1'' = ?os" by (simp add: orgs_at_def)
  ultimately show ?thesis by (intro exI[of _ s']) (simp add: has_flag_def lost_def trailing_def)
qed

text \<open>
  The answer to a relation request for spaces follows the same rule, when the answer names the organization of
  every space and the spaces known so far have one; and each space of the answer is among the spaces of its
  organization afterwards.
\<close>

theorem space_relation_refresh:
  assumes t: "isSpaceRelation t" and ds: "list_all (\<lambda>d. rr_organization_guid d \<noteq> []) ds"
    and known: "roles_settled (\<lambda>r. truthy_str (sr_orgId r)) (spaces_at s ep)"
  shows "\<exists>s'. currentUserRolesReducer s (PermissionsA (GetCurrentUserRelationsComplete t ep ds)) = Inr s'
    \<and> (\<forall>t' i. has_flag space_relation t' (spaces_at s' ep) i \<longleftrightarrow>
        (if t' = t
         then i \<in> rr_guid ` set ds
           \<or> has_flag space_relation t (spaces_at s ep) i \<and> \<not> lost (spaces_at s ep) (map rr_guid ds) i
         else has_flag space_relation t' (spaces_at s ep) i))
    \<and> (\<forall>d \<in> set ds. \<exists>org. obj_get (orgs_at s' ep) (rr_organization_guid d) = Some org
        \<and> rr_guid d \<in> set (or_spaceGuids org))"
proof -
  let ?c = "case obj_get (ur_cf s) ep of Some c \<Rightarrow> c | None \<Rightarrow> getDefaultEndpointRoles"
  have "roles_settled (\<lambda>r. in_orgs UNIV (sr_orgId r)) (cr_spaces ?c)"
    using known by (simp add: in_orgs_def at_or_default)
  moreover have "list_all (\<lambda>d. in_orgs UNIV (Some (rr_organization_guid d))) ds" using ds by (simp add: in_orgs_def)
  ultimately obtain spaces where spaces:
    "currentUserSpaceRolesReducer (cr_spaces ?c) t ds = Inr spaces"
    "\<And>t' i. has_flag space_relation t' spaces i \<longleftrightarrow>
        (if t' = t then i \<in> rr_guid ` set ds
           \<or> has_flag space_relation t (cr_spaces ?c) i \<and> \<not> lost (cr_spaces ?c) (map rr_guid ds) i
         else has_flag space_relation t' (cr_spaces ?c) i)"
    using space_roles.refresh_spec[OF t] unfolding currentUserSpaceRolesReducer_def by blast
  have notorg: "\<not> isOrgRelation t" using t by (cases t) (simp_all add: isOrgRelation_def isSpaceRelation_def)
  have "currentUserCFRolesReducer ?c t ds =
      Inr (?c\<lparr>cr_spaces := spaces, cr_organizations := assignSpaceToOrg (cr_organizations ?c) ds\<rparr>)"
    using t notorg spaces(1) by (simp add: currentUserCFRolesReducer_def)
  from relations_complete[OF this] spaces(2) assignSpaceToOrg_has[of _ ds "orgs_at s ep"]
  show ?thesis unfolding at_or_default by auto
qed

theorem space_relation_refresh_witness:
  "\<exists>s'. currentUserRolesReducer getDefaultState (PermissionsA (GetCurrentUserRelationsComplete SPACES ''cf1''
         [\<lparr>rr_guid = ''s1'', rr_organization_guid = ''o1''\<rparr>])) = Inr s'
    \<and> has_flag space_relation SPACES (spaces_at s' ''cf1'') ''s1''"
proof -
  let ?d = "\<lparr>rr_guid = ''s1'', rr_organization_guid = ''o1''\<rparr>"
  have "isSpaceRelation SPACES" "list_all (\<lambda>d. rr_organization_guid d \<noteq> []) [?d]"
    "roles_settled (\<lambda>r. truthy_str (sr_orgId r)) (spaces_at getDefaultState ''cf1'')"
    by (simp_all add: isSpaceRelation_def roles_settled_def spaces_at_def getDefaultState_def)
  from space_relation_refresh[OF this] obtain s' where
    "currentUserRolesReducer getDefaultState (PermissionsA (GetCurrentUserRelationsComplete SPACES ''cf1'' [?d])) = Inr s'"
    "\<And>t' i. has_flag space_relation t' (spaces_at s' ''cf1'') i \<longleftrightarrow>
        (if t' = SPACES then i \<in> rr_guid ` set [?d]
           \<or> has_flag space_relation SPACES (spaces_at getDefaultState ''cf1'') i
             \<and> \<not> lost (spaces_at getDefaultState ''cf1'') (map rr_guid [?d]) i
         else has_flag space_relation t' (spaces_at getDefaultState ''cf1'') i)" by blast
  then show ?thesis by (intro exI[of _ s']) simp
qed

text \<open>
  Over endpoints and organizations that stay known (no organization is deleted, no known endpoint registered again
  or removed), with scopes for connected users and organizations for spaces, a run of role actions never throws,
  and every space keeps knowing an organization the slice has.
\<close>

theorem roles_run_never_throws:
  assumes "roles_wf E Os s" and "list_all (roles_ok E Os) as"
  shows "\<exists>s'. res_fold currentUserRolesReducer s as = Inr s' \<and> roles_wf E Os s'"
  using assms by (rule roles.run_total)

theorem roles_run_never_throws_witness:
  "\<exists>s'. res_fold currentUserRolesReducer getDefaultState
      [EndpointA (EndpointActionComplete REGISTER_ENDPOINTS_SUCCESS ''cf1'' ''web'' (Some \<lparr>ei_guid = ''cf1'', ei_user = None\<rparr>)),
       PermissionsA (GetCurrentUserRelationsComplete SPACES ''cf1'' [\<lparr>rr_guid = ''s1'', rr_organization_guid = ''o1''\<rparr>]),
       EndpointA (EndpointActionComplete UNREGISTER_ENDPOINTS_SUCCESS ''cf1'' ''web'' None)] = Inr s'
    \<and> roles_wf {} {} s'"
  by (rule roles_run_never_throws) (simp_all add: roles_wf_def getDefaultState_def endpoint_types)

text \<open>
  Endpoints do not interfere: after any run of actions none of which names an endpoint, the roles at that endpoint
  are the ones they were.
\<close>

theorem roles_run_frame:
  assumes "list_all (\<lambda>a. \<not> roles_touches a ep) as" and "res_fold currentUserRolesReducer s as = Inr s'"
  shows "obj_get (ur_cf s') ep = obj_get (ur_cf s) ep"
  using roles_frame.run_frame[OF TrueI assms] .

theorem roles_run_frame_witness:
  "obj_get (ur_cf (getDefaultState\<lparr>ur_cf := [(''cf1'', getDefaultEndpointRoles)]\<rparr>)) ''cf2'' = None"
  using roles_run_frame[of "''cf2''" "[EndpointA (EndpointActionComplete REGISTER_ENDPOINTS_SUCCESS ''cf1'' ''web''
       (Some \<lparr>ei_guid = ''cf1'', ei_user = None\<rparr>))]" getDefaultState
      "getDefaultState\<lparr>ur_cf := [(''cf1'', getDefaultEndpointRoles)]\<rparr>"]
  by (simp add: addEndpoint_def getDefaultState_def)

lemma fold_role_of_scope:
  "gr_isAdmin (fold role_of_scope ss g) \<longleftrightarrow> gr_isAdmin g \<or> CF_ADMIN_GROUP \<in> set ss"
  "gr_isReadOnlyAdmin (fold role_of_scope ss g) \<longleftrightarrow> gr_isReadOnlyAdmin g \<or> CF_READ_ONLY_ADMIN_GROUP \<in> set ss"
  "gr_isGlobalAuditor (fold role_of_scope ss g) \<longleftrightarrow> gr_isGlobalAuditor g \<or> CF_ADMIN_GLOBAL_AUDITOR_GROUP \<in> set ss"
  "gr_canRead (fold role_of_scope ss g) \<longleftrightarrow> gr_canRead g \<or> CF_READ_SCOPE \<in> set ss"
  "gr_canWrite (fold role_of_scope ss g) \<longleftrightarrow> gr_canWrite g \<or> CF_WRITE_SCOPE \<in> set ss"
  "gr_scopes (fold role_of_scope ss g) = gr_scopes g"
  by (induction ss arbitrary: g) (auto simp: role_of_scope_def Let_def)

text \<open>
  Connecting a Cloud Foundry endpoint: the global roles of the user follow from the scopes of the token (reading
  and writing both from the write scope), organizations and spaces stay; but a global role the user had before is
  never taken away, whatever the new scopes are.
\<close>

theorem connect_sets_global_roles:
  assumes "eu_scopes u = Some ss"
  shows "\<exists>s'. currentUserRolesReducer s (EndpointA (EndpointActionComplete CONNECT_ENDPOINTS_SUCCESS ep ''web''
        (Some \<lparr>ei_guid = i, ei_user = Some u\<rparr>))) = Inr s'
    \<and> (gr_isAdmin (global_at s' ep) \<longleftrightarrow> gr_isAdmin (global_at s ep) \<or> ''cloud_controller.admin'' \<in> set ss)
    \<and> (gr_isReadOnlyAdmin (global_at s' ep) \<longleftrightarrow>
         gr_isReadOnlyAdmin (global_at s ep) \<or> ''cloud_controller.admin_read_only'' \<in> set ss)
    \<and> (gr_isGlobalAuditor (global_at s' ep) \<longleftrightarrow>
         gr_isGlobalAuditor (global_at s ep) \<or> ''cloud_controller.global_auditor'' \<in> set ss)
    \<and> (gr_canRead (global_at s' ep) \<longleftrightarrow> gr_canRead (global_at s ep) \<or> ''cloud_controller.write'' \<in> set ss)
    \<and> (gr_canWrite (global_at s' ep) \<longleftrightarrow> gr_canWrite (global_at s ep) \<or> ''cloud_controller.write'' \<in> set ss)
    \<and> gr_scopes (global_at s' ep) = ss
    \<and> orgs_at s' ep = orgs_at s ep \<and> spaces_at s' ep = spaces_at s ep"
proof -
  let ?c = "case obj_get (ur_cf s) ep of Some c \<Rightarrow> c | None \<Rightarrow> getDefaultEndpointRoles"
  let ?c' = "?c\<lparr>cr_global := fold role_of_scope ss ((cr_global ?c)\<lparr>gr_scopes := ss\<rparr>)\<rparr>"
  have "currentUserRolesReducer s (EndpointA (EndpointActionComplete CONNECT_ENDPOINTS_SUCCESS ep ''web''
        (Some \<lparr>ei_guid = i, ei_user = Some u\<rparr>))) = Inr (s\<lparr>ur_cf := obj_set ep ?c' (ur_cf s)\<rparr>)"
    using assms by (simp add: endpoint_types updateNewlyConnectedEndpoint_def propagateEndpointsAdminPermissions_def
        propagateEndpointAdminPermissions_def getEndpointRoles_def Let_def)
  moreover have "orgs_at (s\<lparr>ur_cf := obj_set ep ?c' (ur_cf s)\<rparr>) ep = orgs_at s ep"
    "spaces_at (s\<lparr>ur_cf := obj_set ep ?c' (ur_cf s)\<rparr>) ep = spaces_at s ep"
    using at_or_default[of s ep] by (simp_all add: orgs_at_def[of "s\<lparr>ur_cf := _\<rparr>"] spaces_at_def[of "s\<lparr>ur_cf := _\<rparr>"])
  moreover have "global_at (s\<lparr>ur_cf := obj_set ep ?c' (ur_cf s)\<rparr>) ep = fold role_of_scope ss ((global_at s ep)\<lparr>gr_scopes := ss\<rparr>)"
    by (simp add: global_at_def)
  ultimately show ?thesis by (simp add: fold_role_of_scope) (simp add: scope_strings)
qed

theorem connect_sets_global_roles_witness:
  "\<exists>s'. currentUserRolesReducer getDefaultState (EndpointA (EndpointActionComplete CONNECT_ENDPOINTS_SUCCESS ''cf1'' ''web''
        (Some \<lparr>ei_guid = ''cf1'', ei_user = Some \<lparr>eu_guid = ''u'', eu_name = ''u'', eu_admin = True,
           eu_scopes = Some [''cloud_controller.write'']\<rparr>\<rparr>))) = Inr s'
    \<and> gr_canRead (global_at s' ''cf1'') \<and> \<not> gr_isAdmin (global_at s' ''cf1'')"
  using connect_sets_global_roles[of "\<lparr>eu_guid = ''u'', eu_name = ''u'', eu_admin = True,
           eu_scopes = Some [''cloud_controller.write'']\<rparr>" "[''cloud_controller.write'']" getDefaultState "''cf1''" "''cf1''"]
  by (auto simp: global_at_def getDefaultState_def getDefaultEndpointRoles_def)

text \<open>
  The end of an endpoint's roles: registering a Cloud Foundry endpoint gives it the default roles, also when the
  slice has roles for it already (the test for that looks in the wrong object); disconnecting or unregistering it
  removes its roles.
\<close>

theorem endpoint_roles_lifecycle:
  assumes "ei_guid e \<notin> {''internal'', ''cf'', ''state''}"
  shows "(\<exists>s1. currentUserRolesReducer s (EndpointA (EndpointActionComplete REGISTER_ENDPOINTS_SUCCESS g ''web'' (Some e))) = Inr s1
      \<and> obj_get (ur_cf s1) (ei_guid e) = Some getDefaultEndpointRoles)
    \<and> (t \<in> {DISCONNECT_ENDPOINTS_SUCCESS, UNREGISTER_ENDPOINTS_SUCCESS} \<longrightarrow>
      (\<exists>s2. currentUserRolesReducer s (EndpointA (EndpointActionComplete t g ''web'' i)) = Inr s2
        \<and> obj_get (ur_cf s2) g = None \<and> ur_internal s2 = ur_internal s))"
  using assms by (auto simp: addEndpoint_def removeEndpointRoles_def endpoint_types)

theorem endpoint_roles_lifecycle_witness:
  "\<exists>s1. currentUserRolesReducer
      (getDefaultState\<lparr>ur_cf := [(''cf1'', getDefaultEndpointRoles\<lparr>cr_organizations := [(''o1'', createOrgRoleStateState)]\<rparr>)]\<rparr>)
      (EndpointA (EndpointActionComplete REGISTER_ENDPOINTS_SUCCESS ''cf1'' ''web'' (Some \<lparr>ei_guid = ''cf1'', ei_user = None\<rparr>))) = Inr s1
    \<and> obj_get (ur_cf s1) ''cf1'' = Some getDefaultEndpointRoles"
  using endpoint_roles_lifecycle[of "\<lparr>ei_guid = ''cf1'', ei_user = None\<rparr>"
      "getDefaultState\<lparr>ur_cf := [(''cf1'', getDefaultEndpointRoles\<lparr>cr_organizations := [(''o1'', createOrgRoleStateState)]\<rparr>)]\<rparr>"
      "''cf1''" UNREGISTER_ENDPOINTS_SUCCESS None]
  by simp

text \<open>
  Deleting an organization removes its roles and keeps those of its spaces, so a space of it is left with an
  organization the slice does not have, and the deletion of that space throws a TypeError.
\<close>

theorem deleted_org_keeps_spaces:
  assumes "obj_get (ur_cf s) ep = Some c" and "obj_get (cr_organizations c) org \<noteq> None"
    and "obj_get (cr_spaces c) sp = Some r" and "sr_orgId r = Some org"
    and "aa_endpointGuid a = Some ep" and "aa_guid a = Some org"
    and "aa_endpointGuid b = Some ep" and "aa_guid b = Some sp"
  shows "\<exists>s'. currentUserRolesReducer s (RequestA (APISuccessOrFailedAction DELETE_ORGANIZATION_SUCCESS a resp)) = Inr s'
    \<and> obj_get (orgs_at s' ep) org = None \<and> spaces_at s' ep = cr_spaces c
    \<and> currentUserRolesReducer s' (RequestA (APISuccessOrFailedAction DELETE_SPACE_SUCCESS b resp)) = Inl TypeError"
proof -
  let ?s = "s\<lparr>ur_cf := obj_set ep (c\<lparr>cr_organizations := obj_del org (cr_organizations c)\<rparr>) (ur_cf s)\<rparr>"
  have "currentUserRolesReducer s (RequestA (APISuccessOrFailedAction DELETE_ORGANIZATION_SUCCESS a resp)) = Inr ?s"
    using assms by (auto simp: removeOrgRoles_def removeOrgOrSpaceRoles_def cf_roles_def cleanUpOrgSpaces_def)
  moreover have "currentUserRolesReducer ?s (RequestA (APISuccessOrFailedAction DELETE_SPACE_SUCCESS b resp)) = Inl TypeError"
    using assms by (simp add: role_change_types removeSpaceRoles_def removeOrgOrSpaceRoles_def removeSpaceIdFromOrg_def
        cf_roles_def)
  ultimately show ?thesis by (simp add: orgs_at_def spaces_at_def)
qed

theorem deleted_org_keeps_spaces_witness:
  "\<exists>s'. currentUserRolesReducer
      (getDefaultState\<lparr>ur_cf := [(''cf1'', getDefaultEndpointRoles\<lparr>
         cr_organizations := [(''o1'', createOrgRoleStateState)],
         cr_spaces := [(''s1'', defaultUserSpaceRoleState\<lparr>sr_orgId := Some ''o1''\<rparr>)]\<rparr>)]\<rparr>)
      (RequestA (APISuccessOrFailedAction DELETE_ORGANIZATION_SUCCESS
         ((entity_action ''organization'' ''o1'')\<lparr>aa_endpointGuid := Some ''cf1''\<rparr>) JUndef)) = Inr s'
    \<and> currentUserRolesReducer s' (RequestA (APISuccessOrFailedAction DELETE_SPACE_SUCCESS
         ((entity_action ''space'' ''s1'')\<lparr>aa_endpointGuid := Some ''cf1''\<rparr>) JUndef)) = Inl TypeError"
proof -
  let ?c = "getDefaultEndpointRoles\<lparr>cr_organizations := [(''o1'', createOrgRoleStateState)],
         cr_spaces := [(''s1'', defaultUserSpaceRoleState\<lparr>sr_orgId := Some ''o1''\<rparr>)]\<rparr>"
  let ?s = "getDefaultState\<lparr>ur_cf := [(''cf1'', ?c)]\<rparr>"
  let ?a = "(entity_action ''organization'' ''o1'')\<lparr>aa_endpointGuid := Some ''cf1''\<rparr>"
  let ?b = "(entity_action ''space'' ''s1'')\<lparr>aa_endpointGuid := Some ''cf1''\<rparr>"
  have "\<exists>s'. currentUserRolesReducer ?s (RequestA (APISuccessOrFailedAction DELETE_ORGANIZATION_SUCCESS ?a JUndef)) = Inr s'
    \<and> obj_get (orgs_at s' ''cf1'') ''o1'' = None \<and> spaces_at s' ''cf1'' = cr_spaces ?c
    \<and> currentUserRolesReducer s' (RequestA (APISuccessOrFailedAction DELETE_SPACE_SUCCESS ?b JUndef)) = Inl TypeError"
    by (rule deleted_org_keeps_spaces[of ?s "''cf1''" ?c "''o1''" "''s1''" "defaultUserSpaceRoleState\<lparr>sr_orgId := Some ''o1''\<rparr>"])
      (simp_all add: plain_actions)
  then show ?thesis by (elim exE conjE) (intro exI conjI)
qed

text \<open>
  Deleting a space takes it off the list of its organization and leaves the user's roles in it in the slice, as the
  state without them is computed and dropped.
\<close>

theorem deleted_space_keeps_roles:
  assumes "obj_get (ur_cf s) ep = Some c" and "obj_get (cr_spaces c) sp = Some r" and "sr_orgId r = Some org"
    and "obj_get (cr_organizations c) org = Some og" and "aa_endpointGuid a = Some ep" and "aa_guid a = Some sp"
  shows "\<exists>s'. currentUserRolesReducer s (RequestA (APISuccessOrFailedAction DELETE_SPACE_SUCCESS a resp)) = Inr s'
    \<and> obj_get (spaces_at s' ep) sp = Some r
    \<and> (\<exists>og'. obj_get (orgs_at s' ep) org = Some og' \<and> sp \<notin> set (or_spaceGuids og')
        \<and> (\<forall>i. i \<noteq> sp \<longrightarrow> (i \<in> set (or_spaceGuids og') \<longleftrightarrow> i \<in> set (or_spaceGuids og))))"
  using assms
  by (simp add: role_change_types removeSpaceRoles_def removeOrgOrSpaceRoles_def removeSpaceIdFromOrg_def cf_roles_def
      orgs_at_def spaces_at_def)

theorem deleted_space_keeps_roles_witness:
  "\<exists>s'. currentUserRolesReducer
      (getDefaultState\<lparr>ur_cf := [(''cf1'', getDefaultEndpointRoles\<lparr>
         cr_organizations := [(''o1'', createOrgRoleStateState\<lparr>or_spaceGuids := [''s1'']\<rparr>)],
         cr_spaces := [(''s1'', defaultUserSpaceRoleState\<lparr>sr_orgId := Some ''o1'', sr_isManager := True\<rparr>)]\<rparr>)]\<rparr>)
      (RequestA (APISuccessOrFailedAction DELETE_SPACE_SUCCESS
         ((entity_action ''space'' ''s1'')\<lparr>aa_endpointGuid := Some ''cf1''\<rparr>) JUndef)) = Inr s'
    \<and> obj_get (spaces_at s' ''cf1'') ''s1'' = Some (defaultUserSpaceRoleState\<lparr>sr_orgId := Some ''o1'', sr_isManager := True\<rparr>)"
proof -
  let ?og = "createOrgRoleStateState\<lparr>or_spaceGuids := [''s1'']\<rparr>"
  let ?r = "defaultUserSpaceRoleState\<lparr>sr_orgId := Some ''o1'', sr_isManager := True\<rparr>"
  let ?c = "getDefaultEndpointRoles\<lparr>cr_organizations := [(''o1'', ?og)], cr_spaces := [(''s1'', ?r)]\<rparr>"
  let ?s = "getDefaultState\<lparr>ur_cf := [(''cf1'', ?c)]\<rparr>"
  let ?a = "(entity_action ''space'' ''s1'')\<lparr>aa_endpointGuid := Some ''cf1''\<rparr>"
  have "\<exists>s'. currentUserRolesReducer ?s (RequestA (APISuccessOrFailedAction DELETE_SPACE_SUCCESS ?a JUndef)) = Inr s'
    \<and> obj_get (spaces_at s' ''cf1'') ''s1'' = Some ?r
    \<and> (\<exists>og'. obj_get (orgs_at s' ''cf1'') ''o1'' = Some og' \<and> ''s1'' \<notin> set (or_spaceGuids og')
        \<and> (\<forall>i. i \<noteq> ''s1'' \<longrightarrow> (i \<in> set (or_spaceGuids og') \<longleftrightarrow> i \<in> set (or_spaceGuids ?og))))"
    by (rule deleted_space_keeps_roles[of ?s "''cf1''" ?c]) (simp_all add: plain_actions)
  then show ?thesis by (elim exE conjE) (intro exI conjI)
qed

lemma set_space_flag_get:
  "space_flag r p \<noteq> None \<Longrightarrow> space_flag (set_space_flag p b r) q = (if q = p then Some b else space_flag r q)"
  by (auto simp: set_space_flag.simps space_flag.simps split: if_splits)

lemma set_space_flag_org [simp]: "sr_orgId (set_space_flag p b r) = sr_orgId r"
  by (simp add: set_space_flag.simps)

text \<open>The space roles a role change starts from.\<close>

definition space_roles_or_new :: "ICurrentUserRolesState \<Rightarrow> string \<Rightarrow> string \<Rightarrow> string option \<Rightarrow> ISpaceRoleState" where
  "space_roles_or_new s ep sp org =
     (case obj_get (spaces_at s ep) sp of Some r \<Rightarrow> r | None \<Rightarrow> defaultUserSpaceRoleState\<lparr>sr_orgId := org\<rparr>)"

text \<open>
  C28: A role in a space given to or taken from the connected user: that flag of the space becomes what the change says
  and the other flags stay; the space is on its organization's list afterwards when the role was given, and when it was
  taken it stays on the list exactly when it was on it and some role is left. A change for another user changes nothing.
\<close>

theorem space_role_change:
  assumes c: "obj_get (ur_cf s) ep = Some c" and og: "obj_get (cr_organizations c) org = Some og"
    and a: "aa_endpointGuid a = Some ep" "aa_change a = Some ch"
    and ch: "cu_isSpace ch" "cu_orgGuid ch = Some org" "userRoleNameToPermissionName (cu_permissionTypeKey ch) = Some p"
    and r: "r = space_roles_or_new s ep (cu_entityGuid ch) (Some org)"
    and p: "space_flag r p = Some (\<not> isAdd)"
  shows "\<exists>s'. currentUserRolesReducer s (RequestA (APISuccessOrFailedAction
        (if isAdd then ADD_ROLE_SUCCESS else REMOVE_ROLE_SUCCESS) a resp)) = Inr s'
    \<and> (\<not> cu_updateConnectedUser ch \<longrightarrow> s' = s)
    \<and> (cu_updateConnectedUser ch \<longrightarrow>
        (\<exists>r' og'. obj_get (spaces_at s' ep) (cu_entityGuid ch) = Some r' \<and> obj_get (orgs_at s' ep) org = Some og'
          \<and> (\<forall>q. space_flag r' q = (if q = p then Some isAdd else space_flag r q))
          \<and> (cu_entityGuid ch \<in> set (or_spaceGuids og') \<longleftrightarrow> isAdd \<or>
              cu_entityGuid ch \<in> set (or_spaceGuids og) \<and> (sr_isAuditor r' \<or> sr_isDeveloper r' \<or> sr_isManager r'))))"
proof -
  have run: "currentUserRolesReducer s (RequestA (APISuccessOrFailedAction
        (if isAdd then ADD_ROLE_SUCCESS else REMOVE_ROLE_SUCCESS) a resp)) = updateAfterRoleChange s isAdd a"
    by (simp add: role_change_types)
  have ent: "(case obj_get (cr_spaces c) (cu_entityGuid ch) of Some r \<Rightarrow> r
      | None \<Rightarrow> defaultUserSpaceRoleState\<lparr>sr_orgId := cu_orgGuid ch\<rparr>) = r"
    using r c unfolding ch(2) by (simp add: space_roles_or_new_def spaces_at_def)
  show ?thesis
  proof (cases "cu_updateConnectedUser ch")
    case True
    let ?r = "set_space_flag p isAdd r"
    have p': "space_flag r p \<noteq> None" using p by simp
    have "updateAfterRoleChange s isAdd a = handleSpaceRoleChange s ep c (Some org) (cu_entityGuid ch) r p isAdd"
      using True a ch(1,3) c p ent by (simp add: updateAfterRoleChange_def cf_roles_def Let_def) (simp add: ch(2))
    then show ?thesis
      using True og set_space_flag_get[OF p', of isAdd] c
      unfolding run by (auto simp: handleSpaceRoleChange_def Let_def spaces_at_def orgs_at_def)
  next
    case False
    then show ?thesis unfolding run by (simp add: updateAfterRoleChange_def a)
  qed
qed

theorem space_role_change_witness:
  "\<exists>s'. currentUserRolesReducer
      (getDefaultState\<lparr>ur_cf := [(''cf1'', getDefaultEndpointRoles\<lparr>cr_organizations := [(''o1'', createOrgRoleStateState)]\<rparr>)]\<rparr>)
      (RequestA (APISuccessOrFailedAction ADD_ROLE_SUCCESS ((entity_action ''space'' ''s1'')\<lparr>aa_endpointGuid := Some ''cf1'',
         aa_change := Some \<lparr>cu_userGuid = ''u1'', cu_permissionTypeKey = ''developers'', cu_entityGuid = ''s1'', cu_isSpace = True,
           cu_updateConnectedUser = True, cu_orgGuid = Some ''o1''\<rparr>\<rparr>) JUndef)) = Inr s'
    \<and> (\<exists>r. obj_get (spaces_at s' ''cf1'') ''s1'' = Some r \<and> space_flag r ''isDeveloper'' = Some True)"
proof -
  let ?c = "getDefaultEndpointRoles\<lparr>cr_organizations := [(''o1'', createOrgRoleStateState)]\<rparr>"
  let ?s = "getDefaultState\<lparr>ur_cf := [(''cf1'', ?c)]\<rparr>"
  let ?ch = "\<lparr>cu_userGuid = ''u1'', cu_permissionTypeKey = ''developers'', cu_entityGuid = ''s1'', cu_isSpace = True,
           cu_updateConnectedUser = True, cu_orgGuid = Some ''o1''\<rparr>"
  let ?a = "(entity_action ''space'' ''s1'')\<lparr>aa_endpointGuid := Some ''cf1'', aa_change := Some ?ch\<rparr>"
  have new: "space_roles_or_new ?s ''cf1'' (cu_entityGuid ?ch) (Some ''o1'') =
      defaultUserSpaceRoleState\<lparr>sr_orgId := Some ''o1''\<rparr>"
    by (simp add: space_roles_or_new_def spaces_at_def getDefaultEndpointRoles_def)
  have flag: "space_flag (defaultUserSpaceRoleState\<lparr>sr_orgId := Some ''o1''\<rparr>) ''isDeveloper'' = Some (\<not> True)"
    by (simp add: space_flag.simps defaultUserSpaceRoleState_def)
  have "\<exists>s'. currentUserRolesReducer ?s (RequestA (APISuccessOrFailedAction
        (if True then ADD_ROLE_SUCCESS else REMOVE_ROLE_SUCCESS) ?a JUndef)) = Inr s'
    \<and> (\<not> cu_updateConnectedUser ?ch \<longrightarrow> s' = ?s)
    \<and> (cu_updateConnectedUser ?ch \<longrightarrow>
        (\<exists>r' og'. obj_get (spaces_at s' ''cf1'') (cu_entityGuid ?ch) = Some r' \<and> obj_get (orgs_at s' ''cf1'') ''o1'' = Some og'
          \<and> (\<forall>q. space_flag r' q = (if q = ''isDeveloper'' then Some True
               else space_flag (defaultUserSpaceRoleState\<lparr>sr_orgId := Some ''o1''\<rparr>) q))
          \<and> (cu_entityGuid ?ch \<in> set (or_spaceGuids og') \<longleftrightarrow> True \<or>
              cu_entityGuid ?ch \<in> set (or_spaceGuids createOrgRoleStateState)
                \<and> (sr_isAuditor r' \<or> sr_isDeveloper r' \<or> sr_isManager r'))))"
    by (rule space_role_change[of ?s "''cf1''" ?c, OF _ _ _ _ _ _ _ new[symmetric] flag])
      (simp_all add: userRoleNameToPermissionName_def plain_actions)
  then obtain s' r' where "currentUserRolesReducer ?s (RequestA (APISuccessOrFailedAction ADD_ROLE_SUCCESS ?a JUndef)) = Inr s'"
    "obj_get (spaces_at s' ''cf1'') ''s1'' = Some r'" "space_flag r' ''isDeveloper'' = Some True" by auto
  then show ?thesis by blast
qed

end
