(* ===== verification/Permissions.thy ===== *)
theory Permissions
  imports Roles
begin

section \<open>What the user may do: core/current-user-permissions.*.ts, role.selectors.ts\<close>

text \<open>
  The permission service answers \<open>can(action, endpoint, org or space, space)\<close> as an observable of the roles
  slice, the registered endpoints and the feature flags. The configuration maps an action to checks; the
  checker turns a check into an observable; the service combines them and lets the flags of the
  administrator and of the read-only user decide first. An observable is what it emits for one state of the
  store (\<open>obs\<close>). The feature flags of an endpoint come through a \<open>PaginationMonitor\<close>; the state holds what
  that monitor emits per pagination key.
\<close>

subsection \<open>Selectors: role.selectors.ts, endpoint.selectors.ts\<close>

record EndpointModel =
  em_guid :: string
  em_cnsi_type :: string
  em_registered :: bool

record IFeatureFlag =
  ff_name :: string
  ff_enabled :: bool

record AppState =
  ap_currentUserRoles :: ICurrentUserRolesState
  ap_endpoints :: "(string, EndpointModel) obj"
  ap_featureFlags :: "string \<Rightarrow> IFeatureFlag list obs"

text \<open>A global role by name; a name that is none is \<open>undefined || false\<close>.\<close>

definition global_flag :: "IGlobalRolesState \<Rightarrow> string \<Rightarrow> bool" where
  "global_flag g p =
     (if p = ''isAdmin'' then gr_isAdmin g
      else if p = ''isReadOnlyAdmin'' then gr_isReadOnlyAdmin g
      else if p = ''isGlobalAuditor'' then gr_isGlobalAuditor g
      else if p = ''canRead'' then gr_canRead g
      else if p = ''canWrite'' then gr_canWrite g else False)"

definition selectCurrentUserStratosRoles :: "string \<Rightarrow> IStratosRolesState \<Rightarrow> bool" where
  "selectCurrentUserStratosRoles role state = (role = ''isAdmin'' \<and> st_isAdmin state)"

definition getCurrentUserStratosRole :: "string \<Rightarrow> AppState \<Rightarrow> bool" where
  "getCurrentUserStratosRole role state =
     selectCurrentUserStratosRoles role (ur_internal (ap_currentUserRoles state))"

definition getCurrentUserStratosHasScope :: "string \<Rightarrow> AppState \<Rightarrow> bool" where
  "getCurrentUserStratosHasScope scope state = (scope \<in> set (st_scopes (ur_internal (ap_currentUserRoles state))))"

definition getCurrentUserCFEndpointRolesState :: "string option \<Rightarrow> AppState \<Rightarrow> ICfRolesState option" where
  "getCurrentUserCFEndpointRolesState endpointGuid state =
     Option.bind endpointGuid (obj_get (ur_cf (ap_currentUserRoles state)))"

definition getCurrentUserCFGlobalStates :: "string option \<Rightarrow> AppState \<Rightarrow> IGlobalRolesState option" where
  "getCurrentUserCFGlobalStates endpointGuid state =
     map_option cr_global (getCurrentUserCFEndpointRolesState endpointGuid state)"

definition getCurrentUserCFGlobalState :: "string option \<Rightarrow> string \<Rightarrow> AppState \<Rightarrow> bool result" where
  "getCurrentUserCFGlobalState endpointGuid role state =
     (case getCurrentUserCFGlobalStates endpointGuid state of None \<Rightarrow> Inl TypeError | Some g \<Rightarrow> Inr (global_flag g role))"

definition getCurrentUserCFEndpointHasScope :: "string option \<Rightarrow> string \<Rightarrow> AppState \<Rightarrow> bool result" where
  "getCurrentUserCFEndpointHasScope endpointGuid scope state =
     (case getCurrentUserCFGlobalStates endpointGuid state of
        None \<Rightarrow> Inl TypeError | Some g \<Rightarrow> Inr (scope \<in> set (gr_scopes g)))"

text \<open>
  The spaces of an organization in which the user has a role; \<open>None\<close> is the answer \<open>'all'\<close> given when nothing
  is known of the endpoint or the organization.
\<close>

definition selectSpaceWithRoleFromOrg :: "string \<Rightarrow> string \<Rightarrow> ICfRolesState option \<Rightarrow> string list option" where
  "selectSpaceWithRoleFromOrg role orgId state =
     (case state of None \<Rightarrow> None | Some c \<Rightarrow>
       (case obj_get (cr_organizations c) orgId of None \<Rightarrow> None
        | Some org \<Rightarrow> Some (filter (\<lambda>spaceGuid. case obj_get (cr_spaces c) spaceGuid of
             None \<Rightarrow> False | Some space \<Rightarrow> space_flag space role = Some True) (or_spaceGuids org))))"

definition getSpacesFromOrgWithRole :: "string \<Rightarrow> string \<Rightarrow> string \<Rightarrow> AppState \<Rightarrow> string list option" where
  "getSpacesFromOrgWithRole endpointGuid orgId role state =
     selectSpaceWithRoleFromOrg role orgId (getCurrentUserCFEndpointRolesState (Some endpointGuid) state)"

text \<open>\<open>getRegisteredEndpoints\<close>: the registered ones, by their own guid.\<close>

definition getRegisteredEndpoints :: "(string, EndpointModel) obj \<Rightarrow> (string, EndpointModel) obj" where
  "getRegisteredEndpoints endpoints =
     fold (\<lambda>e registered. if em_registered e then obj_set (em_guid e) e registered else registered)
       (obj_values endpoints) []"

definition cfEndpointEntitiesSelector :: "(string, EndpointModel) obj \<Rightarrow> (string, EndpointModel) obj" where
  "cfEndpointEntitiesSelector endpoints =
     fold (\<lambda>e cf. if em_cnsi_type e = ''web'' then obj_set (em_guid e) e cf else cf) (obj_values endpoints) []"

subsection \<open>The configuration: current-user-permissions.config.ts\<close>

datatype CurrentUserPermissions =
    APPLICATION_VIEW | APPLICATION_EDIT | APPLICATION_CREATE | APPLICATION_MANAGE
  | SPACE_VIEW | SPACE_CREATE | SPACE_DELETE | SPACE_EDIT | SPACE_CHANGE_ROLES
  | ROUTE_CREATE
  | ORGANIZATION_CREATE | ORGANIZATION_DELETE | ORGANIZATION_EDIT | ORGANIZATION_SUSPEND | ORGANIZATION_CHANGE_ROLES
  | SERVICE_INSTANCE_DELETE | SERVICE_INSTANCE_CREATE | SERVICE_BINDING_EDIT
  | FIREHOSE_VIEW | ENDPOINT_REGISTER | PASSWORD_CHANGE | SERVICE_INSTANCE_EDIT

datatype PermissionTypes =
  SPACE | ORGANIZATION | ENDPOINT | ENDPOINT_SCOPE | FEATURE_FLAG | STRATOS | STRATOS_SCOPE

definition SPACE_MANAGER :: string where "SPACE_MANAGER = ''isManager''"
definition SPACE_AUDITOR :: string where "SPACE_AUDITOR = ''isAuditor''"
definition SPACE_DEVELOPER :: string where "SPACE_DEVELOPER = ''isDeveloper''"
definition ORG_MANAGER :: string where "ORG_MANAGER = ''isManager''"
definition ORG_AUDITOR :: string where "ORG_AUDITOR = ''isAuditor''"
definition ORG_BILLING_MANAGER :: string where "ORG_BILLING_MANAGER = ''isBillingManager''"
definition ORG_USER :: string where "ORG_USER = ''isUser''"
definition STRATOS_ADMIN :: string where "STRATOS_ADMIN = ''isAdmin''"
definition STRATOS_CHANGE_PASSWORD :: string where "STRATOS_CHANGE_PASSWORD = ''password.write''"

lemmas permission_strings =
  SPACE_MANAGER_def SPACE_AUDITOR_def SPACE_DEVELOPER_def ORG_MANAGER_def ORG_AUDITOR_def ORG_BILLING_MANAGER_def
  ORG_USER_def STRATOS_ADMIN_def STRATOS_CHANGE_PASSWORD_def

record PermissionConfig =
  pc_type :: PermissionTypes
  pc_permission :: string

datatype PermissionConfigType =
    Configs "PermissionConfig list"
  | Config PermissionConfig
  | PermissionConfigLink CurrentUserPermissions

abbreviation config :: "PermissionTypes \<Rightarrow> string \<Rightarrow> PermissionConfig" where
  "config t p \<equiv> \<lparr>pc_type = t, pc_permission = p\<rparr>"

fun permissionConfigs :: "CurrentUserPermissions \<Rightarrow> PermissionConfigType" where
  "permissionConfigs APPLICATION_VIEW = Configs
     [config ENDPOINT_SCOPE CF_READ_ONLY_ADMIN_GROUP, config ENDPOINT_SCOPE CF_ADMIN_GLOBAL_AUDITOR_GROUP,
      config ORGANIZATION ORG_MANAGER, config SPACE SPACE_MANAGER, config SPACE SPACE_AUDITOR,
      config SPACE SPACE_DEVELOPER]"
| "permissionConfigs APPLICATION_CREATE = Config (config SPACE SPACE_DEVELOPER)"
| "permissionConfigs APPLICATION_MANAGE = Config (config SPACE SPACE_DEVELOPER)"
| "permissionConfigs APPLICATION_EDIT = Config (config SPACE SPACE_DEVELOPER)"
| "permissionConfigs SPACE_VIEW = Configs
     [config ENDPOINT_SCOPE CF_READ_ONLY_ADMIN_GROUP, config ENDPOINT_SCOPE CF_ADMIN_GLOBAL_AUDITOR_GROUP,
      config ORGANIZATION ORG_MANAGER, config SPACE SPACE_MANAGER, config SPACE SPACE_AUDITOR,
      config SPACE SPACE_DEVELOPER]"
| "permissionConfigs SPACE_CREATE = Config (config ORGANIZATION ORG_MANAGER)"
| "permissionConfigs SPACE_DELETE = Config (config ORGANIZATION ORG_MANAGER)"
| "permissionConfigs SPACE_EDIT = Configs [config ORGANIZATION ORG_MANAGER, config SPACE SPACE_MANAGER]"
| "permissionConfigs SPACE_CHANGE_ROLES = Config (config SPACE SPACE_MANAGER)"
| "permissionConfigs ROUTE_CREATE = Configs
     [config FEATURE_FLAG ''route_creation'', config SPACE SPACE_DEVELOPER]"
| "permissionConfigs ORGANIZATION_CREATE = Configs
     [config FEATURE_FLAG ''user_org_creation'', config ORGANIZATION ORG_MANAGER, config ORGANIZATION ORG_AUDITOR,
      config ORGANIZATION ORG_BILLING_MANAGER, config ORGANIZATION ORG_USER, config SPACE SPACE_MANAGER,
      config SPACE SPACE_AUDITOR, config SPACE SPACE_DEVELOPER]"
| "permissionConfigs ORGANIZATION_DELETE = Config (config ENDPOINT_SCOPE CF_ADMIN_GROUP)"
| "permissionConfigs ORGANIZATION_EDIT = PermissionConfigLink ORGANIZATION_DELETE"
| "permissionConfigs ORGANIZATION_SUSPEND = Config (config ENDPOINT_SCOPE CF_ADMIN_GROUP)"
| "permissionConfigs ORGANIZATION_CHANGE_ROLES = Config (config ORGANIZATION ORG_MANAGER)"
| "permissionConfigs SERVICE_INSTANCE_DELETE = Config (config SPACE SPACE_DEVELOPER)"
| "permissionConfigs SERVICE_INSTANCE_CREATE = Config (config SPACE SPACE_DEVELOPER)"
| "permissionConfigs SERVICE_INSTANCE_EDIT = Config (config SPACE SPACE_DEVELOPER)"
| "permissionConfigs SERVICE_BINDING_EDIT = Config (config SPACE SPACE_DEVELOPER)"
| "permissionConfigs FIREHOSE_VIEW = Configs [config ENDPOINT_SCOPE CF_READ_ONLY_ADMIN_GROUP]"
| "permissionConfigs ENDPOINT_REGISTER = Config (config STRATOS STRATOS_ADMIN)"
| "permissionConfigs PASSWORD_CHANGE = Config (config STRATOS_SCOPE STRATOS_CHANGE_PASSWORD)"

subsection \<open>The checker: current-user-permissions.checker.ts\<close>

definition ALL_SPACES :: string where "ALL_SPACES = ''PERMISSIONS__ALL_SPACES_PLEASE''"

text \<open>\<open>state[permission] || false\<close> of the roles in an organization, and in a space.\<close>

definition org_permission :: "IOrgRoleState option \<Rightarrow> string \<Rightarrow> bool" where
  "org_permission state permission =
     (case state of None \<Rightarrow> False | Some r \<Rightarrow> org_flag r permission = Some True)"

definition space_permission :: "ISpaceRoleState option \<Rightarrow> string \<Rightarrow> bool" where
  "space_permission state permission =
     (case state of None \<Rightarrow> False | Some r \<Rightarrow> space_flag r permission = Some True)"

text \<open>
  \<open>selectPermission(state[type][guid], permission)\<close>. The role state has only the two types; the other
  properties of the type names are \<open>undefined\<close>, and reading a guid of them throws.
\<close>

fun selectPermission :: "ICfRolesState \<Rightarrow> PermissionTypes \<Rightarrow> string option \<Rightarrow> string \<Rightarrow> bool result" where
  "selectPermission c ORGANIZATION guid p = Inr (org_permission (Option.bind guid (obj_get (cr_organizations c))) p)"
| "selectPermission c SPACE guid p = Inr (space_permission (Option.bind guid (obj_get (cr_spaces c))) p)"
| "selectPermission c _ guid p = Inl TypeError"

definition checkAllSpacesInOrg :: "IOrgRoleState option \<Rightarrow> ISpacesRoleState \<Rightarrow> string \<Rightarrow> bool" where
  "checkAllSpacesInOrg orgState endpointSpaces permission =
     list_ex (\<lambda>spaceGuid. space_permission (obj_get endpointSpaces spaceGuid) permission)
       (case orgState of Some r \<Rightarrow> or_spaceGuids r | None \<Rightarrow> [])"

definition getEndpointState :: "AppState \<Rightarrow> string option \<Rightarrow> ICfRolesState option obs" where
  "getEndpointState state endpointGuid = Emits (getCurrentUserCFEndpointRolesState endpointGuid state)"

definition check ::
  "AppState \<Rightarrow> PermissionTypes \<Rightarrow> string \<Rightarrow> string option \<Rightarrow> string option \<Rightarrow> bool \<Rightarrow> bool obs" where
  "check state t permission endpointGuid orgOrSpaceGuid allSpacesWithinOrg =
     (if t = STRATOS then Emits (getCurrentUserStratosRole permission state)
      else if t = STRATOS_SCOPE then Emits (getCurrentUserStratosHasScope permission state)
      else if t = ENDPOINT_SCOPE then
        (if \<not> truthy_str endpointGuid then Emits False
         else obs_of_result (getCurrentUserCFEndpointHasScope endpointGuid permission state))
      else if t = ENDPOINT then obs_of_result (getCurrentUserCFGlobalState endpointGuid permission state)
      else obs_switch (getEndpointState state endpointGuid) (\<lambda>st.
        case st of
          None \<Rightarrow> Silent
        | Some c \<Rightarrow>
            if allSpacesWithinOrg
            then Emits (checkAllSpacesInOrg (Option.bind orgOrSpaceGuid (obj_get (cr_organizations c))) (cr_spaces c) permission)
            else obs_of_result (selectPermission c t orgOrSpaceGuid permission)))"

definition getAllEndpointGuids :: "AppState \<Rightarrow> string list obs" where
  "getAllEndpointGuids state =
     Emits (map em_guid (filter (\<lambda>e. em_cnsi_type e = ''web'') (obj_values (getRegisteredEndpoints (ap_endpoints state)))))"

definition getEndpointGuidObservable :: "AppState \<Rightarrow> string option \<Rightarrow> string list obs" where
  "getEndpointGuidObservable state endpointGuid =
     (if \<not> truthy_str endpointGuid then getAllEndpointGuids state else Emits [the endpointGuid])"

definition getInternalCheck :: "AppState \<Rightarrow> string \<Rightarrow> bool obs" where
  "getInternalCheck state permission = check state STRATOS permission None None False"

definition getInternalScopesCheck :: "AppState \<Rightarrow> string \<Rightarrow> bool obs" where
  "getInternalScopesCheck state permission = check state STRATOS_SCOPE permission None None False"

definition some_check :: "bool list obs \<Rightarrow> bool obs" where
  "some_check checks = obs_map (list_ex (\<lambda>b. b)) checks"

text \<open>Each guid checks the endpoint that was asked for, not itself.\<close>

definition getEndpointScopesCheck :: "AppState \<Rightarrow> string \<Rightarrow> string option \<Rightarrow> bool obs" where
  "getEndpointScopesCheck state permission endpointGuid =
     some_check (obs_switch (getEndpointGuidObservable state endpointGuid) (\<lambda>guids.
       combineLatest (map (\<lambda>guid. check state ENDPOINT_SCOPE permission endpointGuid None False) guids)))"

definition checkAllOfType :: "AppState \<Rightarrow> string \<Rightarrow> PermissionTypes \<Rightarrow> string \<Rightarrow> bool obs" where
  "checkAllOfType state endpointGuid t permission =
     obs_map (\<lambda>st. case st of
         None \<Rightarrow> False
       | Some c \<Rightarrow> (case t of
           ORGANIZATION \<Rightarrow> list_ex (\<lambda>guid. org_permission (obj_get (cr_organizations c) guid) permission) (obj_keys (cr_organizations c))
         | SPACE \<Rightarrow> list_ex (\<lambda>guid. space_permission (obj_get (cr_spaces c) guid) permission) (obj_keys (cr_spaces c))
         | _ \<Rightarrow> False))
       (getEndpointState state (Some endpointGuid))"

definition getCfCheck ::
  "AppState \<Rightarrow> PermissionConfig \<Rightarrow> string option \<Rightarrow> string option \<Rightarrow> string option \<Rightarrow> bool obs" where
  "getCfCheck state cfg endpointGuid orgOrSpaceGuid spaceGuid =
     (let checkAllSpaces = (spaceGuid = Some ALL_SPACES);
          actualGuid = (if pc_type cfg = SPACE \<and> truthy_str spaceGuid \<and> \<not> checkAllSpaces then spaceGuid else orgOrSpaceGuid)
      in if pc_type cfg = ENDPOINT \<or> (truthy_str endpointGuid \<and> truthy_str actualGuid)
         then check state (pc_type cfg) (pc_permission cfg) endpointGuid actualGuid checkAllSpaces
         else if \<not> truthy_str actualGuid
         then some_check (obs_switch (getEndpointGuidObservable state endpointGuid) (\<lambda>guids.
           combineLatest (map (\<lambda>guid. checkAllOfType state guid (pc_type cfg) (pc_permission cfg)) guids)))
         else Emits False)"

definition createCFFeatureFlagPaginationKey :: "string \<Rightarrow> string" where
  "createCFFeatureFlagPaginationKey cfGuid = ''endpoint-'' @ cfGuid"

definition checkFeatureFlag :: "IFeatureFlag list \<Rightarrow> string \<Rightarrow> bool" where
  "checkFeatureFlag featureFlags permission =
     (case find (\<lambda>flag. ff_name flag = permission) featureFlags of None \<Rightarrow> False | Some flag \<Rightarrow> ff_enabled flag)"

definition getFeatureFlagCheck :: "AppState \<Rightarrow> PermissionConfig \<Rightarrow> string option \<Rightarrow> bool obs" where
  "getFeatureFlagCheck state cfg endpointGuid =
     obs_map (list_ex (\<lambda>featureFlags. checkFeatureFlag featureFlags (pc_permission cfg)))
       (obs_switch (getEndpointGuidObservable state endpointGuid) (\<lambda>guids.
         combineLatest (map (\<lambda>guid. ap_featureFlags state (createCFFeatureFlagPaginationKey guid)) guids)))"

definition getSimpleCheck ::
  "AppState \<Rightarrow> PermissionConfig \<Rightarrow> string option \<Rightarrow> string option \<Rightarrow> string option \<Rightarrow> bool obs" where
  "getSimpleCheck state cfg endpointGuid orgOrSpaceGuid spaceGuid =
     (case pc_type cfg of
        FEATURE_FLAG \<Rightarrow> getFeatureFlagCheck state cfg endpointGuid
      | ORGANIZATION \<Rightarrow> getCfCheck state cfg endpointGuid orgOrSpaceGuid spaceGuid
      | SPACE \<Rightarrow> getCfCheck state cfg endpointGuid orgOrSpaceGuid spaceGuid
      | ENDPOINT \<Rightarrow> getCfCheck state cfg endpointGuid orgOrSpaceGuid spaceGuid
      | STRATOS \<Rightarrow> getInternalCheck state (pc_permission cfg)
      | STRATOS_SCOPE \<Rightarrow> getInternalScopesCheck state (pc_permission cfg)
      | ENDPOINT_SCOPE \<Rightarrow> getEndpointScopesCheck state (pc_permission cfg) endpointGuid)"

definition getAdminCheck :: "AppState \<Rightarrow> string option \<Rightarrow> bool obs" where
  "getAdminCheck state endpointGuid =
     obs_switch (getEndpointState state endpointGuid) (\<lambda>st.
       case st of None \<Rightarrow> Silent | Some c \<Rightarrow> Emits (gr_isAdmin (cr_global c)))"

text \<open>Read-only admins, global auditors and users without the write scope; unknown endpoints are not.\<close>

definition getReadOnlyCheck :: "AppState \<Rightarrow> string option \<Rightarrow> bool obs" where
  "getReadOnlyCheck state endpointGuid =
     obs_map (\<lambda>st. case st of None \<Rightarrow> False | Some c \<Rightarrow>
         gr_isGlobalAuditor (cr_global c) \<or> gr_isReadOnlyAdmin (cr_global c) \<or> \<not> gr_canWrite (cr_global c))
       (getEndpointState state endpointGuid)"

definition reduceChecks :: "bool obs list \<Rightarrow> bool \<Rightarrow> bool obs" where
  "reduceChecks checks every =
     (if checks = [] then Emits True
      else obs_map (\<lambda>flags. if every then list_all (\<lambda>b. b) flags else list_ex (\<lambda>b. b) flags) (combineLatest checks))"

definition getAdminChecks :: "AppState \<Rightarrow> string option \<Rightarrow> bool obs" where
  "getAdminChecks state endpointGuid =
     obs_switch (getEndpointGuidObservable state endpointGuid) (\<lambda>guids.
       reduceChecks (map (\<lambda>guid. getAdminCheck state (Some guid)) guids) False)"

definition getReadOnlyChecks :: "AppState \<Rightarrow> string option \<Rightarrow> bool obs" where
  "getReadOnlyChecks state endpointGuid =
     obs_switch (getEndpointGuidObservable state endpointGuid) (\<lambda>guids.
       reduceChecks (map (\<lambda>guid. getReadOnlyCheck state (Some guid)) guids) True)"

text \<open>The groups of a list of checks, by type, with organizations and spaces in one group.\<close>

datatype CheckerGroup = CF_GROUP | TypeGroup PermissionTypes

definition getGroupType :: "PermissionConfig \<Rightarrow> CheckerGroup" where
  "getGroupType cfg =
     (if pc_type cfg = ORGANIZATION \<or> pc_type cfg = SPACE then CF_GROUP else TypeGroup (pc_type cfg))"

definition groupConfigs :: "PermissionConfig list \<Rightarrow> (CheckerGroup, PermissionConfig list) obj" where
  "groupConfigs configs =
     fold (\<lambda>cfg grouped. obj_set (getGroupType cfg)
         ((case obj_get grouped (getGroupType cfg) of Some cs \<Rightarrow> cs | None \<Rightarrow> []) @ [cfg]) grouped)
       configs []"

subsection \<open>The service: current-user-permissions.service.ts\<close>

record ICheckCombiner =
  cc_checks :: "bool obs list"
  cc_every :: bool

text \<open>\<open>None\<close> where the \<open>switch\<close> has no case; the checks of an endpoint group test the scopes of the console.\<close>

fun getCheckFromConfig ::
  "AppState \<Rightarrow> PermissionConfig list \<Rightarrow> CheckerGroup \<Rightarrow> string option \<Rightarrow> string option \<Rightarrow> string option \<Rightarrow>
   ICheckCombiner option" where
  "getCheckFromConfig state configGroup (TypeGroup ENDPOINT) e i s =
     Some \<lparr>cc_checks = map (\<lambda>c. getInternalScopesCheck state (pc_permission c)) configGroup, cc_every = False\<rparr>"
| "getCheckFromConfig state configGroup (TypeGroup ENDPOINT_SCOPE) e i s =
     Some \<lparr>cc_checks = map (\<lambda>c. getEndpointScopesCheck state (pc_permission c) e) configGroup, cc_every = False\<rparr>"
| "getCheckFromConfig state configGroup (TypeGroup STRATOS_SCOPE) e i s =
     Some \<lparr>cc_checks = map (\<lambda>c. getInternalScopesCheck state (pc_permission c)) configGroup, cc_every = False\<rparr>"
| "getCheckFromConfig state configGroup (TypeGroup FEATURE_FLAG) e i s =
     Some \<lparr>cc_checks = map (\<lambda>c. getFeatureFlagCheck state c e) configGroup, cc_every = True\<rparr>"
| "getCheckFromConfig state configGroup CF_GROUP e i s =
     Some \<lparr>cc_checks = map (\<lambda>c. getCfCheck state c e i s) configGroup, cc_every = False\<rparr>"
| "getCheckFromConfig state configGroup _ e i s = None"

definition applyAdminCheck :: "AppState \<Rightarrow> bool obs \<Rightarrow> string option \<Rightarrow> bool obs" where
  "applyAdminCheck state check_obs endpointGuid =
     obs_switch (combineLatest2 (getAdminChecks state endpointGuid) (getReadOnlyChecks state endpointGuid))
       (\<lambda>(isAdmin, isReadOnly). if isAdmin then Emits True else if isReadOnly then Emits False else check_obs)"

text \<open>Reading \<open>checks\<close> of a missing combiner throws at once, not in the observable.\<close>

definition combineChecks :: "AppState \<Rightarrow> ICheckCombiner option list \<Rightarrow> string option \<Rightarrow> bool obs result" where
  "combineChecks state checkCombiners endpointGuid =
     (if None \<in> set checkCombiners then Inl TypeError
      else Inr (applyAdminCheck state
        (obs_map (list_all (\<lambda>b. b))
          (combineLatest (map (\<lambda>c. reduceChecks (cc_checks (the c)) (cc_every (the c))) checkCombiners)))
        endpointGuid))"

definition getComplexPermission ::
  "AppState \<Rightarrow> PermissionConfig list \<Rightarrow> string option \<Rightarrow> string option \<Rightarrow> string option \<Rightarrow> bool obs result" where
  "getComplexPermission state actionConfigs endpointGuid orgOrSpaceGuid spaceGuid =
     combineChecks state
       (map (\<lambda>(g, cs). getCheckFromConfig state cs g endpointGuid orgOrSpaceGuid spaceGuid) (groupConfigs actionConfigs))
       endpointGuid"

definition getSimplePermission ::
  "AppState \<Rightarrow> PermissionConfig \<Rightarrow> string option \<Rightarrow> string option \<Rightarrow> string option \<Rightarrow> bool obs" where
  "getSimplePermission state actionConfig endpointGuid orgOrSpaceGuid spaceGuid =
     (let check_obs = getSimpleCheck state actionConfig endpointGuid orgOrSpaceGuid spaceGuid
      in if pc_type actionConfig = ORGANIZATION \<or> pc_type actionConfig = SPACE
         then applyAdminCheck state check_obs endpointGuid else check_obs)"

text \<open>
  Following links. The counter of tries is not passed on, so it is 0 at every link: over a circular
  configuration the recursion does not end (\<open>None\<close>). \<open>table\<close> is the configuration.
\<close>

partial_function (option) getConfig ::
  "(CurrentUserPermissions \<Rightarrow> PermissionConfigType) \<Rightarrow> PermissionConfigType \<Rightarrow> nat \<Rightarrow> PermissionConfigType option option"
where
  "getConfig table cfg tries =
     (case cfg of
        PermissionConfigLink l \<Rightarrow> if tries \<ge> 20 then Some None else getConfig table (table l) 0
      | _ \<Rightarrow> Some (Some cfg))"

datatype can_argument = CanPermission CurrentUserPermissions | CanConfig PermissionConfigType

fun getCanObservable ::
  "AppState \<Rightarrow> PermissionConfigType option \<Rightarrow> string option \<Rightarrow> string option \<Rightarrow> string option \<Rightarrow> bool obs option result" where
  "getCanObservable state (Some (Configs cs)) e i s = res_bind (getComplexPermission state cs e i s) (\<lambda>ob. Inr (Some ob))"
| "getCanObservable state (Some (Config c)) e i s = Inr (Some (getSimplePermission state c e i s))"
| "getCanObservable state _ e i s = Inr (if truthy_str e then Some (getAdminCheck state e) else None)"

text \<open>\<open>None\<close> is a call that does not return.\<close>

definition can ::
  "AppState \<Rightarrow> can_argument \<Rightarrow> string option \<Rightarrow> string option \<Rightarrow> string option \<Rightarrow> bool obs result option" where
  "can state action endpointGuid orgOrSpaceGuid spaceGuid =
     map_option (\<lambda>cfg.
         res_bind (getCanObservable state cfg endpointGuid orgOrSpaceGuid spaceGuid) (\<lambda>ob.
           Inr (case ob of Some x \<Rightarrow> x | None \<Rightarrow> Emits False)))
       (getConfig permissionConfigs
         (case action of CanPermission p \<Rightarrow> permissionConfigs p | CanConfig c \<Rightarrow> c) 0)"

subsection \<open>What the checks emit\<close>

lemma getEndpointGuidObservable_given [simp]:
  "e \<noteq> [] \<Longrightarrow> getEndpointGuidObservable state (Some e) = Emits [e]"
  by (simp add: getEndpointGuidObservable_def)

lemma all_latest_map_Emits [simp]: "all_latest (map (\<lambda>x. Emits (f x)) xs) = Emits (map f xs)"
  using all_latest_Emits[of "map f xs"] by (simp add: comp_def)

lemma combineLatest_single [simp]: "combineLatest [ob] = obs_map (\<lambda>x. [x]) ob"
  by (cases ob) (simp_all add: combineLatest_def)

lemma obs_simps [simp]: "obs_map f (obs_of_result (Inr x)) = Emits (f x)"
  by simp

text \<open>The flags that decide first.\<close>

definition admin_of :: "ICfRolesState \<Rightarrow> bool" where "admin_of c = gr_isAdmin (cr_global c)"

definition read_only_of :: "ICfRolesState \<Rightarrow> bool" where
  "read_only_of c \<longleftrightarrow>
     gr_isGlobalAuditor (cr_global c) \<or> gr_isReadOnlyAdmin (cr_global c) \<or> \<not> gr_canWrite (cr_global c)"

lemma applyAdminCheck_known:
  assumes "e \<noteq> []" and "getCurrentUserCFEndpointRolesState (Some e) state = Some c"
  shows "applyAdminCheck state ob (Some e) =
    (if admin_of c then Emits True else if read_only_of c then Emits False else ob)"
  using assms
  by (simp add: applyAdminCheck_def getAdminChecks_def getReadOnlyChecks_def reduceChecks_def getAdminCheck_def
      getReadOnlyCheck_def getEndpointState_def admin_of_def read_only_of_def)

lemma applyAdminCheck_unknown:
  assumes "e \<noteq> []" and "getCurrentUserCFEndpointRolesState (Some e) state = None"
  shows "applyAdminCheck state ob (Some e) = Silent"
  using assms
  by (simp add: applyAdminCheck_def getAdminChecks_def getReadOnlyChecks_def reduceChecks_def getAdminCheck_def
      getReadOnlyCheck_def getEndpointState_def combineLatest2_def)

lemma applyAdminCheck_no_endpoint:
  assumes "getAllEndpointGuids state = Emits []"
  shows "applyAdminCheck state ob None = Emits True"
  using assms
  by (simp add: applyAdminCheck_def getAdminChecks_def getReadOnlyChecks_def reduceChecks_def
      getEndpointGuidObservable_def)

text \<open>What the check of a role in an organization or space says of a known endpoint.\<close>

definition cf_value :: "ICfRolesState \<Rightarrow> PermissionConfig \<Rightarrow> string option \<Rightarrow> string option \<Rightarrow> bool" where
  "cf_value c cfg i s =
     (let allSpaces = (s = Some ALL_SPACES);
          guid = (if pc_type cfg = SPACE \<and> truthy_str s \<and> \<not> allSpaces then s else i)
      in if \<not> truthy_str guid
         then (if pc_type cfg = ORGANIZATION
               then list_ex (\<lambda>g. org_permission (obj_get (cr_organizations c) g) (pc_permission cfg)) (obj_keys (cr_organizations c))
               else list_ex (\<lambda>g. space_permission (obj_get (cr_spaces c) g) (pc_permission cfg)) (obj_keys (cr_spaces c)))
         else if allSpaces
         then checkAllSpacesInOrg (Option.bind guid (obj_get (cr_organizations c))) (cr_spaces c) (pc_permission cfg)
         else if pc_type cfg = ORGANIZATION
         then org_permission (Option.bind guid (obj_get (cr_organizations c))) (pc_permission cfg)
         else space_permission (Option.bind guid (obj_get (cr_spaces c))) (pc_permission cfg))"

lemma getCfCheck_known:
  assumes e: "e \<noteq> []" and c: "getCurrentUserCFEndpointRolesState (Some e) state = Some c"
    and t: "pc_type cfg = ORGANIZATION \<or> pc_type cfg = SPACE"
  shows "getCfCheck state cfg (Some e) i s = Emits (cf_value c cfg i s)"
proof -
  have all: "checkAllOfType state e (pc_type cfg) (pc_permission cfg) =
      Emits (if pc_type cfg = ORGANIZATION
        then list_ex (\<lambda>g. org_permission (obj_get (cr_organizations c) g) (pc_permission cfg)) (obj_keys (cr_organizations c))
        else list_ex (\<lambda>g. space_permission (obj_get (cr_spaces c) g) (pc_permission cfg)) (obj_keys (cr_spaces c)))"
    using t by (auto simp: checkAllOfType_def getEndpointState_def c)
  have one: "check state (pc_type cfg) (pc_permission cfg) (Some e) g b =
      Emits (if b then checkAllSpacesInOrg (Option.bind g (obj_get (cr_organizations c))) (cr_spaces c) (pc_permission cfg)
        else if pc_type cfg = ORGANIZATION
        then org_permission (Option.bind g (obj_get (cr_organizations c))) (pc_permission cfg)
        else space_permission (Option.bind g (obj_get (cr_spaces c))) (pc_permission cfg))" for g b
    using t e by (auto simp: check_def getEndpointState_def c)
  show ?thesis
    using e t unfolding getCfCheck_def cf_value_def Let_def
    by (simp add: one all some_check_def split del: if_split cong: if_cong) auto
qed

lemma getEndpointScopesCheck_known:
  assumes "e \<noteq> []" and "getCurrentUserCFEndpointRolesState (Some e) state = Some c"
  shows "getEndpointScopesCheck state p (Some e) = Emits (p \<in> set (gr_scopes (cr_global c)))"
  using assms
  by (simp add: getEndpointScopesCheck_def check_def getCurrentUserCFEndpointHasScope_def
      getCurrentUserCFGlobalStates_def some_check_def)

lemma reduceChecks_Emits:
  "reduceChecks (map (\<lambda>x. Emits (f x)) xs) every =
     Emits (xs = [] \<or> (if every then \<forall>x \<in> set xs. f x else \<exists>x \<in> set xs. f x))"
  by (auto simp: reduceChecks_def list_all_iff list_ex_iff)

subsection \<open>Following links\<close>

lemma getConfig_simps [simp]:
  "getConfig table (Configs cs) n = Some (Some (Configs cs))"
  "getConfig table (Config c) n = Some (Some (Config c))"
  by (subst getConfig.simps; simp)+

lemma getConfig_link: "n < 20 \<Longrightarrow> getConfig table (PermissionConfigLink l) n = getConfig table (table l) 0"
  by (subst getConfig.simps) simp

text \<open>The configuration itself has one link, and it leads to a check.\<close>

definition resolved :: "CurrentUserPermissions \<Rightarrow> PermissionConfigType" where
  "resolved p = (case permissionConfigs p of PermissionConfigLink l \<Rightarrow> permissionConfigs l | c \<Rightarrow> c)"

lemma getConfig_permission: "getConfig permissionConfigs (permissionConfigs p) 0 = Some (Some (resolved p))"
  by (cases p) (simp_all add: resolved_def getConfig_link)

lemma can_permission:
  "can state (CanPermission p) e i s =
     Some (case resolved p of
         Configs cs \<Rightarrow> getComplexPermission state cs e i s
       | Config c \<Rightarrow> Inr (getSimplePermission state c e i s)
       | PermissionConfigLink l \<Rightarrow> Inr (if truthy_str e then getAdminCheck state e else Emits False))"
  by (cases "resolved p") (auto simp: can_def getConfig_permission res_bind_def split: sum.splits)

subsection \<open>Groups of checks\<close>

text \<open>
  One group's checks, reduced: what it says at a known endpoint. Feature flags come from outside the roles, so
  a group of them is what its checks emit.
\<close>

definition group_value :: "ICfRolesState \<Rightarrow> CheckerGroup \<Rightarrow> PermissionConfig list \<Rightarrow> string option \<Rightarrow> string option \<Rightarrow> bool" where
  "group_value c g cs i s =
     (if g = CF_GROUP then list_ex (\<lambda>cfg. cf_value c cfg i s) cs
      else list_ex (\<lambda>cfg. pc_permission cfg \<in> set (gr_scopes (cr_global c))) cs)"

lemma group_known:
  assumes e: "e \<noteq> []" and c: "getCurrentUserCFEndpointRolesState (Some e) state = Some c"
    and g: "g = CF_GROUP \<or> g = TypeGroup ENDPOINT_SCOPE" and cs: "cs \<noteq> []" "list_all (\<lambda>cfg. getGroupType cfg = g) cs"
  shows "\<exists>k. getCheckFromConfig state cs g (Some e) i s = Some k
    \<and> reduceChecks (cc_checks k) (cc_every k) = Emits (group_value c g cs i s)"
proof (cases "g = CF_GROUP")
  case True
  have "map (\<lambda>cfg. getCfCheck state cfg (Some e) i s) cs = map (\<lambda>cfg. Emits (cf_value c cfg i s)) cs"
    using cs(2) True getCfCheck_known[OF e c]
    by (auto simp: list_all_iff getGroupType_def split: if_splits)
  then have "reduceChecks (map (\<lambda>cfg. getCfCheck state cfg (Some e) i s) cs) False =
      reduceChecks (map (\<lambda>cfg. Emits (cf_value c cfg i s)) cs) False" by (rule arg_cong)
  then show ?thesis using True cs(1) by (simp add: reduceChecks_Emits group_value_def list_ex_iff)
next
  case False
  with g have "g = TypeGroup ENDPOINT_SCOPE" by simp
  then show ?thesis
    using cs(1) getEndpointScopesCheck_known[OF e c] by (simp add: reduceChecks_Emits group_value_def list_ex_iff)
qed

text \<open>The flags of a user decide first, then each group must say yes.\<close>

definition roles_decide :: "ICfRolesState \<Rightarrow> bool \<Rightarrow> bool" where
  "roles_decide c other \<longleftrightarrow> admin_of c \<or> \<not> read_only_of c \<and> other"

lemma applyAdminCheck_decide:
  assumes "e \<noteq> []" and "getCurrentUserCFEndpointRolesState (Some e) state = Some c"
  shows "applyAdminCheck state (Emits b) (Some e) = Emits (roles_decide c b)"
  by (simp add: applyAdminCheck_known[OF assms] roles_decide_def)

section \<open>Properties of the permission service\<close>

text \<open>
  C8: A role in an organization or a space, at a known endpoint: an administrator may, otherwise a read-only user may
  not, otherwise the user may who has the role in the space named (in the organization for an organization role), in
  any space of the organization when all of them are asked for, or anywhere at the endpoint when nothing is named.
\<close>

theorem can_role_at_endpoint:
  assumes "e \<noteq> []" and "getCurrentUserCFEndpointRolesState (Some e) state = Some c"
    and "pc_type cfg = ORGANIZATION \<or> pc_type cfg = SPACE"
  shows "can state (CanConfig (Config cfg)) (Some e) i s = Some (Inr (Emits (roles_decide c (cf_value c cfg i s))))"
proof -
  have "getSimpleCheck state cfg (Some e) i s = Emits (cf_value c cfg i s)"
    using assms getCfCheck_known[OF assms] by (auto simp: getSimpleCheck_def)
  then show ?thesis
    using assms applyAdminCheck_decide[OF assms(1,2)]
    by (simp add: can_def getSimplePermission_def)
qed

theorem can_role_at_endpoint_witness:
  "can \<lparr>ap_currentUserRoles = getDefaultState\<lparr>ur_cf := [(''cf1'', getDefaultEndpointRoles\<lparr>
         cr_global := (cr_global getDefaultEndpointRoles)\<lparr>gr_canWrite := True\<rparr>,
         cr_spaces := [(''s1'', defaultUserSpaceRoleState\<lparr>sr_isDeveloper := True\<rparr>)]\<rparr>)]\<rparr>,
       ap_endpoints = [], ap_featureFlags = (\<lambda>_. Silent)\<rparr>
     (CanConfig (Config (config SPACE SPACE_DEVELOPER))) (Some ''cf1'') (Some ''o1'') (Some ''s1'') = Some (Inr (Emits True))"
  by (subst can_role_at_endpoint)
    (auto simp: getCurrentUserCFEndpointRolesState_def roles_decide_def admin_of_def read_only_of_def cf_value_def
      ALL_SPACES_def space_permission_def space_flag.simps permission_strings getDefaultEndpointRoles_def)

text \<open>Permissions decided by roles at an endpoint, as opposed to a scope or the console's own roles.\<close>

definition cf_permission :: "CurrentUserPermissions \<Rightarrow> bool" where
  "cf_permission p \<longleftrightarrow>
     p \<notin> {ORGANIZATION_DELETE, ORGANIZATION_EDIT, ORGANIZATION_SUSPEND, ENDPOINT_REGISTER, PASSWORD_CHANGE}"

lemma cf_permission_applyAdminCheck:
  assumes "cf_permission p"
  shows "\<exists>ob. can state (CanPermission p) e i s = Some (Inr (applyAdminCheck state ob e))"
  using assms
  by (cases p) (auto simp: can_permission resolved_def cf_permission_def getSimplePermission_def getComplexPermission_def
      groupConfigs_def getGroupType_def combineChecks_def)

text \<open>
  At an endpoint the flags of the user come first: for every action the configuration ties to roles there, the
  administrator may, and a read-only user (read-only administrator, global auditor, or without the write scope) who is
  no administrator may not, whatever organization or space is named; at an endpoint the store knows nothing of, the
  answer never comes.
\<close>

theorem can_flags_first:
  assumes "cf_permission p" and "e \<noteq> []"
  shows "case getCurrentUserCFEndpointRolesState (Some e) state of
      None \<Rightarrow> can state (CanPermission p) (Some e) i s = Some (Inr Silent)
    | Some c \<Rightarrow> (admin_of c \<longrightarrow> can state (CanPermission p) (Some e) i s = Some (Inr (Emits True)))
        \<and> (\<not> admin_of c \<and> read_only_of c \<longrightarrow> can state (CanPermission p) (Some e) i s = Some (Inr (Emits False)))"
proof -
  obtain ob where "can state (CanPermission p) (Some e) i s = Some (Inr (applyAdminCheck state ob (Some e)))"
    using cf_permission_applyAdminCheck[OF assms(1)] by blast
  then show ?thesis
    using applyAdminCheck_known[OF assms(2)] applyAdminCheck_unknown[OF assms(2)] by (auto split: option.splits)
qed

theorem can_flags_first_witness:
  "can \<lparr>ap_currentUserRoles = getDefaultState, ap_endpoints = [], ap_featureFlags = (\<lambda>_. Silent)\<rparr>
     (CanPermission APPLICATION_EDIT) (Some ''cf1'') None None = Some (Inr Silent)"
  using can_flags_first[of APPLICATION_EDIT "''cf1''"
      "\<lparr>ap_currentUserRoles = getDefaultState, ap_endpoints = [], ap_featureFlags = (\<lambda>_. Silent)\<rparr>" None None]
  by (simp add: cf_permission_def getCurrentUserCFEndpointRolesState_def getDefaultState_def)

text \<open>
  Without an endpoint, and with no Cloud Foundry endpoint registered, every action tied to roles is allowed: the
  reduction of no checks at all is true.
\<close>

theorem can_everything_without_endpoints:
  assumes "cf_permission p" and "getAllEndpointGuids state = Emits []"
  shows "can state (CanPermission p) None i s = Some (Inr (Emits True))"
proof -
  obtain ob where "can state (CanPermission p) None i s = Some (Inr (applyAdminCheck state ob None))"
    using cf_permission_applyAdminCheck[OF assms(1)] by blast
  then show ?thesis using applyAdminCheck_no_endpoint[OF assms(2)] by simp
qed

theorem can_everything_without_endpoints_witness:
  "can \<lparr>ap_currentUserRoles = getDefaultState, ap_endpoints = [], ap_featureFlags = (\<lambda>_. Silent)\<rparr>
     (CanPermission SPACE_DELETE) None None None = Some (Inr (Emits True))"
  by (rule can_everything_without_endpoints)
    (simp_all add: cf_permission_def getAllEndpointGuids_def getRegisteredEndpoints_def)

text \<open>
  An action tied to a scope (deleting, editing or suspending an organization) is allowed at a known endpoint exactly
  with the administrators' scope, and when no endpoint is named it is never allowed, whatever scopes the user has at the
  registered ones: each of them checks the missing endpoint.
\<close>

theorem can_scope:
  assumes "p \<in> {ORGANIZATION_DELETE, ORGANIZATION_EDIT, ORGANIZATION_SUSPEND}"
  shows "(e \<noteq> [] \<and> getCurrentUserCFEndpointRolesState (Some e) state = Some c \<longrightarrow>
        can state (CanPermission p) (Some e) i s =
          Some (Inr (Emits (''cloud_controller.admin'' \<in> set (gr_scopes (cr_global c))))))
    \<and> can state (CanPermission p) None i s \<noteq> Some (Inr (Emits True))"
proof -
  have one: "can state (CanPermission p) e i s = Some (Inr (getEndpointScopesCheck state CF_ADMIN_GROUP e))" for e
    using assms by (auto simp: can_permission resolved_def getSimplePermission_def getSimpleCheck_def)
  have "getEndpointScopesCheck state CF_ADMIN_GROUP None \<noteq> Emits True"
    by (auto simp: getEndpointScopesCheck_def check_def some_check_def getEndpointGuidObservable_def
        getAllEndpointGuids_def list_ex_iff)
  then show ?thesis using getEndpointScopesCheck_known by (auto simp: one CF_ADMIN_GROUP_def)
qed

theorem can_scope_witness:
  "can \<lparr>ap_currentUserRoles = getDefaultState\<lparr>ur_cf := [(''cf1'', getDefaultEndpointRoles\<lparr>
         cr_global := (cr_global getDefaultEndpointRoles)\<lparr>gr_scopes := [''cloud_controller.admin'']\<rparr>\<rparr>)]\<rparr>,
       ap_endpoints = [], ap_featureFlags = (\<lambda>_. Silent)\<rparr>
     (CanPermission ORGANIZATION_DELETE) (Some ''cf1'') None None = Some (Inr (Emits True))"
  using can_scope[of ORGANIZATION_DELETE "''cf1''" "\<lparr>ap_currentUserRoles = getDefaultState\<lparr>ur_cf := [(''cf1'', getDefaultEndpointRoles\<lparr>
         cr_global := (cr_global getDefaultEndpointRoles)\<lparr>gr_scopes := [''cloud_controller.admin'']\<rparr>\<rparr>)]\<rparr>,
       ap_endpoints = [], ap_featureFlags = (\<lambda>_. Silent)\<rparr>"
     "getDefaultEndpointRoles\<lparr>cr_global := (cr_global getDefaultEndpointRoles)\<lparr>gr_scopes := [''cloud_controller.admin'']\<rparr>\<rparr>" None None]
  by (simp add: getCurrentUserCFEndpointRolesState_def)

text \<open>
  Resolving an action ends for every action of the configuration and gives checks, never a link; over a
  configuration with a circle of links it never returns, as the counter that should stop it is not passed on.
\<close>

theorem links_resolve:
  shows "(\<exists>cfg. getConfig permissionConfigs (permissionConfigs p) 0 = Some (Some cfg) \<and> (\<forall>l. cfg \<noteq> PermissionConfigLink l))
    \<and> getConfig (\<lambda>q. PermissionConfigLink (f q)) (PermissionConfigLink l) 0 = None"
proof
  have "\<forall>l. resolved p \<noteq> PermissionConfigLink l" by (cases p) (simp_all add: resolved_def)
  then show "\<exists>cfg. getConfig permissionConfigs (permissionConfigs p) 0 = Some (Some cfg)
      \<and> (\<forall>l. cfg \<noteq> PermissionConfigLink l)"
    using getConfig_permission by blast
  have loop: "\<not> (table = (\<lambda>q. PermissionConfigLink (f q)) \<and> (\<exists>l. cfg = PermissionConfigLink l) \<and> n = 0)"
    if "getConfig table cfg n = Some r" for table cfg n r
  proof (rule getConfig.raw_induct[where P = "\<lambda>table cfg n r.
      \<not> (table = (\<lambda>q. PermissionConfigLink (f q)) \<and> (\<exists>l. cfg = PermissionConfigLink l) \<and> n = 0)", OF _ that])
    fix g :: "(CurrentUserPermissions \<Rightarrow> PermissionConfigType) \<Rightarrow> PermissionConfigType \<Rightarrow> nat \<Rightarrow> PermissionConfigType option option"
      and table cfg and n :: nat and r
    assume "\<And>table cfg n r. g table cfg n = Some r \<Longrightarrow>
        \<not> (table = (\<lambda>q. PermissionConfigLink (f q)) \<and> (\<exists>l. cfg = PermissionConfigLink l) \<and> n = 0)"
      and "(case cfg of PermissionConfigLink l \<Rightarrow> if 20 \<le> n then Some None else g table (table l) 0
        | _ \<Rightarrow> Some (Some cfg)) = Some r"
    then show "\<not> (table = (\<lambda>q. PermissionConfigLink (f q)) \<and> (\<exists>l. cfg = PermissionConfigLink l) \<and> n = 0)"
      by auto blast
  qed
  show "getConfig (\<lambda>q. PermissionConfigLink (f q)) (PermissionConfigLink l) 0 = None"
    using loop[of "\<lambda>q. PermissionConfigLink (f q)" "PermissionConfigLink l" 0]
    by (cases "getConfig (\<lambda>q. PermissionConfigLink (f q)) (PermissionConfigLink l) 0") auto
qed

subsection \<open>Scopes and flags of a reachable roles slice\<close>

text \<open>The flags of an endpoint never lag behind its scopes.\<close>

definition flags_follow :: "ICfRolesState \<Rightarrow> bool" where
  "flags_follow c \<longleftrightarrow>
     (CF_ADMIN_GROUP \<in> set (gr_scopes (cr_global c)) \<longrightarrow> gr_isAdmin (cr_global c))
   \<and> (CF_READ_ONLY_ADMIN_GROUP \<in> set (gr_scopes (cr_global c)) \<longrightarrow> gr_isReadOnlyAdmin (cr_global c))
   \<and> (CF_ADMIN_GLOBAL_AUDITOR_GROUP \<in> set (gr_scopes (cr_global c)) \<longrightarrow> gr_isGlobalAuditor (cr_global c))"

definition all_follow :: "IAllCfRolesState \<Rightarrow> bool" where
  "all_follow cf \<longleftrightarrow> (\<forall>ep c. obj_get cf ep = Some c \<longrightarrow> flags_follow c)"

lemma flags_follow_default [simp]: "flags_follow getDefaultEndpointRoles"
  by (simp add: flags_follow_def getDefaultEndpointRoles_def)

lemma flags_follow_other [simp]:
  "flags_follow (c\<lparr>cr_organizations := orgs\<rparr>) = flags_follow c" "flags_follow (c\<lparr>cr_spaces := sps\<rparr>) = flags_follow c"
  "flags_follow (c\<lparr>cr_state := st\<rparr>) = flags_follow c"
  by (simp_all add: flags_follow_def)

lemma all_follow_set: "all_follow cf \<Longrightarrow> flags_follow c \<Longrightarrow> all_follow (obj_set ep c cf)"
  by (simp add: all_follow_def)

lemma all_follow_get: "all_follow cf \<Longrightarrow> obj_get cf ep = Some c \<Longrightarrow> flags_follow c"
  by (simp add: all_follow_def)

lemma all_follow_del: "all_follow cf \<Longrightarrow> all_follow (obj_del ep cf)"
  by (simp add: all_follow_def)

lemma propagate_follow:
  assumes "propagateEndpointsAdminPermissions cf es = Inr cf'" and "all_follow cf"
  shows "all_follow cf'"
  using assms(1) unfolding propagateEndpointsAdminPermissions_def
proof (rule res_fold_inv[where P = all_follow, rotated 2])
  fix cf e cf'
  assume "all_follow cf" and "res_bind (propagateEndpointAdminPermissions (obj_get cf (se_guid e)) (se_user e))
      (\<lambda>c. Inr (obj_set (se_guid e) c cf)) = Inr cf'"
  then show "all_follow cf'"
    by (auto simp: res_bind_Inr_iff propagateEndpointAdminPermissions_def getEndpointRoles_def Let_def
        flags_follow_def fold_role_of_scope intro!: all_follow_set split: option.splits)
qed (rule assms(2))

lemma relations_follow:
  assumes "currentUserCFRolesReducer c t ds = Inr c'" and "flags_follow c"
  shows "flags_follow c'"
  using assms by (auto simp: currentUserCFRolesReducer_def res_bind_Inr_iff split: if_splits)

lemma removeSpaceIdFromOrg_follow:
  assumes "removeSpaceIdFromOrg s e g = Inr s'" and "all_follow (ur_cf s)"
  shows "all_follow (ur_cf s')"
  using assms(1)
proof (cases rule: removeSpaceIdFromOrg_cases)
  case (removed ep c i sp org og)
  with assms(2) all_follow_get[OF assms(2) removed(2)] show ?thesis by (simp add: all_follow_set)
qed (use assms(2) in simp)

lemma removeOrgRoles_follow:
  assumes "removeOrgRoles s a = Inr s'" and "all_follow (ur_cf s)"
  shows "all_follow (ur_cf s')"
proof -
  from assms(1) obtain g c where g: "aa_endpointGuid a = Some g" "obj_get (ur_cf s) g = Some c"
    by (auto simp: removeOrgRoles_def res_bind_Inr_iff cf_roles_Inr)
  note c = all_follow_get[OF assms(2) g(2)]
  show ?thesis
    using assms g c
    by (cases "aa_guid a") (auto simp: removeOrgRoles_def removeOrgOrSpaceRoles_def cf_roles_def cleanUpOrgSpaces_def
        all_follow_set split: if_splits)
qed

lemma handleSpaceRoleChange_follow:
  assumes "handleSpaceRoleChange s ep c og sp r p b = Inr s'" and "all_follow (ur_cf s)" and "flags_follow c"
  shows "all_follow (ur_cf s')"
proof -
  from assms(1) obtain orgs sps where "s' = spreadState s ep (c\<lparr>cr_organizations := orgs, cr_spaces := sps\<rparr>)"
    by (cases "Option.bind og (obj_get (cr_organizations c))") (auto simp: handleSpaceRoleChange_def Let_def)
  then show ?thesis using assms(2,3) by (simp add: all_follow_set)
qed

lemma updateAfterRoleChange_follow:
  assumes "updateAfterRoleChange s b a = Inr s'" and "all_follow (ur_cf s)"
  shows "all_follow (ur_cf s')"
proof (cases "\<exists>ch. aa_change a = Some ch \<and> cu_updateConnectedUser ch")
  case True
  then obtain ch where ch: "aa_change a = Some ch" "cu_updateConnectedUser ch" by blast
  with assms(1) obtain ep c where c: "aa_endpointGuid a = Some ep" "obj_get (ur_cf s) ep = Some c"
    by (auto simp: updateAfterRoleChange_def res_bind_Inr_iff cf_roles_Inr)
  note flags = all_follow_get[OF assms(2) c(2)]
  show ?thesis
  proof (cases "cu_isSpace ch")
    case True
    with assms ch c flags handleSpaceRoleChange_follow[OF _ assms(2) flags] show ?thesis
      by (auto simp: updateAfterRoleChange_def cf_roles_def Let_def split: if_splits)
  next
    case False
    with assms ch c flags show ?thesis
      by (auto simp: updateAfterRoleChange_def cf_roles_def Let_def handleOrgRoleChange_def all_follow_set split: if_splits)
  qed
next
  case False
  with assms have "s' = s" by (auto simp: updateAfterRoleChange_def split: option.splits)
  with assms(2) show ?thesis by simp
qed

lemma roles_follow:
  assumes "currentUserRolesReducer s a = Inr s'" and "all_follow (ur_cf s)"
  shows "all_follow (ur_cf s')"
  using assms
proof (induction s a rule: currentUserRolesReducer.induct)
  case (1 s t e ds)
  then obtain cf' where cf': "currentUserBaseCFRolesReducer (ur_cf s) t e ds = Inr cf'" "s' = s\<lparr>ur_cf := cf'\<rparr>"
    by (auto simp: res_bind_Inr_iff)
  from cf'(1) show ?case
  proof (rule base_roles_get)
    fix c
    assume c: "currentUserCFRolesReducer (case obj_get (ur_cf s) e of Some c \<Rightarrow> c | None \<Rightarrow> getDefaultEndpointRoles) t ds = Inr c"
      and get: "\<And>ep. obj_get cf' ep = (if ep = e then Some c else obj_get (ur_cf s) ep)"
    have "flags_follow (case obj_get (ur_cf s) e of Some c \<Rightarrow> c | None \<Rightarrow> getDefaultEndpointRoles)"
      using 1(2) by (auto dest: all_follow_get split: option.splits)
    from relations_follow[OF c this] 1(2) show ?case by (simp add: cf'(2) all_follow_def get)
  qed
next
  case (2 s sessionData u)
  then show ?case
    by (auto simp: roleInfoFromSessionReducer_def applyInternalScopes_def Let_def res_bind_Inr_iff
        dest: propagate_follow split: option.splits)
next
  case (3 s t guid et endpoint)
  then show ?case
    by (auto simp: addEndpoint_def updateNewlyConnectedEndpoint_def removeEndpointRoles_def res_bind_Inr_iff
        dest: propagate_follow intro: all_follow_set[OF _ flags_follow_default] all_follow_del split: option.splits if_splits)
next
  case (4 s t a r)
  then show ?case
    by (auto simp: removeSpaceRoles_def res_bind_Inr_iff
        dest: removeOrgRoles_follow removeSpaceIdFromOrg_follow updateAfterRoleChange_follow split: if_splits)
next
  case (5 s t)
  then show ?case by (auto split: option.splits if_splits)
next
  case (6 s g t)
  show ?case
  proof (cases "obj_get (ur_cf s) g")
    case (Some c)
    with 6 all_follow_get[OF 6(2) Some] show ?thesis
      by (auto simp: currentUserCfRolesRequestStateReducer_def all_follow_set split: if_splits)
  qed (use 6 in \<open>auto simp: currentUserCfRolesRequestStateReducer_def split: if_splits\<close>)
qed auto

lemma roles_run_follow:
  assumes "res_fold currentUserRolesReducer getDefaultState as = Inr s"
  shows "all_follow (ur_cf s)"
  by (rule res_fold_inv[where P = "\<lambda>s. all_follow (ur_cf s)", OF _ _ assms])
    (auto dest: roles_follow simp: getDefaultState_def all_follow_def)

text \<open>
  Viewing applications or spaces. The configuration asks for the scope of a read-only administrator or auditor and
  for a role; but these scopes make the user read-only, and a read-only user is refused first. So in every roles slice
  a session can reach, at a known endpoint, viewing is allowed to administrators only.
\<close>

theorem view_for_admins_only:
  assumes "res_fold currentUserRolesReducer getDefaultState as = Inr (ap_currentUserRoles state)"
    and "e \<noteq> []" and "getCurrentUserCFEndpointRolesState (Some e) state = Some c"
    and "p = APPLICATION_VIEW \<or> p = SPACE_VIEW"
  shows "can state (CanPermission p) (Some e) i s = Some (Inr (Emits (gr_isAdmin (cr_global c))))"
proof -
  let ?ob = "combineLatest [reduceChecks [getEndpointScopesCheck state CF_READ_ONLY_ADMIN_GROUP (Some e),
        getEndpointScopesCheck state CF_ADMIN_GLOBAL_AUDITOR_GROUP (Some e)] False,
      reduceChecks (map (\<lambda>cfg. getCfCheck state cfg (Some e) i s)
        [config ORGANIZATION ORG_MANAGER, config SPACE SPACE_MANAGER, config SPACE SPACE_AUDITOR,
         config SPACE SPACE_DEVELOPER]) False]"
  have run: "can state (CanPermission p) (Some e) i s =
      Some (Inr (applyAdminCheck state (obs_map (list_all (\<lambda>b. b)) ?ob) (Some e)))"
    using assms(4) by (auto simp: can_permission resolved_def getComplexPermission_def groupConfigs_def getGroupType_def
        combineChecks_def)
  let ?scoped = "CF_READ_ONLY_ADMIN_GROUP \<in> set (gr_scopes (cr_global c))
    \<or> CF_ADMIN_GLOBAL_AUDITOR_GROUP \<in> set (gr_scopes (cr_global c))"
  have "reduceChecks [getEndpointScopesCheck state CF_READ_ONLY_ADMIN_GROUP (Some e),
        getEndpointScopesCheck state CF_ADMIN_GLOBAL_AUDITOR_GROUP (Some e)] False = Emits ?scoped"
    by (simp add: getEndpointScopesCheck_known[OF assms(2,3)] reduceChecks_def combineLatest_def)
  moreover have "\<exists>b. reduceChecks (map (\<lambda>cfg. getCfCheck state cfg (Some e) i s)
        [config ORGANIZATION ORG_MANAGER, config SPACE SPACE_MANAGER, config SPACE SPACE_AUDITOR,
         config SPACE SPACE_DEVELOPER]) False = Emits b"
    by (simp add: getCfCheck_known[OF assms(2,3)] reduceChecks_def combineLatest_def)
  ultimately obtain b where "obs_map (list_all (\<lambda>b. b)) ?ob = Emits (?scoped \<and> b)"
    by (auto simp: combineLatest_def)
  moreover have "flags_follow c"
    using roles_run_follow[OF assms(1)] assms(3) by (simp add: getCurrentUserCFEndpointRolesState_def all_follow_def)
  ultimately show ?thesis
    unfolding run applyAdminCheck_known[OF assms(2,3)]
    by (auto simp: admin_of_def read_only_of_def flags_follow_def)
qed

theorem view_for_admins_only_witness:
  "can \<lparr>ap_currentUserRoles = getDefaultState\<lparr>ur_cf := [(''cf1'', getDefaultEndpointRoles)]\<rparr>,
       ap_endpoints = [], ap_featureFlags = (\<lambda>_. Silent)\<rparr>
     (CanPermission APPLICATION_VIEW) (Some ''cf1'') None None = Some (Inr (Emits False))"
  by (subst view_for_admins_only[where c = getDefaultEndpointRoles
        and as = "[EndpointA (EndpointActionComplete REGISTER_ENDPOINTS_SUCCESS ''cf1'' ''web''
           (Some \<lparr>ei_guid = ''cf1'', ei_user = None\<rparr>))]"])
    (simp_all add: addEndpoint_def getCurrentUserCFEndpointRolesState_def, simp_all add: getDefaultState_def getDefaultEndpointRoles_def)

lemma selectSpaceWithRole_permission:
  "selectSpaceWithRoleFromOrg p org (Some c) =
     map_option (\<lambda>og. filter (\<lambda>sp. space_permission (obj_get (cr_spaces c) sp) p) (or_spaceGuids og))
       (obj_get (cr_organizations c) org)"
  by (simp add: selectSpaceWithRoleFromOrg_def space_permission_def split: option.splits)

text \<open>
  The selector of the spaces with a role and the permission check over all spaces of an organization agree: at a
  known endpoint and organization, for a user who is neither administrator nor read-only, the check says yes exactly
  when the selector finds a space.
\<close>

theorem all_spaces_check_agrees:
  assumes "e \<noteq> []" and "getCurrentUserCFEndpointRolesState (Some e) state = Some c"
    and "org \<noteq> []" and "getSpacesFromOrgWithRole e org p state = Some sps"
    and "\<not> admin_of c" and "\<not> read_only_of c"
  shows "can state (CanConfig (Config (config SPACE p))) (Some e) (Some org) (Some ALL_SPACES) =
    Some (Inr (Emits (sps \<noteq> [])))"
proof -
  have "getSimpleCheck state (config SPACE p) (Some e) (Some org) (Some ALL_SPACES) =
      Emits (cf_value c (config SPACE p) (Some org) (Some ALL_SPACES))"
    using getCfCheck_known[OF assms(1,2)] by (simp add: getSimpleCheck_def)
  moreover have "cf_value c (config SPACE p) (Some org) (Some ALL_SPACES) \<longleftrightarrow> sps \<noteq> []"
    using assms(2-4)
    by (auto simp: cf_value_def getSpacesFromOrgWithRole_def selectSpaceWithRole_permission checkAllSpacesInOrg_def
        list_ex_iff filter_empty_conv split: option.splits)
  ultimately show ?thesis
    using assms(5,6) applyAdminCheck_known[OF assms(1,2)] by (simp add: can_def getSimplePermission_def)
qed

theorem all_spaces_check_agrees_witness:
  "can \<lparr>ap_currentUserRoles = getDefaultState\<lparr>ur_cf := [(''cf1'', getDefaultEndpointRoles\<lparr>
         cr_global := (cr_global getDefaultEndpointRoles)\<lparr>gr_canWrite := True\<rparr>,
         cr_organizations := [(''o1'', createOrgRoleStateState)]\<rparr>)]\<rparr>,
       ap_endpoints = [], ap_featureFlags = (\<lambda>_. Silent)\<rparr>
     (CanConfig (Config (config SPACE SPACE_DEVELOPER))) (Some ''cf1'') (Some ''o1'') (Some ALL_SPACES) = Some (Inr (Emits False))"
  by (subst all_spaces_check_agrees[where sps = "[]" and c = "getDefaultEndpointRoles\<lparr>
         cr_global := (cr_global getDefaultEndpointRoles)\<lparr>gr_canWrite := True\<rparr>,
         cr_organizations := [(''o1'', createOrgRoleStateState)]\<rparr>"])
    (simp_all add: getCurrentUserCFEndpointRolesState_def getSpacesFromOrgWithRole_def selectSpaceWithRoleFromOrg_def
      createOrgRoleStateState_def defaultUserOrgRoleState_def admin_of_def read_only_of_def getDefaultEndpointRoles_def)

end
