(* ===== verification/App_State.thy ===== *)
theory App_State
  imports Prelude
begin

section \<open>The state of an application: application-state.service.ts\<close>

text \<open>
  \<open>ApplicationStateService.get\<close> turns the summary of an application and the states of its instances into
  what the console shows: a label, an indicator and the actions offered. It looks the pair of application
  and package state up in a table, with wildcards, and for a started application builds the key from how
  many instances run, crashed and neither. The instances are the array the stats request answers; of
  each only the state is read.
\<close>

subsection \<open>Types and the table\<close>

datatype CardStatus = CS_NONE | CS_OK | CS_WARNING | CS_TENTATIVE | CS_INCOMPLETE | CS_ERROR | CS_BUSY

text \<open>\<open>actions\<close> is the dictionary the comma-separated names are turned into: the names mapped to \<open>true\<close>.\<close>

record ApplicationStateData =
  sd_label :: string
  sd_subLabel :: "string option"
  sd_indicator :: CardStatus
  sd_actions :: "string list option"

record AppSummary =
  su_state :: string
  su_package_state :: "string option"
  su_package_updated_at :: "string option"
  su_instances :: "int option"

definition trim :: "string \<Rightarrow> string" where
  "trim s = rev (dropWhile (\<lambda>c. c = CHR '' '') (rev (dropWhile (\<lambda>c. c = CHR '' '') s)))"

definition mapActions :: "string \<Rightarrow> string list" where
  "mapActions v = map trim (split_on (CHR '','') v)"

definition metadata :: "string \<Rightarrow> string option \<Rightarrow> CardStatus \<Rightarrow> string option \<Rightarrow> ApplicationStateData" where
  "metadata label subLabel indicator actions =
     \<lparr>sd_label = label, sd_subLabel = subLabel, sd_indicator = indicator, sd_actions = map_option mapActions actions\<rparr>"

definition stateMetadata :: "(string, (string, ApplicationStateData) obj) obj" where
  "stateMetadata =
     [(''?'',
        [(''FAILED'', metadata ''Staging Failed'' None CS_ERROR (Some ''delete,restage''))]),
      (''PENDING'',
        [(''?'', metadata ''Pending'' None CS_BUSY (Some ''delete''))]),
      (''LOADING'',
        [(''?'', metadata ''Loading'' None CS_BUSY None)]),
      (''STOPPED'',
        [(''PENDING'', metadata ''Offline while Updating'' None CS_WARNING (Some ''delete'')),
         (''STAGED'', metadata ''Offline'' None CS_WARNING (Some ''start,delete,cli,restage'')),
         (''*NONE*'', metadata ''Incomplete'' None CS_INCOMPLETE (Some ''delete,cli,restage''))]),
      (''STARTED'',
        [(''NO_INSTANCES'', metadata ''Deployed'' (Some ''No Instances'') CS_OK (Some ''stop,restart,cli,restage'')),
         (''PENDING'', metadata ''Staging App'' None CS_BUSY (Some ''delete'')),
         (''STAGED(?,?,?)'', metadata ''Deployed'' None CS_TENTATIVE (Some ''stop,restart,cli,restage'')),
         (''STAGED(0,0,0)'', metadata ''Deployed'' (Some ''Starting App'') CS_BUSY (Some ''stop,restart,cli'')),
         (''STAGED(N,0,0,N)'', metadata ''Deployed'' (Some ''Scaling App'') CS_OK (Some ''stop,restart,launch,cli'')),
         (''STAGED(0,0,0,N)'', metadata ''Deployed'' (Some ''Starting App'') CS_BUSY (Some ''stop,restart,cli'')),
         (''STAGED(N,0,0)'', metadata ''Deployed'' (Some ''Online'') CS_OK (Some ''stop,restart,launch,cli,restage'')),
         (''STAGED(0,N,0)'', metadata ''Deployed'' (Some ''Crashed'') CS_ERROR (Some ''stop,restart,cli,restage'')),
         (''STAGED(0,0,N)'', metadata ''Deployed'' (Some ''Starting App'') CS_WARNING (Some ''stop,restart,cli'')),
         (''STAGED(0,N,N)'', metadata ''Deployed'' (Some ''Crashed'') CS_ERROR (Some ''stop,restart,cli,restage'')),
         (''STAGED(0,N,N,N)'', metadata ''Deployed'' (Some ''Crashed'') CS_ERROR (Some ''stop,restart,cli,restage'')),
         (''CRASHING'', metadata ''Deployed'' (Some ''Crashing'') CS_WARNING (Some ''stop,restart,cli,restage'')),
         (''STAGED(N,N,0)'', metadata ''Deployed'' (Some ''Crashing'') CS_WARNING (Some ''stop,restart,launch,cli,restage'')),
         (''STAGED(N,N,N)'', metadata ''Deployed'' (Some ''Crashing'') CS_WARNING (Some ''stop,restart,launch,cli,restage'')),
         (''STAGED(N,0,N)'', metadata ''Deployed'' (Some ''Partially Online'') CS_WARNING (Some ''stop,restart,launch,cli,restage''))])]
"

subsection \<open>Counting instances\<close>

text \<open>\<open>None\<close> is a missing array of instances; a count of -1 means that it is not known.\<close>

definition getCount :: "int option \<Rightarrow> string list option \<Rightarrow> string \<Rightarrow> int" where
  "getCount v appInstances instanceState =
     (if truthy_num v then the v
      else case appInstances of
          Some states \<Rightarrow> int (length (filter (\<lambda>s. s = instanceState) states))
        | None \<Rightarrow> - 1)"

record InstanceCounts =
  ic_running :: int
  ic_starting :: int
  ic_okay :: int
  ic_expected :: int
  ic_crashed :: int
  ic_flapping :: int

definition getCounts :: "string list \<Rightarrow> InstanceCounts" where
  "getCounts appInstances =
     (let running = getCount None (Some appInstances) ''RUNNING'';
          starting = getCount None (Some appInstances) ''STARTING'';
          expected = int (length appInstances);
          crashed = (if running = expected then 0 else getCount None (Some appInstances) ''CRASHED'');
          flapping = (if running = expected then 0 else if crashed \<ge> 0 then expected - crashed - running else - 1)
      in \<lparr>ic_running = running, ic_starting = starting, ic_okay = running + starting, ic_expected = expected,
          ic_crashed = crashed, ic_flapping = flapping\<rparr>)"

definition formatCount :: "int \<Rightarrow> string" where
  "formatCount v = (if v = 0 then ''0'' else if v > 0 then ''N'' else ''?'')"

definition checkSpecialCases :: "string \<Rightarrow> InstanceCounts \<Rightarrow> string option" where
  "checkSpecialCases pkgState counts =
     (if ic_starting counts > 0 \<and> ic_running counts > 0 \<and> ic_okay counts = ic_expected counts
      then Some (pkgState @ ''(N,0,0,N)'')
      else if ic_starting counts > 0 \<and> ic_okay counts = ic_expected counts
      then Some (pkgState @ ''(0,0,0,N)'')
      else if ic_starting counts > 0 \<and> ic_running counts > 0 \<and> ic_crashed counts > 0
      then Some ''CRASHING''
      else None)"

subsection \<open>The state\<close>

definition getPackageState :: "string \<Rightarrow> AppSummary option \<Rightarrow> string" where
  "getPackageState appState summary =
     (let p = Option.bind summary su_package_state;
          pkgState = (if truthy_str p then the p else ''*NONE*'')
      in if appState = ''STOPPED'' \<and> pkgState = ''PENDING''
         then (if truthy_str (Option.bind summary su_package_updated_at) then ''PENDING'' else ''*NONE*'')
         else pkgState)"

definition unknown_state :: ApplicationStateData where
  "unknown_state = \<lparr>sd_label = ''Unknown'', sd_subLabel = None, sd_indicator = CS_ERROR, sd_actions = None\<rparr>"

definition extended_state :: "string \<Rightarrow> string list option \<Rightarrow> string" where
  "extended_state pkgState appInstances =
     (case appInstances of
        Some states \<Rightarrow>
          (let counts = getCounts states in
           case checkSpecialCases pkgState counts of
             Some ext \<Rightarrow> ext
           | None \<Rightarrow> pkgState @ ''('' @ formatCount (ic_running counts) @ '','' @ formatCount (ic_crashed counts)
               @ '','' @ formatCount (ic_flapping counts) @ '')'')
      | None \<Rightarrow> pkgState @ ''(?,?,?)'')"

text \<open>\<open>None\<close> is the \<open>undefined\<close> read from a state without an entry for no instances.\<close>

definition app_state :: "AppSummary option \<Rightarrow> string list option \<Rightarrow> ApplicationStateData option" where
  "app_state summary appInstances =
     (let appState = (case summary of Some s \<Rightarrow> su_state s | None \<Rightarrow> ''UNKNOWN'');
          pkgState = getPackageState appState summary;
          at = (\<lambda>k. Option.bind (obj_get stateMetadata appState) (\<lambda>m. obj_get m k))
      in case Option.bind (obj_get stateMetadata ''?'') (\<lambda>w. obj_get w pkgState) of
           Some d \<Rightarrow> Some d
         | None \<Rightarrow>
           if obj_get stateMetadata appState = None then Some unknown_state
           else case at pkgState of Some d \<Rightarrow> Some d
           | None \<Rightarrow> (case at ''?'' of Some d \<Rightarrow> Some d
             | None \<Rightarrow>
               if Option.bind summary su_instances = Some 0 then at ''NO_INSTANCES''
               else case at (extended_state pkgState appInstances) of Some d \<Rightarrow> Some d | None \<Rightarrow> Some unknown_state))"

definition getStateForIndicator :: "CardStatus \<Rightarrow> ApplicationStateData" where
  "getStateForIndicator indicator =
     \<lparr>sd_label = ''-'', sd_subLabel = None, sd_indicator = indicator, sd_actions = Some []\<rparr>"

definition getInstanceState :: "AppSummary option \<Rightarrow> string list option \<Rightarrow> ApplicationStateData" where
  "getInstanceState summary appInstances =
     (case summary of
        None \<Rightarrow> getStateForIndicator CS_TENTATIVE
      | Some s \<Rightarrow>
          if su_state s \<noteq> ''STARTED'' then getStateForIndicator CS_TENTATIVE
          else (let running = getCount None appInstances ''RUNNING''
                in if Some running = su_instances s then getStateForIndicator CS_OK
                   else if running > 0 then getStateForIndicator CS_WARNING
                   else getStateForIndicator CS_ERROR))"

subsection \<open>The keys a started application can have\<close>

definition started :: "string \<Rightarrow> ApplicationStateData option" where
  "started k = Option.bind (obj_get stateMetadata ''STARTED'') (\<lambda>m. obj_get m k)"

lemma count_filter_le: "length (filter P xs) + length (filter Q xs) \<le> length xs" if "\<And>x. \<not> (P x \<and> Q x)"
  using that by (induction xs) auto

text \<open>With no special case, the three counts of a non-empty array take one of seven forms.\<close>

lemma getCounts_bounds:
  "0 \<le> ic_running (getCounts xs)" "0 \<le> ic_crashed (getCounts xs)" "0 \<le> ic_flapping (getCounts xs)"
  "ic_running (getCounts xs) + ic_crashed (getCounts xs) + ic_flapping (getCounts xs) = ic_expected (getCounts xs)"
  "ic_expected (getCounts xs) = int (length xs)"
  using count_filter_le[of "\<lambda>s. s = ''RUNNING''" "\<lambda>s. s = ''CRASHED''" xs]
  by (auto simp: getCounts_def getCount_def Let_def)

lemma extended_state_forms:
  "extended_state p (Some xs) \<in>
     {p @ ''(N,0,0,N)'', p @ ''(0,0,0,N)'', ''CRASHING'', p @ ''(0,0,0)'', p @ ''(N,0,0)'', p @ ''(0,N,0)'',
      p @ ''(0,0,N)'', p @ ''(0,N,N)'', p @ ''(N,N,0)'', p @ ''(N,0,N)'', p @ ''(N,N,N)''}"
proof (cases "checkSpecialCases p (getCounts xs)")
  case None
  let ?c = "getCounts xs"
  show ?thesis
    using getCounts_bounds(1-3)[of xs] None
    by (cases "ic_running ?c = 0"; cases "ic_crashed ?c = 0"; cases "ic_flapping ?c = 0")
      (simp_all add: extended_state_def Let_def formatCount_def)
next
  case (Some k)
  then show ?thesis
    by (auto simp: extended_state_def Let_def checkSpecialCases_def split: if_splits)
qed

text \<open>What the counts say of the instances.\<close>

lemma count_pos: "(0::int) < int (length (filter (\<lambda>s. s = k) xs)) \<longleftrightarrow> k \<in> set xs"
  by (auto simp: filter_empty_conv)

lemma getCounts_mem:
  "ic_running (getCounts xs) > 0 \<longleftrightarrow> ''RUNNING'' \<in> set xs"
  "ic_starting (getCounts xs) > 0 \<longleftrightarrow> ''STARTING'' \<in> set xs"
  "ic_crashed (getCounts xs) > 0 \<longleftrightarrow> ''CRASHED'' \<in> set xs"
proof -
  show "ic_running (getCounts xs) > 0 \<longleftrightarrow> ''RUNNING'' \<in> set xs"
    "ic_starting (getCounts xs) > 0 \<longleftrightarrow> ''STARTING'' \<in> set xs"
    using count_pos[of "''RUNNING''" xs] count_pos[of "''STARTING''" xs]
    by (simp_all add: getCounts_def getCount_def Let_def)
  have "''CRASHED'' \<notin> set xs" if "length (filter (\<lambda>s. s = ''RUNNING'') xs) = length xs"
    using that length_filter_less[of "''CRASHED''" xs "\<lambda>s. s = ''RUNNING''"] by auto
  then show "ic_crashed (getCounts xs) > 0 \<longleftrightarrow> ''CRASHED'' \<in> set xs"
    using count_pos[of "''CRASHED''" xs] by (auto simp: getCounts_def getCount_def Let_def)
qed

lemma getCounts_okay:
  "ic_okay (getCounts xs) = ic_expected (getCounts xs) \<Longrightarrow> \<not> ''CRASHED'' \<in> set xs"
proof -
  assume okay: "ic_okay (getCounts xs) = ic_expected (getCounts xs)"
  have "length (filter (\<lambda>s. s = ''RUNNING'') xs) + length (filter (\<lambda>s. s = ''STARTING'') xs)
      + length (filter (\<lambda>s. s = ''CRASHED'') xs) \<le> length xs"
    by (induction xs) auto
  moreover have "int (length (filter (\<lambda>s. s = ''RUNNING'') xs)) + int (length (filter (\<lambda>s. s = ''STARTING'') xs))
      = int (length xs)"
    using okay by (simp add: getCounts_def getCount_def Let_def)
  ultimately have "length (filter (\<lambda>s. s = ''CRASHED'') xs) = 0" by linarith
  then show "\<not> ''CRASHED'' \<in> set xs" by (auto simp: filter_empty_conv)
qed

lemma extended_state_launch:
  "extended_state p (Some xs) \<in> {p @ ''(N,0,0,N)'', p @ ''(N,0,0)'', p @ ''(N,N,0)'', p @ ''(N,0,N)'', p @ ''(N,N,N)''}
     \<longleftrightarrow> ''RUNNING'' \<in> set xs \<and> \<not> (''STARTING'' \<in> set xs \<and> ''CRASHED'' \<in> set xs)"
  if "p = ''STAGED''"
proof (cases "checkSpecialCases p (getCounts xs)")
  case None
  let ?c = "getCounts xs"
  have "extended_state p (Some xs) \<in> {p @ ''(N,0,0,N)'', p @ ''(N,0,0)'', p @ ''(N,N,0)'', p @ ''(N,0,N)'', p @ ''(N,N,N)''}
      \<longleftrightarrow> 0 < ic_running ?c"
    using getCounts_bounds(1-3)[of xs] None that
    by (cases "ic_running ?c = 0"; cases "ic_crashed ?c = 0"; cases "ic_flapping ?c = 0")
      (simp_all add: extended_state_def Let_def formatCount_def)
  moreover have "\<not> (0 < ic_starting ?c \<and> 0 < ic_running ?c \<and> 0 < ic_crashed ?c)"
    using None by (auto simp: checkSpecialCases_def split: if_splits)
  ultimately show ?thesis using getCounts_mem[of xs] by blast
next
  case (Some k)
  with that have "k = ''STAGED(N,0,0,N)'' \<and> 0 < ic_running (getCounts xs) \<and> ic_okay (getCounts xs) = ic_expected (getCounts xs)
    \<or> k = ''STAGED(0,0,0,N)'' \<and> \<not> 0 < ic_running (getCounts xs)
    \<or> k = ''CRASHING'' \<and> 0 < ic_starting (getCounts xs) \<and> 0 < ic_crashed (getCounts xs)"
    by (auto simp: checkSpecialCases_def split: if_splits)
  moreover have "extended_state p (Some xs) = k" using Some by (simp add: extended_state_def Let_def)
  ultimately show ?thesis
    using getCounts_mem[of xs] getCounts_okay[of xs] that by auto
qed

section \<open>Property of the application state\<close>

text \<open>
  C29: A started application with a staged package and instances wanted is never of unknown state: whatever its instances
  do, the key built from the counts has an entry in the table. It can be launched exactly when an instance runs, unless
  another one is starting while yet another has crashed; and it can always be stopped.
\<close>

theorem started_app_state:
  assumes "su_state s = ''STARTED''" and "su_package_state s = Some ''STAGED''" and "su_instances s \<noteq> Some 0"
  shows "\<exists>d as. app_state (Some s) (Some xs) = Some d \<and> sd_label d = ''Deployed'' \<and> sd_actions d = Some as
    \<and> ''stop'' \<in> set as
    \<and> (''launch'' \<in> set as \<longleftrightarrow> ''RUNNING'' \<in> set xs \<and> \<not> (''STARTING'' \<in> set xs \<and> ''CRASHED'' \<in> set xs))"
proof -
  let ?k = "extended_state ''STAGED'' (Some xs)"
  have pkg: "getPackageState ''STARTED'' (Some s) = ''STAGED''"
    using assms by (simp add: getPackageState_def)
  have table: "obj_get stateMetadata ''STARTED'' \<noteq> None" "started ''STAGED'' = None" "started ''?'' = None"
    "Option.bind (obj_get stateMetadata ''?'') (\<lambda>w. obj_get w ''STAGED'') = None"
    by (simp_all add: stateMetadata_def started_def)
  have run: "app_state (Some s) (Some xs) = (case started ?k of Some d \<Rightarrow> Some d | None \<Rightarrow> Some unknown_state)"
    using assms table(1) table(2-4)[unfolded started_def]
    by (auto simp: app_state_def pkg started_def Let_def split: option.splits)
  have entries: "\<exists>d as. started k = Some d \<and> sd_label d = ''Deployed'' \<and> sd_actions d = Some as \<and> ''stop'' \<in> set as
      \<and> (''launch'' \<in> set as \<longleftrightarrow> k \<in> {''STAGED(N,0,0,N)'', ''STAGED(N,0,0)'', ''STAGED(N,N,0)'', ''STAGED(N,0,N)'', ''STAGED(N,N,N)''})"
    if "k \<in> {''STAGED(N,0,0,N)'', ''STAGED(0,0,0,N)'', ''CRASHING'', ''STAGED(0,0,0)'', ''STAGED(N,0,0)'', ''STAGED(0,N,0)'',
      ''STAGED(0,0,N)'', ''STAGED(0,N,N)'', ''STAGED(N,N,0)'', ''STAGED(N,0,N)'', ''STAGED(N,N,N)''}" for k
    using that by (elim insertE emptyE) (simp_all add: started_def stateMetadata_def metadata_def mapActions_def trim_def)
  have "?k \<in> {''STAGED(N,0,0,N)'', ''STAGED(0,0,0,N)'', ''CRASHING'', ''STAGED(0,0,0)'', ''STAGED(N,0,0)'', ''STAGED(0,N,0)'',
      ''STAGED(0,0,N)'', ''STAGED(0,N,N)'', ''STAGED(N,N,0)'', ''STAGED(N,0,N)'', ''STAGED(N,N,N)''}"
    using extended_state_forms[of "''STAGED''" xs] by simp
  from entries[OF this] extended_state_launch[OF refl, of xs] run show ?thesis by auto
qed

theorem started_app_state_witness:
  "\<exists>d as. app_state (Some \<lparr>su_state = ''STARTED'', su_package_state = Some ''STAGED'', su_package_updated_at = None,
       su_instances = Some 3\<rparr>) (Some [''RUNNING'', ''STARTING'', ''CRASHED'']) = Some d
    \<and> sd_actions d = Some as \<and> ''launch'' \<notin> set as"
  using started_app_state[of "\<lparr>su_state = ''STARTED'', su_package_state = Some ''STAGED'', su_package_updated_at = None,
       su_instances = Some 3\<rparr>" "[''RUNNING'', ''STARTING'', ''CRASHED'']"]
  by auto

end
