(* ===== verification/Entity_Factory.thy ===== *)
theory Entity_Factory
  imports Prelude
begin

section \<open>The schemas of the entities: entity-factory.ts\<close>

text \<open>
  The schemas say how entities contain one another. \<open>normalizr\<close> uses them to split a response into entities and
  to put an entity together again; the front end walks them itself to find what is deleted with an entity
  (\<open>Schema_Tree\<close>). A schema is an \<open>EntitySchema\<close>, a plain object of schemas by property, or an array that holds
  the schema of its elements. The schemas of the file are values; none contains itself.
\<close>

subsection \<open>EntitySchema\<close>

text \<open>
  \<open>idAttribute\<close> is a property of the entity (\<open>id\<close> by default) or \<open>getAPIResourceGuid\<close>; the one function
  \<open>commit => commit.sha\<close> reads a property too. \<open>processStrategy\<close> changes an entity before it is stored.
\<close>

datatype IdAttribute = ByGuid | ByProperty string

datatype ProcessStrategy = CopyEntity | DomainStrategy | UserStrategy

record EntityOptions =
  eo_idAttribute :: IdAttribute
  eo_processStrategy :: ProcessStrategy

datatype schema =
    EntitySchema string "(string \<times> schema) list option" EntityOptions "string option"
  | PlainSchema "(string \<times> schema) list"
  | ArraySchema schema

definition getValueOrNull :: "js \<Rightarrow> string \<Rightarrow> js" where
  "getValueOrNull object k =
     (if truthy object then if truthy (js_field object k) then js_field object k else JNull else JNull)"

definition getAPIResourceMetadata :: "js \<Rightarrow> js" where
  "getAPIResourceMetadata resource = getValueOrNull resource ''metadata''"

definition getMetadataGuid :: "js \<Rightarrow> js" where
  "getMetadataGuid metadata = getValueOrNull metadata ''guid''"

definition getAPIResourceGuid :: "js \<Rightarrow> js" where
  "getAPIResourceGuid resource = getMetadataGuid (getAPIResourceMetadata resource)"

lemmas resource_guid_defs = getAPIResourceGuid_def getMetadataGuid_def getAPIResourceMetadata_def getValueOrNull_def

lemma getAPIResourceGuid_resource [simp]:
  "g \<noteq> [] \<Longrightarrow> getAPIResourceGuid (JObj [(''entity'', e), (''metadata'', JObj ((''guid'', JStr g) # m))]) = JStr g"
  by (simp add: resource_guid_defs)

fun id_of :: "IdAttribute \<Rightarrow> js \<Rightarrow> js" where
  "id_of ByGuid entity = getAPIResourceGuid entity"
| "id_of (ByProperty p) entity = js_field entity p"

definition guid_options :: EntityOptions where
  "guid_options = \<lparr>eo_idAttribute = ByGuid, eo_processStrategy = CopyEntity\<rparr>"

definition property_options :: "string \<Rightarrow> EntityOptions" where
  "property_options p = \<lparr>eo_idAttribute = ByProperty p, eo_processStrategy = CopyEntity\<rparr>"

text \<open>\<open>new EntitySchema(key, definition, { idAttribute: getAPIResourceGuid })\<close>, the shape of most schemas.\<close>

abbreviation resource_schema :: "string \<Rightarrow> (string \<times> schema) list \<Rightarrow> schema" where
  "resource_schema key definition \<equiv> EntitySchema key (Some definition) guid_options None"

abbreviation entity_schema :: "string \<Rightarrow> (string \<times> schema) list \<Rightarrow> schema" where
  "entity_schema key children \<equiv> resource_schema key [(''entity'', PlainSchema children)]"

fun withEmptyDefinition :: "schema \<Rightarrow> schema" where
  "withEmptyDefinition (EntitySchema entityKey _ options relationKey) = EntitySchema entityKey (Some []) options relationKey"
| "withEmptyDefinition s = s"

subsection \<open>Strategies\<close>

text \<open>
  A domain loses a \<open>router_group_type\<close> of \<open>null\<close>; a user without a name is named by its guid. The user strategy
  reads \<open>user.metadata.guid\<close> before it asks whether there is a \<open>metadata\<close>.
\<close>

definition domain_processStrategy :: "js \<Rightarrow> js result" where
  "domain_processStrategy value =
     res_bind (js_prop value ''entity'') (\<lambda>e. res_bind (js_prop value ''metadata'') (\<lambda>m.
       let entity = obj_spread [] (js_own e) in
       Inr (JObj [(''entity'', JObj (if obj_get entity ''router_group_type'' = Some JNull
                     then obj_del ''router_group_type'' entity else entity)),
                  (''metadata'', JObj (obj_spread [] (js_own m)))])))"

definition user_processStrategy :: "js \<Rightarrow> js result" where
  "user_processStrategy user =
     res_bind (js_prop user ''entity'') (\<lambda>e.
     res_bind (js_prop e ''username'') (\<lambda>username.
       if truthy username then Inr user
       else res_bind (js_prop user ''metadata'') (\<lambda>m.
         res_bind (js_prop m ''guid'') (\<lambda>guid.
           let entity = JObj (obj_set ''username'' guid (obj_spread [] (js_own e))) in
           Inr (if truthy m then JObj [(''entity'', entity), (''metadata'', m)] else JObj [(''entity'', entity)])))))"

subsection \<open>The schemas\<close>

definition AppSummarySchema :: schema where "AppSummarySchema = resource_schema ''summary'' []"
definition AppStatSchema :: schema where "AppStatSchema = resource_schema ''stats'' []"
definition AppEnvVarSchema :: schema where "AppEnvVarSchema = resource_schema ''environmentVars'' []"
definition GithubBranchSchema :: schema where
  "GithubBranchSchema = EntitySchema ''githubBranches'' (Some []) (property_options ''entityId'') None"
definition GithubRepoSchema :: schema where
  "GithubRepoSchema = EntitySchema ''githubRepo'' None (property_options ''id'') None"
definition GithubCommitSchema :: schema where
  "GithubCommitSchema = EntitySchema ''githubCommits'' (Some []) (property_options ''sha'') None"
definition CFInfoSchema :: schema where
  "CFInfoSchema = EntitySchema ''cloudFoundryInfo'' None (property_options ''id'') None"
definition EventSchema :: schema where "EventSchema = resource_schema ''event'' []"
definition StackSchema :: schema where "StackSchema = resource_schema ''stack'' []"

definition DomainSchema :: schema where
  "DomainSchema = EntitySchema ''domain'' (Some [])
     \<lparr>eo_idAttribute = ByGuid, eo_processStrategy = DomainStrategy\<rparr> None"

definition ServiceSchema :: schema where
  "ServiceSchema = entity_schema ''service'' [(''service_plans'', ArraySchema (resource_schema ''servicePlan'' []))]"
definition ServiceNoPlansSchema :: schema where "ServiceNoPlansSchema = resource_schema ''service'' []"
definition MetricSchema :: schema where
  "MetricSchema = EntitySchema ''metrics'' None (property_options ''id'') None"
definition SpaceQuotaSchema :: schema where "SpaceQuotaSchema = resource_schema ''space_quota_definition'' []"
definition ServicePlanSchema :: schema where
  "ServicePlanSchema = entity_schema ''servicePlan'' [(''service'', ServiceSchema)]"

definition ServiceBindingsSchema :: schema where
  "ServiceBindingsSchema = entity_schema ''serviceBinding''
     [(''app'', resource_schema ''application'' []),
      (''service_instance'', entity_schema ''serviceInstance''
         [(''service_bindings'', ArraySchema (resource_schema ''serviceBinding''
             [(''app'', resource_schema ''application'' [])])),
          (''service'', resource_schema ''service'' []),
          (''service_plan'', resource_schema ''servicePlan'' [])]),
      (''service'', ServiceNoPlansSchema)]"

definition ServiceBindingsNoBindingsSchema :: schema where
  "ServiceBindingsNoBindingsSchema = entity_schema ''serviceBinding''
     [(''app'', resource_schema ''application'' []),
      (''service_instance'', entity_schema ''serviceInstance''
         [(''service'', resource_schema ''service'' []), (''service_plan'', resource_schema ''servicePlan'' [])]),
      (''service'', ServiceNoPlansSchema)]"

definition ServiceInstancesSchema :: schema where
  "ServiceInstancesSchema = entity_schema ''serviceInstance''
     [(''service_plan'', ServicePlanSchema), (''service_bindings'', ArraySchema ServiceBindingsSchema),
      (''service'', ServiceSchema)]"

definition BuildpackSchema :: schema where "BuildpackSchema = resource_schema ''buildpack'' []"

definition RouteSchema :: schema where
  "RouteSchema = entity_schema ''route''
     [(''domain'', DomainSchema), (''apps'', ArraySchema (resource_schema ''application'' []))]"
definition RouteNoAppsSchema :: schema where
  "RouteNoAppsSchema = entity_schema ''route'' [(''domain'', DomainSchema)]"
definition QuotaDefinitionSchema :: schema where "QuotaDefinitionSchema = resource_schema ''quota_definition'' []"

definition ApplicationWithoutSpaceEntitySchema :: schema where
  "ApplicationWithoutSpaceEntitySchema = entity_schema ''application''
     [(''stack'', StackSchema), (''routes'', ArraySchema RouteNoAppsSchema),
      (''service_bindings'', ArraySchema ServiceBindingsSchema)]"

text \<open>Users under the roles of a space or organization: the role is the \<open>relationKey\<close>.\<close>

abbreviation user_role_schema :: "string \<Rightarrow> schema" where
  "user_role_schema role \<equiv> EntitySchema ''user'' (Some []) guid_options (Some role)"

definition coreSpaceSchemaParams :: "(string \<times> schema) list" where
  "coreSpaceSchemaParams =
     [(''routes'', ArraySchema RouteSchema), (''domains'', ArraySchema DomainSchema),
      (''space_quota_definition'', SpaceQuotaSchema), (''service_instances'', ArraySchema ServiceInstancesSchema),
      (''developers'', ArraySchema (user_role_schema ''developers'')),
      (''managers'', ArraySchema (user_role_schema ''managers'')),
      (''auditors'', ArraySchema (user_role_schema ''auditors''))]"

definition SpaceSchema :: schema where
  "SpaceSchema = entity_schema ''space''
     (obj_spread coreSpaceSchemaParams [(''apps'', ArraySchema ApplicationWithoutSpaceEntitySchema)])"

definition PrivateDomainsSchema :: schema where "PrivateDomainsSchema = resource_schema ''private_domains'' []"

definition coreOrgSchemaParams :: "(string \<times> schema) list" where
  "coreOrgSchemaParams =
     [(''domains'', ArraySchema DomainSchema), (''quota_definition'', QuotaDefinitionSchema),
      (''private_domains'', ArraySchema PrivateDomainsSchema)]"

definition OrganizationsWithoutSpaces :: schema where
  "OrganizationsWithoutSpaces = entity_schema ''organization'' coreOrgSchemaParams"

definition OrganizationSchema :: schema where
  "OrganizationSchema = entity_schema ''organization'' (obj_spread coreOrgSchemaParams
     [(''spaces'', ArraySchema SpaceSchema), (''users'', ArraySchema (user_role_schema ''users'')),
      (''managers'', ArraySchema (user_role_schema ''managers'')),
      (''billing_managers'', ArraySchema (user_role_schema ''billing_managers'')),
      (''auditors'', ArraySchema (user_role_schema ''auditors''))])"

definition SpaceWithOrgsEntitySchema :: schema where
  "SpaceWithOrgsEntitySchema = EntitySchema ''space'' (Some [(''entity'', PlainSchema (obj_spread coreSpaceSchemaParams
     [(''apps'', ArraySchema ApplicationWithoutSpaceEntitySchema), (''organization'', OrganizationsWithoutSpaces)]))])
     guid_options (Some ''spaceWithOrg'')"

definition ServiceInstancesWithSpaceSchema :: schema where
  "ServiceInstancesWithSpaceSchema = entity_schema ''serviceInstance''
     [(''service_plan'', ServicePlanSchema), (''service_bindings'', ArraySchema ServiceBindingsSchema),
      (''space'', withEmptyDefinition SpaceSchema), (''service'', ServiceSchema)]"

definition ServiceInstancesWithNoBindingsSchema :: schema where
  "ServiceInstancesWithNoBindingsSchema = entity_schema ''serviceInstance''
     [(''service_plan'', ArraySchema (resource_schema ''servicePlan'' [])),
      (''service'', ArraySchema (resource_schema ''service'' [])), (''space'', SpaceSchema)]"

definition ServicePlanVisibilitySchema :: schema where
  "ServicePlanVisibilitySchema = entity_schema ''servicePlanVisibility''
     [(''organization'', OrganizationSchema), (''service_plan'', resource_schema ''servicePlan'' [])]"

definition ServiceBrokerSchema :: schema where "ServiceBrokerSchema = resource_schema ''serviceBroker'' []"

definition ApplicationEntitySchema :: schema where
  "ApplicationEntitySchema = entity_schema ''application''
     [(''stack'', StackSchema),
      (''space'', entity_schema ''space'' (obj_spread coreSpaceSchemaParams
         [(''routes'', ArraySchema RouteNoAppsSchema),
          (''service_instances'', ArraySchema ServiceInstancesWithNoBindingsSchema),
          (''organization'', OrganizationsWithoutSpaces)])),
      (''routes'', ArraySchema RouteNoAppsSchema), (''service_bindings'', ArraySchema ServiceBindingsSchema)]"

definition EndpointSchema :: schema where
  "EndpointSchema = EntitySchema ''endpoint'' (Some []) (property_options ''guid'') None"

definition SecurityGroupSchema :: schema where
  "SecurityGroupSchema = entity_schema ''securityGroup'' [(''spaces'', ArraySchema SpaceSchema)]"

definition FeatureFlagSchema :: schema where "FeatureFlagSchema = resource_schema ''featureFlag'' []"
definition SpaceEmptySchema :: schema where "SpaceEmptySchema = withEmptyDefinition SpaceSchema"

definition orgUserEntity :: "(string \<times> schema) list" where
  "orgUserEntity = [(''entity'', PlainSchema [(''spaces'', ArraySchema SpaceEmptySchema)])]"

definition createUserOrgSpaceSchema :: "string \<Rightarrow> (string \<times> schema) list \<Rightarrow> string \<Rightarrow> schema" where
  "createUserOrgSpaceSchema schemaKey entity relationKey =
     EntitySchema schemaKey (Some entity) guid_options (Some relationKey)"

definition CFUserSchema :: schema where
  "CFUserSchema = EntitySchema ''user'' (Some [(''entity'', PlainSchema
     [(''organizations'', ArraySchema (createUserOrgSpaceSchema ''organization'' orgUserEntity ''organizations'')),
      (''audited_organizations'',
        ArraySchema (createUserOrgSpaceSchema ''organization'' orgUserEntity ''audited_organizations'')),
      (''managed_organizations'',
        ArraySchema (createUserOrgSpaceSchema ''organization'' orgUserEntity ''managed_organizations'')),
      (''billing_managed_organizations'',
        ArraySchema (createUserOrgSpaceSchema ''organization'' orgUserEntity ''billing_managed_organizations'')),
      (''spaces'', ArraySchema (createUserOrgSpaceSchema ''space'' [] ''spaces'')),
      (''managed_spaces'', ArraySchema (createUserOrgSpaceSchema ''space'' [] ''managed_spaces'')),
      (''audited_spaces'', ArraySchema (createUserOrgSpaceSchema ''space'' [] ''audited_spaces''))])])
     \<lparr>eo_idAttribute = ByGuid, eo_processStrategy = UserStrategy\<rparr> None"

definition UserProfileInfoSchema :: schema where
  "UserProfileInfoSchema = EntitySchema ''userProfile'' (Some []) (property_options ''id'') None"

subsection \<open>The cache and entityFactory\<close>

definition entityCache :: "(string, schema) obj" where
  "entityCache =
     [(''summary'', AppSummarySchema), (''stats'', AppStatSchema), (''environmentVars'', AppEnvVarSchema),
      (''githubBranches'', GithubBranchSchema), (''githubRepo'', GithubRepoSchema),
      (''githubCommits'', GithubCommitSchema), (''cloudFoundryInfo'', CFInfoSchema), (''event'', EventSchema),
      (''stack'', StackSchema), (''domain'', DomainSchema), (''service'', ServiceSchema), (''metrics'', MetricSchema),
      (''space_quota_definition'', SpaceQuotaSchema), (''servicePlan'', ServicePlanSchema),
      (''serviceBinding'', ServiceBindingsSchema), (''serviceBindingNoBindings'', ServiceBindingsNoBindingsSchema),
      (''serviceInstance'', ServiceInstancesSchema), (''buildpack'', BuildpackSchema), (''route'', RouteSchema),
      (''quota_definition'', QuotaDefinitionSchema), (''space'', SpaceSchema), (''private_domains'', PrivateDomainsSchema),
      (''organization'', OrganizationSchema), (''spaceWithOrg'', SpaceWithOrgsEntitySchema),
      (''serviceInstancesWithSpace'', ServiceInstancesWithSpaceSchema),
      (''serviceInstanceWithNoBindings'', ServiceInstancesWithNoBindingsSchema),
      (''servicePlanVisibility'', ServicePlanVisibilitySchema), (''serviceBroker'', ServiceBrokerSchema),
      (''application'', ApplicationEntitySchema), (''endpoint'', EndpointSchema),
      (''securityGroup'', SecurityGroupSchema), (''featureFlag'', FeatureFlagSchema), (''user'', CFUserSchema),
      (''userProfile'', UserProfileInfoSchema)]"

definition entityFactory :: "string \<Rightarrow> schema result" where
  "entityFactory key =
     (case obj_get entityCache key of
        Some entity \<Rightarrow> Inr entity
      | None \<Rightarrow> Inl (ThrownError (''Unknown entity schema type: '' @ key)))"

text \<open>The key a schema stores its entities under: \<open>schema.key\<close>.\<close>

fun schema_key :: "schema \<Rightarrow> string option" where
  "schema_key (EntitySchema key _ _ _) = Some key"
| "schema_key _ = None"

lemmas schema_defs =
  AppSummarySchema_def AppStatSchema_def AppEnvVarSchema_def GithubBranchSchema_def GithubRepoSchema_def
  GithubCommitSchema_def CFInfoSchema_def EventSchema_def StackSchema_def DomainSchema_def ServiceSchema_def
  ServiceNoPlansSchema_def MetricSchema_def SpaceQuotaSchema_def ServicePlanSchema_def ServiceBindingsSchema_def
  ServiceBindingsNoBindingsSchema_def ServiceInstancesSchema_def BuildpackSchema_def RouteSchema_def
  RouteNoAppsSchema_def QuotaDefinitionSchema_def ApplicationWithoutSpaceEntitySchema_def coreSpaceSchemaParams_def
  SpaceSchema_def PrivateDomainsSchema_def coreOrgSchemaParams_def OrganizationsWithoutSpaces_def
  OrganizationSchema_def SpaceWithOrgsEntitySchema_def ServiceInstancesWithSpaceSchema_def
  ServiceInstancesWithNoBindingsSchema_def ServicePlanVisibilitySchema_def ServiceBrokerSchema_def
  ApplicationEntitySchema_def EndpointSchema_def SecurityGroupSchema_def FeatureFlagSchema_def SpaceEmptySchema_def
  orgUserEntity_def createUserOrgSpaceSchema_def CFUserSchema_def UserProfileInfoSchema_def

end
