(* ===== verification/Api_Response.thy ===== *)
theory Api_Response
  imports Entity_Factory Entity_Reducers
begin

section \<open>Responses of the API: the pure part of api.effects.ts, jetstream.helpers.ts, api.types.ts\<close>

text \<open>
  The backend forwards a request to one or several Cloud Foundry endpoints and answers with one value per endpoint:
  a page of resources, an entity, an array, or an error object. This theory models what \<open>APIEffect\<close> makes of such an
  answer: which endpoints failed, which entities came, marked with the endpoint they belong to, and how many there
  are. \<open>normalize\<close> (of \<open>normalizr\<close>) is a parameter.
\<close>

subsection \<open>api.types.ts\<close>

fun instanceOfAPIResource :: "js \<Rightarrow> bool" where
  "instanceOfAPIResource (JObj kvs) \<longleftrightarrow> obj_get kvs ''metadata'' \<noteq> None \<and> obj_get kvs ''entity'' \<noteq> None"
| "instanceOfAPIResource _ \<longleftrightarrow> False"

lemma instanceOf_object: "instanceOfAPIResource v \<Longrightarrow> is_object v"
  by (cases v) (auto simp: is_object_def)

subsection \<open>completeResourceEntity\<close>

lemma size_own: "(k, v) \<in> set (js_own r) \<Longrightarrow> is_object v \<Longrightarrow> size v < size r"
proof (induction r rule: js_own.induct)
  case (1 kvs)
  then have "size v \<le> size_list (size_prod (\<lambda>_. 0) size) kvs"
    by (intro size_list_estimation'[of "(k, v)"]) auto
  then show ?case by simp
next
  case (2 xs)
  then have "v \<in> set xs" by (auto dest: set_zip_rightD)
  then have "size v \<le> size_list size xs" by (intro size_list_estimation') auto
  then show ?case by simp
qed (auto dest!: set_zip_rightD)

lemma size_field: "is_object (js_field r k) \<Longrightarrow> size (js_field r k) < size r"
proof -
  assume obj: "is_object (js_field r k)"
  then obtain v where "obj_get (js_own r) k = Some v" by (auto simp: js_field_def split: option.splits)
  with obj size_own[OF obj_get_mem[OF this]] show ?thesis by (simp add: js_field_def)
qed

lemma size_element: "x \<in> set (elements v) \<Longrightarrow> size x < size v"
  by (cases v) (auto dest: size_list_estimation'[where f = size and x = x])

text \<open>
  The entity part of a completed resource: of a resource with metadata its own with \<open>guid\<close> and \<open>cfGuid\<close>, of
  anything else the whole value with \<open>cfGuid\<close>.
\<close>

definition completed_entity :: "js \<Rightarrow> string \<Rightarrow> (string, js) obj" where
  "completed_entity resource cfGuid =
     (if truthy (js_field resource ''metadata'')
      then obj_set ''cfGuid'' (JStr cfGuid) (obj_set ''guid'' (js_field (js_field resource ''metadata'') ''guid'')
        (obj_spread [] (js_own (js_field resource ''entity''))))
      else obj_set ''cfGuid'' (JStr cfGuid) (obj_spread [] (js_own resource)))"

lemma size_completed:
  assumes "(k, v) \<in> set (completed_entity resource cfGuid)" and "is_object v"
  shows "size v < size resource"
proof -
  let ?m = "js_field resource ''metadata''" and ?e = "js_field resource ''entity''"
  have "v = js_field ?m ''guid'' \<or> (k, v) \<in> set (js_own ?e) \<or> (k, v) \<in> set (js_own resource)"
    using assms set_obj_spread[of "[]"] unfolding completed_entity_def
    by (auto dest!: set_obj_set[THEN subsetD] set_obj_spread[THEN subsetD] split: if_splits)
  then consider "v = js_field ?m ''guid''" | "(k, v) \<in> set (js_own ?e)" | "(k, v) \<in> set (js_own resource)" by blast
  then show ?thesis
  proof cases
    case 1
    then have v: "size v < size ?m" using assms(2) size_field by blast
    have "is_object ?m" using 1 assms(2) by (cases ?m) (auto simp: js_field_def split: option.splits dest!: obj_get_mem set_zip_rightD)
    then show ?thesis using v size_field by (meson order.strict_trans)
  next
    case 2
    then have v: "size v < size ?e" using assms(2) size_own by blast
    have "is_object ?e" using 2 assms(2) by (cases ?e) (auto dest!: set_zip_rightD)
    then show ?thesis using v size_field by (meson order.strict_trans)
  next
    case 3
    then show ?thesis using assms(2) size_own by blast
  qed
qed

function completeResourceEntity :: "js \<Rightarrow> string \<Rightarrow> js \<Rightarrow> js result" where
  "completeResourceEntity resource cfGuid guid =
     (if \<not> truthy resource then Inr resource
      else res_bind (res_map_props (\<lambda>resourceKey nested.
          if instanceOfAPIResource nested
          then res_bind (js_prop (js_field nested ''metadata'') ''guid'') (\<lambda>g. completeResourceEntity nested cfGuid g)
          else if is_array nested
          then res_bind (res_map (\<lambda>n.
              if is_object n
              then completeResourceEntity n cfGuid
                (if truthy (js_field n ''metadata'') then js_field (js_field n ''metadata'') ''guid''
                 else JStr (js_key guid @ ''-'' @ resourceKey))
              else Inr n) (elements nested)) (\<lambda>xs. Inr (JArr xs))
          else Inr nested)
        (completed_entity resource cfGuid))
      (\<lambda>entity. Inr (JObj [(''entity'', JObj entity),
        (''metadata'', if truthy (js_field resource ''metadata'') then js_field resource ''metadata''
           else JObj [(''guid'', guid)])])))"
  by pat_completeness auto
termination
proof (relation "measure (\<lambda>(resource, _, _). size resource)", goal_cases)
  case (2 resource cfGuid guid k nested g)
  then show ?case using size_completed instanceOf_object by fastforce
next
  case (3 resource cfGuid guid k nested n)
  then have "is_object nested" by (auto simp: is_array_elements)
  then have "size nested < size resource" using 3 size_completed by blast
  then show ?case using size_element[OF 3(5)] by simp
qed simp

declare completeResourceEntity.simps [simp del]

text \<open>
  A completed resource: its entity carries the guid of the endpoint, and so does every resource nested in it, and
  every object of its arrays.
\<close>

inductive completed :: "string \<Rightarrow> js \<Rightarrow> bool" for cfGuid where
  completedI: "\<lbrakk>obj_get e ''cfGuid'' = Some (JStr cfGuid);
      \<And>k n. (k, n) \<in> set e \<Longrightarrow> instanceOfAPIResource n \<Longrightarrow> completed cfGuid n;
      \<And>k n x. (k, n) \<in> set e \<Longrightarrow> x \<in> set (elements n) \<Longrightarrow> is_object x \<Longrightarrow> completed cfGuid x\<rbrakk>
    \<Longrightarrow> completed cfGuid (JObj [(''entity'', JObj e), (''metadata'', m)])"

inductive_cases completedE: "completed cfGuid v"

lemma completed_field: "completed cfGuid v \<Longrightarrow> js_field (js_field v ''entity'') ''cfGuid'' = JStr cfGuid"
  by (elim completedE) simp

lemma completeResourceEntity_completed:
  "completeResourceEntity r cfGuid guid = Inr v \<Longrightarrow> truthy r \<Longrightarrow> completed cfGuid v"
proof (induction r cfGuid guid arbitrary: v rule: completeResourceEntity.induct)
  case (1 resource cfGuid guid)
  let ?f = "\<lambda>resourceKey nested.
      if instanceOfAPIResource nested
      then res_bind (js_prop (js_field nested ''metadata'') ''guid'') (\<lambda>g. completeResourceEntity nested cfGuid g)
      else if is_array nested
      then res_bind (res_map (\<lambda>n.
          if is_object n
          then completeResourceEntity n cfGuid
            (if truthy (js_field n ''metadata'') then js_field (js_field n ''metadata'') ''guid''
             else JStr (js_key guid @ ''-'' @ resourceKey))
          else Inr n) (elements nested)) (\<lambda>xs. Inr (JArr xs))
      else Inr nested"
  from 1(3,4) obtain e m where e: "res_map_props ?f (completed_entity resource cfGuid) = Inr e"
    and v: "v = JObj [(''entity'', JObj e), (''metadata'', m)]"
    by (auto simp: completeResourceEntity.simps[of resource] res_bind_Inr_iff)
  note steps = res_map_props_Inr[OF e]
  have truthy: "truthy n" if "is_object n" for n using that by (cases n) auto
  have orig: "\<exists>n0. (k, n0) \<in> set (completed_entity resource cfGuid) \<and> ?f k n0 = Inr n" if "(k, n) \<in> set e" for k n
    using res_map_props_mem[OF e that] .
  show ?case unfolding v
  proof (rule completedI)
    have "obj_get (completed_entity resource cfGuid) ''cfGuid'' = Some (JStr cfGuid)"
      by (simp add: completed_entity_def)
    from list_all2_get[OF steps this] show "obj_get e ''cfGuid'' = Some (JStr cfGuid)"
      by (auto simp: is_array_def)
  next
    fix k n assume "(k, n) \<in> set e" and n: "instanceOfAPIResource n"
    then obtain n0 where n0: "(k, n0) \<in> set (completed_entity resource cfGuid)" "?f k n0 = Inr n" using orig by blast
    show "completed cfGuid n"
    proof (cases "instanceOfAPIResource n0")
      case True
      then obtain g where "js_prop (js_field n0 ''metadata'') ''guid'' = Inr g" "completeResourceEntity n0 cfGuid g = Inr n"
        using n0(2) by (auto simp: res_bind_Inr_iff)
      then show ?thesis using 1(1)[OF _ n0(1) True] 1(4) truthy[OF instanceOf_object[OF True]] by simp
    next
      case False
      then show ?thesis using n0(2) n by (auto simp: res_bind_Inr_iff split: if_splits)
    qed
  next
    fix k n x assume "(k, n) \<in> set e" and x: "x \<in> set (elements n)" "is_object x"
    then obtain n0 where n0: "(k, n0) \<in> set (completed_entity resource cfGuid)" "?f k n0 = Inr n" using orig by blast
    show "completed cfGuid x"
    proof (cases "instanceOfAPIResource n0")
      case True
      then obtain g where "js_prop (js_field n0 ''metadata'') ''guid'' = Inr g" "completeResourceEntity n0 cfGuid g = Inr n"
        using n0(2) by (auto simp: res_bind_Inr_iff)
      then have "completed cfGuid n" using 1(1)[OF _ n0(1) True] 1(4) truthy[OF instanceOf_object[OF True]] by simp
      then show ?thesis using x(1) by (elim completedE) simp
    next
      case inst: False
      show ?thesis
      proof (cases "is_array n0")
        case True
        then obtain xs where n: "n = JArr xs" and xs: "res_map (\<lambda>n.
            if is_object n
            then completeResourceEntity n cfGuid
              (if truthy (js_field n ''metadata'') then js_field (js_field n ''metadata'') ''guid''
               else JStr (js_key guid @ ''-'' @ k))
            else Inr n) (elements n0) = Inr xs"
          using n0(2) inst by (auto simp: res_bind_Inr_iff)
        then obtain x0 where x0: "x0 \<in> set (elements n0)" "(if is_object x0
            then completeResourceEntity x0 cfGuid
              (if truthy (js_field x0 ''metadata'') then js_field (js_field x0 ''metadata'') ''guid''
               else JStr (js_key guid @ ''-'' @ k))
            else Inr x0) = Inr x"
          using res_map_mem[OF xs] x(1) by (auto simp: n)
        then have "is_object x0" using x(2) by (auto split: if_splits)
        then show ?thesis using 1(2)[OF _ n0(1) inst True x0(1)] 1(4) x0(2) truthy by auto
      next
        case False
        then show ?thesis using n0(2) inst x(1) by (cases n) (auto simp: is_array_def)
      qed
    qed
  qed
qed

subsection \<open>Errors of the endpoints: jetstream.helpers.ts, checkForErrors\<close>

text \<open>
  The action of an API request: the request action with its options, the types of its three events, the schema of
  the entities it brings and where they are in the response. An array of schemas holds one schema. The
  \<open>URLSearchParams\<close> of the options are the calls made on them, in order.
\<close>

datatype param_call = AppendParam string string | SetParam string param_value

datatype RequestEntityLocation = LocationResource | LocationArray | LocationObject

record ICFAction = ApiAction +
  ca_url :: string
  ca_actions :: "string list"
  ca_entity :: "schema option"
  ca_entityLocation :: "RequestEntityLocation option"
  ca_initialParams :: "PaginationParam option"
  ca_flattenPagination :: bool
  ca_skipValidation :: bool
  ca_params :: "param_call list option"
  ca_includeRelations :: "string list option"
  ca_populateMissing :: "bool option"

definition api_action :: "ICFAction \<Rightarrow> ApiAction" where
  "api_action a = ApiAction.truncate a"

lemma api_action_simps [simp]:
  "aa_type (api_action a) = aa_type a" "aa_entityKey (api_action a) = aa_entityKey a"
  "aa_guid (api_action a) = aa_guid a" "aa_endpointGuid (api_action a) = aa_endpointGuid a"
  "aa_updatingKey (api_action a) = aa_updatingKey a" "aa_paginationKey (api_action a) = aa_paginationKey a"
  "aa_method (api_action a) = aa_method a" "aa_removeEntityOnDelete (api_action a) = aa_removeEntityOnDelete a"
  by (simp_all add: api_action_def ApiAction.defs)

definition isJetStreamError :: "js \<Rightarrow> js option" where
  "isJetStreamError v =
     (if truthy v \<and> truthy (js_field v ''error'') \<and> truthy (js_field (js_field v ''error'') ''status'')
         \<and> truthy (js_field (js_field v ''error'') ''statusCode'') \<and> truthy (js_field v ''errorResponse'')
      then Some v else None)"

record APIErrorCheck =
  ec_error :: bool
  ec_errorCode :: string
  ec_guid :: string
  ec_url :: string
  ec_errorResponse :: js

definition js_or :: "js \<Rightarrow> js \<Rightarrow> js" where
  "js_or v w = (if truthy v then v else w)"

text \<open>
  The response of a failed endpoint with defaults for what it does not say. A response that is a string is replaced;
  assigning a property of a number or boolean throws.
\<close>

definition complete_error :: "js \<Rightarrow> js result" where
  "complete_error errorResponse =
     (case errorResponse of
        JNum _ \<Rightarrow> Inl TypeError
      | JBool _ \<Rightarrow> Inl TypeError
      | _ \<Rightarrow>
        (let e = (case errorResponse of JStr _ \<Rightarrow> JObj [] | v \<Rightarrow> v);
             e1 = js_with e ''code'' (js_or (js_field e ''code'') (JNum 0));
             e2 = js_with e1 ''description'' (js_or (js_field e1 ''description'') (JStr ''Unknown''))
         in Inr (js_with e2 ''error_code'' (js_or (js_field e2 ''error_code'') (JStr ''0'')))))"

definition check_endpoint :: "js \<Rightarrow> string \<Rightarrow> string \<Rightarrow> APIErrorCheck result" where
  "check_endpoint resData url cfGuid =
     (case isJetStreamError (js_field resData cfGuid) of
        None \<Rightarrow> Inr \<lparr>ec_error = False, ec_errorCode = ''200'', ec_guid = cfGuid, ec_url = url, ec_errorResponse = JNull\<rparr>
      | Some err \<Rightarrow>
          res_bind (complete_error (js_field err ''errorResponse'')) (\<lambda>errorResponse.
            Inr \<lparr>ec_error = True, ec_errorCode = js_key (js_field (js_field err ''error'') ''statusCode''),
                 ec_guid = cfGuid, ec_url = url, ec_errorResponse = errorResponse\<rparr>))"

definition checkForErrors :: "js \<Rightarrow> ICFAction \<Rightarrow> APIErrorCheck list option result" where
  "checkForErrors resData action =
     (if \<not> truthy resData
      then Inr (if truthy_str (aa_endpointGuid action)
        then Some [\<lparr>ec_error = False, ec_errorCode = ''200'', ec_guid = the (aa_endpointGuid action),
                    ec_url = ca_url action, ec_errorResponse = JNull\<rparr>]
        else None)
      else res_bind (js_keys resData) (\<lambda>cfGuids.
        res_bind (res_map (check_endpoint resData (ca_url action)) cfGuids) (\<lambda>checks. Inr (Some checks))))"

subsection \<open>Entities of the endpoints: getEntities, handleMultiEndpoints\<close>

text \<open>
  A count is a number, or \<open>None\<close> once a page was added whose count is not one (\<open>NaN\<close>, or a text). The entities of an endpoint are one
  value or a list of values; \<open>[].concat\<close> splices the lists in, and what is not there is dropped.
\<close>

definition js_add :: "int option \<Rightarrow> js \<Rightarrow> int option" where
  "js_add n v = (case (n, v) of (Some a, JNum b) \<Rightarrow> Some (a + b) | (Some a, JNull) \<Rightarrow> Some a
     | (Some a, JBool b) \<Rightarrow> Some (a + of_bool b) | _ \<Rightarrow> None)"

definition array_entity :: "js \<Rightarrow> string \<Rightarrow> string option \<Rightarrow> string \<Rightarrow> js result" where
  "array_entity cfData cfGuid actionGuid key =
     (let guid = JStr (js_key (js_str actionGuid) @ ''-'' @ key) in
      res_bind (completeResourceEntity (js_field cfData key) cfGuid guid) (\<lambda>result.
      res_bind (js_prop result ''entity'') (\<lambda>e.
        if is_object e then Inr (js_with result ''entity'' (js_with e ''guid'' guid)) else Inl TypeError)))"

definition endpoint_entities ::
  "ICFAction \<Rightarrow> js \<Rightarrow> int option \<times> int option \<Rightarrow> string \<Rightarrow> (js list \<times> int option \<times> int option) result" where
  "endpoint_entities apiAction data totals cfGuid =
     (let cfData = js_field data cfGuid;
          object = res_bind (completeResourceEntity cfData cfGuid (js_str (aa_guid apiAction)))
            (\<lambda>v. Inr (case v of JArr xs \<Rightarrow> xs | v \<Rightarrow> [v], totals))
      in case ca_entityLocation apiAction of
           Some LocationArray \<Rightarrow>
             res_bind (js_keys cfData) (\<lambda>keys.
             res_bind (res_map (array_entity cfData cfGuid (aa_guid apiAction)) keys) (\<lambda>es.
               Inr (es, Some (int (length keys)), Some 1)))
         | Some LocationObject \<Rightarrow> object
         | _ \<Rightarrow>
             res_bind (js_prop cfData ''resources'') (\<lambda>resources.
               if \<not> truthy resources then object
               else let totals' = (js_add (fst totals) (js_field cfData ''total_results''),
                                   js_add (snd totals) (js_field cfData ''total_pages''))
                    in case resources of
                         JArr rs \<Rightarrow> res_bind (res_map (\<lambda>resource.
                             res_bind (js_prop resource ''guid'') (completeResourceEntity resource cfGuid)) rs)
                           (\<lambda>es. Inr (es, totals'))
                       | JStr _ \<Rightarrow> Inl TypeError
                       | _ \<Rightarrow> if truthy (js_field resources ''length'') then Inl TypeError else Inr ([], totals')))"

definition ok_endpoints :: "js \<Rightarrow> APIErrorCheck list \<Rightarrow> string list \<Rightarrow> string list" where
  "ok_endpoints data errorCheck guids =
     filter (\<lambda>guid. js_field data guid \<noteq> JNull \<and> (\<exists>err \<in> set errorCheck. ec_guid err = guid \<and> \<not> ec_error err)) guids"

text \<open>The loop over the endpoints that answered: their entities one after the other, and the counts.\<close>

definition all_entities ::
  "ICFAction \<Rightarrow> js \<Rightarrow> string list \<Rightarrow> (js list \<times> int option \<times> int option) result" where
  "all_entities apiAction data guids =
     res_fold (\<lambda>(entities, totals) cfGuid.
         res_bind (endpoint_entities apiAction data totals cfGuid) (\<lambda>(es, totals').
           Inr (entities @ es, totals')))
       ([], Some 0, Some 0) guids"

definition entity_array :: "ICFAction \<Rightarrow> schema list result" where
  "entity_array apiAction =
     (case ca_entity apiAction of
        None \<Rightarrow> Inl TypeError
      | Some (ArraySchema s) \<Rightarrow> Inr [s]
      | Some s \<Rightarrow> Inr [s])"

definition getEntities ::
  "(js list \<Rightarrow> schema list \<Rightarrow> NormalizedResponse) \<Rightarrow> ICFAction \<Rightarrow> js \<Rightarrow> APIErrorCheck list \<Rightarrow>
   (NormalizedResponse option \<times> int option \<times> int option) result" where
  "getEntities norm apiAction data errorCheck =
     res_bind (js_keys data) (\<lambda>guids.
     res_bind (all_entities apiAction data (ok_endpoints data errorCheck guids)) (\<lambda>(allEntities, totals).
     res_bind (entity_array apiAction) (\<lambda>entityArray.
       let flatEntities = filter truthy allEntities in
       Inr (if flatEntities \<noteq> [] then Some (norm flatEntities entityArray) else None, totals))))"

text \<open>What the answer holds: entities (never none), counts, and a check per endpoint if there is one.\<close>

record MultiResponse =
  mr_entities :: NormalizedResponse
  mr_totalResults :: "int option"
  mr_totalPages :: "int option"
  mr_errorsCheck :: "APIErrorCheck list option"

definition handleMultiEndpoints ::
  "(js list \<Rightarrow> schema list \<Rightarrow> NormalizedResponse) \<Rightarrow> js \<Rightarrow> ICFAction \<Rightarrow> MultiResponse result" where
  "handleMultiEndpoints norm resData apiAction =
     res_bind (checkForErrors resData apiAction) (\<lambda>errorsCheck.
     res_bind (if truthy resData then getEntities norm apiAction resData (the errorsCheck)
               else Inr (None, Some 0, Some 0)) (\<lambda>(entities, totalResults, totalPages).
       Inr \<lparr>mr_entities = (case entities of Some e \<Rightarrow> e | None \<Rightarrow> \<lparr>nr_entities = Some [], nr_result = []\<rparr>),
            mr_totalResults = totalResults, mr_totalPages = totalPages, mr_errorsCheck = errorsCheck\<rparr>))"

subsection \<open>What an answer holds\<close>

text \<open>An entity of an endpoint is dropped (it is falsy) or completed with the endpoint's guid.\<close>

lemma array_entity_completed:
  assumes "array_entity cfData cfGuid g k = Inr v"
  shows "completed cfGuid v"
proof -
  let ?guid = "JStr (js_key (js_str g) @ ''-'' @ k)"
  from assms obtain r e where r: "completeResourceEntity (js_field cfData k) cfGuid ?guid = Inr r"
    and e: "js_prop r ''entity'' = Inr e" "is_object e"
    and v: "v = js_with r ''entity'' (js_with e ''guid'' ?guid)"
    by (auto simp: array_entity_def Let_def res_bind_Inr_iff split: if_splits)
  have "truthy (js_field cfData k)"
  proof (rule ccontr)
    assume "\<not> truthy (js_field cfData k)"
    with r have "r = js_field cfData k" "\<not> truthy r" by (simp_all add: completeResourceEntity.simps)
    with e show False by (cases r) (auto simp: js_field_def split: option.splits)
  qed
  from completeResourceEntity_completed[OF r this] have "completed cfGuid r" .
  then obtain e' m where e': "r = JObj [(''entity'', JObj e'), (''metadata'', m)]" "obj_get e' ''cfGuid'' = Some (JStr cfGuid)"
    "\<And>k n. (k, n) \<in> set e' \<Longrightarrow> instanceOfAPIResource n \<Longrightarrow> completed cfGuid n"
    "\<And>k n x. (k, n) \<in> set e' \<Longrightarrow> x \<in> set (elements n) \<Longrightarrow> is_object x \<Longrightarrow> completed cfGuid x"
    by (elim completedE) blast
  have "v = JObj [(''entity'', JObj (obj_set ''guid'' ?guid e')), (''metadata'', m)]"
    using v e e'(1) by (auto simp: js_with_def)
  moreover have "completed cfGuid \<dots>"
    by (rule completedI) (use e'(2-4) in \<open>auto dest!: set_obj_set[THEN subsetD]\<close>)
  ultimately show ?thesis by simp
qed

lemma complete_falsy: "completeResourceEntity r cfGuid g = Inr v \<Longrightarrow> \<not> truthy v \<or> completed cfGuid v"
  using completeResourceEntity_completed[of r cfGuid g v]
  by (cases "truthy r") (auto simp: completeResourceEntity.simps)

lemma endpoint_entities_completed:
  assumes "endpoint_entities a data totals cfGuid = Inr (es, totals')" and "e \<in> set es" and "truthy e"
  shows "completed cfGuid e"
proof -
  have object: "completed cfGuid e"
    if "res_bind (completeResourceEntity r cfGuid g) (\<lambda>v. Inr (case v of JArr xs \<Rightarrow> xs | v \<Rightarrow> [v], t)) = Inr (es, totals')" for r g t
  proof -
    from that obtain v where v: "completeResourceEntity r cfGuid g = Inr v" and es: "es = (case v of JArr xs \<Rightarrow> xs | v \<Rightarrow> [v])"
      by (auto simp: res_bind_Inr_iff)
    have "\<not> is_array v"
      using complete_falsy[OF v] by (cases v) (auto simp: is_array_def elim: completedE)
    with es assms(2) have "e = v" by (cases v) (auto simp: is_array_def)
    with complete_falsy[OF v] assms(3) show ?thesis by blast
  qed
  have list: "completed cfGuid e"
    if "res_map (\<lambda>resource. res_bind (js_prop resource ''guid'') (completeResourceEntity resource cfGuid)) rs = Inr es" for rs
    using res_map_mem[OF that assms(2)] assms(3) by (auto simp: res_bind_Inr_iff dest!: complete_falsy)
  have array: "completed cfGuid e" if "res_map (array_entity cfData cfGuid g) keys = Inr es" for cfData g keys
    using res_map_mem[OF that assms(2)] array_entity_completed by blast
  have some: "es \<noteq> []" using assms(2) by auto
  show ?thesis
    using assms(1) some
    by (auto simp: endpoint_entities_def Let_def res_bind_Inr_iff[of "js_prop _ _"] res_bind_Inr_iff[of "js_keys _"]
        res_bind_Inr_iff[of "res_map _ _"] intro: object list array
        split: option.splits RequestEntityLocation.splits js.splits if_splits)
qed

lemma all_entities_completed:
  assumes "all_entities a data guids = Inr (es, totals)" and "e \<in> set es" and "truthy e"
  shows "\<exists>cfGuid \<in> set guids. completed cfGuid e"
proof -
  let ?P = "\<lambda>(es, totals :: int option \<times> int option). \<forall>e \<in> set es. truthy e \<longrightarrow> (\<exists>cfGuid \<in> set guids. completed cfGuid e)"
  have "?P (es, totals)"
  proof (rule res_fold_inv[where P = ?P, OF _ _ assms(1)[unfolded all_entities_def]])
    fix st cfGuid st'
    assume g: "cfGuid \<in> set guids" and P: "?P st"
      and step: "(case st of (entities, totals) \<Rightarrow> \<lambda>cfGuid. res_bind (endpoint_entities a data totals cfGuid)
        (\<lambda>(es, totals'). Inr (entities @ es, totals'))) cfGuid = Inr st'"
    obtain xs t where st: "st = (xs, t)" by (cases st) blast
    from step obtain ys t' where ys: "endpoint_entities a data t cfGuid = Inr (ys, t')" and st': "st' = (xs @ ys, t')"
      by (auto simp: st res_bind_Inr_iff)
    show "?P st'" using P g endpoint_entities_completed[OF ys] by (auto simp: st st')
  qed simp
  with assms(2,3) show ?thesis by blast
qed

lemma check_endpoint_guid:
  "check_endpoint d u g = Inr c \<Longrightarrow> ec_guid c = g \<and> (ec_error c \<longleftrightarrow> isJetStreamError (js_field d g) \<noteq> None)"
  by (auto simp: check_endpoint_def res_bind_Inr_iff split: option.splits)

lemma checkForErrors_Some:
  assumes "checkForErrors d a = Inr checks" and "truthy d"
  shows "\<exists>cs. checks = Some cs \<and> map ec_guid cs = obj_keys (js_own d)
    \<and> (\<forall>c \<in> set cs. ec_error c \<longleftrightarrow> isJetStreamError (js_field d (ec_guid c)) \<noteq> None)"
proof -
  from assms obtain cs where cs: "res_map (check_endpoint d (ca_url a)) (obj_keys (js_own d)) = Inr cs" "checks = Some cs"
    by (auto simp: checkForErrors_def res_bind_Inr_iff truthy_js_keys)
  have "map ec_guid cs = obj_keys (js_own d)"
    using res_map_Inr[OF cs(1)] by (induction rule: list_all2_induct) (auto dest: check_endpoint_guid)
  moreover have "\<forall>c \<in> set cs. ec_error c \<longleftrightarrow> isJetStreamError (js_field d (ec_guid c)) \<noteq> None"
    using res_map_mem[OF cs(1)] check_endpoint_guid by fastforce
  ultimately show ?thesis using cs(2) by blast
qed

text \<open>
  What an endpoint that answered contributes, by the location of the entities in its answer: the entity of every key of
  the answer, the answer itself, or every resource of its list, each completed, in their order; an answer without a list
  of resources is taken for the entity.
\<close>

definition contributes :: "ICFAction \<Rightarrow> js \<Rightarrow> string \<Rightarrow> js list \<Rightarrow> bool" where
  "contributes a cfData g es \<longleftrightarrow>
     (let whole = (\<exists>v. completeResourceEntity cfData g (js_str (aa_guid a)) = Inr v \<and> es = [v])
      in case ca_entityLocation a of
           Some LocationArray \<Rightarrow> list_all2 (\<lambda>k e. array_entity cfData g (aa_guid a) k = Inr e) (obj_keys (js_own cfData)) es
         | Some LocationObject \<Rightarrow> whole
         | _ \<Rightarrow> (case js_field cfData ''resources'' of
               JArr rs \<Rightarrow> list_all2 (\<lambda>resource e. completeResourceEntity resource g (js_field resource ''guid'') = Inr e) rs es
             | v \<Rightarrow> if truthy v then es = [] else whole))"

lemma js_keys_own: "js_keys v = Inr ks \<Longrightarrow> ks = obj_keys (js_own v)"
  by (cases v) auto

lemma endpoint_contributes:
  assumes "endpoint_entities a data totals g = Inr (es, totals')"
  shows "contributes a (js_field data g) g es"
proof -
  let ?cf = "js_field data g"
  have whole: "\<exists>v. completeResourceEntity ?cf g (js_str (aa_guid a)) = Inr v \<and> es = [v]"
    if "res_bind (completeResourceEntity ?cf g (js_str (aa_guid a))) (\<lambda>v. Inr (case v of JArr xs \<Rightarrow> xs | v \<Rightarrow> [v], t)) = Inr (es, t')" for t t'
  proof -
    from that obtain v where v: "completeResourceEntity ?cf g (js_str (aa_guid a)) = Inr v" "es = (case v of JArr xs \<Rightarrow> xs | v \<Rightarrow> [v])"
      by (auto simp: res_bind_Inr_iff)
    moreover have "\<not> is_array v" using complete_falsy[OF v(1)] by (cases v) (auto simp: is_array_def elim: completedE)
    ultimately show ?thesis by (cases v) (auto simp: is_array_def)
  qed
  have resources: "list_all2 (\<lambda>resource e. completeResourceEntity resource g (js_field resource ''guid'') = Inr e) rs es"
    if "res_map (\<lambda>resource. res_bind (js_prop resource ''guid'') (completeResourceEntity resource g)) rs = Inr es" for rs
    using res_map_Inr[OF that] by (rule list_all2_mono) (auto simp: res_bind_Inr_iff dest!: js_prop_field)
  show ?thesis
  proof (cases "ca_entityLocation a = Some LocationArray \<or> ca_entityLocation a = Some LocationObject")
    case True
    then show ?thesis using assms
      by (auto simp: endpoint_entities_def contributes_def Let_def res_bind_Inr_iff[of "js_keys _"] res_bind_Inr_iff[of "res_map _ _"]
          dest!: js_keys_own res_map_Inr whole)
  next
    case False
    then obtain rs where rs: "js_prop ?cf ''resources'' = Inr rs" using assms
      by (auto simp: endpoint_entities_def Let_def res_bind_Inr_iff[of "js_prop _ _"] split: option.splits RequestEntityLocation.splits)
    have field: "js_field ?cf ''resources'' = rs" using js_prop_field[OF rs] by simp
    have other: "contributes a ?cf g es \<longleftrightarrow> (case rs of
               JArr rs \<Rightarrow> list_all2 (\<lambda>resource e. completeResourceEntity resource g (js_field resource ''guid'') = Inr e) rs es
             | v \<Rightarrow> if truthy v then es = [] else \<exists>v. completeResourceEntity ?cf g (js_str (aa_guid a)) = Inr v \<and> es = [v])"
      using False unfolding contributes_def field Let_def by (auto split: option.split RequestEntityLocation.split)
    show ?thesis unfolding other using assms rs False
      by (auto simp: endpoint_entities_def Let_def res_bind_Inr_iff[of "res_map _ _"] intro: resources dest!: whole
          split: js.splits option.splits RequestEntityLocation.splits if_splits)
  qed
qed

lemma all_entities_parts:
  assumes "all_entities a data guids = Inr (es, totals)"
  shows "\<exists>parts. es = concat parts \<and> list_all2 (\<lambda>g. contributes a (js_field data g) g) guids parts"
proof -
  have "\<exists>parts. es = es0 @ concat parts \<and> list_all2 (\<lambda>g. contributes a (js_field data g) g) guids parts"
    if "res_fold (\<lambda>(entities, totals) cfGuid. res_bind (endpoint_entities a data totals cfGuid)
       (\<lambda>(es, totals'). Inr (entities @ es, totals'))) (es0, t0) guids = Inr (es, totals)" for es0 t0
    using that
  proof (induction guids arbitrary: es0 t0)
    case (Cons g guids)
    then obtain ys t where ys: "endpoint_entities a data t0 g = Inr (ys, t)"
      "res_fold (\<lambda>(entities, totals) cfGuid. res_bind (endpoint_entities a data totals cfGuid)
       (\<lambda>(es, totals'). Inr (entities @ es, totals'))) (es0 @ ys, t) guids = Inr (es, totals)"
      by (auto simp: res_bind_Inr_iff)
    from Cons.IH[OF ys(2)] obtain parts where "es = (es0 @ ys) @ concat parts"
      "list_all2 (\<lambda>g. contributes a (js_field data g) g) guids parts" by blast
    with endpoint_contributes[OF ys(1)] show ?case by (intro exI[of _ "ys # parts"]) simp
  qed (auto intro: exI[of _ "[]"])
  from this[of "[]"] assms show ?thesis by (simp add: all_entities_def)
qed

text \<open>
  C9: The answer of several endpoints, when it can be handled at all. There is one check per endpoint, in their order,
  and it reports an error exactly when the endpoint answered with an error object. The entities handed to the
  normalisation are those of the endpoints that answered something without an error, one endpoint after the other,
  with all that each of them contributes and nothing that is not there; each entity, with all resources nested in
  it, carries the guid of an endpoint that answered without an error. So a failing endpoint contributes nothing and never
  keeps the others from contributing.
\<close>

theorem answer_of_endpoints:
  assumes "truthy resData" and "handleMultiEndpoints norm resData a = Inr r"
  shows "\<exists>checks flat parts schemas. mr_errorsCheck r = Some checks
    \<and> map ec_guid checks = obj_keys (js_own resData)
    \<and> (\<forall>c \<in> set checks. ec_error c \<longleftrightarrow> isJetStreamError (js_field resData (ec_guid c)) \<noteq> None)
    \<and> entity_array a = Inr schemas
    \<and> mr_entities r = (if flat = [] then \<lparr>nr_entities = Some [], nr_result = []\<rparr> else norm flat schemas)
    \<and> flat = filter truthy (concat parts)
    \<and> list_all2 (\<lambda>g. contributes a (js_field resData g) g)
        (filter (\<lambda>g. js_field resData g \<noteq> JNull \<and> isJetStreamError (js_field resData g) = None) (obj_keys (js_own resData))) parts
    \<and> (\<forall>e \<in> set flat. \<exists>cfGuid. completed cfGuid e \<and> cfGuid \<in> set (obj_keys (js_own resData))
        \<and> isJetStreamError (js_field resData cfGuid) = None)"
proof -
  from assms obtain checks es totals where checks: "checkForErrors resData a = Inr checks"
    and es: "getEntities norm a resData (the checks) = Inr (es, totals)"
    and r: "mr_entities r = (case es of Some e \<Rightarrow> e | None \<Rightarrow> \<lparr>nr_entities = Some [], nr_result = []\<rparr>)" "mr_errorsCheck r = checks"
    by (auto simp: handleMultiEndpoints_def res_bind_Inr_iff)
  from checkForErrors_Some[OF checks assms(1)] obtain cs where cs: "checks = Some cs" "map ec_guid cs = obj_keys (js_own resData)"
    "\<forall>c \<in> set cs. ec_error c \<longleftrightarrow> isJetStreamError (js_field resData (ec_guid c)) \<noteq> None" by blast
  from es assms(1) obtain all schemas where all: "all_entities a resData (ok_endpoints resData cs (obj_keys (js_own resData))) = Inr (all, totals)"
    and schemas: "entity_array a = Inr schemas"
    and es': "es = (if filter truthy all \<noteq> [] then Some (norm (filter truthy all) schemas) else None)"
    by (auto simp: getEntities_def res_bind_Inr_iff truthy_js_keys cs(1) Let_def)
  have known: "(\<exists>err \<in> set cs. ec_guid err = g \<and> \<not> ec_error err) \<longleftrightarrow> isJetStreamError (js_field resData g) = None"
    if "g \<in> set (obj_keys (js_own resData))" for g
  proof -
    from that obtain c where "c \<in> set cs" "ec_guid c = g" unfolding cs(2)[symmetric] by auto
    with cs(3) show ?thesis by (metis not_None_eq)
  qed
  have ok: "ok_endpoints resData cs (obj_keys (js_own resData)) =
      filter (\<lambda>g. js_field resData g \<noteq> JNull \<and> isJetStreamError (js_field resData g) = None) (obj_keys (js_own resData))"
    unfolding ok_endpoints_def by (rule filter_cong) (simp_all add: known)
  have "\<exists>cfGuid. completed cfGuid e \<and> cfGuid \<in> set (obj_keys (js_own resData)) \<and> isJetStreamError (js_field resData cfGuid) = None"
    if "e \<in> set (filter truthy all)" for e
    using all_entities_completed[OF all, of e] that unfolding ok by auto
  moreover have "mr_entities r = (if filter truthy all = [] then \<lparr>nr_entities = Some [], nr_result = []\<rparr>
      else norm (filter truthy all) schemas)"
    by (simp add: r(1) es')
  moreover from all_entities_parts[OF all] obtain parts where "all = concat parts"
    "list_all2 (\<lambda>g. contributes a (js_field resData g) g)
        (filter (\<lambda>g. js_field resData g \<noteq> JNull \<and> isJetStreamError (js_field resData g) = None) (obj_keys (js_own resData))) parts"
    unfolding ok by blast
  ultimately show ?thesis using cs r(2) schemas by blast
qed

definition plain_request :: "string \<Rightarrow> ICFAction" where
  "plain_request entityKey = ApiAction.extend (list_action entityKey ''all'')
     \<lparr>ca_url = entityKey, ca_actions = [''start'', ''success'', ''failed''],
      ca_entity = Some (ArraySchema (resource_schema entityKey [])), ca_entityLocation = None, ca_initialParams = None,
      ca_flattenPagination = False, ca_skipValidation = False, ca_params = None, ca_includeRelations = None,
      ca_populateMissing = None\<rparr>"

theorem answer_of_endpoints_witness:
  "\<exists>r checks. handleMultiEndpoints (\<lambda>es ss. \<lparr>nr_entities = None, nr_result = []\<rparr>)
      (JObj [(''cf1'', JObj [(''total_results'', JNum 1), (''resources'', JArr [JObj [(''metadata'', JObj [(''guid'', JStr ''a1'')]),
          (''entity'', JObj [(''name'', JStr ''app'')])]])]),
        (''cf2'', JObj [(''error'', JObj [(''status'', JStr ''down''), (''statusCode'', JNum 502)]), (''errorResponse'', JStr ''x'')])])
      (plain_request ''application'') = Inr r
    \<and> mr_errorsCheck r = Some checks \<and> map ec_guid checks = [''cf1'', ''cf2'']
    \<and> (\<forall>c \<in> set checks. ec_guid c = ''cf2'' \<longrightarrow> ec_error c)"
proof -
  let ?n = "\<lambda>(es :: js list) (ss :: schema list). \<lparr>nr_entities = None, nr_result = []\<rparr> :: NormalizedResponse"
  let ?d = "JObj [(''cf1'', JObj [(''total_results'', JNum 1), (''resources'', JArr [JObj [(''metadata'', JObj [(''guid'', JStr ''a1'')]),
          (''entity'', JObj [(''name'', JStr ''app'')])]])]),
        (''cf2'', JObj [(''error'', JObj [(''status'', JStr ''down''), (''statusCode'', JNum 502)]), (''errorResponse'', JStr ''x'')])]"
  have "case handleMultiEndpoints ?n ?d (plain_request ''application'') of Inr _ \<Rightarrow> True | Inl _ \<Rightarrow> False"
    by code_simp
  then obtain r where r: "handleMultiEndpoints ?n ?d (plain_request ''application'') = Inr r"
    by (auto split: sum.splits)
  from answer_of_endpoints[OF _ r] obtain checks where "mr_errorsCheck r = Some checks" "map ec_guid checks = [''cf1'', ''cf2'']"
    "\<forall>c \<in> set checks. ec_error c \<longleftrightarrow> isJetStreamError (js_field ?d (ec_guid c)) \<noteq> None"
    by auto
  moreover have "isJetStreamError (js_field ?d ''cf2'') \<noteq> None" by (simp add: isJetStreamError_def)
  ultimately show ?thesis using r by (intro exI[of _ r] exI[of _ checks]) auto
qed

end
