(* ===== verification/Entity_Relations.thy ===== *)
theory Entity_Relations
  imports Entity_Factory Entity_Reducers Pagination
begin

section \<open>Relations of entities: store/helpers/entity-relations\<close>

text \<open>
  An action that fetches an entity can ask for related entities (\<open>includeRelations\<close>, as \<open>parent-child\<close> keys). The
  tree of relations is built from the schema of the entity, cut down to what the action asks for, and cached; it
  gives the parameters of the request (\<open>listEntityRelations\<close>), and after the answer \<open>validationLoop\<close> walks it
  beside the entities and finds out which relations are missing and have to be fetched on their own.

  The cache holds the tree objects themselves, and \<open>parseEntityTree\<close> changes them: the model returns the changed
  tree and puts it back. The order of \<open>localeCompare\<close> only decides the key of the cache and is a parameter
  (\<open>sort_relations\<close>), as is \<open>denormalize\<close>.
\<close>

subsection \<open>The tree: entity-relations.types.ts, entity-relations.tree.ts\<close>

datatype EntityTreeRelation = Relation
  (er_entity: schema) (er_isArray: bool) (er_paramName: "string option") (er_path: string)
  (er_childRelations: "EntityTreeRelation list")

definition er_entityKey :: "EntityTreeRelation \<Rightarrow> string" where
  "er_entityKey r = (case schema_key (er_entity r) of Some k \<Rightarrow> k | None \<Rightarrow> ''undefined'')"

fun relationKey :: "schema \<Rightarrow> string option" where
  "relationKey (EntitySchema _ _ _ r) = r"
| "relationKey _ = None"

record EntityTree =
  et_rootRelation :: EntityTreeRelation
  et_requiredParamNames :: "string list"
  et_maxDepth :: nat

definition createEntityRelationKey :: "string \<Rightarrow> string \<Rightarrow> string" where
  "createEntityRelationKey parentKey childKey = parentKey @ ''-'' @ childKey"

definition getPaginationKey :: "string \<Rightarrow> string \<Rightarrow> string option \<Rightarrow> string" where
  "getPaginationKey type guid endpointGuid =
     (let key = type @ ''-'' @ guid in if truthy_str endpointGuid then the endpointGuid @ '':'' @ key else key)"

definition createEntityRelationPaginationKey :: "string \<Rightarrow> string option \<Rightarrow> string option \<Rightarrow> string" where
  "createEntityRelationPaginationKey parentSchemaKey parentGuid childSchemaRelation =
     getPaginationKey parentSchemaKey (case parentGuid of Some g \<Rightarrow> g | None \<Rightarrow> ''all'') None
     @ (if truthy_str childSchemaRelation then ''-'' @ the childSchemaRelation else [])"

text \<open>
  \<open>buildEntityTree\<close>: one child relation per schema met in the definition, through plain objects, whose names make
  the path.
\<close>

fun is_array_schema :: "schema \<Rightarrow> bool" where
  "is_array_schema (ArraySchema _) = True"
| "is_array_schema _ = False"

fun first_schema :: "schema \<Rightarrow> schema" where
  "first_schema (ArraySchema s) = s"
| "first_schema s = s"

fun child_schemas :: "schema \<Rightarrow> (string \<times> schema) list" where
  "child_schemas (EntitySchema _ (Some ps) _ _) = ps"
| "child_schemas (EntitySchema _ None _ _) = []"
| "child_schemas (PlainSchema ps) = ps"
| "child_schemas (ArraySchema s) = [(''0'', s)]"

lemma size_child_schemas: "(k, d) \<in> set (child_schemas (first_schema s)) \<Longrightarrow> size d < size s"
proof -
  have *: "(k :: string, d :: schema) \<in> set ps \<Longrightarrow> size d < Suc (size_list (size_prod (\<lambda>_. 0) size) ps)" for k d ps
    by (drule size_list_estimation'[OF _ order.refl, of _ _ "size_prod (\<lambda>_. 0) size"]) simp
  show "(k, d) \<in> set (child_schemas (first_schema s)) \<Longrightarrow> size d < size s"
    by (cases s rule: first_schema.cases; cases "first_schema s" rule: child_schemas.cases) (auto dest: *)
qed

function build_relations :: "string \<Rightarrow> schema \<Rightarrow> EntityTreeRelation list" where
  "build_relations path sch =
     concat (map (\<lambda>(key, value).
       let newPath = (if path \<noteq> [] then path @ ''.'' @ key else key); entity = first_schema value in
       if schema_key entity \<noteq> None
       then [Relation entity (is_array_schema value) (Some key) newPath (build_relations '''' value)]
       else build_relations newPath value)
     (child_schemas (first_schema sch)))"
  by pat_completeness auto
termination by (relation "measure (\<lambda>(_, s). size s)") (auto dest: size_child_schemas)

declare build_relations.simps [simp del]

definition createEntityTree :: "schema \<Rightarrow> bool \<Rightarrow> EntityTree" where
  "createEntityTree entity isArray =
     \<lparr>et_rootRelation = Relation entity isArray None '''' (build_relations '''' entity),
      et_requiredParamNames = [], et_maxDepth = 0\<rparr>"

text \<open>
  \<open>parseEntityTree\<close>: the children asked for stay, the name of each is recorded once, and \<open>maxDepth\<close> counts every
  relation that keeps a child.
\<close>

definition relation_key :: "EntityTreeRelation \<Rightarrow> EntityTreeRelation \<Rightarrow> string" where
  "relation_key parent relation =
     createEntityRelationKey (er_entityKey parent)
       (if truthy_str (relationKey (er_entity relation)) then the (relationKey (er_entity relation)) else er_entityKey relation)"

definition add_name :: "string \<Rightarrow> string list \<Rightarrow> string list" where
  "add_name n ns = (if n \<in> set ns then ns else ns @ [n])"

function parseEntityTree ::
  "string list \<Rightarrow> EntityTreeRelation \<Rightarrow> string list \<times> nat \<Rightarrow> EntityTreeRelation list \<times> string list \<times> nat" where
  "parseEntityTree includeRelations entityRelation info =
     (case fold (\<lambda>relation (newChildRelations, names, depth).
          if relation_key entityRelation relation \<in> set includeRelations
          then (case parseEntityTree includeRelations relation (add_name (the (er_paramName relation)) names, depth) of
              (children, names', depth') \<Rightarrow>
                (newChildRelations @ [Relation (er_entity relation) (er_isArray relation) (er_paramName relation)
                   (er_path relation) children], names', depth'))
          else (newChildRelations, names, depth))
        (er_childRelations entityRelation) ([], info) of
      (newChildRelations, names, depth) \<Rightarrow>
        (newChildRelations, names, if newChildRelations \<noteq> [] then Suc depth else depth))"
  by pat_completeness auto
termination
proof (relation "measure (\<lambda>(_, r, _). size r)", goal_cases)
  case (2 includeRelations entityRelation info relation)
  then have "size relation \<le> size_list size (er_childRelations entityRelation)"
    by (intro size_list_estimation') auto
  then show ?case by (cases entityRelation) simp
qed simp

declare parseEntityTree.simps [simp del]

text \<open>
  The parent action: the schema it fetches (in an array or not) and the relations it asks for. The cached tree keeps
  what an earlier parse left: the cut children, the names, the count.
\<close>

record EntityInlineParentAction =
  ip_entity :: schema
  ip_includeRelations :: "string list"
  ip_populateMissing :: bool

definition generateCacheKey :: "(string list \<Rightarrow> string list) \<Rightarrow> string \<Rightarrow> EntityInlineParentAction \<Rightarrow> string" where
  "generateCacheKey sort_relations entityKey action =
     entityKey @ ''+'' @ join_with '','' (sort_relations (ip_includeRelations action))"

definition fetchEntityTree ::
  "(string list \<Rightarrow> string list) \<Rightarrow> (string, EntityTree) obj \<Rightarrow> EntityInlineParentAction \<Rightarrow> bool \<Rightarrow>
   EntityTree \<times> (string, EntityTree) obj" where
  "fetchEntityTree sort_relations entityTreeCache action fromCache =
     (let entity = first_schema (ip_entity action);
          cacheKey = generateCacheKey sort_relations
            (case schema_key entity of Some k \<Rightarrow> k | None \<Rightarrow> ''undefined'') action;
          entityTree = (case obj_get entityTreeCache cacheKey of
              Some cachedTree \<Rightarrow> if fromCache then cachedTree else createEntityTree entity (is_array_schema (ip_entity action))
            | None \<Rightarrow> createEntityTree entity (is_array_schema (ip_entity action)));
          root = et_rootRelation entityTree
      in case parseEntityTree (ip_includeRelations action) root (et_requiredParamNames entityTree, et_maxDepth entityTree) of
           (childRelations, names, depth) \<Rightarrow>
             let tree = \<lparr>et_rootRelation = Relation (er_entity root) (er_isArray root) (er_paramName root) (er_path root) childRelations,
                         et_requiredParamNames = names, et_maxDepth = depth\<rparr>
             in (tree, obj_set cacheKey tree entityTreeCache))"

definition listEntityRelations ::
  "(string list \<Rightarrow> string list) \<Rightarrow> (string, EntityTree) obj \<Rightarrow> EntityInlineParentAction \<Rightarrow> bool \<Rightarrow>
   (nat \<times> string list) \<times> (string, EntityTree) obj" where
  "listEntityRelations sort_relations entityTreeCache action fromCache =
     (case fetchEntityTree sort_relations entityTreeCache action fromCache of
        (tree, cache) \<Rightarrow> ((et_maxDepth tree, et_requiredParamNames tree), cache))"

subsection \<open>What a parse leaves\<close>

text \<open>The relations an action asks for, their names, and how many relations keep a child: by recursion on the tree.\<close>

definition kept :: "string list \<Rightarrow> EntityTreeRelation \<Rightarrow> EntityTreeRelation list" where
  "kept inc r = filter (\<lambda>c. relation_key r c \<in> set inc) (er_childRelations r)"

lemma size_kept: "c \<in> set (kept inc r) \<Longrightarrow> size c < size r"
proof -
  assume "c \<in> set (kept inc r)"
  then have "size c \<le> size_list size (er_childRelations r)"
    by (intro size_list_estimation') (auto simp: kept_def)
  then show ?thesis by (cases r) simp
qed

function prune :: "string list \<Rightarrow> EntityTreeRelation \<Rightarrow> EntityTreeRelation list" where
  "prune inc r = map (\<lambda>c. Relation (er_entity c) (er_isArray c) (er_paramName c) (er_path c) (prune inc c)) (kept inc r)"
  by pat_completeness auto
termination by (relation "measure (\<lambda>(_, r). size r)") (auto dest: size_kept)

function kept_names :: "string list \<Rightarrow> EntityTreeRelation \<Rightarrow> string list" where
  "kept_names inc r = concat (map (\<lambda>c. the (er_paramName c) # kept_names inc c) (kept inc r))"
  by pat_completeness auto
termination by (relation "measure (\<lambda>(_, r). size r)") (auto dest: size_kept)

function branchings :: "string list \<Rightarrow> EntityTreeRelation \<Rightarrow> nat" where
  "branchings inc r = (if kept inc r = [] then 0 else 1) + sum_list (map (branchings inc) (kept inc r))"
  by pat_completeness auto
termination by (relation "measure (\<lambda>(_, r). size r)") (auto dest: size_kept)

declare prune.simps [simp del] kept_names.simps [simp del] branchings.simps [simp del]

lemma parse_filter:
  "parseEntityTree inc r info =
     (case fold (\<lambda>c (new, names, depth).
          case parseEntityTree inc c (add_name (the (er_paramName c)) names, depth) of
            (children, names', depth') \<Rightarrow>
              (new @ [Relation (er_entity c) (er_isArray c) (er_paramName c) (er_path c) children], names', depth'))
        (kept inc r) ([], info) of
      (new, names, depth) \<Rightarrow> (new, names, if new \<noteq> [] then Suc depth else depth))"
proof -
  let ?add = "\<lambda>c (new, names, depth).
      case parseEntityTree inc c (add_name (the (er_paramName c)) names, depth) of
        (children, names', depth') \<Rightarrow>
          (new @ [Relation (er_entity c) (er_isArray c) (er_paramName c) (er_path c) children], names', depth')"
  have "fold (\<lambda>c (new, names, depth).
      if relation_key r c \<in> set inc then ?add c (new, names, depth) else (new, names, depth)) cs st =
      fold ?add (filter (\<lambda>c. relation_key r c \<in> set inc) cs) st" for cs st
    by (induction cs arbitrary: st) (auto split: prod.splits)
  then show ?thesis unfolding kept_def
    by (subst parseEntityTree.simps) (simp only: prod.case)
qed

lemma parseEntityTree_eq:
  "parseEntityTree inc r (names, depth) =
     (prune inc r, fold add_name (kept_names inc r) names, depth + branchings inc r)"
proof (induction inc r arbitrary: names depth rule: prune.induct)
  case (1 inc r)
  let ?step = "\<lambda>c (new, names, depth).
      case parseEntityTree inc c (add_name (the (er_paramName c)) names, depth) of
        (children, names', depth') \<Rightarrow>
          (new @ [Relation (er_entity c) (er_isArray c) (er_paramName c) (er_path c) children], names', depth')"
  have loop: "fold ?step cs (new, names, depth) =
      (new @ map (\<lambda>c. Relation (er_entity c) (er_isArray c) (er_paramName c) (er_path c) (prune inc c)) cs,
       fold add_name (concat (map (\<lambda>c. the (er_paramName c) # kept_names inc c) cs)) names,
       depth + sum_list (map (branchings inc) cs))"
    if "set cs \<subseteq> set (kept inc r)" for cs new names depth
    using that
  proof (induction cs arbitrary: new names depth)
    case (Cons c cs)
    then have "c \<in> set (kept inc r)" by simp
    from 1[OF this] Cons show ?case by simp
  qed simp
  show ?case
    unfolding parse_filter[of inc r] loop[OF order.refl]
    by (simp add: prune.simps[of inc r] kept_names.simps[of inc r] branchings.simps[of inc r])
qed

text \<open>A tree that was cut is cut to itself.\<close>

lemma relation_key_cut:
  "relation_key (Relation e a n p cs) (Relation e' a' n' p' cs') = relation_key (Relation e x y z w) (Relation e' x' y' z' w')"
  by (simp add: relation_key_def er_entityKey_def)

lemma kept_cut: "kept inc (Relation (er_entity r) a n p (prune inc r)) = prune inc r"
proof -
  have "relation_key (Relation (er_entity r) a n p cs) (Relation (er_entity c) a' n' p' cs') = relation_key r c" for cs a' n' p' cs' c
    by (simp add: relation_key_def er_entityKey_def)
  then show ?thesis by (simp add: kept_def prune.simps[of inc r] filter_map comp_def)
qed

lemma cut_again:
  "prune inc (Relation (er_entity r) a n p (prune inc r)) = prune inc r"
  "kept_names inc (Relation (er_entity r) a n p (prune inc r)) = kept_names inc r"
  "branchings inc (Relation (er_entity r) a n p (prune inc r)) = branchings inc r"
proof (induction inc r arbitrary: a n p rule: prune.induct)
  case (1 inc r)
  {
    case 1
    show ?case unfolding prune.simps[of inc "Relation _ _ _ _ _"] kept_cut
      by (simp add: prune.simps[of inc r] "1.IH"(1) comp_def cong: map_cong)
  next
    case 2
    show ?case unfolding kept_names.simps[of inc "Relation _ _ _ _ _"] kept_cut
      by (simp add: prune.simps[of inc r] kept_names.simps[of inc r] "1.IH"(2) comp_def cong: map_cong)
  next
    case 3
    show ?case unfolding branchings.simps[of inc "Relation _ _ _ _ _"] kept_cut
      by (simp add: prune.simps[of inc r] branchings.simps[of inc r] "1.IH"(3) comp_def cong: map_cong)
  }
qed

lemma fold_add_name_known: "set ks \<subseteq> set ns \<Longrightarrow> fold add_name ks ns = ns"
  by (induction ks) (auto simp: add_name_def)

lemma set_fold_add_name: "set (fold add_name ks ns) = set ns \<union> set ks"
  by (induction ks arbitrary: ns) (auto simp: add_name_def)

lemma distinct_fold_add_name: "distinct ns \<Longrightarrow> distinct (fold add_name ks ns)"
  by (induction ks arbitrary: ns) (auto simp: add_name_def)

text \<open>The relations of the schema an action fetches, before they are cut.\<close>

definition schema_relations :: "EntityInlineParentAction \<Rightarrow> EntityTreeRelation" where
  "schema_relations action =
     et_rootRelation (createEntityTree (first_schema (ip_entity action)) (is_array_schema (ip_entity action)))"

text \<open>
  The parameters of a request with relations. The names sent as \<open>include-relations\<close> are those of exactly the
  relations that are reached from the fetched schema through relations the action asks for, each once, however often
  the same request was made before. The depth is not a depth but the number of relations with a child, and it grows
  by that number with every further request that finds the tree in the cache.
\<close>

theorem relations_of_repeated_requests:
  "\<exists>names cache. ((\<lambda>(_, cache). listEntityRelations sort_relations cache action True) ^^ n)
      (listEntityRelations sort_relations [] action True) =
      ((Suc n * branchings (ip_includeRelations action) (schema_relations action), names), cache)
    \<and> distinct names \<and> set names = set (kept_names (ip_includeRelations action) (schema_relations action))"
proof -
  define inc where "inc = ip_includeRelations action"
  define r where "r = schema_relations action"
  define cacheKey where "cacheKey = generateCacheKey sort_relations
    (case schema_key (first_schema (ip_entity action)) of Some k \<Rightarrow> k | None \<Rightarrow> ''undefined'') action"
  define names where "names = fold add_name (kept_names inc r) []"
  define tree where "tree d = \<lparr>et_rootRelation = Relation (er_entity r) (er_isArray r) (er_paramName r) (er_path r) (prune inc r),
      et_requiredParamNames = names, et_maxDepth = d\<rparr>" for d
  have root: "r = et_rootRelation (createEntityTree (first_schema (ip_entity action)) (is_array_schema (ip_entity action)))"
    by (simp add: r_def schema_relations_def)
  have first: "listEntityRelations sort_relations [] action True = ((branchings inc r, names), [(cacheKey, tree (branchings inc r))])"
    by (simp add: listEntityRelations_def fetchEntityTree_def parseEntityTree_eq root[symmetric] createEntityTree_def[THEN arg_cong[of _ _ et_requiredParamNames], simplified]
        createEntityTree_def[THEN arg_cong[of _ _ et_maxDepth], simplified] inc_def[symmetric] names_def tree_def cacheKey_def Let_def)
  have known: "fold add_name (kept_names inc r) names = names"
    by (rule fold_add_name_known) (simp add: names_def set_fold_add_name)
  have again: "listEntityRelations sort_relations [(cacheKey, tree d)] action True =
      ((d + branchings inc r, names), [(cacheKey, tree (d + branchings inc r))])" for d
    by (simp add: listEntityRelations_def fetchEntityTree_def cacheKey_def[symmetric] tree_def parseEntityTree_eq
        inc_def[symmetric] cut_again known Let_def)
  have "((\<lambda>(_, cache). listEntityRelations sort_relations cache action True) ^^ n)
      (listEntityRelations sort_relations [] action True) =
      ((Suc n * branchings inc r, names), [(cacheKey, tree (Suc n * branchings inc r))])"
    by (induction n) (simp_all add: first again add.commute)
  moreover have "distinct names" "set names = set (kept_names inc r)"
    by (simp_all add: names_def set_fold_add_name distinct_fold_add_name)
  ultimately show ?thesis unfolding inc_def r_def by blast
qed

subsection \<open>Actions for missing relations: relation.actions.ts, entity-relations.ts\<close>

text \<open>
  A \<open>FetchRelationSingleAction\<close> has the guid of the child, a \<open>FetchRelationPaginatedAction\<close> a pagination key. The
  result of a validation dispatches such an action, prepares its list with initial parameters, or only connects an
  entity that is there with its parent (\<open>abortDispatch\<close>).
\<close>

record FetchRelationAction =
  fr_endpointGuid :: js
  fr_parentGuid :: js
  fr_parent :: EntityTreeRelation
  fr_child :: EntityTreeRelation
  fr_includeRelations :: "string list"
  fr_populateMissing :: bool
  fr_url :: string
  fr_guid :: "string option"
  fr_paginationKey :: "string option"

datatype ValidateEntityResult =
    DispatchFetch FetchRelationAction
  | DispatchInitialParams string string "(string \<times> int) list"
  | ConnectWithParent FetchRelationAction

record ValidateConfig =
  vc_allEntities :: "(string, js) obj"
  vc_newEntities :: "(string, js) obj option"
  vc_allPagination :: PaginationState
  vc_includeRelations :: "string list"
  vc_populateMissing :: bool

definition relation_url :: "string \<Rightarrow> string" where
  "relation_url url = (if take 4 url = ''/v2/'' then drop 4 url else url)"

definition after_last_slash :: "string \<Rightarrow> string" where
  "after_last_slash s = rev (takeWhile (\<lambda>c. c \<noteq> CHR ''/'') (rev s))"

definition createSingleAction ::
  "ValidateConfig \<Rightarrow> js \<Rightarrow> EntityTreeRelation \<Rightarrow> js \<Rightarrow> EntityTreeRelation \<Rightarrow> js \<Rightarrow> FetchRelationAction result" where
  "createSingleAction config cfGuid parentRelation parentEntity childRelation childEntitiesUrl =
     res_bind (metadata_guid parentEntity) (\<lambda>parentGuid.
       case childEntitiesUrl of
         JStr url \<Rightarrow> Inr \<lparr>fr_endpointGuid = cfGuid, fr_parentGuid = parentGuid, fr_parent = parentRelation,
             fr_child = childRelation, fr_includeRelations = vc_includeRelations config,
             fr_populateMissing = vc_populateMissing config, fr_url = relation_url url,
             fr_guid = Some (after_last_slash url), fr_paginationKey = None\<rparr>
       | _ \<Rightarrow> Inl TypeError)"

definition createPaginationAction ::
  "ValidateConfig \<Rightarrow> js \<Rightarrow> EntityTreeRelation \<Rightarrow> js \<Rightarrow> EntityTreeRelation \<Rightarrow> js \<Rightarrow> FetchRelationAction result" where
  "createPaginationAction config cfGuid parentRelation parentEntity childRelation childEntitiesUrl =
     res_bind (js_prop parentEntity ''metadata'') (\<lambda>m.
     res_bind (if truthy m then js_prop m ''guid'' else entity_field parentEntity ''guid'') (\<lambda>parentGuid.
       case childEntitiesUrl of
         JStr url \<Rightarrow> Inr \<lparr>fr_endpointGuid = cfGuid, fr_parentGuid = parentGuid, fr_parent = parentRelation,
             fr_child = childRelation, fr_includeRelations = vc_includeRelations config,
             fr_populateMissing = vc_populateMissing config, fr_url = relation_url url, fr_guid = None,
             fr_paginationKey = Some (createEntityRelationPaginationKey (er_entityKey parentRelation)
               (if parentGuid = JUndef then None else Some (js_key parentGuid)) (relationKey (er_entity childRelation)))\<rparr>
       | _ \<Rightarrow> Inl TypeError))"

definition relation_initialParams :: "(string \<times> int) list" where
  "relation_initialParams = [(''results-per-page'', 100), (''page'', 1)]"

definition createActionsForMissingEntities ::
  "ValidateConfig \<Rightarrow> js \<Rightarrow> EntityTreeRelation \<Rightarrow> js \<Rightarrow> EntityTreeRelation \<Rightarrow> js \<Rightarrow> ValidateEntityResult list result" where
  "createActionsForMissingEntities config cfGuid parentRelation parentEntity childRelation childEntitiesUrl =
     (if \<not> truthy childEntitiesUrl then Inr []
      else if er_isArray childRelation
      then res_bind (createPaginationAction config cfGuid parentRelation parentEntity childRelation childEntitiesUrl) (\<lambda>a.
        let key = the (fr_paginationKey a) @ ''-relation'' in
        Inr [DispatchInitialParams (er_entityKey childRelation) key relation_initialParams,
             DispatchFetch (a\<lparr>fr_paginationKey := Some key\<rparr>)])
      else res_bind (createSingleAction config cfGuid parentRelation parentEntity childRelation childEntitiesUrl) (\<lambda>a.
        Inr [DispatchFetch a]))"

definition no_cf_message :: "EntityTreeRelation \<Rightarrow> js \<Rightarrow> EntityTreeRelation \<Rightarrow> string" where
  "no_cf_message parentRelation guid childRelation =
     ''No CF Guid provided when validating'' @ [char_of (10 :: nat)] @ ''     '' @ er_entityKey parentRelation
     @ '' '' @ js_key guid @ [char_of (39 :: nat)] @ ''s '' @ er_entityKey childRelation"

definition handleRelation ::
  "ValidateConfig \<Rightarrow> js \<Rightarrow> EntityTreeRelation \<Rightarrow> js \<Rightarrow> EntityTreeRelation \<Rightarrow> js \<Rightarrow> js \<Rightarrow> ValidateEntityResult list result" where
  "handleRelation config cfGuid parentRelation parentEntity childRelation childEntities childEntitiesUrl =
     (if \<not> truthy cfGuid
      then res_bind (metadata_guid parentEntity) (\<lambda>g. Inl (ThrownError (no_cf_message parentRelation g childRelation)))
      else if truthy childEntities
      then if er_isArray childRelation then Inr []
        else res_bind (createSingleAction config cfGuid parentRelation parentEntity childRelation childEntitiesUrl) (\<lambda>a.
          Inr [ConnectWithParent a])
      else if vc_populateMissing config
      then createActionsForMissingEntities config cfGuid parentRelation parentEntity childRelation childEntitiesUrl
      else Inr [])"

subsection \<open>validationLoop\<close>

definition childEntitiesAsGuids :: "js list \<Rightarrow> js list" where
  "childEntitiesAsGuids = map (\<lambda>entity.
     if truthy (pathGet ''metadata.guid'' entity) then pathGet ''metadata.guid'' entity else entity)"

text \<open>
  The guids of the children the parent does not hold: of a list the current page of the pagination section of the
  parent (looked up without the key of the relation), of a single child the \<open>_guid\<close> beside its path.
\<close>

definition known_guids :: "ValidateConfig \<Rightarrow> EntityTreeRelation \<Rightarrow> js \<Rightarrow> EntityTreeRelation \<Rightarrow> js list option result" where
  "known_guids config parentRelation entity childRelation =
     (if er_isArray childRelation
      then res_bind (metadata_guid entity) (\<lambda>g.
        let key = createEntityRelationPaginationKey (er_entityKey parentRelation)
              (if g = JUndef then None else Some (js_key g)) None;
            section = Option.bind (obj_get (vc_allPagination config) (er_entityKey childRelation)) (\<lambda>t. obj_get t key)
        in Inr (Option.bind section (\<lambda>s. map_option (map JStr) (Option.bind (obj_get (pe_ids s) (pe_currentPage s)) id))))
      else Inr (Some [pathGet (er_path childRelation @ ''_guid'') entity]))"

definition find_entity :: "ValidateConfig \<Rightarrow> EntityTreeRelation \<Rightarrow> js \<Rightarrow> js" where
  "find_entity config childRelation guid =
     (let newEntities = (case vc_newEntities config of Some es \<Rightarrow> js_at es (er_entityKey childRelation) | None \<Rightarrow> JUndef) in
      if truthy (js_field newEntities (js_key guid)) then js_field newEntities (js_key guid)
      else js_field (js_at (vc_allEntities config) (er_entityKey childRelation)) (js_key guid))"

definition find_children :: "ValidateConfig \<Rightarrow> EntityTreeRelation \<Rightarrow> js \<Rightarrow> EntityTreeRelation \<Rightarrow> js result" where
  "find_children config parentRelation entity childRelation =
     res_bind (known_guids config parentRelation entity childRelation) (\<lambda>known.
       Inr (case known of
              None \<Rightarrow> JUndef
            | Some cs \<Rightarrow>
                let found = map (find_entity config childRelation) (childEntitiesAsGuids cs) in
                if list_all truthy found then JArr found else JNull))"

definition cf_of :: "js \<Rightarrow> js \<Rightarrow> js result" where
  "cf_of cfGuid entity = (if truthy cfGuid then Inr cfGuid else entity_field entity ''cfGuid'')"

text \<open>One entity and one relation: the children that are there, and what has to be done for them.\<close>

definition validate_child ::
  "ValidateConfig \<Rightarrow> js \<Rightarrow> EntityTreeRelation \<Rightarrow> EntityTreeRelation \<Rightarrow> js \<Rightarrow> (js \<times> ValidateEntityResult list) result" where
  "validate_child config cfGuid parentRelation childRelation entity =
     (let inline = pathGet (er_path childRelation) entity in
      if truthy inline then Inr (if er_isArray childRelation then inline else JArr [inline], [])
      else res_bind (find_children config parentRelation entity childRelation) (\<lambda>childEntities.
        res_bind (cf_of cfGuid entity) (\<lambda>cf.
        res_bind (handleRelation config cf parentRelation entity childRelation childEntities
            (pathGet (er_path childRelation @ ''_url'') entity)) (\<lambda>results.
          Inr (childEntities, results)))))"

lemma size_er_child: "c \<in> set (er_childRelations r) \<Longrightarrow> size c < size r"
  by (cases r) (auto dest: size_list_estimation'[where f = size])

function validationLoop ::
  "ValidateConfig \<Rightarrow> js \<Rightarrow> js \<Rightarrow> EntityTreeRelation \<Rightarrow> ValidateEntityResult list result" where
  "validationLoop config cfGuid entities parentRelation =
     (if \<not> truthy entities then Inr []
      else res_fold (\<lambda>results childRelation.
        res_bind (js_array entities) (\<lambda>es.
          res_fold (\<lambda>results entity.
            res_bind (validate_child config cfGuid parentRelation childRelation entity) (\<lambda>(childEntities, new).
              if truthy childEntities \<and> er_childRelations childRelation \<noteq> []
              then res_bind (cf_of cfGuid entity) (\<lambda>cf.
                res_bind (validationLoop config cf childEntities childRelation) (\<lambda>below.
                  Inr (results @ new @ below)))
              else Inr (results @ new)))
          results es))
        [] (er_childRelations parentRelation))"
  by pat_completeness auto
termination by (relation "measure (\<lambda>(_, _, _, r). size r)") (auto dest: size_er_child)

declare validationLoop.simps [simp del]

subsection \<open>What a validation asks for\<close>

text \<open>A relation of the tree and one of its children, anywhere below a root.\<close>

inductive below_root :: "EntityTreeRelation \<Rightarrow> EntityTreeRelation \<Rightarrow> bool" where
  root: "below_root r r"
| step: "below_root r p \<Longrightarrow> c \<in> set (er_childRelations p) \<Longrightarrow> below_root r c"

declare root [simp]

lemma below_root_child: "below_root c x \<Longrightarrow> c \<in> set (er_childRelations r) \<Longrightarrow> below_root r x"
proof (induction rule: below_root.induct)
  case (root c)
  then show ?case using step[OF below_root.root] by blast
next
  case (step c p d)
  then show ?case using below_root.step by blast
qed

fun asked_of :: "ValidateConfig \<Rightarrow> EntityTreeRelation \<Rightarrow> ValidateEntityResult \<Rightarrow> bool" where
  "asked_of config r (DispatchFetch a) \<longleftrightarrow> vc_populateMissing config \<and> truthy (fr_endpointGuid a)
     \<and> below_root r (fr_parent a) \<and> fr_child a \<in> set (er_childRelations (fr_parent a))"
| "asked_of config r (ConnectWithParent a) \<longleftrightarrow> truthy (fr_endpointGuid a)
     \<and> below_root r (fr_parent a) \<and> fr_child a \<in> set (er_childRelations (fr_parent a))"
| "asked_of config r (DispatchInitialParams entityKey key ps) \<longleftrightarrow> vc_populateMissing config
     \<and> (\<exists>c. below_root r c \<and> er_entityKey c = entityKey)"

lemma asked_of_mono: "asked_of config c x \<Longrightarrow> c \<in> set (er_childRelations r) \<Longrightarrow> asked_of config r x"
  by (cases x) (auto intro: below_root_child[of c])

lemma createAction_fields:
  "createSingleAction config cf p e c u = Inr a \<Longrightarrow> fr_endpointGuid a = cf \<and> fr_parent a = p \<and> fr_child a = c"
  "createPaginationAction config cf p e c u = Inr a \<Longrightarrow> fr_endpointGuid a = cf \<and> fr_parent a = p \<and> fr_child a = c"
  by (cases u; auto simp: createSingleAction_def createPaginationAction_def res_bind_Inr_iff)+

lemma asked_of_params:
  "vc_populateMissing config \<Longrightarrow> c \<in> set (er_childRelations p) \<Longrightarrow>
   asked_of config p (DispatchInitialParams (er_entityKey c) k ps)"
  using step[OF root[of p], of c] by auto

lemma missing_asked:
  assumes run: "createActionsForMissingEntities config cf p e c u = Inr rs" and c: "c \<in> set (er_childRelations p)"
    and cf: "truthy cf" "vc_populateMissing config" and x: "x \<in> set rs"
  shows "asked_of config p x"
proof (cases "truthy u \<and> er_isArray c")
  case True
  with run obtain a key where a: "createPaginationAction config cf p e c u = Inr a"
    and rs: "rs = [DispatchInitialParams (er_entityKey c) key relation_initialParams, DispatchFetch (a\<lparr>fr_paginationKey := Some key\<rparr>)]"
    by (auto simp: createActionsForMissingEntities_def res_bind_Inr_iff Let_def)
  from x rs consider "x = DispatchInitialParams (er_entityKey c) key relation_initialParams"
    | "x = DispatchFetch (a\<lparr>fr_paginationKey := Some key\<rparr>)" by auto
  then show ?thesis
  proof cases
    case 1
    show ?thesis unfolding 1 by (rule asked_of_params[OF cf(2) c])
  next
    case 2
    then show ?thesis using createAction_fields(2)[OF a] cf c by simp
  qed
next
  case False
  then show ?thesis
    using run x cf c by (auto simp: createActionsForMissingEntities_def res_bind_Inr_iff dest!: createAction_fields split: if_splits)
qed

lemma handleRelation_asked:
  assumes run: "handleRelation config cf p e c found u = Inr rs" and c: "c \<in> set (er_childRelations p)" and x: "x \<in> set rs"
  shows "asked_of config p x"
proof -
  have cf: "truthy cf" using run by (auto simp: handleRelation_def res_bind_def split: if_splits sum.splits)
  show ?thesis
  proof (cases "truthy found")
    case True
    then show ?thesis using run c x cf
      by (auto simp: handleRelation_def res_bind_Inr_iff dest!: createAction_fields split: if_splits)
  next
    case False
    then show ?thesis using run c x cf missing_asked[of config cf p e c u rs]
      by (auto simp: handleRelation_def split: if_splits)
  qed
qed

lemma validationLoop_asked:
  "validationLoop config cf es r = Inr rs \<Longrightarrow> x \<in> set rs \<Longrightarrow> asked_of config r x"
proof (induction config cf es r arbitrary: rs x rule: validationLoop.induct)
  case (1 config cf entities r)
  show ?case
  proof (cases "truthy entities")
    case True
    let ?inner = "\<lambda>childRelation results entity.
        res_bind (validate_child config cf r childRelation entity) (\<lambda>(childEntities, new).
          if truthy childEntities \<and> er_childRelations childRelation \<noteq> []
          then res_bind (cf_of cf entity) (\<lambda>cf.
            res_bind (validationLoop config cf childEntities childRelation) (\<lambda>below. Inr (results @ new @ below)))
          else Inr (results @ new))"
    let ?P = "\<lambda>rs. \<forall>x \<in> set rs. asked_of config r x"
    have run: "res_fold (\<lambda>results childRelation. res_bind (js_array entities) (\<lambda>es. res_fold (?inner childRelation) results es))
        [] (er_childRelations r) = Inr rs"
      using 1(2) True by (simp add: validationLoop.simps[of config cf entities r])
    have inner: "?P rs'"
      if c: "c \<in> set (er_childRelations r)" and es: "js_array entities = Inr es" "e \<in> set es"
        and P: "?P results" and step: "?inner c results e = Inr rs'" for c es e results rs'
    proof -
      from step obtain found new where v: "validate_child config cf r c e = Inr (found, new)" by (auto simp: res_bind_Inr_iff)
      have new: "asked_of config r x" if "x \<in> set new" for x
        using v that handleRelation_asked[OF _ c]
        by (auto simp: validate_child_def Let_def res_bind_Inr_iff split: if_splits)
      show ?thesis
      proof (cases "truthy found \<and> er_childRelations c \<noteq> []")
        case True
        with step v obtain cf' below where b: "cf_of cf e = Inr cf'" "validationLoop config cf' found c = Inr below"
          "rs' = results @ new @ below" by (auto simp: res_bind_Inr_iff)
        have "asked_of config r x" if "x \<in> set below" for x
          using 1(1)[OF _ c es v refl True b(1) b(2) that] asked_of_mono[OF _ c] \<open>truthy entities\<close> by blast
        then show ?thesis using P new b(3) by auto
      next
        case False
        then show ?thesis using step v P new by (auto simp: res_bind_Inr_iff)
      qed
    qed
    have "?P rs"
    proof (rule res_fold_inv[where P = ?P, OF _ _ run])
      fix results c rs'
      assume c: "c \<in> set (er_childRelations r)" and P: "?P results"
        and step: "res_bind (js_array entities) (\<lambda>es. res_fold (?inner c) results es) = Inr rs'"
      then obtain es where es: "js_array entities = Inr es" "res_fold (?inner c) results es = Inr rs'"
        by (auto simp: res_bind_Inr_iff)
      show "?P rs'"
        by (rule res_fold_inv[where P = ?P, OF _ P es(2)]) (use inner[OF c es(1)] in blast)
    qed simp
    then show ?thesis using 1(3) by blast
  qed (use 1(2,3) in \<open>simp add: validationLoop.simps[of config cf entities r]\<close>)
qed

text \<open>The relations below a cut tree are the ones asked for.\<close>

definition cut_tree :: "string list \<Rightarrow> EntityTreeRelation \<Rightarrow> EntityTreeRelation" where
  "cut_tree inc r = Relation (er_entity r) (er_isArray r) (er_paramName r) (er_path r) (prune inc r)"

lemma children_cut_tree: "er_childRelations (cut_tree inc r) = map (cut_tree inc) (kept inc r)"
  by (simp add: cut_tree_def prune.simps[of inc r])

lemma below_cut_tree: "below_root p0 p \<Longrightarrow> p0 = cut_tree inc r \<Longrightarrow> \<exists>q. p = cut_tree inc q"
proof (induction arbitrary: r rule: below_root.induct)
  case (step p0 p c)
  from step.IH[OF step.prems] obtain q where "p = cut_tree inc q" by blast
  with step.hyps show ?case by (auto simp: children_cut_tree)
qed blast

lemma fetched_tree_relations:
  assumes "below_root (et_rootRelation (fst (fetchEntityTree sort_relations cache action fromCache))) p"
    and "c \<in> set (er_childRelations p)"
  shows "relation_key p c \<in> set (ip_includeRelations action)"
proof -
  obtain r where "et_rootRelation (fst (fetchEntityTree sort_relations cache action fromCache)) = cut_tree (ip_includeRelations action) r"
    by (simp add: fetchEntityTree_def Let_def cut_tree_def parseEntityTree_eq split: prod.splits)
  from below_cut_tree[OF assms(1) this] obtain q where p: "p = cut_tree (ip_includeRelations action) q" by blast
  with assms(2) obtain d where d: "d \<in> set (kept (ip_includeRelations action) q)" "c = cut_tree (ip_includeRelations action) d"
    by (auto simp: children_cut_tree)
  then have "relation_key p c = relation_key q d"
    by (simp add: p cut_tree_def relation_key_def er_entityKey_def)
  then show ?thesis using d by (simp add: kept_def)
qed

text \<open>
  C21: Validating an answer never asks for more than the action does. Whatever the entities hold, and whatever trees of
  relations earlier requests and validations left in the cache, under the key of this action or any other, every request
  the validation dispatches is for a relation of \<open>includeRelations\<close>, is sent only when missing relations are to be
  populated, and goes to a known endpoint; every entity it connects with a parent is of such a relation too.
\<close>

theorem validation_stays_in_relations:
  assumes run: "validationLoop config cfGuid entities
      (et_rootRelation (fst (fetchEntityTree sort_relations cache action True))) = Inr results"
    and result: "result \<in> set results"
  shows "case result of
      DispatchFetch a \<Rightarrow> vc_populateMissing config \<and> truthy (fr_endpointGuid a)
        \<and> relation_key (fr_parent a) (fr_child a) \<in> set (ip_includeRelations action)
    | ConnectWithParent a \<Rightarrow> truthy (fr_endpointGuid a)
        \<and> relation_key (fr_parent a) (fr_child a) \<in> set (ip_includeRelations action)
    | DispatchInitialParams entityKey key ps \<Rightarrow> vc_populateMissing config"
  using validationLoop_asked[OF run result] fetched_tree_relations[of sort_relations cache action True]
  by (cases result) auto

text \<open>
  A space with a path to its routes and none of them in the store, and a cache with the tree of all its relations: the
  routes are asked for, the applications are not.
\<close>

definition space_action :: EntityInlineParentAction where
  "space_action = \<lparr>ip_entity = EntitySchema ''space''
       (Some [(''entity'', PlainSchema [(''apps'', ArraySchema (EntitySchema ''application'' None guid_options None)),
         (''routes'', ArraySchema (EntitySchema ''route'' None guid_options None))])]) guid_options None,
     ip_includeRelations = [''space-route''], ip_populateMissing = True\<rparr>"

definition space_config :: ValidateConfig where
  "space_config = \<lparr>vc_allEntities = [], vc_newEntities = None, vc_allPagination = [], vc_includeRelations = [''space-route''],
     vc_populateMissing = True\<rparr>"

definition space_to_validate :: js where
  "space_to_validate = JObj [(''metadata'', JObj [(''guid'', JStr ''s'')]),
     (''entity'', JObj [(''cfGuid'', JStr ''cf''), (''apps_url'', JStr ''/v2/spaces/s/apps''),
       (''routes_url'', JStr ''/v2/spaces/s/routes'')])]"

definition space_cache :: "(string, EntityTree) obj" where
  "space_cache = [(generateCacheKey (\<lambda>rs. rs) ''space'' space_action, createEntityTree (ip_entity space_action) False)]"

theorem validation_stays_in_relations_witness:
  "\<exists>results result a. validationLoop space_config JUndef (JArr [space_to_validate])
      (et_rootRelation (fst (fetchEntityTree (\<lambda>rs. rs) space_cache space_action True))) = Inr results
    \<and> result \<in> set results \<and> result = DispatchFetch a \<and> fr_url a = ''spaces/s/routes''
    \<and> vc_populateMissing space_config
    \<and> relation_key (fr_parent a) (fr_child a) \<in> set (ip_includeRelations space_action)"
proof -
  let ?results = "validationLoop space_config JUndef (JArr [space_to_validate])
      (et_rootRelation (fst (fetchEntityTree (\<lambda>rs. rs) space_cache space_action True)))"
  have run: "(case ?results of Inr rs \<Rightarrow> length rs = 2 \<and> (case rs ! 1 of DispatchFetch a \<Rightarrow> fr_url a = ''spaces/s/routes'' | _ \<Rightarrow> False)
      | Inl _ \<Rightarrow> False)"
    by code_simp
  then obtain rs where rs: "?results = Inr rs" by (auto split: sum.splits)
  with run obtain a where a: "rs ! 1 = DispatchFetch a" "fr_url a = ''spaces/s/routes''" "length rs = 2"
    by (auto split: ValidateEntityResult.splits)
  then have "DispatchFetch a \<in> set rs" by (metis nth_mem one_less_numeral_iff semiring_norm(76))
  then show ?thesis
    using validation_stays_in_relations[OF rs, of "DispatchFetch a"] rs a by auto
qed

end
