(* ===== verification/Schema_Tree.thy ===== *)
theory Schema_Tree
  imports Entity_Factory Entity_Reducers
begin

section \<open>What is deleted with an entity: schema-tree-traverse.ts, recursive-entity-delete.effect.ts\<close>

text \<open>
  Deleting an organization or a space deletes what it contains. \<open>EntitySchemaTreeBuilder\<close> walks the denormalised
  entity along its schema and collects the guids it meets by entity type (\<open>IFlatTree\<close>), leaving out the types
  that outlive the entity; \<open>RecursiveDeleteEffect\<close> computes the tree when the delete starts, remembers it by guid,
  and dispatches the actions that mark the tree's entities and drop them from the store.

  \<open>denormalize\<close> (of \<open>normalizr\<close>) is a parameter: any function of guid, schema and store. An entity that contains
  itself is unfolded as far as its schema goes, and the builder reads no further. A member of a \<open>Set\<close> is the
  property name of the id, as which the reducers use it.
\<close>

subsection \<open>EntitySchemaTreeBuilder\<close>

definition default_excludes :: "(string, string list) obj" where
  "default_excludes =
     [(''organization'', [''domain'', ''quota_definition'', ''private_domains'']),
      (''space'', [''domain'', ''service'', ''servicePlan'', ''stack'']),
      (''application'', [''stack'', ''space'', ''route'', ''serviceBinding'', ''serviceInstance'']),
      (''stats'', []),
      (''route'', [''domain'', ''application'']),
      (''serviceBinding'', [''application'', ''serviceInstance'', ''service'']),
      (''serviceInstance'', [''servicePlan'', ''application'', ''serviceInstance'', ''service'']),
      (''user'', [''organization'', ''space''])]"

definition addIdToTree :: "IFlatTree \<Rightarrow> string \<Rightarrow> js \<Rightarrow> IFlatTree" where
  "addIdToTree flatTree key newId =
     (let ids = (case obj_get flatTree key of Some ids \<Rightarrow> ids | None \<Rightarrow> []) in
      obj_set key (if js_key newId \<in> set ids then ids else ids @ [js_key newId]) flatTree)"

text \<open>The properties of a schema that is not an \<open>EntitySchema\<close>: \<open>Object.keys(schema)\<close>, of an array its index.\<close>

fun schema_props :: "schema \<Rightarrow> (string \<times> schema) list" where
  "schema_props (PlainSchema ps) = ps"
| "schema_props (ArraySchema s) = [(''0'', s)]"
| "schema_props (EntitySchema _ _ _ _) = []"

text \<open>\<open>Array.isArray(schema) ? schema[0] : schema\<close>, which is also \<open>getDefinition\<close>.\<close>

fun getDefinition :: "schema \<Rightarrow> schema" where
  "getDefinition (ArraySchema s) = s"
| "getDefinition s = s"

lemma size_getDefinition: "size (getDefinition s) \<le> size s"
  by (cases s) auto

lemma size_props: "(k :: string, d :: schema) \<in> set ps \<Longrightarrow> size d < Suc (size_list (size_prod (\<lambda>_. 0) size) ps)"
  by (drule size_list_estimation'[OF _ order.refl, of _ _ "size_prod (\<lambda>_. 0) size"]) simp

lemma size_definition:
  "(k :: string, d :: schema) \<in> set ps \<Longrightarrow> size (getDefinition d) < Suc (size_list (size_prod (\<lambda>_. 0) size) ps)"
  using size_props[of k d ps] size_getDefinition[of d] by simp

lemma size_child: "(k, d) \<in> set (schema_props (getDefinition s)) \<Longrightarrow> size d < size s"
  by (cases s rule: getDefinition.cases; cases "getDefinition s") (auto dest: size_props)

text \<open>
  The three methods. An entity's own id goes under its schema's key, except the root's; the children follow the
  schema. A child that is not in an array and whose schema is an \<open>EntitySchema\<close> right in the definition is
  recorded under the property's name, and walked with its bare definition when that id is known already.
\<close>

function build :: "string list \<Rightarrow> schema \<Rightarrow> js \<Rightarrow> IFlatTree \<Rightarrow> bool \<Rightarrow> IFlatTree"
  and applySchemaToTree :: "string list \<Rightarrow> schema \<Rightarrow> js \<Rightarrow> IFlatTree \<Rightarrow> bool \<Rightarrow> IFlatTree"
  and handleSingleChildEntity :: "string list \<Rightarrow> schema \<Rightarrow> js \<Rightarrow> IFlatTree \<Rightarrow> string \<Rightarrow> IFlatTree"
where
  "build excludes sch entity flatTree root =
     (let schema = getDefinition sch in
      if \<not> truthy entity \<or> (\<exists>key \<in> set excludes. schema_key schema = Some key) then flatTree
      else if is_array entity
      then fold (\<lambda>newEntity newFlatTree. applySchemaToTree excludes schema newEntity newFlatTree False)
        (elements entity) flatTree
      else if schema_key schema \<noteq> None then applySchemaToTree excludes schema entity flatTree root
      else fold (\<lambda>(key, child) newflatTree. build excludes child (js_field entity key) newflatTree False)
        (schema_props schema) flatTree)"
| "applySchemaToTree excludes schema entity flatTree root =
     (if \<not> truthy entity then flatTree
      else case schema of
          EntitySchema key definition options _ \<Rightarrow>
            let tree = (if root then flatTree else addIdToTree flatTree key (id_of (eo_idAttribute options) entity)) in
            (case definition of
               None \<Rightarrow> tree
             | Some children \<Rightarrow>
                 fold (\<lambda>(key, child) fullFlatTree.
                   let newEntity = js_field entity key in
                   if is_array newEntity then build excludes (getDefinition child) newEntity fullFlatTree False
                   else handleSingleChildEntity excludes (getDefinition child) newEntity fullFlatTree key)
                 children tree)
        | _ \<Rightarrow> flatTree)"
| "handleSingleChildEntity excludes entityDefinition entity flatTree key =
     (if \<not> truthy entity then flatTree
      else case entityDefinition of
          EntitySchema _ definition options _ \<Rightarrow>
            let id = id_of (eo_idAttribute options) entity in
            if \<not> truthy id \<or> (\<exists>ids. obj_get flatTree key = Some ids \<and> js_key id \<in> set ids)
            then (case definition of
                Some children \<Rightarrow> build excludes (PlainSchema children) entity flatTree False
              | None \<Rightarrow> flatTree)
            else build excludes entityDefinition entity (addIdToTree flatTree key id) False
        | _ \<Rightarrow> build excludes entityDefinition entity flatTree False)"
  by pat_completeness auto

termination
proof (relation "measure (\<lambda>x. case x of
      Inl (_, s, _, _, _) \<Rightarrow> 3 * size s + 1
    | Inr (Inl (_, s, _, _, _)) \<Rightarrow> 3 * size s
    | Inr (Inr (_, s, _, _, _)) \<Rightarrow> 3 * size s + 2)", goal_cases)
qed (use size_getDefinition in \<open>auto dest: size_child size_definition simp: less_Suc_eq_le\<close>)

declare build.simps [simp del] applySchemaToTree.simps [simp del] handleSingleChildEntity.simps [simp del]

definition getFlatTree ::
  "(string \<Rightarrow> schema \<Rightarrow> (string, js) obj \<Rightarrow> js) \<Rightarrow> string \<Rightarrow> schema \<Rightarrow> (string, js) obj \<Rightarrow> IFlatTree" where
  "getFlatTree denormalize guid schema state =
     (let entityExcludes =
        (case schema_key schema of
           Some key \<Rightarrow> (case obj_get default_excludes key of Some ks \<Rightarrow> ks | None \<Rightarrow> [])
         | None \<Rightarrow> [])
      in build entityExcludes schema (denormalize guid schema state) [] True)"

subsection \<open>The types a tree can hold\<close>

text \<open>
  The entity types a walk along a schema can add, whatever the entity: a bound that only depends on the schema.
\<close>

function tree_types :: "string list \<Rightarrow> schema \<Rightarrow> string list"
  and child_types :: "string list \<Rightarrow> schema \<Rightarrow> string list"
  and single_types :: "string list \<Rightarrow> schema \<Rightarrow> string \<Rightarrow> string list"
where
  "tree_types excludes sch =
     (let schema = getDefinition sch in
      if \<exists>key \<in> set excludes. schema_key schema = Some key then []
      else case schema_key schema of
          Some key \<Rightarrow> key # child_types excludes schema
        | None \<Rightarrow> concat (map (\<lambda>(key, child). tree_types excludes child) (schema_props schema)))"
| "child_types excludes schema =
     (case schema of
        EntitySchema _ (Some children) _ _ \<Rightarrow>
          concat (map (\<lambda>(key, child). single_types excludes (getDefinition child) key) children)
      | _ \<Rightarrow> [])"
| "single_types excludes schema key =
     (case schema of
        EntitySchema _ (Some children) _ _ \<Rightarrow>
          key # tree_types excludes (PlainSchema children) @ tree_types excludes schema
      | EntitySchema _ None _ _ \<Rightarrow> key # tree_types excludes schema
      | _ \<Rightarrow> tree_types excludes schema)"
  by pat_completeness auto
termination
proof (relation "measure (\<lambda>x. case x of
      Inl (_, s) \<Rightarrow> 3 * size s + 1
    | Inr (Inl (_, s)) \<Rightarrow> 3 * size s
    | Inr (Inr (_, s, _)) \<Rightarrow> 3 * size s + 2)", goal_cases)
qed (use size_getDefinition in \<open>auto dest: size_child size_definition simp: less_Suc_eq_le\<close>)

declare tree_types.simps [simp del] child_types.simps [simp del] single_types.simps [simp del]

lemma keys_addIdToTree: "set (obj_keys (addIdToTree t k i)) = insert k (set (obj_keys t))"
  by (auto simp: addIdToTree_def obj_keys_set Let_def)

lemma fold_keys_subset:
  assumes "\<And>x t. x \<in> set xs \<Longrightarrow> set (obj_keys (f x t)) \<subseteq> set (obj_keys t) \<union> T"
  shows "set (obj_keys (fold f xs t)) \<subseteq> set (obj_keys t) \<union> T"
  by (rule fold_inv[where P = "\<lambda>t'. set (obj_keys t') \<subseteq> set (obj_keys t) \<union> T"]) (use assms in fastforce)+

lemma child_types_None: "schema_key s = None \<Longrightarrow> child_types ex s = []"
  by (cases s) (auto simp: child_types.simps)

lemma tree_types_child_types:
  assumes "\<not> (\<exists>key \<in> set ex. schema_key (getDefinition s) = Some key)"
  shows "set_option (schema_key (getDefinition s)) \<union> set (child_types ex (getDefinition s)) \<subseteq> set (tree_types ex s)"
  using assms unfolding tree_types.simps[of ex s]
  by (auto simp: Let_def child_types_None split: option.splits)

lemma tree_types_props:
  assumes "schema_key (getDefinition s) = None" and "(k, d) \<in> set (schema_props (getDefinition s))"
  shows "set (tree_types ex d) \<subseteq> set (tree_types ex s)"
  using assms unfolding tree_types.simps[of ex s] by fastforce

lemma tree_types_single: "set (tree_types ex s) \<subseteq> set (single_types ex s k)"
  by (auto simp: single_types.simps split: schema.splits option.splits)

lemma child_types_single:
  assumes "(k, d) \<in> set ps"
  shows "set (single_types ex (getDefinition d) k) \<subseteq> set (child_types ex (EntitySchema key (Some ps) opt r))"
  using assms by (auto simp: child_types.simps)

text \<open>A plain or array schema: its children are walked without an id of its own.\<close>

lemma walk_types:
  "set (obj_keys (build ex s e t root)) \<subseteq> set (obj_keys t) \<union> set (tree_types ex s)"
  "set (obj_keys (applySchemaToTree ex s e t root')) \<subseteq>
     set (obj_keys t) \<union> (if root' then {} else set_option (schema_key s)) \<union> set (child_types ex s)"
  "set (obj_keys (handleSingleChildEntity ex s e t key)) \<subseteq> set (obj_keys t) \<union> set (single_types ex s key)"
proof (induction ex s e t root and ex s e t root' and ex s e t key
    rule: build_applySchemaToTree_handleSingleChildEntity.induct)
  case (1 ex s e t root)
  show ?case
  proof (cases "\<not> truthy e \<or> (\<exists>key \<in> set ex. schema_key (getDefinition s) = Some key)")
    case False
    then have types: "set_option (schema_key (getDefinition s)) \<union> set (child_types ex (getDefinition s)) \<subseteq> set (tree_types ex s)"
      using tree_types_child_types by blast
    show ?thesis
    proof (cases "is_array e")
      case True
      have "set (obj_keys (fold (\<lambda>newEntity newFlatTree. applySchemaToTree ex (getDefinition s) newEntity newFlatTree False) (elements e) t))
          \<subseteq> set (obj_keys t) \<union> set (tree_types ex s)"
        by (rule fold_keys_subset) (use 1(1)[OF refl False True] types in fastforce)
      then show ?thesis using False True by (simp add: build.simps[of ex s])
    next
      case arr: False
      show ?thesis
      proof (cases "schema_key (getDefinition s) = None")
        case True
        have "set (obj_keys (fold (\<lambda>(key, child) newflatTree. build ex child (js_field e key) newflatTree False)
            (schema_props (getDefinition s)) t)) \<subseteq> set (obj_keys t) \<union> set (tree_types ex s)"
          by (rule fold_keys_subset) (use 1(3)[OF refl False arr] True tree_types_props[OF True] in fastforce)
        then show ?thesis using False arr True by (simp add: build.simps[of ex s])
      next
        case key: False
        then show ?thesis using 1(2)[OF refl False arr] types False arr
          by (simp add: build.simps[of ex s] split: if_splits) blast+
      qed
    qed
  qed (auto simp: build.simps[of ex s])
next
  case (2 ex s e t root)
  show ?case
  proof (cases "truthy e \<and> (\<exists>key ps opt r. s = EntitySchema key (Some ps) opt r)")
    case True
    then obtain key ps opt r where s: "s = EntitySchema key (Some ps) opt r" and e: "truthy e" by blast
    let ?tree = "if root then t else addIdToTree t key (id_of (eo_idAttribute opt) e)"
    let ?step = "\<lambda>(key, child) t. if is_array (js_field e key)
        then build ex (getDefinition child) (js_field e key) t False
        else handleSingleChildEntity ex (getDefinition child) (js_field e key) t key"
    have "set (obj_keys (fold ?step ps ?tree)) \<subseteq> set (obj_keys ?tree) \<union> set (child_types ex s)"
    proof (rule fold_keys_subset)
      fix x t' assume "x \<in> set ps"
      moreover obtain k d where x: "x = (k, d)" by force
      ultimately have mem: "(k, d) \<in> set ps" by simp
      show "set (obj_keys (?step x t')) \<subseteq> set (obj_keys t') \<union> set (child_types ex s)"
        using 2(1)[OF _ s refl refl mem refl refl, of t'] 2(2)[OF _ s refl refl mem refl refl, of t'] e
          tree_types_single[of ex "getDefinition d" k] child_types_single[OF mem, of ex key opt r]
        by (auto simp: x s)
    qed
    moreover have "applySchemaToTree ex s e t root = fold ?step ps ?tree"
      using e by (simp add: applySchemaToTree.simps s Let_def)
    ultimately show ?thesis by (auto simp: s keys_addIdToTree split: if_splits)
  next
    case False
    then show ?thesis
      by (cases s) (auto simp: applySchemaToTree.simps keys_addIdToTree split: option.splits)
  qed
next
  case (3 ex s e t key)
  show ?case
  proof (cases "\<exists>k def opt r. s = EntitySchema k def opt r")
    case True
    then obtain k d opt r where s: "s = EntitySchema k d opt r" by blast
    show ?thesis
      using 3(1)[OF _ s refl] 3(2)[OF _ s refl] tree_types_single[of ex s key]
      by (auto simp: handleSingleChildEntity.simps single_types.simps s Let_def keys_addIdToTree
        split: option.splits if_splits)
  next
    case False
    then show ?thesis using 3(3,4)
      by (cases s) (auto simp: handleSingleChildEntity.simps single_types.simps)
  qed
qed

lemma flat_tree_types:
  assumes "schema_key schema = Some key" and "obj_get default_excludes key = Some ex"
    and "\<not> is_array (denormalize guid schema state)"
  shows "set (obj_keys (getFlatTree denormalize guid schema state)) \<subseteq> set (child_types ex schema)"
  using walk_types(2)[of ex schema "denormalize guid schema state" "[]" True] assms
  by (cases schema) (auto simp: build.simps getFlatTree_def Let_def)

text \<open>The types that can be deleted with an entity, by the schema of the entity.\<close>

lemma organization_child_types:
  "set (child_types [''domain'', ''quota_definition'', ''private_domains''] OrganizationSchema) =
     {''space'', ''space_quota_definition'', ''stack'', ''route'', ''serviceInstance'', ''serviceBinding'', ''app'',
      ''application'', ''servicePlan'', ''service'', ''user''}"
  by code_simp

lemma space_child_types:
  "set (child_types [''domain'', ''service'', ''servicePlan'', ''stack''] SpaceSchema) =
     {''space_quota_definition'', ''user'', ''route'', ''serviceInstance'', ''serviceBinding'', ''app'', ''application''}"
  by code_simp

lemma no_child_types:
  "child_types [''stack'', ''space'', ''route'', ''serviceBinding'', ''serviceInstance''] ApplicationEntitySchema = []"
  "child_types [] AppStatSchema = []"
  "child_types [''domain'', ''application''] RouteSchema = []"
  "child_types [''application'', ''serviceInstance'', ''service''] ServiceBindingsSchema = []"
  "child_types [''organization'', ''space''] CFUserSchema = []"
  by code_simp+

text \<open>
  C37: What can be deleted with an entity, whatever the store holds: with an application, a route, a service binding,
  the statistics of an application or a user, nothing else; with a service instance nothing either, its bindings
  included, because its own type is among the excluded ones; with a space neither domains, services, service plans
  nor stacks; with an organization neither domains nor quota definitions (but stacks, services and service plans,
  which outlive it). The property \<open>app\<close> is the one key of a tree that is not an entity type.
\<close>

theorem delete_tree_types:
  assumes "\<And>schema. \<not> is_array (denormalize guid schema state)"
  shows "list_all (\<lambda>schema. getFlatTree denormalize guid schema state = [])
      [ApplicationEntitySchema, AppStatSchema, RouteSchema, ServiceBindingsSchema, CFUserSchema, ServiceInstancesSchema]
    \<and> set (obj_keys (getFlatTree denormalize guid SpaceSchema state)) \<subseteq>
        {''space_quota_definition'', ''user'', ''route'', ''serviceInstance'', ''serviceBinding'', ''app'', ''application''}
    \<and> set (obj_keys (getFlatTree denormalize guid OrganizationSchema state)) \<subseteq>
        {''space'', ''space_quota_definition'', ''stack'', ''route'', ''serviceInstance'', ''serviceBinding'', ''app'',
         ''application'', ''servicePlan'', ''service'', ''user''}"
proof -
  have bound: "set (obj_keys (getFlatTree denormalize guid schema state)) \<subseteq> set (child_types ex schema)"
    if "schema_key schema = Some key" "obj_get default_excludes key = Some ex" for schema key ex
    using flat_tree_types[where denormalize = denormalize, OF that assms] .
  have keys: "schema_key ApplicationEntitySchema = Some ''application''" "schema_key AppStatSchema = Some ''stats''"
    "schema_key RouteSchema = Some ''route''" "schema_key ServiceBindingsSchema = Some ''serviceBinding''"
    "schema_key CFUserSchema = Some ''user''" "schema_key ServiceInstancesSchema = Some ''serviceInstance''"
    "schema_key SpaceSchema = Some ''space''" "schema_key OrganizationSchema = Some ''organization''"
    by (simp_all add: schema_defs)
  have excludes: "obj_get default_excludes ''application'' = Some [''stack'', ''space'', ''route'', ''serviceBinding'', ''serviceInstance'']"
    "obj_get default_excludes ''stats'' = Some []" "obj_get default_excludes ''route'' = Some [''domain'', ''application'']"
    "obj_get default_excludes ''serviceBinding'' = Some [''application'', ''serviceInstance'', ''service'']"
    "obj_get default_excludes ''user'' = Some [''organization'', ''space'']"
    "obj_get default_excludes ''serviceInstance'' = Some [''servicePlan'', ''application'', ''serviceInstance'', ''service'']"
    "obj_get default_excludes ''space'' = Some [''domain'', ''service'', ''servicePlan'', ''stack'']"
    "obj_get default_excludes ''organization'' = Some [''domain'', ''quota_definition'', ''private_domains'']"
    by (simp_all add: default_excludes_def)
  have empty: "set (obj_keys t) \<subseteq> {} \<longleftrightarrow> t = []" for t :: IFlatTree
    by (simp add: obj_keys_def)
  have inst: "getFlatTree denormalize guid ServiceInstancesSchema state = []"
    using keys(6) excludes(6) by (simp add: getFlatTree_def build.simps ServiceInstancesSchema_def)
  show ?thesis
    using bound[OF keys(1) excludes(1)] bound[OF keys(2) excludes(2)] bound[OF keys(3) excludes(3)]
      bound[OF keys(4) excludes(4)] bound[OF keys(5) excludes(5)]
      bound[OF keys(7) excludes(7)] bound[OF keys(8) excludes(8)] inst
    unfolding no_child_types space_child_types organization_child_types list.set(1) empty
    by simp
qed

theorem delete_tree_types_witness:
  "getFlatTree (\<lambda>guid schema state. JObj [(''entity'', JObj [(''routes'', JArr [JObj []])])]) ''a1'' ApplicationEntitySchema [] = []"
  using delete_tree_types[of "\<lambda>guid schema state. JObj [(''entity'', JObj [(''routes'', JArr [JObj []])])]" "''a1''" "[]"]
  by (simp add: is_array_def)

subsection \<open>The entities a tree holds\<close>

text \<open>
  What an entity owns, without reference to the walk: the entities a schema leads to through arrays and plain
  objects, and, where \<open>direct\<close> allows it, a child whose schema stands right in the definition. Excluded types and
  what lies behind them are not owned.
\<close>

definition nodes :: "js \<Rightarrow> js list" where
  "nodes e = filter truthy (if is_array e then elements e else [e])"

inductive walk_owns :: "bool \<Rightarrow> string list \<Rightarrow> schema \<Rightarrow> js \<Rightarrow> string \<times> string \<Rightarrow> bool"
  and child_owns :: "bool \<Rightarrow> string list \<Rightarrow> schema \<Rightarrow> js \<Rightarrow> string \<times> string \<Rightarrow> bool"
  for direct ex
where
  self: "\<lbrakk>getDefinition s = EntitySchema key def opt r; key \<notin> set ex; e' \<in> set (nodes e)\<rbrakk>
      \<Longrightarrow> walk_owns direct ex s e (key, js_key (id_of (eo_idAttribute opt) e'))"
| child: "\<lbrakk>getDefinition s = EntitySchema key def opt r; key \<notin> set ex; e' \<in> set (nodes e);
      child_owns direct ex (getDefinition s) e' p\<rbrakk> \<Longrightarrow> walk_owns direct ex s e p"
| plain: "\<lbrakk>schema_key (getDefinition s) = None; truthy e; \<not> is_array e; (k, d) \<in> set (schema_props (getDefinition s));
      walk_owns direct ex d (js_field e k) p\<rbrakk> \<Longrightarrow> walk_owns direct ex s e p"
| below: "\<lbrakk>(k, d) \<in> set ps; is_array (js_field e k) \<or> schema_key (getDefinition d) = None;
      walk_owns direct ex (getDefinition d) (js_field e k) p\<rbrakk>
      \<Longrightarrow> child_owns direct ex (EntitySchema key (Some ps) opt r) e p"
| direct_name: "\<lbrakk>direct; (k, d) \<in> set ps; getDefinition d = EntitySchema key' def' opt' r'; truthy (js_field e k)\<rbrakk>
      \<Longrightarrow> child_owns direct ex (EntitySchema key (Some ps) opt r) e (k, js_key (id_of (eo_idAttribute opt') (js_field e k)))"
| direct_below: "\<lbrakk>direct; (k, d) \<in> set ps; walk_owns direct ex (getDefinition d) (js_field e k) p\<rbrakk>
      \<Longrightarrow> child_owns direct ex (EntitySchema key (Some ps) opt r) e p"
| direct_known: "\<lbrakk>direct; (k, d) \<in> set ps; getDefinition d = EntitySchema key' (Some ps') opt' r';
      walk_owns direct ex (PlainSchema ps') (js_field e k) p\<rbrakk>
      \<Longrightarrow> child_owns direct ex (EntitySchema key (Some ps) opt r) e p"

definition in_flat_tree :: "IFlatTree \<Rightarrow> string \<times> string \<Rightarrow> bool" where
  "in_flat_tree t p \<longleftrightarrow> (\<exists>ids. obj_get t (fst p) = Some ids \<and> snd p \<in> set ids)"

lemma in_addIdToTree: "in_flat_tree (addIdToTree t k i) p \<longleftrightarrow> p = (k, js_key i) \<or> in_flat_tree t p"
  by (cases p) (auto simp: in_flat_tree_def addIdToTree_def Let_def split: option.splits if_splits)

lemma in_fold_mono:
  assumes "\<And>x t. x \<in> set xs \<Longrightarrow> in_flat_tree t p \<Longrightarrow> in_flat_tree (f x t) p"
  shows "in_flat_tree t p \<Longrightarrow> in_flat_tree (fold f xs t) p"
  using fold_inv[of xs "\<lambda>t. in_flat_tree t p" f t] assms by blast

text \<open>A loop whose steps only add keeps what one step added.\<close>

lemma in_fold_step:
  assumes "\<And>x t. x \<in> set xs \<Longrightarrow> in_flat_tree t p \<Longrightarrow> in_flat_tree (f x t) p"
    and "x \<in> set xs" and "\<And>t. in_flat_tree (f x t) p"
  shows "in_flat_tree (fold f xs t) p"
proof -
  from assms(2) obtain ys zs where xs: "xs = ys @ x # zs" by (meson split_list)
  show ?thesis using in_fold_mono[of zs p f] assms(1,3) by (simp add: xs)
qed

lemma in_fold_only:
  assumes "\<And>x t. x \<in> set xs \<Longrightarrow> in_flat_tree (f x t) p \<Longrightarrow> in_flat_tree t p \<or> Q" and "in_flat_tree (fold f xs t) p"
  shows "in_flat_tree t p \<or> Q"
  using fold_inv[of xs "\<lambda>t'. in_flat_tree t' p \<longrightarrow> in_flat_tree t p \<or> Q" f t] assms by blast

lemma walk_mono:
  "in_flat_tree t p \<Longrightarrow> in_flat_tree (build ex s e t root) p"
  "in_flat_tree t p \<Longrightarrow> in_flat_tree (applySchemaToTree ex s e t root') p"
  "in_flat_tree t p \<Longrightarrow> in_flat_tree (handleSingleChildEntity ex s e t key) p"
proof (induction ex s e t root and ex s e t root' and ex s e t key
    rule: build_applySchemaToTree_handleSingleChildEntity.induct)
  case (1 ex s e t root)
  then show ?case
    by (subst build.simps) (auto simp: Let_def intro!: in_fold_mono)
next
  case (2 ex s e t root)
  show ?case using 2(3)
    by (subst applySchemaToTree.simps)
      (auto simp: Let_def in_addIdToTree split: schema.splits option.splits intro!: in_fold_mono 2(1,2))
next
  case (3 ex s e t key)
  then show ?case
    by (subst handleSingleChildEntity.simps) (auto simp: Let_def in_addIdToTree split: schema.splits option.splits)
qed

text \<open>Every owned entity is in the tree: it is recorded where the walk reaches it, and nothing is taken out again.\<close>

lemma build_node:
  assumes "getDefinition s = EntitySchema key def opt r" and "key \<notin> set ex" and "e' \<in> set (nodes e)"
    and "\<And>t. in_flat_tree (applySchemaToTree ex (getDefinition s) e' t False) p"
  shows "in_flat_tree (build ex s e t False) p"
proof (cases "is_array e")
  case True
  then have "e' \<in> set (elements e)" "truthy e" using assms(3) by (auto simp: nodes_def is_array_elements)
  then show ?thesis
    using True assms(1,2,4) in_fold_step[of "elements e" p "\<lambda>x t. applySchemaToTree ex (getDefinition s) x t False" e' t]
    by (subst build.simps) (auto simp: Let_def walk_mono)
next
  case False
  then show ?thesis using assms by (subst build.simps) (auto simp: Let_def nodes_def split: if_splits)
qed

lemma walk_owns_truthy: "walk_owns direct ex s e p \<Longrightarrow> truthy e"
  by (erule walk_owns.cases) (auto simp: nodes_def is_array_elements split: if_splits)

lemma owned_in_tree:
  "walk_owns direct ex s e p \<Longrightarrow> \<not> direct \<Longrightarrow> in_flat_tree (build ex s e t False) p"
  "child_owns direct ex s e p \<Longrightarrow> \<not> direct \<Longrightarrow> truthy e \<Longrightarrow> in_flat_tree (applySchemaToTree ex s e t' root) p"
proof (induction arbitrary: t and t' root rule: walk_owns_child_owns.inducts)
  case (self s key def opt r e' e)
  from \<open>e' \<in> set (nodes e)\<close> have "truthy e'" by (simp add: nodes_def)
  then have "in_flat_tree (applySchemaToTree ex (getDefinition s) e' t False) (key, js_key (id_of (eo_idAttribute opt) e'))" for t
    using \<open>getDefinition s = _\<close>
    by (subst applySchemaToTree.simps) (auto simp: Let_def in_addIdToTree split: option.splits intro!: in_fold_mono walk_mono)
  then show ?case using self by (intro build_node)
next
  case (child s key def opt r e' e p)
  from \<open>e' \<in> set (nodes e)\<close> have "truthy e'" by (simp add: nodes_def)
  with child show ?case by (intro build_node) auto
next
  case (plain s e k d p)
  then show ?case
    by (subst build.simps) (auto simp: Let_def intro!: in_fold_step[of _ _ _ "(k, d)"] intro: walk_mono)
next
  case (below k d ps e p key opt r)
  have t: "truthy (js_field e k)" using walk_owns_truthy \<open>walk_owns direct ex (getDefinition d) (js_field e k) p\<close> .
  have "in_flat_tree (handleSingleChildEntity ex (getDefinition d) (js_field e k) t k) p"
    if "\<not> is_array (js_field e k)" for t
    using that below t
    by (subst handleSingleChildEntity.simps) (cases "getDefinition d"; auto)
  then show ?case using below
    by (subst applySchemaToTree.simps)
      (auto simp: Let_def intro!: in_fold_step[of _ _ _ "(k, d)"] intro: walk_mono)
qed auto

text \<open>Nothing else is in the tree.\<close>

lemma apply_nothing: "schema_key s = None \<or> \<not> truthy e \<Longrightarrow> applySchemaToTree ex s e t root = t"
  by (subst applySchemaToTree.simps) (cases s; auto)

lemma node_owned:
  assumes "getDefinition s = EntitySchema key def opt r" and "key \<notin> set ex" and "x \<in> set (nodes e)"
    and "child_owns True ex (getDefinition s) x p
      \<or> (\<exists>key def opt r. getDefinition s = EntitySchema key def opt r \<and> truthy x \<and> p = (key, js_key (id_of (eo_idAttribute opt) x)))"
  shows "walk_owns True ex s e p"
  using assms(4) self[OF assms(1-3), of True] child[OF assms(1-3), of True p] assms(1) by auto

lemma tree_only_owned:
  "in_flat_tree (build ex s e t root) p \<Longrightarrow> in_flat_tree t p \<or> walk_owns True ex s e p"
  "in_flat_tree (applySchemaToTree ex s e t root') p \<Longrightarrow>
     in_flat_tree t p \<or> child_owns True ex s e p
     \<or> (\<exists>key def opt r. s = EntitySchema key def opt r \<and> truthy e \<and> \<not> root' \<and> p = (key, js_key (id_of (eo_idAttribute opt) e)))"
  "in_flat_tree (handleSingleChildEntity ex s e t key) p \<Longrightarrow>
     in_flat_tree t p \<or> walk_owns True ex s e p
     \<or> (\<exists>key' def opt r. s = EntitySchema key' def opt r \<and> truthy e \<and>
         (p = (key, js_key (id_of (eo_idAttribute opt) e)) \<or> (\<exists>ps. def = Some ps \<and> walk_owns True ex (PlainSchema ps) e p)))"
proof (induction ex s e t root and ex s e t root' and ex s e t key
    rule: build_applySchemaToTree_handleSingleChildEntity.induct)
  case (1 ex s e t root)
  show ?case
  proof (cases "\<not> truthy e \<or> (\<exists>key \<in> set ex. schema_key (getDefinition s) = Some key)")
    case False
    show ?thesis
    proof (cases "schema_key (getDefinition s)")
      case None
      show ?thesis
      proof (cases "is_array e")
        case True
        have "in_flat_tree t p \<or> False"
        proof (rule in_fold_only)
          show "in_flat_tree (fold (\<lambda>x t. applySchemaToTree ex (getDefinition s) x t False) (elements e) t) p"
            using 1(4) False True by (simp add: build.simps[of ex s] Let_def)
        qed (use None in \<open>auto simp: apply_nothing\<close>)
        then show ?thesis by simp
      next
        case arr: False
        show ?thesis
        proof (rule in_fold_only)
          show "in_flat_tree (fold (\<lambda>(key, child) t. build ex child (js_field e key) t False) (schema_props (getDefinition s)) t) p"
            using 1(4) False arr None by (simp add: build.simps[of ex s] Let_def)
          fix x t' assume x: "x \<in> set (schema_props (getDefinition s))"
            and step: "in_flat_tree ((\<lambda>(key, child) t. build ex child (js_field e key) t False) x t') p"
          obtain k d where kd: "(k, d) = x" by (cases x) simp
          have "in_flat_tree t' p \<or> walk_owns True ex d (js_field e k) p"
            using 1(3)[OF refl False arr _ x kd, of t'] None step kd by auto
          then show "in_flat_tree t' p \<or> walk_owns True ex s e p"
            using plain[OF None _ arr, of k d True ex p] x kd False by auto
        qed
      qed
    next
      case (Some key)
      then obtain def opt r where ent: "getDefinition s = EntitySchema key def opt r" by (cases "getDefinition s") auto
      have key: "key \<notin> set ex" using False Some by auto
      show ?thesis
      proof (cases "is_array e")
        case True
        show ?thesis
        proof (rule in_fold_only)
          show "in_flat_tree (fold (\<lambda>x t. applySchemaToTree ex (getDefinition s) x t False) (elements e) t) p"
            using 1(4) False True by (simp add: build.simps[of ex s] Let_def)
          show "in_flat_tree t' p \<or> walk_owns True ex s e p"
            if "x \<in> set (elements e)" "in_flat_tree (applySchemaToTree ex (getDefinition s) x t' False) p" for x t'
          proof (cases "truthy x")
            case truthy: True
            then have "x \<in> set (nodes e)" using that(1) True by (simp add: nodes_def)
            then show ?thesis using node_owned[OF ent key, of x e p] 1(1)[OF refl False True that] by auto
          next
            case False
            then show ?thesis using that(2) by (simp add: apply_nothing)
          qed
        qed
      next
        case arr: False
        then have "e \<in> set (nodes e)" using False by (simp add: nodes_def)
        then show ?thesis
          using node_owned[OF ent key, of e e p] 1(2)[OF refl False arr] 1(4) Some False arr
          by (auto simp: build.simps[of ex s] Let_def)
      qed
    qed
  qed (use 1(4) in \<open>auto simp: build.simps[of ex s] Let_def\<close>)
next
  case (2 ex s e t root)
  show ?case
  proof (cases "truthy e \<and> schema_key s \<noteq> None")
    case True
    then obtain key def opt r where s: "s = EntitySchema key def opt r" and e: "truthy e" by (cases s) auto
    let ?tree = "if root then t else addIdToTree t key (id_of (eo_idAttribute opt) e)"
    let ?self = "\<not> root \<and> p = (key, js_key (id_of (eo_idAttribute opt) e))"
    have tree: "in_flat_tree ?tree p \<Longrightarrow> in_flat_tree t p \<or> ?self"
      by (auto simp: in_addIdToTree split: if_splits)
    show ?thesis
    proof (cases "def")
      case None
      then show ?thesis using 2(3) e tree by (auto simp: s applySchemaToTree.simps)
    next
      case (Some ps)
      let ?step = "\<lambda>(key, child) t. if is_array (js_field e key)
          then build ex (getDefinition child) (js_field e key) t False
          else handleSingleChildEntity ex (getDefinition child) (js_field e key) t key"
      have "in_flat_tree ?tree p \<or> child_owns True ex s e p"
      proof (rule in_fold_only)
        show "in_flat_tree (fold ?step ps ?tree) p"
          using 2(3) e by (simp add: s Some applySchemaToTree.simps Let_def)
        fix x t' assume "x \<in> set ps" and step: "in_flat_tree (?step x t') p"
        moreover obtain k d where x: "x = (k, d)" by force
        ultimately have mem: "(k, d) \<in> set ps" by simp
        show "in_flat_tree t' p \<or> child_owns True ex s e p"
        proof (cases "is_array (js_field e k)")
          case True
          have "in_flat_tree t' p \<or> walk_owns True ex (getDefinition d) (js_field e k) p"
            using 2(1)[OF _ s refl Some mem refl refl True] step e True by (simp add: x)
          then show ?thesis using True unfolding s Some by (blast intro: below[OF mem])
        next
          case False
          have hs: "in_flat_tree (handleSingleChildEntity ex (getDefinition d) (js_field e k) t' k) p"
            using step False by (simp add: x)
          from 2(2)[OF _ s refl Some mem refl refl False hs] e
          consider "in_flat_tree t' p" | "walk_owns True ex (getDefinition d) (js_field e k) p"
            | key' def' opt' r' where "getDefinition d = EntitySchema key' def' opt' r'" "truthy (js_field e k)"
                "p = (k, js_key (id_of (eo_idAttribute opt') (js_field e k)))"
            | key' ps' opt' r' where "getDefinition d = EntitySchema key' (Some ps') opt' r'"
                "walk_owns True ex (PlainSchema ps') (js_field e k) p"
            by blast
          then show ?thesis
          proof cases
            case 2
            then show ?thesis unfolding s Some by (blast intro: direct_below[OF _ mem])
          next
            case 3
            then show ?thesis unfolding s Some by (blast intro: direct_name[OF _ mem])
          next
            case 4
            then show ?thesis unfolding s Some by (blast intro: direct_known[OF _ mem])
          qed simp
        qed
      qed
      then show ?thesis using tree e by (auto simp: s)
    qed
  next
    case False
    then have "applySchemaToTree ex s e t root = t" by (auto intro: apply_nothing)
    then show ?thesis using 2(3) by simp
  qed
next
  case (3 ex s e t key)
  show ?case
  proof (cases "truthy e")
    case True
    show ?thesis
    proof (cases s)
      case (EntitySchema k d opt r)
      then show ?thesis
        using 3(1)[OF _ EntitySchema refl] 3(2)[OF _ EntitySchema refl] 3(5) True
        by (auto simp: handleSingleChildEntity.simps Let_def in_addIdToTree split: option.splits if_splits)
    next
      case (PlainSchema ps)
      then show ?thesis using 3(3)[OF _ PlainSchema] 3(5) True by (simp add: handleSingleChildEntity.simps)
    next
      case (ArraySchema s')
      then show ?thesis using 3(4)[OF _ ArraySchema] 3(5) True by (simp add: handleSingleChildEntity.simps)
    qed
  qed (use 3(5) in \<open>simp add: handleSingleChildEntity.simps\<close>)
qed

text \<open>
  C16: What is deleted with an entity, compared with what the entity owns by its schema. Every entity that the
  denormalised root owns through arrays and plain objects, with no excluded type on the way, is in the tree; and
  everything in the tree is owned by the root, so nothing that only refers to the root or lies behind an excluded
  type is deleted with it. The two relations differ only by children that stand right in a definition.
\<close>

theorem delete_tree_is_owned:
  assumes "schema_key schema = Some key" and "obj_get default_excludes key = Some ex" and "key \<notin> set ex"
    and "truthy (denormalize guid schema state)" and "\<not> is_array (denormalize guid schema state)"
  shows "(child_owns False ex schema (denormalize guid schema state) p \<longrightarrow>
      in_flat_tree (getFlatTree denormalize guid schema state) p)
    \<and> (in_flat_tree (getFlatTree denormalize guid schema state) p \<longrightarrow>
      child_owns True ex schema (denormalize guid schema state) p)"
proof -
  have tree: "getFlatTree denormalize guid schema state = applySchemaToTree ex schema (denormalize guid schema state) [] True"
    using assms by (cases schema) (simp_all add: getFlatTree_def build.simps Let_def)
  show ?thesis
    using owned_in_tree(2)[of False ex schema _ p "[]" True] tree_only_owned(2)[of ex schema _ "[]" True p] assms(4)
    unfolding tree by (auto simp: in_flat_tree_def)
qed

text \<open>An application of a space goes with the organization of the space.\<close>

theorem delete_tree_is_owned_witness:
  "in_flat_tree (getFlatTree (\<lambda>guid schema state. js_at state guid) ''o1'' OrganizationSchema
      [(''o1'', JObj [(''entity'', JObj [(''spaces'', JArr [JObj [(''entity'', JObj [(''apps'', JArr [JObj [(''entity'', JObj []),
          (''metadata'', JObj [(''guid'', JStr ''a1'')])]])]), (''metadata'', JObj [(''guid'', JStr ''s1'')])]])])])])
     (''application'', ''a1'')"
proof -
  let ?app = "JObj [(''entity'', JObj []), (''metadata'', JObj [(''guid'', JStr ''a1'')])]"
  let ?space = "JObj [(''entity'', JObj [(''apps'', JArr [?app])]), (''metadata'', JObj [(''guid'', JStr ''s1'')])]"
  let ?org = "JObj [(''entity'', JObj [(''spaces'', JArr [?space])])]"
  let ?ex = "[''domain'', ''quota_definition'', ''private_domains'']"
  have "walk_owns False ?ex (ArraySchema ApplicationWithoutSpaceEntitySchema) (JArr [?app])
      (''application'', js_key (id_of (eo_idAttribute guid_options) ?app))"
    by (rule self) (auto simp: ApplicationWithoutSpaceEntitySchema_def nodes_def is_array_def)
  then have app: "walk_owns False ?ex (ArraySchema ApplicationWithoutSpaceEntitySchema) (JArr [?app]) (''application'', ''a1'')"
    by (simp add: guid_options_def resource_guid_defs)
  let ?children = "PlainSchema (obj_spread coreSpaceSchemaParams [(''apps'', ArraySchema ApplicationWithoutSpaceEntitySchema)])"
  have "walk_owns False ?ex ?children (js_field ?space ''entity'') (''application'', ''a1'')"
    by (rule plain[where k = "''apps''"]) (use app in \<open>auto simp: is_array_def coreSpaceSchemaParams_def\<close>)
  then have "child_owns False ?ex SpaceSchema ?space (''application'', ''a1'')"
    unfolding SpaceSchema_def by (intro below[where k = "''entity''"]) (auto simp: coreSpaceSchemaParams_def)
  then have space: "walk_owns False ?ex (ArraySchema SpaceSchema) (JArr [?space]) (''application'', ''a1'')"
    by (intro child[where e' = ?space]) (auto simp: SpaceSchema_def nodes_def is_array_def)
  let ?org_children = "PlainSchema (obj_spread coreOrgSchemaParams
     [(''spaces'', ArraySchema SpaceSchema), (''users'', ArraySchema (user_role_schema ''users'')),
      (''managers'', ArraySchema (user_role_schema ''managers'')),
      (''billing_managers'', ArraySchema (user_role_schema ''billing_managers'')),
      (''auditors'', ArraySchema (user_role_schema ''auditors''))])"
  have "walk_owns False ?ex ?org_children (js_field ?org ''entity'') (''application'', ''a1'')"
    by (rule plain[where k = "''spaces''"]) (use space in \<open>auto simp: is_array_def coreOrgSchemaParams_def\<close>)
  then have owned: "child_owns False ?ex OrganizationSchema ?org (''application'', ''a1'')"
    unfolding OrganizationSchema_def by (intro below[where k = "''entity''"]) (auto simp: coreOrgSchemaParams_def)
  show ?thesis
    using delete_tree_is_owned[of OrganizationSchema "''organization''" ?ex "\<lambda>guid schema state. js_at state guid" "''o1''"
        "[(''o1'', ?org)]" "(''application'', ''a1'')"] owned
    by (simp add: default_excludes_def is_array_def js_at_def OrganizationSchema_def)
qed

subsection \<open>RecursiveDeleteEffect\<close>

text \<open>
  The requests the effect answers, sent by the API effects around a delete request. The cache of trees by guid is
  the effect's state; the state of the store is the one at the time of the request.
\<close>

datatype RecursiveDeleteRequest =
    RecursiveDelete string schema
  | RecursiveDeleteComplete string string schema
  | RecursiveDeleteFailed string string schema

fun delete_guid :: "RecursiveDeleteRequest \<Rightarrow> string" where
  "delete_guid (RecursiveDelete g _) = g"
| "delete_guid (RecursiveDeleteComplete g _ _) = g"
| "delete_guid (RecursiveDeleteFailed g _ _) = g"

fun delete_schema :: "RecursiveDeleteRequest \<Rightarrow> schema" where
  "delete_schema (RecursiveDelete _ s) = s"
| "delete_schema (RecursiveDeleteComplete _ _ s) = s"
| "delete_schema (RecursiveDeleteFailed _ _ s) = s"

definition getTree ::
  "(string \<Rightarrow> schema \<Rightarrow> (string, js) obj \<Rightarrow> js) \<Rightarrow> (string, IFlatTree) obj \<Rightarrow> RecursiveDeleteRequest \<Rightarrow>
   (string, js) obj \<Rightarrow> IFlatTree" where
  "getTree denormalize entityTreeCache action state =
     (case obj_get entityTreeCache (delete_guid action) of
        Some tree \<Rightarrow> tree
      | None \<Rightarrow> getFlatTree denormalize (delete_guid action) (delete_schema action) state)"

definition DeleteApplication :: "string \<Rightarrow> string \<Rightarrow> ApiAction" where
  "DeleteApplication guid endpointGuid =
     (entity_action ''application'' guid)
       \<lparr>aa_type := ''API_REQUEST_START'', aa_endpointGuid := Some endpointGuid, aa_method := JStr ''delete''\<rparr>"

text \<open>\<open>deleteSuccessApiActionGenerators\<close> knows applications only, and is given the guid of the deleted root.\<close>

definition deleteSuccessApiAction :: "string \<Rightarrow> string \<Rightarrow> string \<Rightarrow> Action list" where
  "deleteSuccessApiAction key guid endpointGuid =
     (if key = ''application''
      then [RequestA (APISuccessOrFailedAction DELETE_APP_SUCCESS (DeleteApplication guid endpointGuid) JUndef)]
      else [])"

definition recursiveDeleteEffect ::
  "(string \<Rightarrow> schema \<Rightarrow> (string, js) obj \<Rightarrow> js) \<Rightarrow> (string, IFlatTree) obj \<Rightarrow> RecursiveDeleteRequest \<Rightarrow>
   (string, js) obj \<Rightarrow> Action list \<times> (string, IFlatTree) obj" where
  "recursiveDeleteEffect denormalize entityTreeCache action state =
     (let tree = getTree denormalize entityTreeCache action state in
      (case action of
         RecursiveDelete guid _ \<Rightarrow> [RecursiveA (SetTreeDeleting guid tree)]
       | RecursiveDeleteComplete guid endpointGuid _ \<Rightarrow>
           RecursiveA (SetTreeDeleted guid tree)
           # concat (map (\<lambda>key. deleteSuccessApiAction key guid endpointGuid @ [PaginationA (ClearPaginationOfType key)])
               (obj_keys tree))
       | RecursiveDeleteFailed guid _ _ \<Rightarrow> [RecursiveA (ResetTreeDelete guid tree)],
       obj_set (delete_guid action) tree entityTreeCache))"

text \<open>A sequence of requests, each with the store at its time, and what the effect dispatches for each.\<close>

fun run_deletes ::
  "(string \<Rightarrow> schema \<Rightarrow> (string, js) obj \<Rightarrow> js) \<Rightarrow> (string, IFlatTree) obj \<Rightarrow>
   (RecursiveDeleteRequest \<times> (string, js) obj) list \<Rightarrow> Action list list" where
  "run_deletes denormalize cache [] = []"
| "run_deletes denormalize cache ((action, state) # rest) =
     (case recursiveDeleteEffect denormalize cache action state of
        (actions, cache') \<Rightarrow> actions # run_deletes denormalize cache' rest)"

text \<open>The tree an action of the effect carries, if it carries one.\<close>

fun action_tree :: "Action \<Rightarrow> (string \<times> IFlatTree) option" where
  "action_tree (RecursiveA (SetTreeDeleting g t)) = Some (g, t)"
| "action_tree (RecursiveA (SetTreeDeleted g t)) = Some (g, t)"
| "action_tree (RecursiveA (ResetTreeDelete g t)) = Some (g, t)"
| "action_tree _ = None"

lemma effect_tree:
  "recursiveDeleteEffect dn c a st = (as, c') \<Longrightarrow>
    (\<exists>x xs. as = x # xs \<and> action_tree x = Some (delete_guid a, getTree dn c a st) \<and> list_all (\<lambda>y. action_tree y = None) xs)
    \<and> obj_get c' (delete_guid a) = Some (getTree dn c a st)
    \<and> (\<forall>g. g \<noteq> delete_guid a \<longrightarrow> obj_get c' g = obj_get c g)"
  by (cases a) (auto simp: recursiveDeleteEffect_def Let_def list_all_iff deleteSuccessApiAction_def split: if_splits)

lemma remembered_tree:
  assumes "obj_get c g = Some tree" and "i < length rs" and "delete_guid (fst (rs ! i)) = g"
  shows "action_tree (hd (run_deletes dn c rs ! i)) = Some (g, tree)"
  using assms
proof (induction rs arbitrary: c i)
  case (Cons r rs)
  obtain a st where r: "r = (a, st)" by force
  obtain as c' where eff: "recursiveDeleteEffect dn c a st = (as, c')" by force
  from effect_tree[OF eff] obtain x xs where as: "as = x # xs" "action_tree x = Some (delete_guid a, getTree dn c a st)"
    and c': "obj_get c' (delete_guid a) = Some (getTree dn c a st)"
      "\<forall>g. g \<noteq> delete_guid a \<longrightarrow> obj_get c' g = obj_get c g" by blast
  have kept: "obj_get c' g = Some tree"
    using c' Cons.prems(1) by (cases "g = delete_guid a") (auto simp: getTree_def)
  show ?case
  proof (cases i)
    case 0
    then show ?thesis using Cons.prems as eff by (auto simp: r getTree_def)
  next
    case (Suc j)
    then show ?thesis using Cons.IH[OF kept, of j] Cons.prems eff by (simp add: r)
  qed
qed simp

text \<open>
  All actions about one deleted entity carry one tree: from the first request about a guid on, every later
  request about it, whatever happened to the store in between, dispatches the tree that was computed then. So the
  entities marked as being deleted are exactly those that are dropped or reset afterwards; but a delete that is
  tried again after a failure uses the old tree too.
\<close>

theorem delete_uses_first_tree:
  assumes "obj_get cache (delete_guid action) = None"
    and "i < length later" and "delete_guid (fst (later ! i)) = delete_guid action"
  shows "action_tree (hd (hd (run_deletes denormalize cache ((action, state) # later)))) =
      Some (delete_guid action, getFlatTree denormalize (delete_guid action) (delete_schema action) state)
    \<and> action_tree (hd (run_deletes denormalize cache ((action, state) # later) ! Suc i)) =
        Some (delete_guid action, getFlatTree denormalize (delete_guid action) (delete_schema action) state)"
proof -
  obtain as c' where eff: "recursiveDeleteEffect denormalize cache action state = (as, c')" by force
  have tree: "getTree denormalize cache action state = getFlatTree denormalize (delete_guid action) (delete_schema action) state"
    using assms(1) by (simp add: getTree_def)
  note first = effect_tree[OF eff, unfolded tree]
  show ?thesis
    using first remembered_tree[OF _ assms(2,3), of c'] eff by auto
qed

theorem delete_uses_first_tree_witness:
  "action_tree (hd (run_deletes (\<lambda>guid schema state. JUndef) []
      [(RecursiveDelete ''s1'' SpaceSchema, []), (RecursiveDeleteFailed ''s1'' ''cf'' SpaceSchema, [(''space'', JObj [])])]
      ! 1)) = Some (''s1'', [])"
  using delete_uses_first_tree[of "[]" "RecursiveDelete ''s1'' SpaceSchema" 0
      "[(RecursiveDeleteFailed ''s1'' ''cf'' SpaceSchema, [(''space'', JObj [])])]" "\<lambda>guid schema state. JUndef" "[]"]
  by (simp add: getFlatTree_def build.simps Let_def split: option.splits)

end
