(* ===== verification/Internal_Events.thy ===== *)
theory Internal_Events
  imports Prelude
begin

section \<open>Internal events: internal-events.reducer.ts, internal-events.actions.ts, internal-event.monitor.ts\<close>

text \<open>
  Errors of API requests are recorded as events of their endpoint, newest first, and a monitor turns the recent
  ones into the list of endpoints with a problem. The time (\<open>moment.now()\<close>, in milliseconds) is an argument.
\<close>

subsection \<open>Types and actions\<close>

datatype InternalEventSeverity = EventError | EventWarning | EventInfo | EventSystem

record InternalEventState =
  ie_message :: "string option"
  ie_timestamp :: "int option"
  ie_eventCode :: string
  ie_severity :: "InternalEventSeverity option"
  ie_metadata :: "(string, js) obj"

type_synonym InternalEventSubjectState = "(string, InternalEventState list) obj"
type_synonym InternalEventsState = "(string, InternalEventSubjectState) obj"

datatype InternalEventAction =
    SendEvent string string InternalEventState
  | ClearEvents string string "int option" "string option"

definition SendEventAction :: "int \<Rightarrow> string \<Rightarrow> string \<Rightarrow> InternalEventState \<Rightarrow> InternalEventAction" where
  "SendEventAction now eventType eventSubjectId eventState =
     SendEvent eventType eventSubjectId
       (eventState\<lparr>ie_timestamp := Some now,
          ie_severity := Some (case ie_severity eventState of Some s \<Rightarrow> s | None \<Rightarrow> EventSystem)\<rparr>)"

definition SendClearEventAction ::
  "string \<Rightarrow> string \<Rightarrow> int option \<Rightarrow> string option \<Rightarrow> InternalEventAction result" where
  "SendClearEventAction eventType eventSubjectId timestamp eventCode =
     (if \<not> truthy_num timestamp \<and> \<not> truthy_str eventCode
      then Inl (ThrownError ''Either a timestamp or event code is needed to clear events'')
      else Inr (ClearEvents eventType eventSubjectId timestamp eventCode))"

subsection \<open>The reducer\<close>

definition internalEventsDefault :: InternalEventsState where
  "internalEventsDefault = [(''global'', []), (''endpoint'', [])]"

definition getEvents :: "InternalEventsState \<Rightarrow> string \<Rightarrow> string \<Rightarrow> InternalEventState list" where
  "getEvents state eventSubjectId eventType =
     (case Option.bind (obj_get state eventType) (\<lambda>t. obj_get t eventSubjectId) of Some es \<Rightarrow> es | None \<Rightarrow> [])"

definition setSubjectEvents ::
  "InternalEventsState \<Rightarrow> string \<Rightarrow> string \<Rightarrow> InternalEventState list \<Rightarrow> InternalEventsState" where
  "setSubjectEvents state eventSubjectId eventType events =
     obj_set eventType (obj_set eventSubjectId events
       (obj_spread [] (case obj_get state eventType of Some t \<Rightarrow> t | None \<Rightarrow> []))) (obj_spread [] state)"

text \<open>
  \<open>clearEvents\<close> is never reached: the reducer calls it on \<open>this\<close>, which is not the module, and the call throws.
\<close>

definition clearEvents :: "InternalEventsState \<Rightarrow> string \<Rightarrow> string \<Rightarrow> int option \<Rightarrow> string option \<Rightarrow> InternalEventsState" where
  "clearEvents state eventType eventSubjectId timestamp eventCode =
     setSubjectEvents state eventSubjectId eventType (filter (\<lambda>event.
         if truthy_num timestamp then (case ie_timestamp event of Some t \<Rightarrow> the timestamp < t | None \<Rightarrow> False)
         else if truthy_str eventCode then the eventCode \<noteq> ie_eventCode event
         else True)
       (getEvents state eventSubjectId eventType))"

fun internalEventReducer :: "InternalEventsState \<Rightarrow> InternalEventAction \<Rightarrow> InternalEventsState result" where
  "internalEventReducer state (SendEvent eventType eventSubjectId eventState) =
     Inr (setSubjectEvents state eventSubjectId eventType (eventState # getEvents state eventSubjectId eventType))"
| "internalEventReducer state (ClearEvents _ _ _ _) = Inl TypeError"

subsection \<open>InternalEventMonitor\<close>

text \<open>The events of a type, of all subjects or of the given ones.\<close>

definition monitored_events ::
  "InternalEventsState \<Rightarrow> string \<Rightarrow> string list option \<Rightarrow> InternalEventSubjectState" where
  "monitored_events events eventType ids =
     (let allEvents = (case obj_get events eventType of Some t \<Rightarrow> t | None \<Rightarrow> []) in
      case ids of
        None \<Rightarrow> allEvents
      | Some gs \<Rightarrow> fold (\<lambda>g evs. case obj_get allEvents g of Some es \<Rightarrow> obj_set g es evs | None \<Rightarrow> evs) gs [])"

text \<open>\<open>moment().subtract(minutes, 'minutes').unix() * 1000\<close>: whole seconds.\<close>

definition minutes_ago :: "int \<Rightarrow> int \<Rightarrow> int" where
  "minutes_ago now minutes = (now - minutes * 60000) div 1000 * 1000"

definition is_recent_error :: "int \<Rightarrow> InternalEventState \<Rightarrow> bool" where
  "is_recent_error time event \<longleftrightarrow>
     ie_severity event = Some EventError \<and> take 1 (ie_eventCode event) = ''5''
     \<and> (case ie_timestamp event of Some t \<Rightarrow> t > time | None \<Rightarrow> False)"

definition hasErroredOverTime :: "int \<Rightarrow> int \<Rightarrow> InternalEventSubjectState \<Rightarrow> string list" where
  "hasErroredOverTime now minutes state =
     filter (\<lambda>key. \<exists>event \<in> set (the (obj_get state key)). is_recent_error (minutes_ago now minutes) event)
       (obj_keys state)"

subsection \<open>What the monitor sees of a run\<close>

lemma getEvents_set:
  assumes "wf_obj state" and "\<And>t. obj_get state type = Some t \<Longrightarrow> wf_obj t"
  shows "getEvents (setSubjectEvents state subj type es) g ty =
    (if ty = type \<and> g = subj then es else getEvents state g ty)"
  using assms by (auto simp: getEvents_def setSubjectEvents_def obj_get_spread split: option.splits)

definition wf_events :: "InternalEventsState \<Rightarrow> bool" where
  "wf_events state \<longleftrightarrow> wf_obj state \<and> (\<forall>type t. obj_get state type = Some t \<longrightarrow> wf_obj t)"

lemma wf_events_set: "wf_events s \<Longrightarrow> wf_events (setSubjectEvents s g ty es)"
  by (auto simp: wf_events_def setSubjectEvents_def obj_get_spread intro!: wf_obj_set wf_obj_spread split: option.splits if_splits)

text \<open>A run of sends: every send \<open>(type, subject, event)\<close> in order.\<close>

definition sends :: "(string \<times> string \<times> InternalEventState) list \<Rightarrow> InternalEventAction list" where
  "sends evs = map (\<lambda>(type, g, e). SendEvent type g e) evs"

definition sent_to :: "string \<Rightarrow> string \<Rightarrow> (string \<times> string \<times> InternalEventState) list \<Rightarrow> InternalEventState list" where
  "sent_to type g evs = map (\<lambda>(_, _, e). e) (filter (\<lambda>(type', g', _). type' = type \<and> g' = g) evs)"

lemma run_sends:
  "wf_events s \<Longrightarrow> \<exists>s'. res_fold internalEventReducer s (sends evs) = Inr s' \<and> wf_events s'
    \<and> (\<forall>type g. getEvents s' g type = rev (sent_to type g evs) @ getEvents s g type)"
proof (induction evs arbitrary: s)
  case (Cons ev evs)
  obtain ty g e where ev: "ev = (ty, g, e)" by (cases ev)
  let ?s = "setSubjectEvents s g ty (e # getEvents s g ty)"
  have wf: "wf_events ?s" using Cons.prems by (rule wf_events_set)
  have get: "getEvents ?s g' ty' = (if ty' = ty \<and> g' = g then e # getEvents s g ty else getEvents s g' ty')" for g' ty'
    using Cons.prems by (intro getEvents_set) (auto simp: wf_events_def)
  from Cons.IH[OF wf] obtain s' where "res_fold internalEventReducer ?s (sends evs) = Inr s'" "wf_events s'"
    "\<forall>type g. getEvents s' g type = rev (sent_to type g evs) @ getEvents ?s g type" by blast
  then show ?case by (auto simp: sends_def sent_to_def ev get)
qed (simp add: sends_def sent_to_def)

text \<open>
  The problem list of the endpoints. After any run of events from the initial state, the monitor lists an
  endpoint exactly when one of the events sent about it is an error with a code starting with 5 that is younger
  than the given minutes; events of other subjects and types never count.
\<close>

theorem errored_over_time:
  assumes "res_fold internalEventReducer internalEventsDefault (sends evs) = Inr s"
  shows "g \<in> set (hasErroredOverTime now minutes (monitored_events s ''endpoint'' None)) \<longleftrightarrow>
    (\<exists>event. (''endpoint'', g, event) \<in> set evs \<and> is_recent_error (minutes_ago now minutes) event)"
proof -
  have "wf_events internalEventsDefault" by (auto simp: wf_events_def internalEventsDefault_def split: if_splits)
  moreover have "getEvents internalEventsDefault g ''endpoint'' = []"
    by (simp add: getEvents_def internalEventsDefault_def)
  ultimately have s: "getEvents s g ''endpoint'' = rev (sent_to ''endpoint'' g evs)"
    using run_sends[of internalEventsDefault evs] assms by auto
  have "g \<in> set (hasErroredOverTime now minutes (monitored_events s ''endpoint'' None)) \<longleftrightarrow>
      (\<exists>event \<in> set (getEvents s g ''endpoint''). is_recent_error (minutes_ago now minutes) event)"
    by (cases "Option.bind (obj_get s ''endpoint'') (\<lambda>t. obj_get t g)"; cases "obj_get s ''endpoint''")
      (simp_all add: hasErroredOverTime_def monitored_events_def getEvents_def set_obj_keys)
  then show ?thesis unfolding s by (force simp: sent_to_def)
qed

definition error_event :: "int \<Rightarrow> InternalEventState" where
  "error_event t = \<lparr>ie_message = None, ie_timestamp = Some t, ie_eventCode = ''502'', ie_severity = Some EventError, ie_metadata = []\<rparr>"

theorem errored_over_time_witness:
  "\<exists>s. res_fold internalEventReducer internalEventsDefault
      (sends [(''endpoint'', ''cf1'', error_event 1000), (''endpoint'', ''cf2'', error_event 400000)]) = Inr s
    \<and> ''cf1'' \<notin> set (hasErroredOverTime 600000 5 (monitored_events s ''endpoint'' None))
    \<and> ''cf2'' \<in> set (hasErroredOverTime 600000 5 (monitored_events s ''endpoint'' None))"
proof -
  let ?evs = "[(''endpoint'', ''cf1'', error_event 1000), (''endpoint'', ''cf2'', error_event 400000)]"
  obtain s where s: "res_fold internalEventReducer internalEventsDefault (sends ?evs) = Inr s"
    by (simp add: sends_def)
  have "''cf1'' \<notin> set (hasErroredOverTime 600000 5 (monitored_events s ''endpoint'' None))"
    unfolding errored_over_time[OF s] by (simp add: is_recent_error_def error_event_def minutes_ago_def)
  moreover have "''cf2'' \<in> set (hasErroredOverTime 600000 5 (monitored_events s ''endpoint'' None))"
    unfolding errored_over_time[OF s] by (auto simp: is_recent_error_def error_event_def minutes_ago_def)
  ultimately show ?thesis using s by blast
qed

end
