(* ===== verification/Api_Effects.thy ===== *)
theory Api_Effects
  imports Api_Response Entity_Relations Schema_Tree Requests Internal_Events
begin

section \<open>API requests: api.effects.ts, request.effects.ts, request-helpers.ts\<close>

text \<open>
  An action of type \<open>API_REQUEST_START\<close> becomes a request to the backend: \<open>APIEffect\<close> builds its parameters from
  the action and the pagination section, picks the endpoints, and turns the answer into the actions the reducers
  see. A good answer is validated first (\<open>RequestEffect\<close>), which may fetch missing relations, and then completes
  the request. What an effect dispatches is a list of \<open>Dispatched\<close>, in order. The HTTP exchange and the outcome of
  the validation are arguments.
\<close>

record APIResponse =
  ar_response :: "NormalizedResponse option"
  ar_totalResults :: "int option"
  ar_totalPages :: "int option"

datatype Dispatched =
    StoreAction Action
  | EventAction InternalEventAction
  | RecursiveRequest RecursiveDeleteRequest
  | ValidateEntitiesStart ICFAction "string list" bool "APIResponse option"

subsection \<open>request-helpers.ts\<close>

text \<open>The type of the n-th event of an action; ngrx refuses an action without a type by throwing a \<open>TypeError\<close>.\<close>

definition event_type :: "ICFAction \<Rightarrow> nat \<Rightarrow> string result" where
  "event_type a n = (if n < length (ca_actions a) then Inr (ca_actions a ! n) else Inl TypeError)"

definition getActionFromString :: "string \<Rightarrow> Action" where
  "getActionFromString type = OtherA type None None"

definition startApiRequest :: "ICFAction \<Rightarrow> ApiRequestTypes \<Rightarrow> Dispatched list result" where
  "startApiRequest apiAction requestType =
     res_bind (event_type apiAction 0) (\<lambda>type.
       Inr [StoreAction (RequestA (StartRequestAction (api_action apiAction) requestType)),
            StoreAction (getActionFromString type)])"

text \<open>The response as the value an event carries.\<close>

definition response_value :: "NormalizedResponse option \<Rightarrow> js" where
  "response_value r =
     (case r of
        None \<Rightarrow> JNull
      | Some n \<Rightarrow> JObj [(''entities'', case nr_entities n of Some es \<Rightarrow> JObj es | None \<Rightarrow> JUndef),
          (''result'', JArr (map JStr (nr_result n)))])"

definition completeApiRequest :: "ICFAction \<Rightarrow> APIResponse \<Rightarrow> ApiRequestTypes \<Rightarrow> Dispatched list result" where
  "completeApiRequest apiAction apiResponse requestType =
     res_bind (event_type apiAction 1) (\<lambda>type.
       Inr [StoreAction (RequestA (APISuccessOrFailedAction type (api_action apiAction) (response_value (ar_response apiResponse)))),
            StoreAction (RequestA (WrapperRequestActionSuccess (ar_response apiResponse) (api_action apiAction) requestType
              (ar_totalResults apiResponse) (ar_totalPages apiResponse)))])"

text \<open>The message of an error: a text, or none.\<close>

definition message_text :: "js \<Rightarrow> string" where
  "message_text v = (case v of JStr s \<Rightarrow> s | _ \<Rightarrow> [])"

definition getFailApiRequestActions :: "ICFAction \<Rightarrow> js \<Rightarrow> ApiRequestTypes \<Rightarrow> Dispatched list result" where
  "getFailApiRequestActions apiAction err requestType =
     res_bind (event_type apiAction 2) (\<lambda>type.
       Inr [StoreAction (RequestA (APISuccessOrFailedAction type (api_action apiAction) (js_field err ''message''))),
            StoreAction (RequestA (WrapperRequestActionFailed (message_text (js_field err ''message''))
              (api_action apiAction) requestType))])"

definition failApiRequest :: "ICFAction \<Rightarrow> js \<Rightarrow> ApiRequestTypes \<Rightarrow> Dispatched list result" where
  "failApiRequest = getFailApiRequestActions"

subsection \<open>Building the request\<close>

definition param_name :: "param_call \<Rightarrow> string" where
  "param_name c = (case c of AppendParam k _ \<Rightarrow> k | SetParam k _ \<Rightarrow> k)"

definition has_param :: "param_call list \<Rightarrow> string \<Rightarrow> bool" where
  "has_param calls k \<longleftrightarrow> (\<exists>c \<in> set calls. param_name c = k)"

text \<open>
  \<open>setRequestParams\<close> returns what is left of the object it was given: the query \<open>q\<close> is deleted from it.
\<close>

definition setRequestParams ::
  "param_call list \<Rightarrow> PaginationParam \<Rightarrow> (param_call list \<times> PaginationParam) result" where
  "setRequestParams requestParams params =
     (case obj_get params ''q'' of
        None \<Rightarrow> Inr (requestParams @ map (\<lambda>(k, v). SetParam k v) params, params)
      | Some (QParams qs) \<Rightarrow>
          (let rest = obj_del ''q'' (obj_del ''qString'' params) in
           Inr (requestParams @ map (AppendParam ''q'') (qParamsToString qs) @ map (\<lambda>(k, v). SetParam k v) rest, rest))
      | Some (Param _) \<Rightarrow> Inl TypeError)"

definition number_text :: "int \<Rightarrow> string" where
  "number_text n = js_key (JNum n)"

definition getPaginationParams :: "PaginationEntityState option \<Rightarrow> PaginationParam" where
  "getPaginationParams paginationState =
     (case paginationState of
        None \<Rightarrow> []
      | Some s \<Rightarrow> obj_set ''page'' (Param (JStr (number_text (pe_currentPage s)))) (obj_spread [] (pe_params s)))"

text \<open>The parameters of a list: the action's, the section's, and a page size if neither has one.\<close>

definition list_params ::
  "PaginationEntityState option \<Rightarrow> PaginationParam option \<Rightarrow> (param_call list \<times> PaginationParam option) result" where
  "list_params paginationState initialParams =
     res_bind (case initialParams of
         None \<Rightarrow> Inr ([], None)
       | Some ps \<Rightarrow> res_bind (setRequestParams [] ps) (\<lambda>(calls, rest). Inr (calls, Some rest))) (\<lambda>(calls, initialParams').
     res_bind (setRequestParams calls (getPaginationParams paginationState)) (\<lambda>(calls', _).
       Inr (if has_param calls' resultPerPageParam then calls'
            else calls' @ [SetParam resultPerPageParam (Param (JStr (number_text resultPerPageParamDefault)))],
            initialParams')))"

text \<open>
  The endpoints: the one of the action, or every registered one of type \<open>web\<close>; the ones being disconnected are
  deleted, from the very object of the store.
\<close>

definition is_disconnecting :: "IRequestState \<Rightarrow> string \<Rightarrow> bool result" where
  "is_disconnecting requests endpointGuid =
     (case Option.bind (obj_get requests ''endpoint'') (\<lambda>t. obj_get t endpointGuid) of
        None \<Rightarrow> Inl TypeError
      | Some r \<Rightarrow> Inr (case obj_get (ri_updating r) ''disconnecting'' of Some d \<Rightarrow> as_busy d | None \<Rightarrow> False))"

definition availableEndpoints :: "IRequestState \<Rightarrow> (string, js) obj \<Rightarrow> (string, js) obj result" where
  "availableEndpoints requests endpoints =
     res_bind (res_map (is_disconnecting requests) (obj_keys endpoints)) (\<lambda>flags.
       Inr (fold obj_del (map fst (filter snd (zip (obj_keys endpoints) flags))) endpoints))"

definition registered_web :: "js \<Rightarrow> bool result" where
  "registered_web endpoint =
     res_bind (js_prop endpoint ''registered'') (\<lambda>registered.
       Inr (truthy registered \<and> js_field endpoint ''cnsi_type'' = JStr ''web''))"

definition addBaseHeaders :: "(string, js) obj \<Rightarrow> string list result" where
  "addBaseHeaders endpoints =
     res_bind (res_map (\<lambda>(_, endpoint). registered_web endpoint) endpoints) (\<lambda>flags.
       Inr (map (\<lambda>((_, endpoint), _). js_key (js_field endpoint ''guid'')) (filter snd (zip endpoints flags))))"

text \<open>The parameters for relations: a depth of at most 2 and the names of the relations.\<close>

definition inline_parent :: "ICFAction \<Rightarrow> EntityInlineParentAction option result" where
  "inline_parent a =
     (case (ca_includeRelations a, ca_populateMissing a) of
        (Some rs, Some populate) \<Rightarrow>
          (case ca_entity a of
             None \<Rightarrow> Inl TypeError
           | Some s \<Rightarrow> Inr (Some \<lparr>ip_entity = s, ip_includeRelations = rs, ip_populateMissing = populate\<rparr>))
      | _ \<Rightarrow> Inr None)"

definition relation_calls :: "nat \<Rightarrow> string list \<Rightarrow> param_call list" where
  "relation_calls maxDepth relations =
     (if maxDepth > 0 then [SetParam ''inline-relations-depth'' (Param (JNum (if maxDepth > 2 then 2 else int maxDepth)))] else [])
     @ (if relations \<noteq> [] then [SetParam ''include-relations'' (Param (JStr (join_with '','' relations)))] else [])"

definition addRelationParams ::
  "(string list \<Rightarrow> string list) \<Rightarrow> (string, EntityTree) obj \<Rightarrow> param_call list option \<Rightarrow> ICFAction \<Rightarrow>
   (param_call list option \<times> (string, EntityTree) obj) result" where
  "addRelationParams sort_relations treeCache params action =
     res_bind (inline_parent action) (\<lambda>parent.
       case parent of
         None \<Rightarrow> Inr (params, treeCache)
       | Some p \<Rightarrow>
           (case listEntityRelations sort_relations treeCache p True of
              ((maxDepth, relations), cache) \<Rightarrow>
                Inr (Some ((case params of Some ps \<Rightarrow> ps | None \<Rightarrow> []) @ relation_calls maxDepth relations), cache)))"

text \<open>
  The store as the effect reads it, and what a prepared request changes besides: the endpoints of the store, the
  cache of relation trees, the initial parameters of the action (an object the copy of the action shares).
\<close>

record ApiStore =
  st_pagination :: PaginationState
  st_endpoints :: "(string, js) obj"
  st_requests :: IRequestState

record PreparedRequest =
  pr_url :: string
  pr_params :: "param_call list option"
  pr_endpoints :: "string list"
  pr_action :: ICFAction
  pr_storeEndpoints :: "(string, js) obj"
  pr_treeCache :: "(string, EntityTree) obj"

definition pagination_section :: "ApiStore \<Rightarrow> ICFAction \<Rightarrow> PaginationEntityState option result" where
  "pagination_section store a =
     (case Option.bind (aa_entityKey a) (obj_get (st_pagination store)) of
        None \<Rightarrow> Inl TypeError
      | Some t \<Rightarrow> Inr (obj_get t (the (aa_paginationKey a))))"

definition action_params ::
  "ApiStore \<Rightarrow> ICFAction \<Rightarrow> (param_call list option \<times> ICFAction) result" where
  "action_params store a =
     (if truthy_str (aa_paginationKey a)
      then res_bind (pagination_section store a) (\<lambda>paginationState.
           res_bind (list_params paginationState (ca_initialParams a)) (\<lambda>(calls, initialParams').
             Inr (Some calls, a\<lparr>aa_pageNumber := Some (case paginationState of Some s \<Rightarrow> pe_currentPage s | None \<Rightarrow> 1),
                                ca_initialParams := initialParams'\<rparr>)))
      else Inr (ca_params a, a))"

definition flatten_params :: "ICFAction \<Rightarrow> param_call list option \<Rightarrow> param_call list option result" where
  "flatten_params a params =
     (if \<not> ca_flattenPagination a then Inr params
      else case params of None \<Rightarrow> Inl TypeError | Some ps \<Rightarrow> Inr (Some (ps @ [SetParam ''page'' (Param (JStr ''1''))])))"

definition prepareRequest ::
  "(string list \<Rightarrow> string list) \<Rightarrow> (string, EntityTree) obj \<Rightarrow> ApiStore \<Rightarrow> ICFAction \<Rightarrow> PreparedRequest result" where
  "prepareRequest sort_relations treeCache store a =
     res_bind (action_params store a) (\<lambda>(params, actionClone).
     res_bind (if truthy_str (aa_endpointGuid a) then Inr (st_endpoints store)
               else availableEndpoints (st_requests store) (st_endpoints store)) (\<lambda>endpoints.
     res_bind (if truthy_str (aa_endpointGuid a) then Inr [the (aa_endpointGuid a)] else addBaseHeaders endpoints) (\<lambda>guids.
     res_bind (flatten_params a params) (\<lambda>params'.
     res_bind (addRelationParams sort_relations treeCache params' a) (\<lambda>(params'', cache).
       Inr \<lparr>pr_url = ''/pp/v1/proxy/v2/'' @ ca_url a, pr_params = params'', pr_endpoints = guids,
            pr_action = actionClone, pr_storeEndpoints = endpoints, pr_treeCache = cache\<rparr>)))))"

subsection \<open>The answer\<close>

definition shouldRecursivelyDelete :: "ApiRequestTypes \<Rightarrow> ICFAction \<Rightarrow> bool" where
  "shouldRecursivelyDelete requestType apiAction \<longleftrightarrow>
     requestType = DeleteType \<and> \<not> truthy_str (aa_updatingKey apiAction)"

text \<open>The request to delete the entities below the action's, where there is one to make.\<close>

definition recursive_request ::
  "(string \<Rightarrow> schema \<Rightarrow> RecursiveDeleteRequest) \<Rightarrow> ApiRequestTypes \<Rightarrow> ICFAction \<Rightarrow> Dispatched list result" where
  "recursive_request f requestType a =
     (if shouldRecursivelyDelete requestType a
      then res_bind (entityFactory (js_key (js_str (aa_entityKey a)))) (\<lambda>s.
        Inr [RecursiveRequest (f (js_key (js_str (aa_guid a))) s)])
      else Inr [])"

definition endpoint_text :: "ICFAction \<Rightarrow> string" where
  "endpoint_text a = js_key (js_str (aa_endpointGuid a))"

definition api_error_event :: "int \<Rightarrow> APIErrorCheck \<Rightarrow> InternalEventAction" where
  "api_error_event now check =
     SendEventAction now ''endpoint'' (ec_guid check)
       \<lparr>ie_message = Some ''API request error'', ie_timestamp = None, ie_eventCode = ec_errorCode check,
        ie_severity = Some EventError,
        ie_metadata = [(''url'', JStr (ec_url check)), (''errorResponse'', ec_errorResponse check)]\<rparr>"

definition handleApiEvents :: "int \<Rightarrow> APIErrorCheck list \<Rightarrow> Dispatched list" where
  "handleApiEvents now errorChecks = map (\<lambda>check. EventAction (api_error_event now check)) (filter ec_error errorChecks)"

definition error_message :: "APIErrorCheck \<Rightarrow> js" where
  "error_message check =
     (if truthy (ec_errorResponse check)
      then js_or (js_field (ec_errorResponse check) ''description'') (JStr (ec_errorCode check))
      else JStr (ec_errorCode check))"

definition endpoint_failed :: "ICFAction \<Rightarrow> APIErrorCheck \<Rightarrow> Dispatched result" where
  "endpoint_failed a check =
     res_bind (event_type a 2) (\<lambda>type.
       Inr (StoreAction (RequestA (APISuccessOrFailedAction type ((api_action a)\<lparr>aa_endpointGuid := Some (ec_guid check)\<rparr>)
         (error_message check)))))"

text \<open>
  What follows an answer. With a single check that is an error the request has failed; a check of one of several
  endpoints is reported, and the request goes on, also when all of them failed.
\<close>

definition handleResponse :: "int \<Rightarrow> ICFAction \<Rightarrow> ApiRequestTypes \<Rightarrow> MultiResponse \<Rightarrow> Dispatched list result" where
  "handleResponse now actionClone requestType response =
     (case mr_errorsCheck response of
        None \<Rightarrow> Inl TypeError
      | Some checks \<Rightarrow>
          res_bind (res_map (endpoint_failed actionClone) (filter ec_error checks)) (\<lambda>failures.
            let events = (if requestType = FetchType then handleApiEvents now checks else []) in
            if length checks = 1 \<and> ec_error (hd checks)
            then res_bind (recursive_request (\<lambda>g. RecursiveDeleteFailed g (endpoint_text actionClone)) requestType actionClone) (\<lambda>deletes.
              Inr (events @ failures @ deletes @
                [StoreAction (RequestA (WrapperRequestActionFailed (message_text (error_message (hd checks)))
                   ((api_action actionClone)\<lparr>aa_endpointGuid := Some (ec_guid (hd checks))\<rparr>) requestType))]))
            else res_bind (recursive_request (\<lambda>g. RecursiveDeleteComplete g (endpoint_text actionClone)) requestType actionClone) (\<lambda>deletes.
              Inr (events @ failures @ deletes @
                [ValidateEntitiesStart actionClone (nr_result (mr_entities response)) True
                   (Some \<lparr>ar_response = Some (mr_entities response), ar_totalResults = mr_totalResults response,
                          ar_totalPages = mr_totalPages response\<rparr>)]))))"

text \<open>
  An exception of the exchange or of the handling: an event for every endpoint of the request (\<open>''.split(',')\<close> is one
  empty name), and the failure.
\<close>

definition request_error_event :: "int \<Rightarrow> ICFAction \<Rightarrow> js \<Rightarrow> string \<Rightarrow> InternalEventAction" where
  "request_error_event now a err endpoint =
     SendEventAction now ''endpoint'' endpoint
       \<lparr>ie_message = Some ''Jetstream API request error'', ie_timestamp = None,
        ie_eventCode = (if truthy (js_field err ''status'') then js_key (js_field err ''status'') else ''500''),
        ie_severity = Some EventError,
        ie_metadata = [(''error'', err), (''url'', js_or (js_field err ''url'') (JStr (ca_url a)))]\<rparr>"

definition handleError ::
  "int \<Rightarrow> ICFAction \<Rightarrow> ApiRequestTypes \<Rightarrow> string list \<Rightarrow> js \<Rightarrow> Dispatched list result" where
  "handleError now actionClone requestType guids err =
     (let endpoints = split_on (CHR '','') (join_with '','' guids);
          events = map (\<lambda>endpoint. EventAction (request_error_event now actionClone err endpoint)) endpoints in
      res_bind (getFailApiRequestActions actionClone err requestType) (\<lambda>failed.
      res_bind (recursive_request (\<lambda>g. RecursiveDeleteFailed g (endpoint_text actionClone)) requestType actionClone) (\<lambda>deletes.
        Inr (events @ deletes @ failed))))"

text \<open>
  The exchange ends with an error value or with a body (\<open>null\<close> where it is not JSON). The text of an exception of
  the engine is a parameter (\<open>describe\<close>).
\<close>

datatype Reply = HttpError js | HttpBody js

definition answerRequest ::
  "(js list \<Rightarrow> schema list \<Rightarrow> NormalizedResponse) \<Rightarrow> (js_error \<Rightarrow> string) \<Rightarrow> int \<Rightarrow> PreparedRequest \<Rightarrow>
   ApiRequestTypes \<Rightarrow> Reply \<Rightarrow> Dispatched list result" where
  "answerRequest norm describe now p requestType reply =
     (let a = pr_action p; failure = handleError now a requestType (pr_endpoints p) in
      case reply of
        HttpError err \<Rightarrow> failure err
      | HttpBody resData \<Rightarrow>
          (case res_bind (handleMultiEndpoints norm resData a) (handleResponse now a requestType) of
             Inr dispatched \<Rightarrow> Inr dispatched
           | Inl e \<Rightarrow> failure (JObj [(''message'', JStr (describe e))])))"

definition requestTypeOf :: "ICFAction \<Rightarrow> ApiRequestTypes" where
  "requestTypeOf a = getRequestTypeFromMethod (aa_method a)"

definition beginRequest :: "ICFAction \<Rightarrow> Dispatched list result" where
  "beginRequest a =
     res_bind (recursive_request RecursiveDelete (requestTypeOf a) a) (\<lambda>deletes.
     res_bind (startApiRequest a (requestTypeOf a)) (\<lambda>started.
       Inr (deletes @ started)))"

subsection \<open>The validation and the end of a request: request.effects.ts\<close>

text \<open>
  The outcome of a validation, having started requests of its own or not: it finished with a response, or failed.
\<close>

datatype ValidationOutcome = Validated bool "APIResponse option" | ValidationError bool js

definition requestUpdate :: "ICFAction \<Rightarrow> bool \<Rightarrow> js \<Rightarrow> Dispatched list" where
  "requestUpdate apiAction busy err =
     (if truthy_str (aa_paginationKey apiAction)
      then [StoreAction (PaginationA (SetPageBusy (api_action apiAction) busy err))]
      else [StoreAction (RequestA (UpdateCfAction
        (if busy then (api_action apiAction)\<lparr>aa_updatingKey := Some rootUpdatingKey\<rparr> else api_action apiAction)
        busy (if truthy err then Some (message_text err) else None)))])"

definition clears_pagination :: "ICFAction \<Rightarrow> bool" where
  "clears_pagination a \<longleftrightarrow> \<not> truthy_str (aa_updatingKey a)
     \<and> aa_method a \<in> {JStr ''post'', JNum RequestMethod_Post, JStr ''delete'', JNum RequestMethod_Delete}"

definition completeEntities ::
  "ICFAction \<Rightarrow> APIResponse option \<Rightarrow> bool \<Rightarrow> bool \<Rightarrow> bool \<Rightarrow> Dispatched list result" where
  "completeEntities apiAction apiResponse apiRequestStarted validationStarted independentUpdates =
     (if \<not> apiRequestStarted \<and> validationStarted
      then Inr (if independentUpdates then requestUpdate apiAction False JNull else [])
      else if apiRequestStarted
      then res_bind (completeApiRequest apiAction
          (case apiResponse of Some r \<Rightarrow> r | None \<Rightarrow> \<lparr>ar_response = None, ar_totalResults = Some 0, ar_totalPages = Some 0\<rparr>)
          (requestTypeOf apiAction)) (\<lambda>completed.
        Inr (completed @
          (if clears_pagination apiAction
           then [StoreAction (PaginationA (if aa_removeEntityOnDelete apiAction
              then ClearPaginationOfEntity (js_key (js_str (aa_entityKey apiAction))) (js_key (js_str (aa_guid apiAction)))
              else ClearPaginationOfType (js_key (js_str (aa_entityKey apiAction)))))]
           else [])))
      else Inr [])"

definition validateEntities ::
  "ICFAction \<Rightarrow> bool \<Rightarrow> APIResponse option \<Rightarrow> ValidationOutcome \<Rightarrow> Dispatched list result" where
  "validateEntities apiAction apiRequestStarted apiResponse outcome =
     (case (if ca_skipValidation apiAction then Validated False apiResponse else outcome) of
        Validated started validated \<Rightarrow>
          (let independentUpdates = (\<not> apiRequestStarted \<and> started) in
           res_bind (completeEntities apiAction validated apiRequestStarted started independentUpdates) (\<lambda>completed.
             Inr ((if independentUpdates then requestUpdate apiAction True JNull else []) @ completed)))
      | ValidationError started err \<Rightarrow>
          if apiRequestStarted then getFailApiRequestActions apiAction err (requestTypeOf apiAction)
          else Inr ((if started then requestUpdate apiAction True JNull else [])
            @ requestUpdate apiAction False (js_field err ''message'')))"

text \<open>A request from its start to its end: the start, the answer, and the validation the answer asks for.\<close>

definition validationOf :: "Dispatched list \<Rightarrow> ValidationOutcome \<Rightarrow> Dispatched list result" where
  "validationOf dispatched outcome =
     res_bind (res_map (\<lambda>d. case d of
         ValidateEntitiesStart a _ started response \<Rightarrow> validateEntities a started response outcome
       | _ \<Rightarrow> Inr []) dispatched) (\<lambda>ds. Inr (concat ds))"

definition requestRun ::
  "(js list \<Rightarrow> schema list \<Rightarrow> NormalizedResponse) \<Rightarrow> (js_error \<Rightarrow> string) \<Rightarrow> int \<Rightarrow> (string list \<Rightarrow> string list) \<Rightarrow>
   (string, EntityTree) obj \<Rightarrow> ApiStore \<Rightarrow> ICFAction \<Rightarrow> Reply \<Rightarrow> ValidationOutcome \<Rightarrow> Dispatched list result" where
  "requestRun norm describe now sort_relations treeCache store a reply outcome =
     res_bind (beginRequest a) (\<lambda>begun.
     res_bind (prepareRequest sort_relations treeCache store a) (\<lambda>p.
     res_bind (answerRequest norm describe now p (requestTypeOf a) reply) (\<lambda>answered.
     res_bind (validationOf answered outcome) (\<lambda>validated.
       Inr (begun @ answered @ validated)))))"

fun store_action :: "Dispatched \<Rightarrow> Action option" where
  "store_action (StoreAction a) = Some a"
| "store_action _ = None"

definition store_actions :: "Dispatched list \<Rightarrow> Action list" where
  "store_actions ds = List.map_filter store_action ds"

subsection \<open>Every request settles\<close>

text \<open>What the section of request states does not react to.\<close>

fun inert :: "Dispatched \<Rightarrow> bool" where
  "inert (StoreAction (RequestA (APISuccessOrFailedAction _ _ _))) = True"
| "inert (StoreAction (RequestA _)) = False"
| "inert (StoreAction (PaginationA _)) = True"
| "inert (StoreAction (OtherA _ _ _)) = True"
| "inert (StoreAction _) = False"
| "inert (EventAction _) = True"
| "inert (RecursiveRequest _) = True"
| "inert (ValidateEntitiesStart _ _ _ _) = False"

lemma store_actions_simps [simp]:
  "store_actions [] = []"
  "store_actions (StoreAction x # ds) = x # store_actions ds"
  "store_actions (EventAction e # ds) = store_actions ds"
  "store_actions (RecursiveRequest r # ds) = store_actions ds"
  "store_actions (ValidateEntitiesStart a gs b resp # ds) = store_actions ds"
  "store_actions (ds @ es) = store_actions ds @ store_actions es"
  by (simp_all add: store_actions_def List.map_filter_def)

lemma inert_run: "list_all inert ds \<Longrightarrow> res_fold apiRequestReducer s (store_actions ds) = Inr s"
proof (induction ds)
  case (Cons d ds)
  then show ?case by (cases d rule: inert.cases) auto
qed simp

lemma inert_validation:
  "list_all inert ds \<Longrightarrow> validationOf ds outcome = Inr []"
proof -
  assume "list_all inert ds"
  then have "res_map (\<lambda>d. case d of
         ValidateEntitiesStart a _ started response \<Rightarrow> validateEntities a started response outcome
       | _ \<Rightarrow> Inr []) ds = Inr (map (\<lambda>_. []) ds)"
  proof (induction ds)
    case (Cons d ds)
    then show ?case by (cases d) auto
  qed simp
  then show ?thesis by (simp add: validationOf_def)
qed

lemma validationOf_append:
  "list_all inert ds \<Longrightarrow> validationOf (ds @ es) outcome = validationOf es outcome"
proof (induction ds)
  case (Cons d ds)
  then show ?case by (cases d) (auto simp: validationOf_def res_bind_def split: sum.splits)
qed simp

text \<open>The copy of the action names the same entity.\<close>

definition same_request :: "ApiAction \<Rightarrow> ApiAction \<Rightarrow> bool" where
  "same_request a b \<longleftrightarrow> aa_entityKey a = aa_entityKey b \<and> aa_guid a = aa_guid b \<and> aa_updatingKey a = aa_updatingKey b"

lemma action_params_clone:
  assumes "action_params store a = Inr (ps, b)"
  shows "same_request (api_action b) (api_action a) \<and> aa_method b = aa_method a \<and> ca_actions b = ca_actions a
    \<and> ca_skipValidation b = ca_skipValidation a"
  using assms by (auto simp: action_params_def same_request_def res_bind_Inr_iff split: if_splits)

lemma prepareRequest_clone:
  assumes "prepareRequest sr cache store a = Inr p"
  shows "same_request (api_action (pr_action p)) (api_action a) \<and> aa_method (pr_action p) = aa_method a
    \<and> ca_actions (pr_action p) = ca_actions a \<and> ca_skipValidation (pr_action p) = ca_skipValidation a"
  using assms by (auto simp: prepareRequest_def res_bind_Inr_iff dest!: action_params_clone)

lemma recursive_request_inert:
  assumes "t = DeleteType \<longrightarrow> (\<exists>sch. entityFactory (js_key (js_str (aa_entityKey a))) = Inr sch)"
  shows "\<exists>ds. recursive_request f t a = Inr ds \<and> list_all inert ds"
  using assms by (auto simp: recursive_request_def shouldRecursivelyDelete_def)

lemma endpoint_failures_inert:
  assumes "length (ca_actions a) = 3"
  shows "\<exists>ds. res_map (endpoint_failed a) cs = Inr ds \<and> list_all inert ds"
  using assms by (induction cs) (auto simp: endpoint_failed_def event_type_def)

lemma getFail_settles:
  assumes "length (ca_actions a) = 3"
  shows "\<exists>d msg. getFailApiRequestActions a err t = Inr [d, StoreAction (RequestA (WrapperRequestActionFailed msg (api_action a) t))]
    \<and> inert d"
  using assms by (simp add: getFailApiRequestActions_def event_type_def)

text \<open>Does an answered request end as a failure.\<close>

definition answer_fails ::
  "(js list \<Rightarrow> schema list \<Rightarrow> NormalizedResponse) \<Rightarrow> ICFAction \<Rightarrow> Reply \<Rightarrow> bool" where
  "answer_fails norm a reply =
     (case reply of
        HttpError _ \<Rightarrow> True
      | HttpBody resData \<Rightarrow>
          (case handleMultiEndpoints norm resData a of
             Inl _ \<Rightarrow> True
           | Inr r \<Rightarrow> (case mr_errorsCheck r of None \<Rightarrow> True | Some checks \<Rightarrow> length checks = 1 \<and> ec_error (hd checks))))"

lemma handleError_settles:
  assumes "length (ca_actions a) = 3"
    and "t = DeleteType \<longrightarrow> (\<exists>sch. entityFactory (js_key (js_str (aa_entityKey a))) = Inr sch)"
  shows "\<exists>pre b msg. handleError now a t guids err =
      Inr (pre @ [StoreAction (RequestA (WrapperRequestActionFailed msg b t))]) \<and> list_all inert pre \<and> same_request b (api_action a)"
proof -
  obtain d msg where fail: "getFailApiRequestActions a err t =
      Inr [d, StoreAction (RequestA (WrapperRequestActionFailed msg (api_action a) t))]" "inert d"
    using getFail_settles[OF assms(1)] by blast
  obtain ds where ds: "recursive_request (\<lambda>g. RecursiveDeleteFailed g (endpoint_text a)) t a = Inr ds" "list_all inert ds"
    using recursive_request_inert[OF assms(2)] by blast
  let ?events = "map (\<lambda>endpoint. EventAction (request_error_event now a err endpoint)) (split_on (CHR '','') (join_with '','' guids))"
  have "handleError now a t guids err = Inr ((?events @ ds @ [d]) @ [StoreAction (RequestA (WrapperRequestActionFailed msg (api_action a) t))])"
    by (simp add: handleError_def fail ds Let_def)
  moreover have "list_all inert (?events @ ds @ [d])" using fail ds by (auto simp: list_all_iff)
  moreover have "same_request (api_action a) (api_action a)" by (simp add: same_request_def)
  ultimately show ?thesis by blast
qed

lemma answerRequest_settles:
  assumes three: "length (ca_actions (pr_action p)) = 3"
    and ent: "t = DeleteType \<longrightarrow> (\<exists>sch. entityFactory (js_key (js_str (aa_entityKey (pr_action p)))) = Inr sch)"
  shows "\<exists>pre. list_all inert pre \<and>
    (if answer_fails norm (pr_action p) reply
     then \<exists>b msg. answerRequest norm describe now p t reply =
         Inr (pre @ [StoreAction (RequestA (WrapperRequestActionFailed msg b t))]) \<and> same_request b (api_action (pr_action p))
     else \<exists>gs r resData. reply = HttpBody resData \<and> handleMultiEndpoints norm resData (pr_action p) = Inr r
       \<and> answerRequest norm describe now p t reply =
         Inr (pre @ [ValidateEntitiesStart (pr_action p) gs True
           (Some \<lparr>ar_response = Some (mr_entities r), ar_totalResults = mr_totalResults r, ar_totalPages = mr_totalPages r\<rparr>)]))"
proof -
  let ?a = "pr_action p"
  note error = handleError_settles[OF three ent, of now "pr_endpoints p"]
  show ?thesis
  proof (cases reply)
    case (HttpError err)
    then show ?thesis using error[of err] by (auto simp: answerRequest_def answer_fails_def Let_def)
  next
    case (HttpBody d)
    show ?thesis
    proof (cases "\<exists>r checks. handleMultiEndpoints norm d ?a = Inr r \<and> mr_errorsCheck r = Some checks")
      case False
      then have "\<exists>e. res_bind (handleMultiEndpoints norm d ?a) (handleResponse now ?a t) = Inl e"
        by (cases "handleMultiEndpoints norm d ?a") (auto simp: handleResponse_def split: option.splits)
      then obtain e where e: "res_bind (handleMultiEndpoints norm d ?a) (handleResponse now ?a t) = Inl e" by blast
      have "answer_fails norm ?a reply" using False HttpBody by (auto simp: answer_fails_def split: sum.splits option.splits)
      then show ?thesis using error[of "JObj [(''message'', JStr (describe e))]"] e HttpBody
        by (auto simp: answerRequest_def Let_def)
    next
      case True
      then obtain r checks where r: "handleMultiEndpoints norm d ?a = Inr r" "mr_errorsCheck r = Some checks" by blast
      obtain fs where fs: "res_map (endpoint_failed ?a) (filter ec_error checks) = Inr fs" "list_all inert fs"
        using endpoint_failures_inert[OF three] by blast
      define ev where "ev = (if t = FetchType then handleApiEvents now checks else [])"
      have ev: "list_all inert ev" by (auto simp: ev_def handleApiEvents_def list_all_iff)
      define single where "single \<longleftrightarrow> length checks = 1 \<and> ec_error (hd checks)"
      have answer: "answerRequest norm describe now p t reply = Inr ds" if "handleResponse now ?a t r = Inr ds" for ds
        using that by (simp add: answerRequest_def HttpBody r)
      show ?thesis
      proof (cases single)
        case True
        obtain ds where ds: "recursive_request (\<lambda>g. RecursiveDeleteFailed g (endpoint_text ?a)) t ?a = Inr ds" "list_all inert ds"
          using recursive_request_inert[OF ent] by blast
        have "answerRequest norm describe now p t reply = Inr ((ev @ fs @ ds) @
            [StoreAction (RequestA (WrapperRequestActionFailed (message_text (error_message (hd checks)))
               ((api_action ?a)\<lparr>aa_endpointGuid := Some (ec_guid (hd checks))\<rparr>) t))])"
          by (rule answer, unfold handleResponse_def r(2) option.case single_def[symmetric])
            (simp add: True fs(1) ds(1) ev_def Let_def)
        moreover have "answer_fails norm ?a reply" using True r by (simp add: answer_fails_def HttpBody single_def)
        ultimately show ?thesis
          using ev fs ds by (intro exI[of _ "ev @ fs @ ds"]) (auto simp: same_request_def)
      next
        case False
        obtain ds where ds: "recursive_request (\<lambda>g. RecursiveDeleteComplete g (endpoint_text ?a)) t ?a = Inr ds" "list_all inert ds"
          using recursive_request_inert[OF ent] by blast
        have "answerRequest norm describe now p t reply = Inr ((ev @ fs @ ds) @
            [ValidateEntitiesStart ?a (nr_result (mr_entities r)) True
              (Some \<lparr>ar_response = Some (mr_entities r), ar_totalResults = mr_totalResults r, ar_totalPages = mr_totalPages r\<rparr>)])"
          by (rule answer, unfold handleResponse_def r(2) option.case single_def[symmetric])
            (simp add: False fs(1) ds(1) ev_def Let_def)
        moreover have "\<not> answer_fails norm ?a reply" using False r by (simp add: answer_fails_def HttpBody single_def)
        ultimately show ?thesis
          using ev fs ds r HttpBody by (intro exI[of _ "ev @ fs @ ds"]) auto
      qed
    qed
  qed
qed

text \<open>The reducer reads no more of an action than the entity it names.\<close>

lemma same_request_run:
  assumes "same_request b a"
  shows "startRequest s b t = startRequest s a t" "failRequest s msg b t = failRequest s msg a t"
    "succeedRequest s response b t = succeedRequest s response a t"
    "known_action keys (RequestA (WrapperRequestActionSuccess response b t n m)) =
     known_action keys (RequestA (WrapperRequestActionSuccess response a t n m))"
proof -
  have "start_state b = start_state a" "fail_state msg b = fail_state msg a" "success_state b = success_state a"
    using assms by (auto simp: same_request_def fun_eq_iff start_state_def fail_state_def success_state_def)
  moreover have "with_entity_state s b = with_entity_state s a"
    using assms by (auto simp: same_request_def with_entity_state_def)
  ultimately show "startRequest s b t = startRequest s a t" "failRequest s msg b t = failRequest s msg a t"
    "succeedRequest s response b t = succeedRequest s response a t"
    "known_action keys (RequestA (WrapperRequestActionSuccess response b t n m)) =
     known_action keys (RequestA (WrapperRequestActionSuccess response a t n m))"
    using assms by (simp_all add: startRequest_def failRequest_def succeedRequest_def same_request_def)
qed

text \<open>A response whose entities are of known types.\<close>

definition known_response :: "string list \<Rightarrow> NormalizedResponse option \<Rightarrow> bool" where
  "known_response keys response \<longleftrightarrow>
     (case Option.bind response nr_entities of None \<Rightarrow> True | Some es \<Rightarrow> list_all (\<lambda>(K, v). K \<in> set keys \<and> truthy v) es)"

definition known_outcome :: "string list \<Rightarrow> ValidationOutcome \<Rightarrow> bool" where
  "known_outcome keys outcome \<longleftrightarrow>
     (case outcome of Validated _ (Some r) \<Rightarrow> known_response keys (ar_response r) | _ \<Rightarrow> True)"

definition validated_response :: "ICFAction \<Rightarrow> APIResponse \<Rightarrow> ValidationOutcome \<Rightarrow> NormalizedResponse option" where
  "validated_response a own outcome =
     (if ca_skipValidation a then ar_response own
      else case outcome of Validated _ (Some r) \<Rightarrow> ar_response r | _ \<Rightarrow> None)"

definition validation_fails :: "ICFAction \<Rightarrow> ValidationOutcome \<Rightarrow> bool" where
  "validation_fails a outcome \<longleftrightarrow>
     \<not> ca_skipValidation a \<and> (case outcome of ValidationError _ _ \<Rightarrow> True | Validated _ _ \<Rightarrow> False)"

lemma validateEntities_settles:
  assumes three: "length (ca_actions b) = 3"
  shows "if validation_fails b outcome
    then \<exists>d msg. validateEntities b True (Some own) outcome =
        Inr [d, StoreAction (RequestA (WrapperRequestActionFailed msg (api_action b) (requestTypeOf b)))] \<and> inert d
    else \<exists>d n m post response. validateEntities b True (Some own) outcome =
        Inr ([d, StoreAction (RequestA (WrapperRequestActionSuccess response (api_action b) (requestTypeOf b) n m))] @ post)
      \<and> inert d \<and> list_all inert post
      \<and> response = validated_response b own outcome"
proof -
  have complete: "\<exists>d n m post. completeEntities b resp True started indep =
        Inr ([d, StoreAction (RequestA (WrapperRequestActionSuccess (Option.bind resp ar_response) (api_action b) (requestTypeOf b) n m))] @ post)
      \<and> inert d \<and> list_all inert post" for resp started indep
    using three by (cases resp) (auto simp: completeEntities_def completeApiRequest_def event_type_def)
  show ?thesis
  proof (cases "ca_skipValidation b")
    case True
    then show ?thesis using complete[of "Some own" False False]
      by (auto simp: validation_fails_def validateEntities_def validated_response_def Let_def)
  next
    case False
    show ?thesis
    proof (cases outcome)
      case (Validated started resp)
      have "Option.bind resp ar_response = validated_response b own outcome"
        using False Validated by (cases resp) (auto simp: validated_response_def)
      then show ?thesis using complete[of resp started False] False Validated
        by (auto simp: validation_fails_def validateEntities_def Let_def)
    next
      case (ValidationError started err)
      then show ?thesis using False getFail_settles[OF three, of err "requestTypeOf b"]
        by (auto simp: validation_fails_def validateEntities_def)
    qed
  qed
qed

text \<open>Does a request end as a failure: the exchange, the single endpoint, or the validation failed.\<close>

definition request_fails ::
  "(js list \<Rightarrow> schema list \<Rightarrow> NormalizedResponse) \<Rightarrow> ICFAction \<Rightarrow> Reply \<Rightarrow> ValidationOutcome \<Rightarrow> bool" where
  "request_fails norm a reply outcome \<longleftrightarrow> answer_fails norm a reply \<or> validation_fails a outcome"

text \<open>
  What a request for an entity leaves of its entry, against the entry before the request: with an updating key only the
  update of that key is touched, and it is over; a deletion touches only the state of the deletion (and the message); any
  other request ends neither fetching nor creating.
\<close>

definition settled :: "ApiAction \<Rightarrow> ApiRequestTypes \<Rightarrow> bool \<Rightarrow> RequestInfoState \<Rightarrow> RequestInfoState \<Rightarrow> bool" where
  "settled a t failed r r' \<longleftrightarrow>
     (if truthy_str (aa_updatingKey a)
      then (\<exists>u. obj_get (ri_updating r') (the (aa_updatingKey a)) = Some u \<and> \<not> as_busy u \<and> (as_error u \<longleftrightarrow> failed))
        \<and> (\<forall>k. k \<noteq> the (aa_updatingKey a) \<longrightarrow> obj_get (ri_updating r') k = obj_get (ri_updating r) k)
        \<and> ri_fetching r' = ri_fetching r \<and> ri_creating r' = ri_creating r \<and> ri_error r' = ri_error r
        \<and> ri_deleting r' = ri_deleting r
      else if t = DeleteType
      then \<not> as_busy (ri_deleting r') \<and> (ds_deleted (ri_deleting r') \<longleftrightarrow> \<not> failed) \<and> (as_error (ri_deleting r') \<longleftrightarrow> failed)
        \<and> ri_fetching r' = ri_fetching r \<and> ri_creating r' = ri_creating r \<and> ri_error r' = ri_error r
        \<and> ri_updating r' = ri_updating r
      else \<not> ri_fetching r' \<and> \<not> ri_creating r' \<and> (ri_error r' \<longleftrightarrow> failed)
        \<and> ri_deleting r' = ri_deleting r \<and> ri_updating r' = ri_updating r)"

lemma settled_states:
  "settled a t True r (fail_state msg a t (start_state a t r))"
  "settled a t False r (success_state a t response (start_state a t r))"
  by (cases t; simp add: settled_def fail_state_def success_state_def start_state_def mergeUpdatingState_def
      defaultDeletingActionState_def)+

text \<open>The section after the start and after the end of a request.\<close>

lemma settled_section:
  assumes wf: "wf_requests keys s" and a: "aa_entityKey a = Some K" "K \<in> set keys" "aa_guid a = Some g" "g \<noteq> []"
    and same: "same_request b a"
  shows "\<exists>s1. apiRequestReducer s (RequestA (StartRequestAction a t)) = Inr s1
    \<and> (\<exists>s2. apiRequestReducer s1 (RequestA (WrapperRequestActionFailed msg b t)) = Inr s2
      \<and> settled a t True (entity_request s K g) (entity_request s2 K g))
    \<and> (known_response keys response \<longrightarrow> (\<exists>s3. apiRequestReducer s1 (RequestA (WrapperRequestActionSuccess response b t n m)) = Inr s3
      \<and> settled a t False (entity_request s K g) (entity_request s3 K g)))"
proof -
  define s1 where "s1 = setEntityRequestState s (start_state a t (entity_request s K g)) K g"
  have start: "apiRequestReducer s (RequestA (StartRequestAction a t)) = Inr s1"
    by (simp add: startRequest_def with_entity_state_known[OF wf a(2,1,3,4)] s1_def)
  have r1: "entity_request s1 K g = start_state a t (entity_request s K g)" by (simp add: s1_def obj_simps)
  have wf1: "wf_requests keys s1" unfolding s1_def by (rule wf_requests_set[OF wf])
  define s2 where "s2 = setEntityRequestState s1 (fail_state msg a t (entity_request s1 K g)) K g"
  have s2: "apiRequestReducer s1 (RequestA (WrapperRequestActionFailed msg b t)) = Inr s2"
    "entity_request s2 K g = fail_state msg a t (entity_request s1 K g)"
    using with_entity_state_known[OF wf1 a(2,1,3,4), of "fail_state msg a t"]
    by (simp_all add: same_request_run(2)[OF same] failRequest_def[of s1 msg a] s2_def obj_simps)
  have "\<exists>s3. apiRequestReducer s1 (RequestA (WrapperRequestActionSuccess response b t n m)) = Inr s3
      \<and> settled a t False (entity_request s K g) (entity_request s3 K g)"
    if known: "known_response keys response"
  proof -
    have "known_action keys (RequestA (WrapperRequestActionSuccess response a t n m))"
      using known a(1,2) by (simp add: known_response_def)
    from succeedRequest_own[OF wf1 this a(1,3,4)] obtain s3 where
      "apiRequestReducer s1 (RequestA (WrapperRequestActionSuccess response b t n m)) = Inr s3"
      "entity_request s3 K g = success_state a t response (entity_request s1 K g)"
      by (auto simp: same_request_run[OF same])
    then show ?thesis by (simp add: r1 settled_states)
  qed
  moreover have "settled a t True (entity_request s K g) (entity_request s2 K g)" by (simp add: s2(2) r1 settled_states)
  ultimately show ?thesis using start s2(1) by blast
qed

text \<open>An end of a request: what the answer and the validation leave for the section is one success or one failure.\<close>

definition settling :: "string list \<Rightarrow> ApiAction \<Rightarrow> ApiRequestTypes \<Rightarrow> bool \<Rightarrow> Action \<Rightarrow> bool" where
  "settling keys a t failed act \<longleftrightarrow>
     (if failed then \<exists>msg b. act = RequestA (WrapperRequestActionFailed msg b t) \<and> same_request b a
      else \<exists>response b n m. act = RequestA (WrapperRequestActionSuccess response b t n m)
        \<and> known_response keys response \<and> same_request b a)"

lemma run_settles:
  assumes wf: "wf_requests keys s" and a: "aa_entityKey a = Some K" "K \<in> set keys" "aa_guid a = Some g" "g \<noteq> []"
    and inert: "list_all inert before" "list_all inert pre" "list_all inert post" and act: "settling keys a t failed act"
  shows "\<exists>s'. res_fold apiRequestReducer s (store_actions before @ [RequestA (StartRequestAction a t), OtherA ty None None]
      @ store_actions pre @ [act] @ store_actions post) = Inr s'
    \<and> settled a t failed (entity_request s K g) (entity_request s' K g)"
proof -
  note runs = res_fold_append inert_run[OF inert(1)] inert_run[OF inert(2)] inert_run[OF inert(3)]
  show ?thesis
  proof (cases failed)
    case True
    with act obtain msg b where e: "act = RequestA (WrapperRequestActionFailed msg b t)" and sb: "same_request b a"
      by (auto simp: settling_def)
    from settled_section[OF wf a sb, of t msg None None None] obtain s1 s2 where
      "startRequest s a t = Inr s1" "failRequest s1 msg b t = Inr s2"
      "settled a t True (entity_request s K g) (entity_request s2 K g)" by auto
    then show ?thesis using True by (simp add: e runs)
  next
    case False
    with act obtain response b n m where e: "act = RequestA (WrapperRequestActionSuccess response b t n m)"
      and k: "known_response keys response" and sb: "same_request b a" by (auto simp: settling_def)
    from settled_section[OF wf a sb, of t "[]" response n m] k obtain s1 s3 where
      "startRequest s a t = Inr s1" "succeedRequest s1 response b t = Inr s3"
      "settled a t False (entity_request s K g) (entity_request s3 K g)" by auto
    then show ?thesis using False by (simp add: e runs)
  qed
qed

lemma validation_settles:
  assumes three: "length (ca_actions b) = 3" and same: "same_request (api_action b) a"
    and own: "known_response keys (ar_response own)"
    and valid: "known_outcome keys outcome"
    and pre: "list_all inert pre"
  shows "\<exists>validated pre' act post. validationOf (pre @ [ValidateEntitiesStart b gs True (Some own)]) outcome = Inr validated
    \<and> store_actions pre @ store_actions validated = store_actions pre' @ [act] @ store_actions post
    \<and> list_all inert pre' \<and> list_all inert post \<and> settling keys a (requestTypeOf b) (validation_fails b outcome) act"
proof -
  have val: "validationOf (pre @ [ValidateEntitiesStart b gs True (Some own)]) outcome = validateEntities b True (Some own) outcome"
    unfolding validationOf_append[OF pre]
    by (cases "validateEntities b True (Some own) outcome") (auto simp: validationOf_def)
  show ?thesis
  proof (cases "validation_fails b outcome")
    case True
    with validateEntities_settles[OF three, of outcome own] obtain d msg where
      "validateEntities b True (Some own) outcome = Inr [d, StoreAction (RequestA (WrapperRequestActionFailed msg (api_action b) (requestTypeOf b)))]"
      "inert d" by auto
    then show ?thesis using pre same True
      by (intro exI[of _ "[d, StoreAction (RequestA (WrapperRequestActionFailed msg (api_action b) (requestTypeOf b)))]"]
          exI[of _ "pre @ [d]"] exI[of _ "RequestA (WrapperRequestActionFailed msg (api_action b) (requestTypeOf b))"] exI[of _ "[]"])
        (cases d; simp add: val settling_def; blast)
  next
    case False
    with validateEntities_settles[OF three, of outcome own] obtain d n m post response where
      v: "validateEntities b True (Some own) outcome =
        Inr ([d, StoreAction (RequestA (WrapperRequestActionSuccess response (api_action b) (requestTypeOf b) n m))] @ post)"
      "inert d" "list_all inert post"
      and resp: "response = validated_response b own outcome"
      by (simp only: if_False) blast
    have "known_response keys response"
      using resp own valid False
      by (auto simp: validated_response_def known_outcome_def known_response_def[of keys None] validation_fails_def split: ValidationOutcome.splits option.splits)
    then show ?thesis using v pre same False
      by (intro exI[of _ "[d, StoreAction (RequestA (WrapperRequestActionSuccess response (api_action b) (requestTypeOf b) n m))] @ post"]
          exI[of _ "pre @ [d]"] exI[of _ "RequestA (WrapperRequestActionSuccess response (api_action b) (requestTypeOf b) n m)"] exI[of _ post])
        (cases d; simp add: val settling_def; blast)
  qed
qed

lemma answer_known:
  assumes "handleMultiEndpoints norm d b = Inr r" and norm: "\<And>es schemas. known_response keys (Some (norm es schemas))"
  shows "known_response keys (Some (mr_entities r))"
proof -
  have "(\<exists>es schemas. mr_entities r = norm es schemas) \<or> mr_entities r = \<lparr>nr_entities = Some [], nr_result = []\<rparr>"
    using assms(1) by (force simp: handleMultiEndpoints_def getEntities_def res_bind_Inr_iff Let_def split: if_splits)
  then show ?thesis using norm by (elim disjE exE) (simp_all add: known_response_def)
qed

lemma request_ends:
  assumes three: "length (ca_actions (pr_action p)) = 3"
    and ent: "t = DeleteType \<longrightarrow> (\<exists>sch. entityFactory (js_key (js_str (aa_entityKey (pr_action p)))) = Inr sch)"
    and same: "same_request (api_action (pr_action p)) a" and t: "requestTypeOf (pr_action p) = t"
    and norm: "\<And>es schemas. known_response keys (Some (norm es schemas))"
    and valid: "known_outcome keys outcome"
  shows "\<exists>answered validated pre act post. answerRequest norm describe now p t reply = Inr answered
    \<and> validationOf answered outcome = Inr validated
    \<and> store_actions (answered @ validated) = store_actions pre @ [act] @ store_actions post
    \<and> list_all inert pre \<and> list_all inert post
    \<and> settling keys a t (request_fails norm (pr_action p) reply outcome) act"
proof -
  let ?b = "pr_action p"
  from answerRequest_settles[OF three ent, of norm reply describe now] obtain pre where pre: "list_all inert pre" and
    ans: "if answer_fails norm ?b reply
     then \<exists>b msg. answerRequest norm describe now p t reply =
         Inr (pre @ [StoreAction (RequestA (WrapperRequestActionFailed msg b t))]) \<and> same_request b (api_action ?b)
     else \<exists>gs r resData. reply = HttpBody resData \<and> handleMultiEndpoints norm resData ?b = Inr r
       \<and> answerRequest norm describe now p t reply =
         Inr (pre @ [ValidateEntitiesStart ?b gs True
           (Some \<lparr>ar_response = Some (mr_entities r), ar_totalResults = mr_totalResults r, ar_totalPages = mr_totalPages r\<rparr>)])"
    by blast
  show ?thesis
  proof (cases "answer_fails norm ?b reply")
    case True
    with ans obtain b' msg where r: "answerRequest norm describe now p t reply =
        Inr (pre @ [StoreAction (RequestA (WrapperRequestActionFailed msg b' t))])" and sb: "same_request b' (api_action ?b)" by auto
    have "validationOf (pre @ [StoreAction (RequestA (WrapperRequestActionFailed msg b' t))]) outcome = Inr []"
      unfolding validationOf_append[OF pre] by (simp add: validationOf_def)
    moreover have "same_request b' a" using sb same by (simp add: same_request_def)
    ultimately show ?thesis using r pre True
      by (intro exI[of _ "pre @ [StoreAction (RequestA (WrapperRequestActionFailed msg b' t))]"] exI[of _ "[]"] exI[of _ pre]
          exI[of _ "RequestA (WrapperRequestActionFailed msg b' t)"])
        (auto simp: request_fails_def settling_def)
  next
    case False
    with ans obtain gs r d where rep: "handleMultiEndpoints norm d ?b = Inr r" and
      an: "answerRequest norm describe now p t reply = Inr (pre @ [ValidateEntitiesStart ?b gs True
           (Some \<lparr>ar_response = Some (mr_entities r), ar_totalResults = mr_totalResults r, ar_totalPages = mr_totalPages r\<rparr>)])"
      by auto
    let ?own = "\<lparr>ar_response = Some (mr_entities r), ar_totalResults = mr_totalResults r, ar_totalPages = mr_totalPages r\<rparr>"
    have "known_response keys (ar_response ?own)" using answer_known[OF rep norm] by simp
    from validation_settles[where gs = gs and keys = keys and outcome = outcome and own = ?own, OF three same this valid pre] False t
    show ?thesis unfolding an by (auto simp: request_fails_def)
  qed
qed

text \<open>
  C1: Every request for an entity settles. The action names an entity of a known type by its guid, has three event types
  and lets its HTTP request be built (\<open>prepareRequest\<close> does not throw); the entities of the answer and of the validation
  are of known types; and an entity to be deleted has a schema. Then, whatever the backend answers (an error, a body that
  is not JSON, errors of endpoints, data the handling chokes on) and however the validation ends, the actions the effects
  dispatch from the start of the request to its end, the reducer of the request section run over them, leave the entry of
  the entity settled. With an updating key, the update of that key is no longer busy and has an error exactly when the
  request failed, and the rest of the entry's marks are as they were. A deletion is no longer busy, and the entity is
  deleted exactly when the request did not fail and has an error exactly when it did; the other marks are as they were. Any
  other request leaves the entity neither fetching nor creating, with an error exactly when the request failed, and its
  updates and its deletion as they were. The request counts as failed exactly when the exchange failed or its handling
  threw, or the answer of its only endpoint was an error, or the validation failed.
\<close>

theorem every_request_settles:
  assumes wf: "wf_requests keys s" and K: "aa_entityKey a = Some K" "K \<in> set keys" and g: "aa_guid a = Some g" "g \<noteq> []"
    and three: "length (ca_actions a) = 3"
    and ent: "requestTypeOf a = DeleteType \<longrightarrow> (\<exists>sch. entityFactory K = Inr sch)"
    and prep: "prepareRequest sort_relations treeCache store a = Inr p"
    and norm: "\<And>es schemas. known_response keys (Some (norm es schemas))"
    and valid: "known_outcome keys outcome"
  shows "\<exists>ds s'. requestRun norm describe now sort_relations treeCache store a reply outcome = Inr ds
    \<and> res_fold apiRequestReducer s (store_actions ds) = Inr s'
    \<and> settled (api_action a) (requestTypeOf a) (request_fails norm (pr_action p) reply outcome)
        (entity_request s K g) (entity_request s' K g)"
proof -
  let ?t = "requestTypeOf a" and ?b = "pr_action p"
  have b: "same_request (api_action ?b) (api_action a)" "requestTypeOf ?b = ?t" "length (ca_actions ?b) = 3"
    using prepareRequest_clone[OF prep] three by (auto simp: requestTypeOf_def)
  have entK: "?t = DeleteType \<longrightarrow> (\<exists>sch. entityFactory (js_key (js_str (aa_entityKey a))) = Inr sch)"
    and entb: "?t = DeleteType \<longrightarrow> (\<exists>sch. entityFactory (js_key (js_str (aa_entityKey ?b))) = Inr sch)"
    using ent K b(1) by (auto simp: same_request_def js_str_def)
  obtain dels where dels: "recursive_request RecursiveDelete ?t a = Inr dels" "list_all inert dels"
    using recursive_request_inert[OF entK] by blast
  obtain ty where begun: "beginRequest a = Inr (dels @ [StoreAction (RequestA (StartRequestAction (api_action a) ?t)),
      StoreAction (getActionFromString ty)])"
    using three by (auto simp: beginRequest_def dels startApiRequest_def event_type_def)
  have run: "requestRun norm describe now sort_relations treeCache store a reply outcome =
      Inr ((dels @ [StoreAction (RequestA (StartRequestAction (api_action a) ?t)), StoreAction (getActionFromString ty)]) @ answered @ validated)"
    if "answerRequest norm describe now p ?t reply = Inr answered" "validationOf answered outcome = Inr validated" for answered validated
    using that by (simp add: requestRun_def begun prep)
  from request_ends[where norm = norm and outcome = outcome and keys = keys and reply = reply and describe = describe and now = now,
      OF b(3) entb b(1,2) norm valid]
  obtain answered validated pre act post where
    ans: "answerRequest norm describe now p ?t reply = Inr answered" "validationOf answered outcome = Inr validated"
    and ds: "store_actions (answered @ validated) = store_actions pre @ [act] @ store_actions post"
    and ends: "list_all inert pre" "list_all inert post"
      "settling keys (api_action a) ?t (request_fails norm ?b reply outcome) act"
    by (elim exE conjE)
  let ?ds = "(dels @ [StoreAction (RequestA (StartRequestAction (api_action a) ?t)), StoreAction (getActionFromString ty)]) @ answered @ validated"
  have "store_actions ?ds = store_actions dels @ [RequestA (StartRequestAction (api_action a) ?t), OtherA ty None None]
      @ store_actions pre @ [act] @ store_actions post"
    using ds by (simp add: getActionFromString_def)
  moreover have "aa_entityKey (api_action a) = Some K" "aa_guid (api_action a) = Some g"
    using K g by simp_all
  note run_settles[OF wf this(1) K(2) this(2) g(2) dels(2) ends, of ty]
  ultimately show ?thesis using run[OF ans] by metis
qed

definition get_app :: ICFAction where
  "get_app = (plain_request ''application'')
     \<lparr>aa_guid := Some ''a1'', aa_paginationKey := None, aa_endpointGuid := Some ''cf''\<rparr>"

definition empty_store :: ApiStore where
  "empty_store = \<lparr>st_pagination = [], st_endpoints = [], st_requests = [(''endpoint'', [])]\<rparr>"

theorem every_request_settles_witness:
  "\<exists>ds s'. requestRun (\<lambda>es schemas. \<lparr>nr_entities = Some [], nr_result = []\<rparr>) (\<lambda>e. ''error'') 0 (\<lambda>rs. rs) [] empty_store get_app
      (HttpError (JObj [(''status'', JNum 502)])) (Validated False None) = Inr ds
    \<and> res_fold apiRequestReducer [(''application'', [])] (store_actions ds) = Inr s'
    \<and> \<not> ri_fetching (entity_request s' ''application'' ''a1'') \<and> ri_error (entity_request s' ''application'' ''a1'')"
proof -
  have a: "aa_entityKey get_app = Some ''application''" "aa_guid get_app = Some ''a1''" "\<not> truthy_str (aa_updatingKey get_app)"
    "length (ca_actions get_app) = 3" "requestTypeOf get_app = FetchType"
    by (simp_all add: get_app_def plain_request_def ApiAction.defs plain_actions requestTypeOf_def getRequestTypeFromMethod_def)
  have "case prepareRequest (\<lambda>rs. rs) [] empty_store get_app of Inr _ \<Rightarrow> True | Inl _ \<Rightarrow> False" by code_simp
  then obtain p where p: "prepareRequest (\<lambda>rs. rs) [] empty_store get_app = Inr p" by (auto split: sum.splits)
  have wf: "wf_requests [''application''] [(''application'', [])]" by (auto simp: wf_requests_def)
  show ?thesis
    using every_request_settles[where keys = "[''application'']" and s = "[(''application'', [])]" and K = "''application''" and g = "''a1''"
        and reply = "HttpError (JObj [(''status'', JNum 502)])" and outcome = "Validated False None"
        and norm = "\<lambda>es schemas. \<lparr>nr_entities = Some [], nr_result = []\<rparr>" and describe = "\<lambda>e. ''error''" and now = 0, OF wf a(1) _ a(2) _ a(4) _ p]
    by (fastforce simp: settled_def a(3,5) known_response_def known_outcome_def request_fails_def answer_fails_def)
qed

subsection \<open>Where a request goes\<close>

text \<open>
  C36: A request without an endpoint of its own goes to exactly the registered endpoints of type \<open>web\<close> that are not
  being disconnected, in their order; and the ones being disconnected are gone from the endpoints of the store once
  the request is built.
\<close>

theorem request_endpoints:
  assumes "prepareRequest sort_relations treeCache store a = Inr p" and "\<not> truthy_str (aa_endpointGuid a)"
    and wf: "wf_obj (st_endpoints store)"
  shows "pr_endpoints p = map (\<lambda>(g, e). js_key (js_field e ''guid'')) (filter (\<lambda>(g, e).
      is_disconnecting (st_requests store) g = Inr False \<and> truthy (js_field e ''registered'') \<and> js_field e ''cnsi_type'' = JStr ''web'')
      (st_endpoints store))
    \<and> pr_storeEndpoints p = filter (\<lambda>(g, e). is_disconnecting (st_requests store) g = Inr False) (st_endpoints store)"
proof -
  let ?d = "is_disconnecting (st_requests store)"
  have flags: "fs = map (\<lambda>g. ?d g = Inr True) gs \<and> (\<forall>g \<in> set gs. ?d g = Inr True \<or> ?d g = Inr False)"
    if "res_map ?d gs = Inr fs" for gs fs
    using that by (induction gs arbitrary: fs) (auto simp: res_bind_Inr_iff)
  have del: "fold obj_del ks es = filter (\<lambda>(g, e). g \<notin> set ks) es" for ks and es :: "(string, js) obj"
    by (induction ks arbitrary: es) (auto simp: obj_del_def AList.delete_eq intro!: filter_cong)
  have zip: "map fst (filter snd (zip xs (map P xs))) = filter P xs" for xs :: "'x list" and P
    by (induction xs) auto
  define P :: "js \<Rightarrow> bool" where "P e \<longleftrightarrow> truthy (js_field e ''registered'') \<and> js_field e ''cnsi_type'' = JStr ''web''" for e
  have registered: "fs = map (\<lambda>(g, e). P e) es"
    if "res_map (\<lambda>(_, e). registered_web e) es = Inr fs" for es :: "(string, js) obj" and fs
    using that by (induction es arbitrary: fs) (auto simp: res_bind_Inr_iff registered_web_def P_def dest!: js_prop_field)
  from assms(1,2) obtain endpoints where e: "availableEndpoints (st_requests store) (st_endpoints store) = Inr endpoints"
    and guids: "addBaseHeaders endpoints = Inr (pr_endpoints p)" and stored: "pr_storeEndpoints p = endpoints"
    by (auto simp: prepareRequest_def res_bind_Inr_iff)
  from e obtain fs where fs: "res_map ?d (obj_keys (st_endpoints store)) = Inr fs"
    and en: "endpoints = fold obj_del (map fst (filter snd (zip (obj_keys (st_endpoints store)) fs))) (st_endpoints store)"
    by (auto simp: availableEndpoints_def res_bind_Inr_iff)
  have es: "endpoints = filter (\<lambda>(g, e). ?d g = Inr False) (st_endpoints store)"
  proof -
    let ?gs = "obj_keys (st_endpoints store)"
    have dis: "map fst (filter snd (zip ?gs fs)) = filter (\<lambda>g. ?d g = Inr True) ?gs"
      using flags[OF fs] zip[of ?gs "\<lambda>g. ?d g = Inr True"] by simp
    have "g \<in> set ?gs" if "(g, e) \<in> set (st_endpoints store)" for g e using that by (force simp: obj_keys_def)
    then show ?thesis using flags[OF fs] unfolding en dis del by (auto intro!: filter_cong)
  qed
  from guids obtain rs where rs: "res_map (\<lambda>(_, e). registered_web e) endpoints = Inr rs"
    and g: "pr_endpoints p = map (\<lambda>((_, e), _). js_key (js_field e ''guid'')) (filter snd (zip endpoints rs))"
    by (auto simp: addBaseHeaders_def res_bind_Inr_iff)
  have first: "map (\<lambda>((_, e), _). js_key (js_field e ''guid'')) xs = map (\<lambda>(_, e). js_key (js_field e ''guid'')) (map fst xs)"
    for xs :: "((string \<times> js) \<times> bool) list" by (induction xs) auto
  have "pr_endpoints p = map (\<lambda>(_, e). js_key (js_field e ''guid'')) (filter (\<lambda>(g, e). P e) endpoints)"
    unfolding g registered[OF rs] first zip ..
  then show ?thesis unfolding stored es filter_filter P_def
    by (auto intro!: arg_cong[of _ _ "map _"] filter_cong)
qed

theorem request_endpoints_witness:
  "\<exists>p. prepareRequest (\<lambda>rs. rs) [] \<lparr>st_pagination = [], st_endpoints =
        [(''cf1'', JObj [(''guid'', JStr ''cf1''), (''registered'', JBool True), (''cnsi_type'', JStr ''web'')]),
         (''cf2'', JObj [(''guid'', JStr ''cf2''), (''registered'', JBool True), (''cnsi_type'', JStr ''web'')])],
      st_requests = [(''endpoint'', [(''cf1'', getDefaultRequestState),
        (''cf2'', getDefaultRequestState\<lparr>ri_updating := [(''disconnecting'', \<lparr>as_busy = True, as_error = False, as_message = JNull\<rparr>)]\<rparr>)])]\<rparr>
      (get_app\<lparr>aa_endpointGuid := None\<rparr>) = Inr p \<and> pr_endpoints p = [''cf1'']"
proof -
  let ?store = "\<lparr>st_pagination = [], st_endpoints =
        [(''cf1'', JObj [(''guid'', JStr ''cf1''), (''registered'', JBool True), (''cnsi_type'', JStr ''web'')]),
         (''cf2'', JObj [(''guid'', JStr ''cf2''), (''registered'', JBool True), (''cnsi_type'', JStr ''web'')])],
      st_requests = [(''endpoint'', [(''cf1'', getDefaultRequestState),
        (''cf2'', getDefaultRequestState\<lparr>ri_updating := [(''disconnecting'', \<lparr>as_busy = True, as_error = False, as_message = JNull\<rparr>)]\<rparr>)])]\<rparr>"
  have "case prepareRequest (\<lambda>rs. rs) [] ?store (get_app\<lparr>aa_endpointGuid := None\<rparr>) of Inr _ \<Rightarrow> True | Inl _ \<Rightarrow> False" by code_simp
  then obtain p where p: "prepareRequest (\<lambda>rs. rs) [] ?store (get_app\<lparr>aa_endpointGuid := None\<rparr>) = Inr p" by (auto split: sum.splits)
  from request_endpoints[OF p] have "pr_endpoints p = [''cf1'']"
    by (simp add: get_app_def plain_request_def plain_actions ApiAction.defs is_disconnecting_def getDefaultRequestState_def getDefaultActionState_def)
  with p show ?thesis by blast
qed

end
