(* ===== verification/Users_Roles.thy ===== *)
theory Users_Roles
  imports Actions "HOL-Library.Multiset"
begin

section \<open>Managing the roles of users: users-roles.reducer.ts, cf-roles.service.ts, cf-user.service.ts, users-roles.effects.ts\<close>

text \<open>
  A wizard changes the roles of several users at once. Its slice holds the picked users, the roles selected for them
  in one organization and its spaces (each set, cleared or left alone), and the list of changes to make.
  \<open>CfRolesService\<close> compares the selection with the roles the users have and makes that list; the effect carries it
  out in two batches around the changes of the role \<open>users\<close> of the organization.

  A set of permissions is an object of optional booleans. The slice always has \<open>newRoles\<close>. A user holds a role by an
  entry in the list of organizations or spaces of that role; an entry may be missing from the store (\<open>None\<close>).
\<close>

subsection \<open>Types: user.types.ts, users-roles.types.ts\<close>

type_synonym UserRole = "(string, bool option) obj"

record IUserPermissionInSpace =
  ps_name :: string
  ps_orgGuid :: string
  ps_spaceGuid :: string
  ps_permissions :: UserRole

record IUserPermissionInOrg =
  po_name :: string
  po_orgGuid :: string
  po_permissions :: UserRole
  po_spaces :: "(string, IUserPermissionInSpace) obj"

type_synonym CfUserRolesSelected = "(string, (string, IUserPermissionInOrg) obj) obj"

record CfRoleChange =
  rc_userGuid :: string
  rc_orgGuid :: string
  rc_spaceGuid :: "string option"
  rc_add :: bool
  rc_role :: string

record RoleEntity =
  re_guid :: string
  re_entityGuid :: string
  re_name :: string
  re_organization_guid :: string

record CfUser =
  us_guid :: string
  us_username :: "string option"
  us_roles :: "(string, RoleEntity option list) obj"

record UsersRolesState =
  ur_cfGuid :: string
  ur_users :: "CfUser list"
  ur_newRoles :: IUserPermissionInOrg
  ur_changedRoles :: "CfRoleChange list"

definition createUserRoleInOrg :: "bool option \<Rightarrow> bool option \<Rightarrow> bool option \<Rightarrow> bool option \<Rightarrow> UserRole" where
  "createUserRoleInOrg manager billingManager auditor user =
     [(''managers'', manager), (''billing_managers'', billingManager), (''auditors'', auditor), (''users'', user)]"

definition createUserRoleInSpace :: "bool option \<Rightarrow> bool option \<Rightarrow> bool option \<Rightarrow> UserRole" where
  "createUserRoleInSpace manager auditor developer =
     [(''managers'', manager), (''developers'', developer), (''auditors'', auditor)]"

subsection \<open>The slice: users-roles.actions.ts, users-roles.reducer.ts\<close>

datatype UsersRolesAction =
    UsersRolesSetUsers string "CfUser list"
  | UsersRolesClear
  | UsersRolesClearUpdateState "CfRoleChange list"
  | UsersRolesSetOrg string
  | UsersRolesSetOrgRole string string bool
  | UsersRolesSetSpaceRole string string string bool
  | UsersRolesSetChanges "CfRoleChange list"
  | UsersRolesExecuteChanges

definition createDefaultOrgRoles :: "string \<Rightarrow> IUserPermissionInOrg" where
  "createDefaultOrgRoles orgGuid =
     \<lparr>po_name = '''', po_orgGuid = orgGuid, po_permissions = createUserRoleInOrg None None None None, po_spaces = []\<rparr>"

definition createDefaultSpaceRoles :: "string \<Rightarrow> string \<Rightarrow> IUserPermissionInSpace" where
  "createDefaultSpaceRoles orgGuid spaceGuid =
     \<lparr>ps_name = '''', ps_orgGuid = orgGuid, ps_spaceGuid = spaceGuid, ps_permissions = createUserRoleInSpace None None None\<rparr>"

definition usersRolesDefault :: UsersRolesState where
  "usersRolesDefault =
     \<lparr>ur_cfGuid = '''', ur_users = [], ur_newRoles = createDefaultOrgRoles '''', ur_changedRoles = []\<rparr>"

text \<open>\<open>setPermission\<close> says whether the permission changed, and returns the permissions.\<close>

definition setPermission :: "UserRole \<Rightarrow> string \<Rightarrow> bool \<Rightarrow> bool \<times> UserRole" where
  "setPermission permissions role applyRole =
     (if obj_get permissions role = Some (Some applyRole) then (False, permissions)
      else (True, obj_set role (Some applyRole) (obj_spread [] permissions)))"

definition setOrgRole :: "IUserPermissionInOrg \<Rightarrow> string \<Rightarrow> bool \<Rightarrow> IUserPermissionInOrg option" where
  "setOrgRole orgRoles role applyRole =
     (case setPermission (po_permissions orgRoles) role applyRole of
        (changed, permissions) \<Rightarrow>
          if \<not> changed then None
          else Some (orgRoles\<lparr>po_permissions :=
            (if role \<noteq> ''user'' \<and> applyRole then obj_set ''users'' (Some True) (obj_spread [] permissions) else permissions)\<rparr>))"

definition setSpaceRole :: "IUserPermissionInOrg \<Rightarrow> string \<Rightarrow> string \<Rightarrow> string \<Rightarrow> bool \<Rightarrow> IUserPermissionInOrg" where
  "setSpaceRole orgRoles orgGuid spaceGuid role applyRole =
     (let space = (case obj_get (po_spaces orgRoles) spaceGuid of
          Some s \<Rightarrow> s | None \<Rightarrow> createDefaultSpaceRoles orgGuid spaceGuid)
      in case setPermission (ps_permissions space) role applyRole of
        (changed, permissions) \<Rightarrow>
          let orgRoles' = orgRoles\<lparr>po_spaces := obj_set spaceGuid (space\<lparr>ps_permissions := permissions\<rparr>) (po_spaces orgRoles)\<rparr>
          in if changed \<and> applyRole
             then orgRoles'\<lparr>po_permissions := obj_set ''users'' (Some True) (obj_spread [] (po_permissions orgRoles'))\<rparr>
             else orgRoles')"

definition setRole :: "UsersRolesState \<Rightarrow> string \<Rightarrow> string option \<Rightarrow> string \<Rightarrow> bool \<Rightarrow> UsersRolesState" where
  "setRole existingState orgGuid spaceGuid role applyRole =
     (case (if truthy_str spaceGuid
            then Some (setSpaceRole (ur_newRoles existingState) orgGuid (the spaceGuid) role applyRole)
            else setOrgRole (ur_newRoles existingState) role applyRole) of
        None \<Rightarrow> existingState
      | Some newOrgRoles \<Rightarrow> existingState\<lparr>ur_newRoles := newOrgRoles\<rparr>)"

fun UsersRolesReducer :: "UsersRolesState \<Rightarrow> UsersRolesAction \<Rightarrow> UsersRolesState" where
  "UsersRolesReducer state (UsersRolesSetUsers cfGuid users) =
     state\<lparr>ur_cfGuid := cfGuid, ur_users := users, ur_newRoles := createDefaultOrgRoles (po_orgGuid (ur_newRoles state))\<rparr>"
| "UsersRolesReducer state UsersRolesClear = usersRolesDefault"
| "UsersRolesReducer state (UsersRolesSetOrg selectedOrg) = state\<lparr>ur_newRoles := createDefaultOrgRoles selectedOrg\<rparr>"
| "UsersRolesReducer state (UsersRolesSetOrgRole orgGuid role applied) = setRole state orgGuid None role applied"
| "UsersRolesReducer state (UsersRolesSetSpaceRole orgGuid spaceGuid role applied) =
     setRole state orgGuid (Some spaceGuid) role applied"
| "UsersRolesReducer state (UsersRolesSetChanges changes) = state\<lparr>ur_changedRoles := changes\<rparr>"
| "UsersRolesReducer state (UsersRolesClearUpdateState changes) = state"
| "UsersRolesReducer state UsersRolesExecuteChanges = state"

subsection \<open>The roles a user has: cf.helpers.ts, cf-user.service.ts\<close>

definition user_list :: "CfUser \<Rightarrow> string \<Rightarrow> RoleEntity option list" where
  "user_list user roleType = (case obj_get (us_roles user) roleType of Some es \<Rightarrow> es | None \<Rightarrow> [])"

definition hasRole :: "CfUser \<Rightarrow> string \<Rightarrow> string \<Rightarrow> bool" where
  "hasRole user guid roleType = (\<exists>e \<in> set (user_list user roleType). map_option re_guid e = Some guid)"

definition isOrgManager :: "CfUser \<Rightarrow> string \<Rightarrow> bool" where
  "isOrgManager user guid = hasRole user guid ''managed_organizations''"
definition isOrgBillingManager :: "CfUser \<Rightarrow> string \<Rightarrow> bool" where
  "isOrgBillingManager user guid = hasRole user guid ''billing_managed_organizations''"
definition isOrgAuditor :: "CfUser \<Rightarrow> string \<Rightarrow> bool" where
  "isOrgAuditor user guid = hasRole user guid ''audited_organizations''"
definition isOrgUser :: "CfUser \<Rightarrow> string \<Rightarrow> bool" where
  "isOrgUser user guid = hasRole user guid ''organizations''"
definition isSpaceManager :: "CfUser \<Rightarrow> string \<Rightarrow> bool" where
  "isSpaceManager user spaceGuid = hasRole user spaceGuid ''managed_spaces''"
definition isSpaceAuditor :: "CfUser \<Rightarrow> string \<Rightarrow> bool" where
  "isSpaceAuditor user spaceGuid = hasRole user spaceGuid ''audited_spaces''"
definition isSpaceDeveloper :: "CfUser \<Rightarrow> string \<Rightarrow> bool" where
  "isSpaceDeveloper user spaceGuid = hasRole user spaceGuid ''spaces''"

lemmas role_tests = isOrgManager_def isOrgBillingManager_def isOrgAuditor_def isOrgUser_def
  isSpaceManager_def isSpaceAuditor_def isSpaceDeveloper_def

definition parseOrgRole ::
  "CfUser \<Rightarrow> RoleEntity option list \<Rightarrow> IUserPermissionInOrg list \<times> string list \<Rightarrow>
   (IUserPermissionInOrg list \<times> string list) result" where
  "parseOrgRole user orgsToProcess start =
     res_fold (\<lambda>(res, processed) org.
         case org of
           None \<Rightarrow> Inl TypeError
         | Some r \<Rightarrow>
             let orgGuid = re_entityGuid r in
             Inr (if orgGuid \<in> set processed then (res, processed)
                  else (res @ [\<lparr>po_name = re_name r, po_orgGuid = re_guid r,
                          po_permissions = createUserRoleInOrg (Some (isOrgManager user orgGuid))
                            (Some (isOrgBillingManager user orgGuid)) (Some (isOrgAuditor user orgGuid))
                            (Some (isOrgUser user orgGuid)), po_spaces = []\<rparr>], processed @ [orgGuid])))
       start orgsToProcess"

definition getOrgRolesFromUser :: "CfUser \<Rightarrow> IUserPermissionInOrg list result" where
  "getOrgRolesFromUser user =
     res_bind (res_fold (\<lambda>acc roleType. parseOrgRole user (user_list user roleType) acc) ([], [])
         [''organizations'', ''audited_organizations'', ''billing_managed_organizations'', ''managed_organizations''])
       (\<lambda>(res, _). Inr res)"

definition parseSpaceRole ::
  "CfUser \<Rightarrow> RoleEntity option list \<Rightarrow> IUserPermissionInSpace list \<times> string list \<Rightarrow>
   (IUserPermissionInSpace list \<times> string list) result" where
  "parseSpaceRole user spacesToProcess start =
     res_fold (\<lambda>(res, processed) space.
         case space of
           None \<Rightarrow> Inl TypeError
         | Some r \<Rightarrow>
             let spaceGuid = re_entityGuid r in
             Inr (if spaceGuid \<in> set processed then (res, processed)
                  else (res @ [\<lparr>ps_name = re_name r, ps_orgGuid = re_organization_guid r, ps_spaceGuid = spaceGuid,
                          ps_permissions = createUserRoleInSpace (Some (isSpaceManager user spaceGuid))
                            (Some (isSpaceAuditor user spaceGuid)) (Some (isSpaceDeveloper user spaceGuid))\<rparr>],
                        processed @ [spaceGuid])))
       start spacesToProcess"

definition getSpaceRolesFromUser :: "CfUser \<Rightarrow> IUserPermissionInSpace list result" where
  "getSpaceRolesFromUser user =
     res_bind (res_fold (\<lambda>acc roleType. parseSpaceRole user (user_list user roleType) acc) ([], [])
         [''spaces'', ''audited_spaces'', ''managed_spaces''])
       (\<lambda>(res, _). Inr res)"

subsection \<open>The roles the picked users have: CfRolesService.populateRoles\<close>

definition add_space :: "IUserPermissionInSpace \<Rightarrow> (string, IUserPermissionInOrg) obj \<Rightarrow> (string, IUserPermissionInOrg) obj" where
  "add_space space mappedUser =
     (let org = (case obj_get mappedUser (ps_orgGuid space) of
          Some o' \<Rightarrow> o' | None \<Rightarrow> createDefaultOrgRoles (ps_orgGuid space))
      in obj_set (ps_orgGuid space) (org\<lparr>po_spaces := obj_set (ps_spaceGuid space) space (po_spaces org)\<rparr>) mappedUser)"

definition populateUserRoles :: "CfUser \<Rightarrow> (string, IUserPermissionInOrg) obj result" where
  "populateUserRoles user =
     res_bind (getOrgRolesFromUser user) (\<lambda>orgRoles.
     res_bind (getSpaceRolesFromUser user) (\<lambda>spaceRoles.
       Inr (fold add_space spaceRoles
         (fold (\<lambda>org. obj_set (po_orgGuid org) (org\<lparr>po_spaces := []\<rparr>)) orgRoles []))))"

definition populateRoles :: "string \<Rightarrow> CfUser list \<Rightarrow> CfUser list \<Rightarrow> CfUserRolesSelected result" where
  "populateRoles cfGuid selectedUsers users =
     (if cfGuid = '''' \<or> selectedUsers = [] then Inr []
      else res_fold (\<lambda>roles user.
          if us_guid user \<in> set (map us_guid selectedUsers)
          then res_bind (populateUserRoles user) (\<lambda>mappedUser. Inr (obj_set (us_guid user) mappedUser roles))
          else Inr roles)
        [] users)"

subsection \<open>The changes to make: createRolesDiff\<close>

definition comparePermissions :: "CfRoleChange \<Rightarrow> UserRole \<Rightarrow> UserRole \<Rightarrow> CfRoleChange list" where
  "comparePermissions template oldPerms newPerms =
     concat (map (\<lambda>(permKey, old).
       case obj_get newPerms permKey of
         Some (Some new) \<Rightarrow>
           if (old = Some True) \<noteq> new then [template\<lparr>rc_add := new, rc_role := permKey\<rparr>] else []
       | _ \<Rightarrow> []) oldPerms)"

definition change_template :: "string \<Rightarrow> string \<Rightarrow> string option \<Rightarrow> CfRoleChange" where
  "change_template userGuid orgGuid spaceGuid =
     \<lparr>rc_userGuid = userGuid, rc_orgGuid = orgGuid, rc_spaceGuid = spaceGuid, rc_add = False, rc_role = ''''\<rparr>"

definition createRolesUserDiff ::
  "CfUserRolesSelected \<Rightarrow> IUserPermissionInOrg \<Rightarrow> CfUser \<Rightarrow> string \<Rightarrow> CfRoleChange list" where
  "createRolesUserDiff existingRoles newRoles user orgGuid =
     (let existingUserRoles = (case obj_get existingRoles (us_guid user) of Some r \<Rightarrow> r | None \<Rightarrow> []);
          existingOrgRoles = (case obj_get existingUserRoles orgGuid of Some r \<Rightarrow> r | None \<Rightarrow> createDefaultOrgRoles orgGuid)
      in comparePermissions (change_template (us_guid user) orgGuid None) (po_permissions existingOrgRoles) (po_permissions newRoles)
         @ concat (map (\<lambda>(spaceGuid, newSpace).
             let oldSpace = (case obj_get (po_spaces existingOrgRoles) spaceGuid of
                 Some s \<Rightarrow> s | None \<Rightarrow> createDefaultSpaceRoles orgGuid spaceGuid)
             in comparePermissions (change_template (us_guid user) orgGuid (Some spaceGuid))
                  (ps_permissions oldSpace) (ps_permissions newSpace)) (po_spaces newRoles)))"

definition createRolesDiff ::
  "CfUserRolesSelected \<Rightarrow> IUserPermissionInOrg \<Rightarrow> CfUser list \<Rightarrow> string \<Rightarrow> CfRoleChange list" where
  "createRolesDiff existingRoles newRoles pickedUsers orgGuid =
     concat (map (\<lambda>user. createRolesUserDiff existingRoles newRoles user orgGuid) pickedUsers)"

subsection \<open>Carrying the changes out: users-roles.effects.ts\<close>

definition generateUpdatingKey :: "string \<Rightarrow> string \<Rightarrow> string" where
  "generateUpdatingKey permissionType userGuid = permissionType @ ''/'' @ userGuid"

text \<open>\<open>AddUserRole\<close> and \<open>RemoveUserRole\<close>.\<close>

definition change_action :: "string \<Rightarrow> bool \<Rightarrow> CfRoleChange \<Rightarrow> ApiAction" where
  "change_action cfGuid updateConnectedUser change =
     (let isSpace = truthy_str (rc_spaceGuid change);
          entityGuid = (if isSpace then the (rc_spaceGuid change) else rc_orgGuid change)
      in \<lparr>aa_type = ''API_REQUEST_START'', aa_entityKey = Some (if isSpace then ''space'' else ''organization''),
          aa_guid = Some entityGuid, aa_endpointGuid = Some cfGuid,
          aa_updatingKey = Some (generateUpdatingKey (rc_role change) (rc_userGuid change)),
          aa_paginationKey = None, aa_pageNumber = None,
          aa_method = JStr (if rc_add change then ''put'' else ''delete''), aa_removeEntityOnDelete = False,
          aa_change = Some \<lparr>cu_userGuid = rc_userGuid change, cu_permissionTypeKey = rc_role change,
            cu_entityGuid = entityGuid, cu_isSpace = isSpace, cu_updateConnectedUser = updateConnectedUser,
            cu_orgGuid = Some (rc_orgGuid change)\<rparr>,
          aa_details = []\<rparr>)"

text \<open>
  A batch of changes is sent at once; the next one when every request of it has gone from busy to not busy,
  successful or not. The session of the endpoint may be unknown, and have no user.
\<close>

definition executeChanges :: "string \<Rightarrow> SessionDataEndpoint option \<Rightarrow> CfRoleChange list \<Rightarrow> ApiAction list result" where
  "executeChanges cfGuid cfSession changes =
     res_map (\<lambda>change.
         case Option.bind cfSession se_user of
           None \<Rightarrow> Inl TypeError
         | Some user \<Rightarrow>
             Inr (change_action cfGuid (\<not> eu_admin user \<and> rc_userGuid change = eu_guid user) change))
       changes"

definition is_org_user_change :: "CfRoleChange \<Rightarrow> bool" where
  "is_org_user_change change \<longleftrightarrow> \<not> truthy_str (rc_spaceGuid change) \<and> rc_role change = ''users''"

definition execution_batches :: "CfRoleChange list \<Rightarrow> CfRoleChange list list" where
  "execution_batches changes =
     (let orgUserChanges = filter is_org_user_change changes;
          nonOrgUserChanges = filter (\<lambda>c. \<not> is_org_user_change c) changes
      in if orgUserChanges \<noteq> []
         then if rc_add (hd orgUserChanges) then [orgUserChanges, nonOrgUserChanges]
              else [nonOrgUserChanges, orgUserChanges]
         else [nonOrgUserChanges])"

definition executeUsersRolesChange :: "UsersRolesState \<Rightarrow> SessionData \<Rightarrow> ApiAction list list result" where
  "executeUsersRolesChange usersRoles sessionData =
     (case Option.bind (sd_endpoints sessionData) (\<lambda>es. obj_get es ''cf'') of
        None \<Rightarrow> Inl TypeError
      | Some cfs \<Rightarrow>
          res_map (executeChanges (ur_cfGuid usersRoles) (obj_get cfs (ur_cfGuid usersRoles)))
            (execution_batches (ur_changedRoles usersRoles)))"

definition clearEntityUpdates :: "CfRoleChange list \<Rightarrow> Action list" where
  "clearEntityUpdates changedRoles =
     map (\<lambda>change.
       let isSpace = truthy_str (rc_spaceGuid change) in
       RequestA (UpdateCfAction
         ((entity_action (if isSpace then ''space'' else ''organization'')
             (if isSpace then the (rc_spaceGuid change) else rc_orgGuid change))
           \<lparr>aa_type := ''undefined'', aa_updatingKey := Some (generateUpdatingKey (rc_role change) (rc_userGuid change))\<rparr>)
         False (Some '''')))
     changedRoles"

subsection \<open>The roles held, and the roles selected\<close>

text \<open>
  The abstract view: which user holds which role in which organization or space (\<open>None\<close> for the organization
  itself). A change gives or takes one role; a selection says of a role whether it is to be held, or nothing.
\<close>

type_synonym held = "string \<times> string \<times> string option \<times> string \<Rightarrow> bool"

definition org_roles :: "string list" where "org_roles = [''managers'', ''billing_managers'', ''auditors'', ''users'']"
definition space_roles :: "string list" where "space_roles = [''managers'', ''developers'', ''auditors'']"

definition held_in :: "IUserPermissionInOrg \<Rightarrow> string option \<Rightarrow> string \<Rightarrow> bool option" where
  "held_in org sp role =
     (case sp of
        None \<Rightarrow> Option.bind (obj_get (po_permissions org) role) id
      | Some s \<Rightarrow> Option.bind (obj_get (po_spaces org) s) (\<lambda>p. Option.bind (obj_get (ps_permissions p) role) id))"

definition holds :: "CfUserRolesSelected \<Rightarrow> held" where
  "holds roles = (\<lambda>(user, org, sp, role).
     (case Option.bind (obj_get roles user) (\<lambda>m. obj_get m org) of
        None \<Rightarrow> False
      | Some o' \<Rightarrow> held_in o' sp role = Some True))"

abbreviation selected :: "IUserPermissionInOrg \<Rightarrow> string option \<Rightarrow> string \<Rightarrow> bool option" where
  "selected \<equiv> held_in"

definition change_key :: "CfRoleChange \<Rightarrow> string \<times> string \<times> string option \<times> string" where
  "change_key c = (rc_userGuid c, rc_orgGuid c, rc_spaceGuid c, rc_role c)"

definition apply_change :: "CfRoleChange \<Rightarrow> held \<Rightarrow> held" where
  "apply_change c h = h(change_key c := rc_add c)"

lemma fold_changes:
  assumes "\<And>c. c \<in> set cs \<Longrightarrow> change_key c = t \<Longrightarrow> rc_add c = b"
  shows "fold apply_change cs h t = (if t \<in> change_key ` set cs then b else h t)"
  using assms by (induction cs arbitrary: h) (auto simp: apply_change_def)

text \<open>Well-formed roles of the users, and a well-formed selection.\<close>

definition wf_space :: "IUserPermissionInSpace \<Rightarrow> bool" where
  "wf_space p \<longleftrightarrow> wf_obj (ps_permissions p) \<and> set (obj_keys (ps_permissions p)) = set space_roles"

definition wf_org :: "IUserPermissionInOrg \<Rightarrow> bool" where
  "wf_org r \<longleftrightarrow> wf_obj (po_permissions r) \<and> set (obj_keys (po_permissions r)) = set org_roles \<and> wf_obj (po_spaces r)
     \<and> (\<forall>s p. obj_get (po_spaces r) s = Some p \<longrightarrow> wf_space p)"

definition wf_roles :: "CfUserRolesSelected \<Rightarrow> bool" where
  "wf_roles roles \<longleftrightarrow> (\<forall>u m o' r. obj_get roles u = Some m \<longrightarrow> obj_get m o' = Some r \<longrightarrow> wf_org r)"

lemma wf_defaults [simp]: "wf_org (createDefaultOrgRoles g)" "wf_space (createDefaultSpaceRoles g s)"
  by (simp_all add: wf_org_def wf_space_def createDefaultOrgRoles_def createDefaultSpaceRoles_def createUserRoleInOrg_def
      createUserRoleInSpace_def org_roles_def space_roles_def)

lemma held_in_defaults [simp]: "held_in (createDefaultOrgRoles g) sp r = None"
  by (auto simp: held_in_def createDefaultOrgRoles_def createUserRoleInOrg_def split: option.splits)

lemma comparePermissions_mem:
  assumes "wf_obj old"
  shows "c \<in> set (comparePermissions t old new) \<longleftrightarrow>
    (\<exists>k v b. obj_get old k = Some v \<and> obj_get new k = Some (Some b) \<and> (v = Some True) \<noteq> b \<and> c = t\<lparr>rc_add := b, rc_role := k\<rparr>)"
proof -
  have "c \<in> set (comparePermissions t old new) \<longleftrightarrow>
    (\<exists>k v b. (k, v) \<in> set old \<and> obj_get new k = Some (Some b) \<and> (v = Some True) \<noteq> b \<and> c = t\<lparr>rc_add := b, rc_role := k\<rparr>)"
    unfolding comparePermissions_def by (auto split: option.splits if_splits) force+
  moreover have "(k, v) \<in> set old \<longleftrightarrow> obj_get old k = Some v" for k v
    using obj_get_wf[OF assms] obj_get_mem by fast
  ultimately show ?thesis by simp
qed

text \<open>A change of the diff: a role the selection sets against what the user holds.\<close>

lemma user_diff_mem:
  fixes user :: CfUser
  assumes wf: "wf_roles roles" and new: "wf_obj (po_spaces new)"
    and org_keys: "set (obj_keys (po_permissions new)) \<subseteq> set org_roles"
    and space_keys: "\<And>s p. obj_get (po_spaces new) s = Some p \<Longrightarrow> set (obj_keys (ps_permissions p)) \<subseteq> set space_roles"
  shows "c \<in> set (createRolesUserDiff roles new user org) \<longleftrightarrow>
    rc_userGuid c = us_guid user \<and> rc_orgGuid c = org \<and> selected new (rc_spaceGuid c) (rc_role c) = Some (rc_add c)
    \<and> holds roles (change_key c) \<noteq> rc_add c"
proof -
  define ex where "ex = (case obj_get (case obj_get roles (us_guid user) of Some r \<Rightarrow> r | None \<Rightarrow> []) org of
      Some r \<Rightarrow> r | None \<Rightarrow> createDefaultOrgRoles org)"
  have wf_ex: "wf_org ex" using wf by (auto simp: ex_def wf_roles_def split: option.splits)
  have held: "holds roles (us_guid user, org, sp, r) \<longleftrightarrow> held_in ex sp r = Some True" for sp r
    by (auto simp: holds_def ex_def split: option.splits)
  define old where "old s = (case obj_get (po_spaces ex) s of Some p \<Rightarrow> p | None \<Rightarrow> createDefaultSpaceRoles org s)" for s
  have wf_old: "wf_space (old s)" for s using wf_ex by (auto simp: old_def wf_org_def split: option.splits)
  have held_old: "held_in ex (Some s) r = Some True \<longleftrightarrow> obj_get (ps_permissions (old s)) r = Some (Some True)" for s r
    by (auto simp: held_in_def old_def createDefaultSpaceRoles_def createUserRoleInSpace_def bind_eq_Some_conv split: option.splits)
  have orgs: "c \<in> set (comparePermissions (change_template (us_guid user) org None) (po_permissions ex) (po_permissions new)) \<longleftrightarrow>
      rc_userGuid c = us_guid user \<and> rc_orgGuid c = org \<and> rc_spaceGuid c = None \<and> selected new None (rc_role c) = Some (rc_add c)
      \<and> (held_in ex None (rc_role c) = Some True) \<noteq> rc_add c" for c
    using wf_ex org_keys set_obj_keys[of _ "po_permissions new"] set_obj_keys[of _ "po_permissions ex"]
    by (cases c) (auto simp: comparePermissions_mem wf_org_def change_template_def held_in_def bind_eq_Some_conv; blast)
  have spaces: "c \<in> set (comparePermissions (change_template (us_guid user) org (Some s)) (ps_permissions (old s)) (ps_permissions p)) \<longleftrightarrow>
      rc_userGuid c = us_guid user \<and> rc_orgGuid c = org \<and> rc_spaceGuid c = Some s \<and> obj_get (ps_permissions p) (rc_role c) = Some (Some (rc_add c))
      \<and> (held_in ex (Some s) (rc_role c) = Some True) \<noteq> rc_add c" if "obj_get (po_spaces new) s = Some p" for c s p
    using wf_old[of s] space_keys[OF that] set_obj_keys[of _ "ps_permissions p"] set_obj_keys[of _ "ps_permissions (old s)"]
    by (cases c) (auto simp: comparePermissions_mem wf_space_def change_template_def held_old; blast)
  have mem: "(s, p) \<in> set (po_spaces new) \<longleftrightarrow> obj_get (po_spaces new) s = Some p" for s p
    using obj_get_wf[OF new] obj_get_mem by fast
  have "c \<in> set (createRolesUserDiff roles new user org) \<longleftrightarrow>
      c \<in> set (comparePermissions (change_template (us_guid user) org None) (po_permissions ex) (po_permissions new))
      \<or> (\<exists>s p. obj_get (po_spaces new) s = Some p
        \<and> c \<in> set (comparePermissions (change_template (us_guid user) org (Some s)) (ps_permissions (old s)) (ps_permissions p)))"
    unfolding createRolesUserDiff_def ex_def[symmetric] Let_def old_def[symmetric] mem[symmetric] by (simp add: Bex_def)
  also have "\<dots> \<longleftrightarrow> rc_userGuid c = us_guid user \<and> rc_orgGuid c = org \<and> selected new (rc_spaceGuid c) (rc_role c) = Some (rc_add c)
      \<and> (held_in ex (rc_spaceGuid c) (rc_role c) = Some True) \<noteq> rc_add c"
  proof (cases "rc_spaceGuid c")
    case None
    then show ?thesis using orgs spaces by auto
  next
    case (Some s)
    have "selected new (Some s) r = Some b \<longleftrightarrow> (\<exists>p. obj_get (po_spaces new) s = Some p \<and> obj_get (ps_permissions p) r = Some (Some b))" for r b
      by (auto simp: held_in_def bind_eq_Some_conv)
    moreover have "(\<exists>s p. obj_get (po_spaces new) s = Some p
        \<and> c \<in> set (comparePermissions (change_template (us_guid user) org (Some s)) (ps_permissions (old s)) (ps_permissions p))) \<longleftrightarrow>
      (\<exists>s p. obj_get (po_spaces new) s = Some p \<and> rc_userGuid c = us_guid user \<and> rc_orgGuid c = org \<and> rc_spaceGuid c = Some s
        \<and> obj_get (ps_permissions p) (rc_role c) = Some (Some (rc_add c)) \<and> (held_in ex (Some s) (rc_role c) = Some True) \<noteq> rc_add c)"
      by (simp add: spaces cong: conj_cong)
    ultimately show ?thesis using Some by (simp add: orgs) blast
  qed
  finally show ?thesis using held by (auto simp: change_key_def)
qed

lemma diff_mem:
  fixes picked :: "CfUser list"
  assumes "wf_roles roles" and "wf_obj (po_spaces new)"
    and "set (obj_keys (po_permissions new)) \<subseteq> set org_roles"
    and "\<And>s p. obj_get (po_spaces new) s = Some p \<Longrightarrow> set (obj_keys (ps_permissions p)) \<subseteq> set space_roles"
  shows "c \<in> set (createRolesDiff roles new picked org) \<longleftrightarrow>
    rc_userGuid c \<in> us_guid ` set picked \<and> rc_orgGuid c = org \<and> selected new (rc_spaceGuid c) (rc_role c) = Some (rc_add c)
    \<and> holds roles (change_key c) \<noteq> rc_add c"
  by (auto simp: createRolesDiff_def user_diff_mem[OF assms])

subsection \<open>The wizard\<close>

text \<open>The roles an action may name, and what a state of the slice always satisfies.\<close>

fun valid_wizard :: "UsersRolesAction \<Rightarrow> bool" where
  "valid_wizard (UsersRolesSetOrgRole _ role _) \<longleftrightarrow> role \<in> set org_roles"
| "valid_wizard (UsersRolesSetSpaceRole _ spaceGuid role _) \<longleftrightarrow> spaceGuid \<noteq> '''' \<and> role \<in> set space_roles"
| "valid_wizard _ \<longleftrightarrow> True"

definition wf_wizard :: "UsersRolesState \<Rightarrow> bool" where
  "wf_wizard s \<longleftrightarrow> wf_org (ur_newRoles s)"

lemma setPermission_get:
  "wf_obj ps \<Longrightarrow> setPermission ps role b = (changed, ps') \<Longrightarrow>
    obj_get ps' k = (if k = role then Some (Some b) else obj_get ps k) \<and> wf_obj ps'
    \<and> set (obj_keys ps') = insert role (set (obj_keys ps)) \<and> (changed \<longleftrightarrow> obj_get ps role \<noteq> Some (Some b))"
  by (auto simp: setPermission_def set_obj_keys obj_get_spread intro!: wf_obj_set wf_obj_spread split: if_splits option.splits)

text \<open>What selecting a role changes in the selection.\<close>

lemma wf_spread_set: "wf_obj ps \<Longrightarrow> wf_obj (obj_set k v (obj_spread [] ps))"
  by (simp add: wf_obj_set wf_obj_spread)

lemma get_spread_set: "wf_obj ps \<Longrightarrow> obj_get (obj_set k v (obj_spread [] ps)) k' = (if k' = k then Some v else obj_get ps k')"
  by (simp add: obj_get_spread split: option.splits)

lemma get_spread_Nil: "wf_obj ps \<Longrightarrow> obj_get (obj_spread [] ps) k = obj_get ps k"
  by (simp add: obj_get_spread split: option.splits)

lemma keys_spread_set: "set (obj_keys (obj_set k v (obj_spread [] ps))) = insert k (set (obj_keys ps))"
  by (simp add: obj_keys_set obj_keys_spread)

lemma setOrgRole_selected:
  assumes wf: "wf_org new" and role: "role \<in> set org_roles" and set: "setOrgRole new role b = Some new'"
  shows "wf_org new' \<and> obj_get (po_permissions new) role \<noteq> Some (Some b) \<and>
    held_in new' sp r = (if sp = None \<and> r = role then Some b else if sp = None \<and> r = ''users'' \<and> b then Some True else held_in new sp r)"
proof -
  obtain changed ps where ps: "setPermission (po_permissions new) role b = (changed, ps)" by force
  have wfp: "wf_obj (po_permissions new)" and keys: "set (obj_keys (po_permissions new)) = set org_roles" using wf by (auto simp: wf_org_def)
  have get: "obj_get ps k = (if k = role then Some (Some b) else obj_get (po_permissions new) k)" for k
    using setPermission_get[OF wfp ps] by blast
  have changed: "changed" using set by (auto simp: setOrgRole_def ps split: if_splits)
  have wfps: "wf_obj ps" "obj_get (po_permissions new) role \<noteq> Some (Some b)" "set (obj_keys ps) = insert role (set (obj_keys (po_permissions new)))"
    using setPermission_get[OF wfp ps, of role] changed by blast+
  have new': "new' = new\<lparr>po_permissions := (if role \<noteq> ''user'' \<and> b then obj_set ''users'' (Some True) (obj_spread [] ps) else ps)\<rparr>"
    using set changed by (auto simp: setOrgRole_def ps)
  have names: "set (obj_keys ps) = set org_roles" "''users'' \<in> set org_roles" "role \<noteq> ''user''"
    using wfps(3) keys role by (auto simp: org_roles_def)
  have "wf_org new'" using wf wfps(1) names by (auto simp: wf_org_def new' wf_spread_set keys_spread_set)
  moreover have "held_in new' sp r = (if sp = None \<and> r = role then Some b else if sp = None \<and> r = ''users'' \<and> b then Some True else held_in new sp r)"
    using names(3) by (cases sp) (simp_all add: new' held_in_def get_spread_Nil[OF wfps(1)] get)
  ultimately show ?thesis using wfps(2) by blast
qed

lemma setSpaceRole_selected:
  assumes wf: "wf_org new" and role: "role \<in> set space_roles"
  shows "wf_org (setSpaceRole new org s role b) \<and>
    held_in (setSpaceRole new org s role b) sp r =
      (if sp = Some s \<and> r = role then Some b else if sp = None \<and> r = ''users'' \<and> b \<and> held_in new (Some s) role \<noteq> Some b
       then Some True else held_in new sp r)"
proof -
  define changed where "changed \<longleftrightarrow> held_in new (Some s) role \<noteq> Some b"
  define p where "p = (case obj_get (po_spaces new) s of Some p \<Rightarrow> p | None \<Rightarrow> createDefaultSpaceRoles org s)"
  have wfp: "wf_space p" using wf by (auto simp: p_def wf_org_def split: option.splits)
  obtain ch ps where ps: "setPermission (ps_permissions p) role b = (ch, ps)" by force
  note get = setPermission_get[OF _ ps, of r] 
  have wf_old: "wf_obj (ps_permissions p)" "set (obj_keys (ps_permissions p)) = set space_roles" using wfp by (auto simp: wf_space_def)
  have wfps: "wf_obj ps" "set (obj_keys ps) = set space_roles" using get[OF wf_old(1)] wf_old role by auto
  have held_p: "held_in new (Some s) r' = Option.bind (obj_get (ps_permissions p) r') id" for r'
    by (auto simp: held_in_def p_def createDefaultSpaceRoles_def createUserRoleInSpace_def split: option.splits)
  have "role \<in> set (obj_keys (ps_permissions p))" using role wf_old(2) by simp
  then have ch: "ch \<longleftrightarrow> changed"
    using get[OF wf_old(1)] unfolding changed_def held_p by (auto simp: set_obj_keys bind_eq_Some_conv)
  define new1 where "new1 = new\<lparr>po_spaces := obj_set s (p\<lparr>ps_permissions := ps\<rparr>) (po_spaces new)\<rparr>"
  have new': "setSpaceRole new org s role b =
      (if ch \<and> b then new1\<lparr>po_permissions := obj_set ''users'' (Some True) (obj_spread [] (po_permissions new1))\<rparr> else new1)"
    by (simp add: setSpaceRole_def p_def[symmetric] ps new1_def Let_def)
  have wf1: "wf_org new1" using wf wfps by (auto simp: wf_org_def new1_def wf_space_def wf_obj_set)
  have "''users'' \<in> set org_roles" by (simp add: org_roles_def)
  then have "wf_org (setSpaceRole new org s role b)"
    using wf1 by (auto simp: new' wf_org_def wf_spread_set keys_spread_set)
  moreover have "held_in new1 sp r = (if sp = Some s \<and> r = role then Some b else held_in new sp r)"
    using get[OF wf_old(1)] held_p[of r] by (cases sp) (auto simp: new1_def held_in_def)
  moreover have "held_in (setSpaceRole new org s role b) sp r =
      (if sp = None \<and> r = ''users'' \<and> b \<and> changed then Some True else held_in new1 sp r)"
    using get_spread_Nil[of "po_permissions new1"] wf1 by (cases sp) (simp_all add: new' ch held_in_def wf_org_def)
  ultimately show ?thesis by (cases "sp = Some s \<and> r = role"; cases sp) (auto simp: changed_def)
qed

lemma wizard_step: "wf_wizard s \<Longrightarrow> valid_wizard a \<Longrightarrow> wf_wizard (UsersRolesReducer s a)"
  by (cases a) (auto simp: wf_wizard_def usersRolesDefault_def setRole_def
      dest: setOrgRole_selected setSpaceRole_selected[THEN conjunct1] split: option.splits)

lemma wizard_run: "list_all valid_wizard as \<Longrightarrow> wf_wizard s \<Longrightarrow> wf_wizard (fold (\<lambda>a s. UsersRolesReducer s a) as s)"
  by (induction as arbitrary: s) (auto simp: wizard_step)

lemma wf_wizard_default [simp]: "wf_wizard usersRolesDefault"
  by (simp add: wf_wizard_def usersRolesDefault_def)

lemmas wf_selection = wf_org_def[THEN iffD1] wf_space_def[THEN iffD1]

subsection \<open>populateRoles gives well-formed roles\<close>

lemma wf_parsed [simp]:
  "wf_org \<lparr>po_name = n, po_orgGuid = g, po_permissions = createUserRoleInOrg a b c d, po_spaces = []\<rparr>"
  "wf_space \<lparr>ps_name = n, ps_orgGuid = g, ps_spaceGuid = h, ps_permissions = createUserRoleInSpace a b c\<rparr>"
  by (simp_all add: wf_org_def wf_space_def createUserRoleInOrg_def org_roles_def createUserRoleInSpace_def space_roles_def)

lemma parseOrg_wf:
  assumes "parseOrgRole user orgs st = Inr st'" and "\<forall>r \<in> set (fst st). wf_org r"
  shows "\<forall>r \<in> set (fst st'). wf_org r"
  by (rule res_fold_inv[where P = "\<lambda>st. \<forall>r \<in> set (fst st). wf_org r", OF _ assms(2) assms(1)[unfolded parseOrgRole_def]])
    (auto simp: Let_def split: option.splits if_splits)

lemma getOrgRoles_wf:
  assumes "getOrgRolesFromUser user = Inr rs"
  shows "\<forall>r \<in> set rs. wf_org r"
proof -
  from assms obtain st where st: "res_fold (\<lambda>acc roleType. parseOrgRole user (user_list user roleType) acc) ([], [])
      [''organizations'', ''audited_organizations'', ''billing_managed_organizations'', ''managed_organizations''] = Inr st"
    and rs: "rs = fst st" by (auto simp: getOrgRolesFromUser_def res_bind_Inr_iff)
  show ?thesis unfolding rs
    by (rule res_fold_inv[where P = "\<lambda>st. \<forall>r \<in> set (fst st). wf_org r", OF _ _ st]) (use parseOrg_wf in blast, simp)
qed

lemma parseSpace_wf:
  assumes "parseSpaceRole user spaces st = Inr st'" and "\<forall>r \<in> set (fst st). wf_space r"
  shows "\<forall>r \<in> set (fst st'). wf_space r"
  by (rule res_fold_inv[where P = "\<lambda>st. \<forall>r \<in> set (fst st). wf_space r", OF _ assms(2) assms(1)[unfolded parseSpaceRole_def]])
    (auto simp: Let_def split: option.splits if_splits)

lemma getSpaceRoles_wf:
  assumes "getSpaceRolesFromUser user = Inr rs"
  shows "\<forall>r \<in> set rs. wf_space r"
proof -
  from assms obtain st where st: "res_fold (\<lambda>acc roleType. parseSpaceRole user (user_list user roleType) acc) ([], [])
      [''spaces'', ''audited_spaces'', ''managed_spaces''] = Inr st"
    and rs: "rs = fst st" by (auto simp: getSpaceRolesFromUser_def res_bind_Inr_iff)
  show ?thesis unfolding rs
    by (rule res_fold_inv[where P = "\<lambda>st. \<forall>r \<in> set (fst st). wf_space r", OF _ _ st]) (use parseSpace_wf in blast, simp)
qed

definition wf_user_map :: "(string, IUserPermissionInOrg) obj \<Rightarrow> bool" where
  "wf_user_map m \<longleftrightarrow> (\<forall>o' r. obj_get m o' = Some r \<longrightarrow> wf_org r)"

lemma populateUserRoles_wf:
  assumes "populateUserRoles user = Inr m"
  shows "wf_user_map m"
proof -
  from assms obtain os ss where os: "getOrgRolesFromUser user = Inr os" and ss: "getSpaceRolesFromUser user = Inr ss"
    and m: "m = fold add_space ss (fold (\<lambda>org. obj_set (po_orgGuid org) (org\<lparr>po_spaces := []\<rparr>)) os [])"
    by (auto simp: populateUserRoles_def res_bind_Inr_iff)
  have "wf_user_map (fold (\<lambda>org. obj_set (po_orgGuid org) (org\<lparr>po_spaces := []\<rparr>)) os [])"
    by (rule fold_inv) (use getOrgRoles_wf[OF os] in \<open>auto simp: wf_user_map_def wf_org_def split: if_splits\<close>)
  then show ?thesis unfolding m
  proof (rule fold_inv[rotated])
    fix p m assume p: "p \<in> set ss" and m: "wf_user_map m"
    have "wf_space p" using getSpaceRoles_wf[OF ss] p by blast
    moreover have "wf_org (case obj_get m (ps_orgGuid p) of Some o' \<Rightarrow> o' | None \<Rightarrow> createDefaultOrgRoles (ps_orgGuid p))"
      using m by (auto simp: wf_user_map_def split: option.splits)
    ultimately show "wf_user_map (add_space p m)"
      using m by (auto simp: add_space_def Let_def wf_user_map_def wf_org_def wf_obj_set split: if_splits)
  qed
qed

lemma populateRoles_wf:
  assumes "populateRoles cf picked users = Inr roles"
  shows "wf_roles roles"
proof (cases "cf = '''' \<or> picked = []")
  case False
  then have run: "res_fold (\<lambda>roles user.
          if us_guid user \<in> set (map us_guid picked)
          then res_bind (populateUserRoles user) (\<lambda>mappedUser. Inr (obj_set (us_guid user) mappedUser roles))
          else Inr roles) [] users = Inr roles"
    using assms unfolding populateRoles_def by (simp only: if_False)
  show ?thesis
    by (rule res_fold_inv[where P = wf_roles, OF _ _ run])
      (auto simp: wf_roles_def res_bind_Inr_iff wf_user_map_def dest!: populateUserRoles_wf split: if_splits)
qed (use assms in \<open>auto simp: populateRoles_def wf_roles_def\<close>)

subsection \<open>The roles the lists of the users name\<close>

text \<open>
  The meaning of the lists of a user, without the service: which list has a role of an organization, or of a space, and
  who holds a role by an entry of that list. The lists are well-formed when the guid of an entry is that of its entity, a
  space has a guid, and the entries of a space, in whatever list, name the same organization; no user is there twice.
\<close>

definition role_list :: "string option \<Rightarrow> string \<Rightarrow> string option" where
  "role_list sp role = obj_get
     (if sp = None
      then [(''managers'', ''managed_organizations''), (''billing_managers'', ''billing_managed_organizations''),
        (''auditors'', ''audited_organizations''), (''users'', ''organizations'')]
      else [(''managers'', ''managed_spaces''), (''developers'', ''spaces''), (''auditors'', ''audited_spaces'')]) role"

definition names_place :: "RoleEntity \<Rightarrow> string \<Rightarrow> string option \<Rightarrow> bool" where
  "names_place e org sp \<longleftrightarrow>
     (case sp of None \<Rightarrow> re_guid e = org | Some s \<Rightarrow> re_guid e = s \<and> re_organization_guid e = org)"

definition held_by :: "CfUser list \<Rightarrow> held" where
  "held_by users = (\<lambda>(user, org, sp, role).
     \<exists>u \<in> set users. us_guid u = user \<and> (case role_list sp role of None \<Rightarrow> False
       | Some l \<Rightarrow> \<exists>e. Some e \<in> set (user_list u l) \<and> names_place e org sp))"

definition listed_in :: "CfUser \<Rightarrow> string list \<Rightarrow> RoleEntity set" where
  "listed_in user ls = {e. \<exists>l \<in> set ls. Some e \<in> set (user_list user l)}"

abbreviation org_lists :: "string list" where
  "org_lists \<equiv> [''organizations'', ''audited_organizations'', ''billing_managed_organizations'', ''managed_organizations'']"
abbreviation space_lists :: "string list" where
  "space_lists \<equiv> [''spaces'', ''audited_spaces'', ''managed_spaces'']"

definition wf_user :: "CfUser \<Rightarrow> bool" where
  "wf_user user \<longleftrightarrow> (\<forall>e \<in> listed_in user (org_lists @ space_lists). re_entityGuid e = re_guid e)
     \<and> (\<forall>e \<in> listed_in user space_lists. re_guid e \<noteq> '''')
     \<and> (\<forall>e \<in> listed_in user space_lists. \<forall>e' \<in> listed_in user space_lists.
          re_guid e = re_guid e' \<longrightarrow> re_organization_guid e = re_organization_guid e')"

definition wf_users :: "CfUser list \<Rightarrow> bool" where
  "wf_users users \<longleftrightarrow> distinct (map us_guid users) \<and> (\<forall>u \<in> set users. wf_user u)"

subsection \<open>populateRoles reads the lists\<close>

text \<open>Parsing a list: each entity is taken once, by the first entry that has it.\<close>

definition parsed :: "(RoleEntity \<Rightarrow> 'p) \<Rightarrow> RoleEntity set \<Rightarrow> 'p list \<times> string list \<Rightarrow> bool" where
  "parsed mk S st \<longleftrightarrow> set (snd st) = re_entityGuid ` S \<and> set (fst st) \<subseteq> mk ` S
     \<and> (\<forall>r \<in> S. \<exists>r' \<in> S. re_entityGuid r' = re_entityGuid r \<and> mk r' \<in> set (fst st))"

lemma parsed_step:
  assumes "parsed mk S (res, processed)"
  shows "parsed mk (insert r S) (if re_entityGuid r \<in> set processed then (res, processed)
    else (res @ [mk r], processed @ [re_entityGuid r]))"
  using assms by (auto simp: parsed_def insert_absorb)

lemma parsed_fold:
  assumes "res_fold (\<lambda>(res, processed) x. case x of None \<Rightarrow> Inl TypeError
      | Some r \<Rightarrow> Inr (if re_entityGuid r \<in> set processed then (res, processed)
          else (res @ [mk r], processed @ [re_entityGuid r]))) st es = Inr st'"
    and "parsed mk S st"
  shows "parsed mk (S \<union> {r. Some r \<in> set es}) st'"
  using assms
proof (induction es arbitrary: st S)
  case (Cons x es)
  obtain res processed where st: "st = (res, processed)" by (cases st)
  from Cons.prems(1) obtain r where x: "x = Some r" by (cases x) (auto simp: res_bind_Inr_iff st)
  let ?st = "if re_entityGuid r \<in> set processed then (res, processed) else (res @ [mk r], processed @ [re_entityGuid r])"
  have "parsed mk (insert r S \<union> {r. Some r \<in> set es}) st'"
    by (rule Cons.IH[of ?st]) (use Cons.prems parsed_step[of mk S res processed r] in \<open>simp_all add: x st\<close>)
  moreover have "insert r S \<union> {r. Some r \<in> set es} = S \<union> {r. Some r \<in> set (x # es)}" by (auto simp: x)
  ultimately show ?case by simp
qed simp

lemma parsed_lists:
  assumes "\<And>es S st st'. parse es st = Inr st' \<Longrightarrow> parsed mk S st \<Longrightarrow> parsed mk (S \<union> {r. Some r \<in> set es}) st'"
    and "res_fold (\<lambda>acc l. parse (user_list user l) acc) ([], []) ls = Inr st"
  shows "parsed mk (listed_in user ls) st"
proof -
  have "parsed mk (S \<union> listed_in user ls) st"
    if "res_fold (\<lambda>acc l. parse (user_list user l) acc) st0 ls = Inr st" "parsed mk S st0" for S st0
    using that
  proof (induction ls arbitrary: S st0)
    case (Cons l ls)
    from Cons.prems(1) obtain st1 where st1: "parse (user_list user l) st0 = Inr st1"
      "res_fold (\<lambda>acc l. parse (user_list user l) acc) st1 ls = Inr st" by (auto simp: res_bind_Inr_iff)
    have "S \<union> {r. Some r \<in> set (user_list user l)} \<union> listed_in user ls = S \<union> listed_in user (l # ls)"
      by (auto simp: listed_in_def)
    with Cons.IH[OF st1(2) assms(1)[OF st1(1) Cons.prems(2)]] show ?case by simp
  qed (simp add: listed_in_def)
  from this[OF assms(2), of "{}"] show ?thesis by (simp add: parsed_def)
qed

definition org_of :: "CfUser \<Rightarrow> RoleEntity \<Rightarrow> IUserPermissionInOrg" where
  "org_of user r = \<lparr>po_name = re_name r, po_orgGuid = re_guid r,
     po_permissions = createUserRoleInOrg (Some (isOrgManager user (re_entityGuid r)))
       (Some (isOrgBillingManager user (re_entityGuid r))) (Some (isOrgAuditor user (re_entityGuid r)))
       (Some (isOrgUser user (re_entityGuid r))), po_spaces = []\<rparr>"

definition space_of :: "CfUser \<Rightarrow> RoleEntity \<Rightarrow> IUserPermissionInSpace" where
  "space_of user r = \<lparr>ps_name = re_name r, ps_orgGuid = re_organization_guid r, ps_spaceGuid = re_entityGuid r,
     ps_permissions = createUserRoleInSpace (Some (isSpaceManager user (re_entityGuid r)))
       (Some (isSpaceAuditor user (re_entityGuid r))) (Some (isSpaceDeveloper user (re_entityGuid r)))\<rparr>"

lemma getOrgRoles_parsed:
  assumes "getOrgRolesFromUser user = Inr os"
  shows "\<exists>processed. parsed (org_of user) (listed_in user org_lists) (os, processed)"
proof -
  from assms obtain st where st: "res_fold (\<lambda>acc l. parseOrgRole user (user_list user l) acc) ([], []) org_lists = Inr st"
    and os: "os = fst st" by (auto simp: getOrgRolesFromUser_def res_bind_Inr_iff)
  have "parsed (org_of user) (listed_in user org_lists) st"
    by (rule parsed_lists[OF _ st]) (rule parsed_fold, simp_all only: parseOrgRole_def Let_def org_of_def)
  then show ?thesis unfolding os by (cases st) auto
qed

lemma getSpaceRoles_parsed:
  assumes "getSpaceRolesFromUser user = Inr ss"
  shows "\<exists>processed. parsed (space_of user) (listed_in user space_lists) (ss, processed)"
proof -
  from assms obtain st where st: "res_fold (\<lambda>acc l. parseSpaceRole user (user_list user l) acc) ([], []) space_lists = Inr st"
    and ss: "ss = fst st" by (auto simp: getSpaceRolesFromUser_def res_bind_Inr_iff)
  have "parsed (space_of user) (listed_in user space_lists) st"
    by (rule parsed_lists[OF _ st]) (rule parsed_fold, simp_all only: parseSpaceRole_def Let_def space_of_def)
  then show ?thesis unfolding ss by (cases st) auto
qed

text \<open>What the map of one user holds, after its organizations and after its spaces.\<close>

definition map_held :: "(string, IUserPermissionInOrg) obj \<Rightarrow> string \<Rightarrow> string option \<Rightarrow> string \<Rightarrow> bool option" where
  "map_held m org sp role = Option.bind (obj_get m org) (\<lambda>r. held_in r sp role)"

lemma holds_map: "obj_get roles u = Some m \<Longrightarrow> holds roles (u, org, sp, role) \<longleftrightarrow> map_held m org sp role = Some True"
  by (auto simp: holds_def map_held_def split: option.splits)

lemma org_fold_held:
  assumes "\<And>p. p \<in> set os \<Longrightarrow> po_orgGuid p = org \<Longrightarrow> po_permissions p = perms"
  shows "map_held (fold (\<lambda>p. obj_set (po_orgGuid p) (p\<lparr>po_spaces := []\<rparr>)) os m) org sp role =
    (if org \<in> po_orgGuid ` set os
     then (case sp of None \<Rightarrow> Option.bind (obj_get perms role) id | Some _ \<Rightarrow> None)
     else map_held m org sp role)"
  using assms by (induction os arbitrary: m) (auto simp: map_held_def held_in_def split: option.split)

lemma add_space_held:
  "map_held (add_space p m) org sp role =
    (if org = ps_orgGuid p \<and> sp = Some (ps_spaceGuid p) then Option.bind (obj_get (ps_permissions p) role) id
     else map_held m org sp role)"
proof (cases "obj_get m (ps_orgGuid p)")
  case None
  have "Option.bind (obj_get (po_permissions (createDefaultOrgRoles g)) r) id = None"
    "po_spaces (createDefaultOrgRoles g) = []" for g r
    by (simp_all add: createDefaultOrgRoles_def createUserRoleInOrg_def)
  with None show ?thesis
    by (cases "org = ps_orgGuid p"; cases sp) (auto simp: map_held_def add_space_def held_in_def Let_def)
next
  case (Some r)
  then show ?thesis
    by (cases "org = ps_orgGuid p"; cases sp) (auto simp: map_held_def add_space_def held_in_def Let_def)
qed

lemma space_fold_held:
  assumes "\<And>p. p \<in> set ss \<Longrightarrow> ps_orgGuid p = org \<Longrightarrow> sp = Some (ps_spaceGuid p) \<Longrightarrow> ps_permissions p = perms"
  shows "map_held (fold add_space ss m) org sp role =
    (if \<exists>p \<in> set ss. ps_orgGuid p = org \<and> sp = Some (ps_spaceGuid p) then Option.bind (obj_get perms role) id
     else map_held m org sp role)"
  using assms by (induction ss arbitrary: m) (auto simp: add_space_held)

text \<open>So the map of a user has a role exactly when one of the user's lists has it.\<close>

lemma hasRole_listed: "hasRole user g l \<longleftrightarrow> (\<exists>e. Some e \<in> set (user_list user l) \<and> re_guid e = g)"
proof
  assume "hasRole user g l"
  then obtain x where "x \<in> set (user_list user l)" "map_option re_guid x = Some g" by (auto simp: hasRole_def)
  then show "\<exists>e. Some e \<in> set (user_list user l) \<and> re_guid e = g" by (cases x) auto
qed (force simp: hasRole_def)

definition user_holds :: "CfUser \<Rightarrow> string \<Rightarrow> string option \<Rightarrow> string \<Rightarrow> bool" where
  "user_holds user org sp role \<longleftrightarrow> (case role_list sp role of None \<Rightarrow> False
     | Some l \<Rightarrow> \<exists>e. Some e \<in> set (user_list user l) \<and> names_place e org sp)"

definition org_permissions :: "CfUser \<Rightarrow> string \<Rightarrow> UserRole" where
  "org_permissions user g = createUserRoleInOrg (Some (isOrgManager user g)) (Some (isOrgBillingManager user g))
     (Some (isOrgAuditor user g)) (Some (isOrgUser user g))"

definition space_permissions :: "CfUser \<Rightarrow> string \<Rightarrow> UserRole" where
  "space_permissions user g =
     createUserRoleInSpace (Some (isSpaceManager user g)) (Some (isSpaceAuditor user g)) (Some (isSpaceDeveloper user g))"

lemma org_permission:
  "Option.bind (obj_get (org_permissions user g) role) id = Some True \<longleftrightarrow> (\<exists>l. role_list None role = Some l \<and> hasRole user g l)"
  "role_list None role = Some l \<Longrightarrow> l \<in> set org_lists"
  by (auto simp: org_permissions_def createUserRoleInOrg_def role_list_def role_tests split: if_splits)

lemma space_permission:
  "Option.bind (obj_get (space_permissions user g) role) id = Some True \<longleftrightarrow> (\<exists>l. role_list (Some s) role = Some l \<and> hasRole user g l)"
  "role_list (Some s) role = Some l \<Longrightarrow> l \<in> set space_lists"
  by (auto simp: space_permissions_def createUserRoleInSpace_def role_list_def role_tests split: if_splits)

lemma populated_user:
  assumes "populateUserRoles user = Inr m" and wf: "wf_user user"
  shows "map_held m org sp role = Some True \<longleftrightarrow> user_holds user org sp role"
proof -
  from assms(1) obtain os ss where os: "getOrgRolesFromUser user = Inr os" and ss: "getSpaceRolesFromUser user = Inr ss"
    and m: "m = fold add_space ss (fold (\<lambda>p. obj_set (po_orgGuid p) (p\<lparr>po_spaces := []\<rparr>)) os [])"
    by (auto simp: populateUserRoles_def res_bind_Inr_iff)
  let ?O = "listed_in user org_lists" and ?S = "listed_in user space_lists"
  have guid: "e \<in> ?O \<or> e \<in> ?S \<Longrightarrow> re_entityGuid e = re_guid e" for e
    using wf unfolding wf_user_def listed_in_def by fastforce
  have same: "e \<in> ?S \<Longrightarrow> e' \<in> ?S \<Longrightarrow> re_guid e = re_guid e' \<Longrightarrow> re_organization_guid e = re_organization_guid e'" for e e'
    using wf unfolding wf_user_def by blast
  have orgs: "set os \<subseteq> org_of user ` ?O"
    "\<And>e. e \<in> ?O \<Longrightarrow> \<exists>e' \<in> ?O. re_guid e' = re_guid e \<and> org_of user e' \<in> set os"
    using getOrgRoles_parsed[OF os] guid unfolding parsed_def by (simp, metis fst_conv)
  have spaces: "set ss \<subseteq> space_of user ` ?S"
    "\<And>e. e \<in> ?S \<Longrightarrow> \<exists>e' \<in> ?S. re_guid e' = re_guid e \<and> space_of user e' \<in> set ss"
    using getSpaceRoles_parsed[OF ss] guid unfolding parsed_def by (simp, metis fst_conv)
  have org_map: "map_held (fold (\<lambda>p. obj_set (po_orgGuid p) (p\<lparr>po_spaces := []\<rparr>)) os []) org sp role =
      (if org \<in> po_orgGuid ` set os
       then (case sp of None \<Rightarrow> Option.bind (obj_get (org_permissions user org) role) id | Some _ \<Rightarrow> None) else None)" for sp
    by (subst org_fold_held[where perms = "org_permissions user org"])
      (use orgs(1) guid in \<open>auto simp: org_of_def org_permissions_def map_held_def\<close>)
  show ?thesis
  proof (cases sp)
    case None
    have "map_held m org sp role = map_held (fold (\<lambda>p. obj_set (po_orgGuid p) (p\<lparr>po_spaces := []\<rparr>)) os []) org sp role"
      unfolding m None by (subst space_fold_held[where perms = "[]"]) auto
    moreover have "org \<in> po_orgGuid ` set os" if role: "role_list None role = Some l" and has: "hasRole user org l" for l
    proof -
      from has obtain e where e: "Some e \<in> set (user_list user l)" "re_guid e = org" by (auto simp: hasRole_listed)
      have "e \<in> ?O" using e(1) org_permission(2)[OF role] unfolding listed_in_def by blast
      from orgs(2)[OF this] obtain e' where "re_guid e' = org" "org_of user e' \<in> set os" using e(2) by auto
      then show ?thesis by (metis image_eqI org_of_def IUserPermissionInOrg.select_convs(2))
    qed
    moreover have "user_holds user org None role \<longleftrightarrow> (\<exists>l. role_list None role = Some l \<and> hasRole user org l)"
      by (simp add: user_holds_def names_place_def hasRole_listed split: option.split)
    ultimately show ?thesis unfolding None org_map using org_permission(1)[of user org role] by auto
  next
    case (Some s)
    let ?there = "\<exists>p \<in> set ss. ps_orgGuid p = org \<and> s = ps_spaceGuid p"
    have map: "map_held m org sp role =
        (if ?there then Option.bind (obj_get (space_permissions user s) role) id else None)"
      unfolding m Some by (subst space_fold_held[where perms = "space_permissions user s"])
        (use spaces(1) in \<open>auto simp: space_of_def space_permissions_def org_map\<close>)
    have "user_holds user org sp role" if t: ?there and l: "role_list (Some s) role = Some l" "hasRole user s l" for l
    proof -
      from l(2) obtain e where e: "Some e \<in> set (user_list user l)" "re_guid e = s" by (auto simp: hasRole_listed)
      have mem: "e \<in> ?S" using e(1) space_permission(2)[OF l(1)] unfolding listed_in_def by blast
      from t spaces(1) obtain e' where "e' \<in> ?S" "re_organization_guid e' = org" "re_entityGuid e' = s"
        by (auto simp: space_of_def)
      with same[OF mem, of e'] guid[of e'] e have "names_place e org sp" by (simp add: names_place_def Some)
      with e l(1) show ?thesis by (auto simp: user_holds_def Some)
    qed
    moreover have "?there \<and> (\<exists>l. role_list (Some s) role = Some l \<and> hasRole user s l)" if "user_holds user org sp role"
    proof -
      from that obtain l e where l: "role_list (Some s) role = Some l" and e: "Some e \<in> set (user_list user l)"
        "re_guid e = s" "re_organization_guid e = org"
        by (auto simp: user_holds_def Some names_place_def split: option.splits)
      have mem: "e \<in> ?S" using e(1) space_permission(2)[OF l(1)] unfolding listed_in_def by blast
      from spaces(2)[OF mem] obtain e' where e': "e' \<in> ?S" "re_guid e' = s" "space_of user e' \<in> set ss" using e(2) by auto
      with same[OF e'(1) mem] guid[of e'] e have "ps_orgGuid (space_of user e') = org" "s = ps_spaceGuid (space_of user e')"
        by (simp_all add: space_of_def)
      with e'(3) have ?there by blast
      moreover have "hasRole user s l" using e by (auto simp: hasRole_listed)
      ultimately show ?thesis using l by blast
    qed
    ultimately show ?thesis unfolding map using space_permission(1)[of user s role s] by auto
  qed
qed

lemma populated_users:
  assumes run: "res_fold (\<lambda>roles user.
      if us_guid user \<in> G then res_bind (populateUserRoles user) (\<lambda>mappedUser. Inr (obj_set (us_guid user) mappedUser roles))
      else Inr roles) roles0 users = Inr roles" and dist: "distinct (map us_guid users)"
  shows "u \<in> set users \<Longrightarrow> us_guid u \<in> G \<Longrightarrow> \<exists>m. populateUserRoles u = Inr m \<and> obj_get roles (us_guid u) = Some m"
    and "g \<notin> us_guid ` set users \<Longrightarrow> obj_get roles g = obj_get roles0 g"
proof -
  have "(\<forall>u \<in> set users. us_guid u \<in> G \<longrightarrow> (\<exists>m. populateUserRoles u = Inr m \<and> obj_get roles (us_guid u) = Some m))
      \<and> (\<forall>g. g \<notin> us_guid ` set users \<longrightarrow> obj_get roles g = obj_get roles0 g)"
    using run dist
  proof (induction users arbitrary: roles0)
    case (Cons u users)
    show ?case
    proof (cases "us_guid u \<in> G")
      case True
      with Cons.prems(1) obtain m where m: "populateUserRoles u = Inr m"
        "res_fold (\<lambda>roles user.
          if us_guid user \<in> G then res_bind (populateUserRoles user) (\<lambda>mappedUser. Inr (obj_set (us_guid user) mappedUser roles))
          else Inr roles) (obj_set (us_guid u) m roles0) users = Inr roles"
        by (auto simp: res_bind_Inr_iff)
      from Cons.IH[OF m(2)] Cons.prems(2) m(1) show ?thesis by auto
    next
      case False
      with Cons.IH[of roles0] Cons.prems show ?thesis by auto
    qed
  qed simp
  then show "u \<in> set users \<Longrightarrow> us_guid u \<in> G \<Longrightarrow> \<exists>m. populateUserRoles u = Inr m \<and> obj_get roles (us_guid u) = Some m"
    "g \<notin> us_guid ` set users \<Longrightarrow> obj_get roles g = obj_get roles0 g" by blast+
qed

lemma populated_roles:
  fixes picked :: "CfUser list"
  assumes roles: "populateRoles cfGuid picked users = Inr roles" "cfGuid \<noteq> ''''" and wf: "wf_users users"
    and user: "user \<in> us_guid ` set picked"
  shows "holds roles (user, org, sp, role) \<longleftrightarrow> held_by users (user, org, sp, role)"
proof -
  have some: "picked \<noteq> []" using user by auto
  have run: "res_fold (\<lambda>roles u.
      if us_guid u \<in> set (map us_guid picked) then res_bind (populateUserRoles u) (\<lambda>mappedUser. Inr (obj_set (us_guid u) mappedUser roles))
      else Inr roles) [] users = Inr roles"
    using roles some unfolding populateRoles_def by (simp only: if_False simp_thms)
  have dist: "distinct (map us_guid users)" using wf by (simp add: wf_users_def)
  have held: "held_by users (user, org, sp, role) \<longleftrightarrow> (\<exists>u \<in> set users. us_guid u = user \<and> user_holds u org sp role)"
    by (simp add: held_by_def user_holds_def)
  show ?thesis
  proof (cases "\<exists>u \<in> set users. us_guid u = user")
    case True
    then obtain u where u: "u \<in> set users" "us_guid u = user" by blast
    from populated_users(1)[OF run dist u(1)] user u(2) obtain m where m: "populateUserRoles u = Inr m" "obj_get roles user = Some m"
      by auto
    have "wf_user u" using wf u(1) by (simp add: wf_users_def)
    moreover have "u' = u" if "u' \<in> set users" "us_guid u' = user" for u'
      using that u dist by (metis distinct_map inj_onD)
    ultimately show ?thesis using populated_user[OF m(1)] u unfolding held holds_map[OF m(2)] by blast
  next
    case False
    then have "obj_get roles user = None" using populated_users(2)[OF run dist, of user] by auto
    with False show ?thesis unfolding held by (auto simp: holds_def)
  qed
qed

section \<open>Properties of the wizard\<close>

lemma wizard_selection:
  assumes "list_all valid_wizard as" and "new = ur_newRoles (fold (\<lambda>a s. UsersRolesReducer s a) as usersRolesDefault)"
  shows "wf_org new"
  using wizard_run[OF assms(1) wf_wizard_default] by (simp add: assms(2) wf_wizard_def)

lemma wizard_diff_mem:
  fixes picked :: "CfUser list"
  assumes "wf_roles roles" and "wf_org new"
  shows "c \<in> set (createRolesDiff roles new picked org) \<longleftrightarrow>
    rc_userGuid c \<in> us_guid ` set picked \<and> rc_orgGuid c = org \<and> selected new (rc_spaceGuid c) (rc_role c) = Some (rc_add c)
    \<and> holds roles (change_key c) \<noteq> rc_add c"
  by (rule diff_mem) (use assms in \<open>auto simp: wf_org_def wf_space_def\<close>)

lemma changes_applied:
  fixes picked :: "CfUser list"
  assumes roles: "wf_roles roles" and new: "wf_org new"
    and agree: "\<And>user sp role. user \<in> us_guid ` set picked \<Longrightarrow> holds roles (user, org, sp, role) = h (user, org, sp, role)"
  shows "fold apply_change (createRolesDiff roles new picked org) h = (\<lambda>(user, org', sp, role).
      if user \<in> us_guid ` set picked \<and> org' = org
      then (case selected new sp role of Some b \<Rightarrow> b | None \<Rightarrow> h (user, org', sp, role))
      else h (user, org', sp, role))
    \<and> (\<forall>c \<in> set (createRolesDiff roles new picked org). h (change_key c) \<noteq> rc_add c)"
proof (intro conjI ext ballI)
  have mem: "c \<in> set (createRolesDiff roles new picked org) \<longleftrightarrow>
      rc_userGuid c \<in> us_guid ` set picked \<and> rc_orgGuid c = org \<and> selected new (rc_spaceGuid c) (rc_role c) = Some (rc_add c)
      \<and> h (change_key c) \<noteq> rc_add c" for c
    unfolding wizard_diff_mem[OF roles new] using agree by (auto simp: change_key_def)
  show "h (change_key c) \<noteq> rc_add c" if "c \<in> set (createRolesDiff roles new picked org)" for c
    using that mem by blast
  fix t :: "string \<times> string \<times> string option \<times> string"
  obtain u o' sp r where t: "t = (u, o', sp, r)" by (cases t)
  let ?cs = "createRolesDiff roles new picked org"
  have in_diff: "t \<in> change_key ` set ?cs \<longleftrightarrow> u \<in> us_guid ` set picked \<and> o' = org \<and>
      (case selected new sp r of Some b \<Rightarrow> h t \<noteq> b | None \<Rightarrow> False)"
  proof
    assume "t \<in> change_key ` set ?cs"
    then show "u \<in> us_guid ` set picked \<and> o' = org \<and> (case selected new sp r of Some b \<Rightarrow> h t \<noteq> b | None \<Rightarrow> False)"
      by (auto simp: mem t change_key_def)
  next
    assume a: "u \<in> us_guid ` set picked \<and> o' = org \<and> (case selected new sp r of Some b \<Rightarrow> h t \<noteq> b | None \<Rightarrow> False)"
    then obtain b where b: "selected new sp r = Some b" "h t \<noteq> b" by (auto split: option.splits)
    let ?c = "\<lparr>rc_userGuid = u, rc_orgGuid = org, rc_spaceGuid = sp, rc_add = b, rc_role = r\<rparr>"
    have "change_key ?c = t" using a by (simp add: change_key_def t)
    moreover have "?c \<in> set ?cs" using a b by (auto simp: mem change_key_def t)
    ultimately show "t \<in> change_key ` set ?cs" by (metis image_eqI)
  qed
  have add: "rc_add c = the (selected new sp r)" if "c \<in> set ?cs" "change_key c = t" for c
    using that by (auto simp: mem t change_key_def)
  show "fold apply_change ?cs h t = (case t of (user, org', sp, role) \<Rightarrow>
      if user \<in> us_guid ` set picked \<and> org' = org
      then (case selected new sp role of Some b \<Rightarrow> b | None \<Rightarrow> h (user, org', sp, role))
      else h (user, org', sp, role))"
    using in_diff by (subst fold_changes[of _ t "the (selected new sp r)"]) (auto simp: add t split: option.splits)
qed

text \<open>
  C5: The list of changes is right, whatever was clicked. Take the roles the users in the store hold by the entries of
  their lists (\<open>managed_organizations\<close>, \<open>audited_spaces\<close>, \<open>spaces\<close> and the others), the list of changes the service
  makes from those users, and the selection after any run of the wizard. Making the changes one by one gives every
  picked user, in the organization and its spaces, exactly the roles the selection sets, and leaves the roles it does not
  mention and everything else as they were; and every change is needed: none gives a role that is held or takes one that is not.
  The endpoint has a guid, no user is in the store twice, the guid of an entry is that of its entity, spaces have guids, and a
  space is in one organization.
\<close>

theorem changes_implement_selection:
  fixes picked :: "CfUser list"
  assumes roles: "populateRoles cfGuid picked users = Inr roles" "cfGuid \<noteq> ''''" and users: "wf_users users"
    and valid: "list_all valid_wizard as"
    and new: "new = ur_newRoles (fold (\<lambda>a s. UsersRolesReducer s a) as usersRolesDefault)"
  shows "fold apply_change (createRolesDiff roles new picked org) (held_by users) = (\<lambda>(user, org', sp, role).
      if user \<in> us_guid ` set picked \<and> org' = org
      then (case selected new sp role of Some b \<Rightarrow> b | None \<Rightarrow> held_by users (user, org', sp, role))
      else held_by users (user, org', sp, role))
    \<and> (\<forall>c \<in> set (createRolesDiff roles new picked org). held_by users (change_key c) \<noteq> rc_add c)"
  by (rule changes_applied[OF populateRoles_wf[OF roles(1)] wizard_selection[OF valid new] populated_roles[OF roles users]])

text \<open>A user with a space role, and the wizard that makes her a manager of another space of the organization.\<close>

definition space_dev :: CfUser where
  "space_dev = \<lparr>us_guid = ''u1'', us_username = Some ''ann'', us_roles = [(''spaces'', [Some \<lparr>re_guid = ''s1'', re_entityGuid = ''s1'', re_name = ''dev'',
     re_organization_guid = ''o1''\<rparr>])]\<rparr>"

definition make_manager :: "UsersRolesAction list" where
  "make_manager = [UsersRolesSetUsers ''cf'' [space_dev], UsersRolesSetOrg ''o1'', UsersRolesSetSpaceRole ''o1'' ''s2'' ''managers'' True]"

theorem changes_implement_selection_witness:
  "\<exists>roles new. populateRoles ''cf'' [space_dev] [space_dev] = Inr roles
    \<and> new = ur_newRoles (fold (\<lambda>a s. UsersRolesReducer s a) make_manager usersRolesDefault)
    \<and> \<not> held_by [space_dev] (''u1'', ''o1'', None, ''users'')
    \<and> fold apply_change (createRolesDiff roles new [space_dev] ''o1'') (held_by [space_dev]) (''u1'', ''o1'', None, ''users'')
    \<and> fold apply_change (createRolesDiff roles new [space_dev] ''o1'') (held_by [space_dev]) (''u1'', ''o1'', Some ''s2'', ''managers'')
    \<and> fold apply_change (createRolesDiff roles new [space_dev] ''o1'') (held_by [space_dev]) (''u1'', ''o1'', Some ''s1'', ''developers'')"
proof -
  have "case populateRoles ''cf'' [space_dev] [space_dev] of Inr _ \<Rightarrow> True | Inl _ \<Rightarrow> False" by code_simp
  then obtain roles where r: "populateRoles ''cf'' [space_dev] [space_dev] = Inr roles" by (auto split: sum.splits)
  let ?new = "ur_newRoles (fold (\<lambda>a s. UsersRolesReducer s a) make_manager usersRolesDefault)"
  have sel: "selected ?new None ''users'' = Some True" "selected ?new (Some ''s2'') ''managers'' = Some True"
    "selected ?new (Some ''s1'') ''developers'' = None" by code_simp+
  have "list_all valid_wizard make_manager" by code_simp
  moreover have "wf_users [space_dev]" by (auto simp: wf_users_def wf_user_def listed_in_def user_list_def space_dev_def)
  moreover have "held_by [space_dev] (''u1'', ''o1'', Some ''s1'', ''developers'')" "\<not> held_by [space_dev] (''u1'', ''o1'', None, ''users'')"
    by (auto simp: held_by_def role_list_def user_list_def names_place_def space_dev_def)
  ultimately show ?thesis
    using changes_implement_selection[OF r(1), of make_manager ?new "''o1''"] r sel
    by (intro exI[of _ roles] exI[of _ ?new]) (simp add: space_dev_def)
qed

text \<open>
  Giving a role makes a member. Selecting a role that was not selected yet also selects the role \<open>users\<close> of the
  organization, without which the other roles cannot be held, and changes nothing else of the selection.
\<close>

theorem grant_selects_membership:
  assumes wf: "wf_wizard s" and valid: "valid_wizard a"
    and a: "a = UsersRolesSetOrgRole org role True \<and> sp = None \<or> a = UsersRolesSetSpaceRole org g role True \<and> sp = Some g"
    and fresh: "selected (ur_newRoles s) sp role \<noteq> Some True"
  shows "selected (ur_newRoles (UsersRolesReducer s a)) sp' role' =
    (if sp' = sp \<and> role' = role \<or> sp' = None \<and> role' = ''users'' then Some True else selected (ur_newRoles s) sp' role')"
proof (cases sp)
  case None
  with a valid have a: "a = UsersRolesSetOrgRole org role True" "role \<in> set org_roles" by auto
  then have "setOrgRole (ur_newRoles s) role True \<noteq> None"
    using fresh None by (auto simp: setOrgRole_def setPermission_def held_in_def split: if_splits)
  then obtain new where new: "setOrgRole (ur_newRoles s) role True = Some new" by blast
  show ?thesis using setOrgRole_selected[OF wf[unfolded wf_wizard_def] a(2) new, of sp' role'] None
    by (auto simp: a(1) setRole_def new)
next
  case (Some g')
  with a valid have a: "a = UsersRolesSetSpaceRole org g role True" "role \<in> set space_roles" "g \<noteq> ''''" "g' = g" by auto
  show ?thesis using setSpaceRole_selected[OF wf[unfolded wf_wizard_def] a(2), of org g True sp' role'] fresh Some
    by (auto simp: a setRole_def)
qed

theorem grant_selects_membership_witness:
  "selected (ur_newRoles (UsersRolesReducer usersRolesDefault (UsersRolesSetSpaceRole ''o1'' ''s1'' ''auditors'' True))) None ''users'' = Some True"
  using grant_selects_membership[of usersRolesDefault "UsersRolesSetSpaceRole ''o1'' ''s1'' ''auditors'' True" "''o1''" "''auditors''" "Some ''s1''" "''s1''"
      None "''users''"]
  by (simp add: usersRolesDefault_def space_roles_def) (simp add: usersRolesDefault_def[symmetric])

text \<open>
  C27: Membership comes first. When the selection makes its users members, the requests that do so are all in the first
  batch, every other change of a user who was not a member waits for it in a later batch, and when the selection takes
  the membership away this is the last batch; either way every change is sent exactly once.
\<close>

theorem membership_first_or_last:
  fixes picked :: "CfUser list"
  assumes roles: "wf_roles roles" and new: "wf_org new"
    and batches: "batches = execution_batches (createRolesDiff roles new picked org)"
    and user: "user \<in> us_guid ` set picked"
    and member: "selected new None ''users'' = Some add" "holds roles (user, org, None, ''users'') \<noteq> add"
  shows "mset (concat batches) = mset (createRolesDiff roles new picked org)
    \<and> length batches = 2
    \<and> (\<forall>c \<in> set (concat batches). is_org_user_change c \<longleftrightarrow> c \<in> set (batches ! (if add then 0 else 1)))
    \<and> \<lparr>rc_userGuid = user, rc_orgGuid = org, rc_spaceGuid = None, rc_add = add, rc_role = ''users''\<rparr> \<in> set (batches ! (if add then 0 else 1))"
proof -
  let ?cs = "createRolesDiff roles new picked org"
  let ?c = "\<lparr>rc_userGuid = user, rc_orgGuid = org, rc_spaceGuid = None, rc_add = add, rc_role = ''users''\<rparr>"
  note mem = wizard_diff_mem[OF roles new, of _ picked org]
  have c: "?c \<in> set ?cs" using user member by (simp add: mem change_key_def)
  have "is_org_user_change ?c" by (simp add: is_org_user_change_def)
  with c have some: "filter is_org_user_change ?cs \<noteq> []" by (auto simp only: filter_empty_conv)
  have dir: "rc_add c = add" if "c \<in> set (filter is_org_user_change ?cs)" for c
  proof -
    from that have c: "c \<in> set ?cs" "rc_role c = ''users''" "\<not> truthy_str (rc_spaceGuid c)" by (auto simp: is_org_user_change_def)
    have "rc_spaceGuid c = None"
    proof (rule ccontr)
      assume "rc_spaceGuid c \<noteq> None"
      then obtain s where s: "rc_spaceGuid c = Some s" by blast
      with c(1,2) have "selected new (Some s) ''users'' \<noteq> None" by (auto simp: mem)
      moreover have "selected new (Some s) ''users'' = None"
      proof (cases "obj_get (po_spaces new) s")
        case (Some p)
        then have "''users'' \<notin> set (obj_keys (ps_permissions p))"
          using new by (auto simp: wf_org_def wf_space_def space_roles_def)
        then show ?thesis by (simp add: held_in_def Some set_obj_keys)
      qed (simp add: held_in_def)
      ultimately show False by blast
    qed
    then show ?thesis using c member(1) by (auto simp: mem)
  qed
  have "rc_add (hd (filter is_org_user_change ?cs)) = add" by (rule dir[OF hd_in_set[OF some]])
  then have b: "batches = (if add then [filter is_org_user_change ?cs, filter (\<lambda>c. \<not> is_org_user_change c) ?cs]
      else [filter (\<lambda>c. \<not> is_org_user_change c) ?cs, filter is_org_user_change ?cs])"
    using some by (simp add: batches execution_batches_def Let_def)
  have "mset (filter is_org_user_change ?cs) + mset (filter (\<lambda>c. \<not> is_org_user_change c) ?cs) = mset ?cs"
    by (simp only: mset_filter) (rule multiset_partition[symmetric])
  then show ?thesis using c by (auto simp: b add.commute is_org_user_change_def)
qed

theorem membership_first_or_last_witness:
  "\<exists>roles batches. populateRoles ''cf'' [space_dev] [space_dev] = Inr roles
    \<and> batches = execution_batches (createRolesDiff roles
        (ur_newRoles (fold (\<lambda>a s. UsersRolesReducer s a) make_manager usersRolesDefault)) [space_dev] ''o1'')
    \<and> length batches = 2"
proof -
  have "case populateRoles ''cf'' [space_dev] [space_dev] of Inr roles \<Rightarrow> \<not> holds roles (''u1'', ''o1'', None, ''users'')
      | Inl _ \<Rightarrow> False" by code_simp
  then obtain roles where r: "populateRoles ''cf'' [space_dev] [space_dev] = Inr roles"
    "\<not> holds roles (''u1'', ''o1'', None, ''users'')" by (auto split: sum.splits)
  let ?new = "ur_newRoles (fold (\<lambda>a s. UsersRolesReducer s a) make_manager usersRolesDefault)"
  have sel: "selected ?new None ''users'' = Some True" by code_simp
  have "list_all valid_wizard make_manager" by code_simp
  from membership_first_or_last[OF populateRoles_wf[OF r(1)] wizard_selection[OF this refl] refl _ sel, where user = "''u1''" and picked = "[space_dev]"]
  show ?thesis using r by (auto simp: space_dev_def)
qed

end
