(* ===== verification/Local_List.thy ===== *)
theory Local_List
  imports Pagination_Reducer "HOL-Library.Multiset" "HOL-Library.List_Lexorder" "HOL-Library.Char_ord"
begin

section \<open>Lists in the browser: shared/components/list/data-sources-controllers\<close>

text \<open>
  A list whose rows are all in the store is filtered, sorted and cut into pages in the browser.
  \<open>local-filtering-sorting.ts\<close> turns the definitions of a list into functions on rows, \<open>LocalListController\<close>
  applies them whenever the rows or the pagination change and keeps the pages it has cut in a cache,
  \<open>ListPaginationController\<close> turns what the user does to a list into pagination actions, two effects follow those
  up, and \<open>ListDataSource\<close> keeps the selected rows.

  Rows are values of type \<open>any\<close>. Letters are ASCII (\<open>toUpperCase\<close>), and a string compared with a number is read as
  a decimal integer (\<open>to_number\<close>; no fractions, exponents or hexadecimal digits). \<open>Array.prototype.sort\<close> is a
  stable sort, in place: the rows a function sorts before any other function made a new array are the rows of the
  source. A function given as code neither changes the array it gets nor returns it.
\<close>

subsection \<open>The value of a row: local-filtering-sorting.ts\<close>

text \<open>\<open>getValue\<close> without and with the conversion to a string, which only an empty path of fields reaches.\<close>

fun getValue :: "js \<Rightarrow> string list \<Rightarrow> js result" where
  "getValue v [] = Inr v"
| "getValue v (f # fs) =
     (if f = [] then Inr v
      else res_bind (js_prop v f) (\<lambda>w. if truthy w then getValue w fs else Inr (JStr [])))"

definition getValue_cast :: "js \<Rightarrow> string list \<Rightarrow> js result" where
  "getValue_cast v fieldArray =
     (case fieldArray of
        [] \<Rightarrow> Inr (JStr (js_key v))
      | f # _ \<Rightarrow> if f = [] then Inr (JStr (js_key v)) else getValue v fieldArray)"

fun checkAndUpperCase :: "js \<Rightarrow> js result" where
  "checkAndUpperCase JUndef = Inl TypeError"
| "checkAndUpperCase JNull = Inl TypeError"
| "checkAndUpperCase (JStr s) = Inr (JStr (toUpperCase s))"
| "checkAndUpperCase v = Inr v"

text \<open>Numbers in strings: \<open>Number(s)\<close> and \<open>parseInt(s, 10)\<close>; \<open>None\<close> is \<open>NaN\<close>.\<close>

definition digits_value :: "string \<Rightarrow> int" where
  "digits_value ds = fold (\<lambda>d n. 10 * n + (of_char d - 48)) ds 0"

definition signed :: "string \<Rightarrow> int \<times> string" where
  "signed s = (case s of c # cs \<Rightarrow> if c = CHR ''-'' then (-1, cs) else if c = CHR ''+'' then (1, cs) else (1, s) | [] \<Rightarrow> (1, s))"

definition parse_int :: "string \<Rightarrow> int option" where
  "parse_int s = (case signed (dropWhile is_blank s) of (sign, rest) \<Rightarrow>
     let ds = takeWhile is_digit rest in if ds = [] then None else Some (sign * digits_value ds))"

fun to_number :: "js \<Rightarrow> int option" where
  "to_number JUndef = None"
| "to_number JNull = Some 0"
| "to_number (JBool b) = Some (if b then 1 else 0)"
| "to_number (JNum n) = Some n"
| "to_number (JStr s) = (let t = trim_blanks s in
     if t = [] then Some 0 else case signed t of (sign, ds) \<Rightarrow>
       if ds \<noteq> [] \<and> list_all is_digit ds then Some (sign * digits_value ds) else None)"
| "to_number v = None"

text \<open>\<open>a < b\<close>: objects become strings, two strings compare by their characters, anything else as numbers.\<close>

fun to_primitive :: "js \<Rightarrow> js" where
  "to_primitive (JArr xs) = JStr (js_key (JArr xs))"
| "to_primitive (JObj kvs) = JStr (js_key (JObj kvs))"
| "to_primitive v = v"

definition js_less :: "js \<Rightarrow> js \<Rightarrow> bool" where
  "js_less a b = (case (to_primitive a, to_primitive b) of
      (JStr s, JStr t) \<Rightarrow> s < t
    | (v, w) \<Rightarrow> (case (to_number v, to_number w) of (Some m, Some n) \<Rightarrow> m < n | _ \<Rightarrow> False))"

subsection \<open>Functions on the rows: getDataFunctionList\<close>

fun sort_insert :: "('a \<Rightarrow> 'a \<Rightarrow> bool) \<Rightarrow> 'a \<Rightarrow> 'a list \<Rightarrow> 'a list" where
  "sort_insert before x [] = [x]"
| "sort_insert before x (y # ys) = (if before y x then y # sort_insert before x ys else x # y # ys)"

definition js_sort :: "('a \<Rightarrow> 'a \<Rightarrow> bool) \<Rightarrow> 'a list \<Rightarrow> 'a list" where
  "js_sort before xs = foldr (sort_insert before) xs []"

text \<open>
  Sorting by a key the comparison computes of both rows it compares. A comparison may throw, and is only made when
  there are two rows; then every row takes part in one.
\<close>

definition sort_by_key :: "('a \<Rightarrow> 'k result) \<Rightarrow> ('k \<Rightarrow> 'k \<Rightarrow> bool) \<Rightarrow> 'a list \<Rightarrow> 'a list result" where
  "sort_by_key key before xs =
     (if length xs < 2 then Inr xs
      else res_bind (res_map key xs) (\<lambda>ks. Inr (map snd (js_sort (\<lambda>a b. before (fst a) (fst b)) (zip ks xs)))))"

text \<open>The comparison function of the source, with \<open>gt\<close> its test \<open>valueA > valueB\<close>: what comes before what.\<close>

definition comes_before :: "('k \<Rightarrow> 'k \<Rightarrow> bool) \<Rightarrow> bool \<Rightarrow> 'k \<Rightarrow> 'k \<Rightarrow> bool" where
  "comes_before lt desc a b = (if desc then lt a b else lt b a)"

definition order_param :: "PaginationEntityState \<Rightarrow> string \<Rightarrow> js" where
  "order_param p k = (case obj_get (pe_params p) k of Some (Param v) \<Rightarrow> v
     | Some (QParams qs) \<Rightarrow> JArr (map (\<lambda>_. JObj []) qs) | None \<Rightarrow> JUndef)"

abbreviation order_field :: "PaginationEntityState \<Rightarrow> js" where
  "order_field p \<equiv> order_param p ''order-direction-field''"
abbreviation order_direction :: "PaginationEntityState \<Rightarrow> js" where
  "order_direction p \<equiv> order_param p ''order-direction''"

text \<open>
  What a list gives: definitions of filters and sorts, the standard sort of an integer field, and functions of its own.
\<close>

datatype DataFunction =
    FilterDefinition string
  | SortDefinition "string option" string
  | IntegerFieldSort string
  | OwnFunction "js list \<Rightarrow> PaginationEntityState \<Rightarrow> js list result"

definition getFieldArray :: "string \<Rightarrow> string list" where
  "getFieldArray field = split_on (CHR ''.'') field"

definition row_matches :: "string \<Rightarrow> string list \<Rightarrow> js \<Rightarrow> bool result" where
  "row_matches upperCaseFilter fieldArray e =
     res_bind (getValue_cast e fieldArray) (\<lambda>value.
       if \<not> truthy value then Inr False
       else case value of JStr s \<Rightarrow> Inr (includes_str (toUpperCase s) upperCaseFilter) | _ \<Rightarrow> Inl TypeError)"

definition getFilterFunction :: "string \<Rightarrow> js list \<Rightarrow> PaginationEntityState \<Rightarrow> js list result" where
  "getFilterFunction field entities p =
     (let upperCaseFilter = toUpperCase (cf_string (cp_filter (pe_clientPagination p))) in
      res_bind (res_map (row_matches upperCaseFilter (getFieldArray field)) entities)
        (\<lambda>keep. Inr (map snd (filter fst (zip keep entities)))))"

definition sorts_list :: "string option \<Rightarrow> PaginationEntityState \<Rightarrow> bool" where
  "sorts_list orderKey p \<longleftrightarrow>
     (case orderKey of Some k \<Rightarrow> order_field p = JStr k \<and> k \<noteq> [] | None \<Rightarrow> False)"

definition sort_key_of :: "string list \<Rightarrow> js \<Rightarrow> js result" where
  "sort_key_of fieldArray e = res_bind (getValue e fieldArray) checkAndUpperCase"

definition getSortFunction :: "string option \<Rightarrow> string \<Rightarrow> js list \<Rightarrow> PaginationEntityState \<Rightarrow> js list result" where
  "getSortFunction orderKey field entities p =
     (if sorts_list orderKey p
      then sort_by_key (sort_key_of (getFieldArray field)) (comes_before js_less (order_direction p = JStr ''desc'')) entities
      else Inr entities)"

definition integer_less :: "int option \<Rightarrow> int option \<Rightarrow> bool" where
  "integer_less a b = (case (a, b) of (Some m, Some n) \<Rightarrow> m < n | _ \<Rightarrow> False)"

definition getIntegerFieldSortFunction :: "string \<Rightarrow> js list \<Rightarrow> PaginationEntityState \<Rightarrow> js list result" where
  "getIntegerFieldSortFunction field entities p =
     sort_by_key (\<lambda>e. res_bind (getValue e (getFieldArray field)) (\<lambda>v. Inr (parse_int (js_key v))))
       (comes_before integer_less (order_direction p = JStr ''desc'')) entities"

text \<open>\<open>getDataFunctionList\<close>: the function of a definition, and whether it sorts the array it is given.\<close>

fun getDataFunction :: "DataFunction \<Rightarrow> js list \<Rightarrow> PaginationEntityState \<Rightarrow> js list result" where
  "getDataFunction (FilterDefinition field) = getFilterFunction field"
| "getDataFunction (SortDefinition orderKey field) = getSortFunction orderKey field"
| "getDataFunction (IntegerFieldSort field) = getIntegerFieldSortFunction field"
| "getDataFunction (OwnFunction f) = f"

fun sorts_in_place :: "DataFunction \<Rightarrow> bool" where
  "sorts_in_place (SortDefinition _ _) = True"
| "sorts_in_place (IntegerFieldSort _) = True"
| "sorts_in_place _ = False"

subsection \<open>The pages: local-list-controller.helpers.ts\<close>

text \<open>A list of rows some of whose pages have been cut out into arrays.\<close>

datatype 'a slot = Row 'a | Cut "'a slot list"

fun find_start :: "int \<Rightarrow> int \<Rightarrow> 'a slot list \<Rightarrow> nat \<Rightarrow> int \<Rightarrow> int \<Rightarrow> nat option" where
  "find_start pageSize requiredPage [] i currentPage splitPages = None"
| "find_start pageSize requiredPage (Cut _ # ents) i currentPage splitPages =
     (if currentPage + 1 = requiredPage then Some i
      else find_start pageSize requiredPage ents (i + 1) (currentPage + 1) (splitPages + 1))"
| "find_start pageSize requiredPage (Row _ # ents) i currentPage splitPages =
     (let index = (int i - splitPages) + splitPages * pageSize;
          currentPage' = (if pageSize \<noteq> 0 \<and> pageSize dvd index then currentPage + 1 else currentPage)
      in if currentPage' = requiredPage then Some i
         else find_start pageSize requiredPage ents (i + 1) currentPage' splitPages)"

definition getCurrentPageStartIndex :: "'a slot list \<Rightarrow> int \<Rightarrow> int \<Rightarrow> nat option" where
  "getCurrentPageStartIndex entities pageSize requiredPage = find_start pageSize requiredPage entities 0 0 0"

fun is_cut :: "'a slot \<Rightarrow> bool" where
  "is_cut (Cut _) = True"
| "is_cut (Row _) = False"

definition splitCurrentPage :: "'a slot list \<Rightarrow> int \<Rightarrow> int \<Rightarrow> 'a slot list \<times> nat option" where
  "splitCurrentPage entities pageSize currentPage =
     (if entities = [] then ([], Some 0)
      else case getCurrentPageStartIndex entities pageSize currentPage of
        None \<Rightarrow> (entities, None)
      | Some index \<Rightarrow>
          if is_cut (entities ! index) then (entities, Some index)
          else let size = (if int index + pageSize > int (length entities) then int (length entities) - int index else pageSize);
                   rest = drop index entities
               in (take index entities @ Cut (take (nat size) rest) # drop (nat size) rest, Some index))"

subsection \<open>The controller of a local list: local-list-controller.ts\<close>

text \<open>
  The string two paginations are compared by. Adding numbers adds them, adding \<open>undefined\<close> to a number gives
  \<open>NaN\<close>, and only a string turns the sum so far into text.
\<close>

datatype sum_value = NotANumber | Sum int | Text string

fun sum_text :: "sum_value \<Rightarrow> string" where
  "sum_text NotANumber = ''NaN''"
| "sum_text (Sum n) = js_key (JNum n)"
| "sum_text (Text s) = s"

definition sum_int :: "sum_value \<Rightarrow> int \<Rightarrow> sum_value" where
  "sum_int s n = (case s of Text t \<Rightarrow> Text (t @ js_key (JNum n)) | Sum m \<Rightarrow> Sum (m + n) | NotANumber \<Rightarrow> NotANumber)"

fun js_plus :: "sum_value \<Rightarrow> js \<Rightarrow> sum_value" where
  "js_plus (Text s) v = Text (s @ js_key v)"
| "js_plus s JUndef = NotANumber"
| "js_plus s JNull = s"
| "js_plus s (JBool b) = sum_int s (if b then 1 else 0)"
| "js_plus s (JNum n) = sum_int s n"
| "js_plus s v = Text (sum_text s @ js_key v)"

definition getPaginationCompareString :: "PaginationEntityState \<Rightarrow> string" where
  "getPaginationCompareString p =
     (let c = pe_clientPagination p;
          sizes = js_plus (js_plus (Sum (cp_pageSize c + cp_totalResults c)) (order_field p)) (order_direction p)
      in sum_text (js_plus (js_plus sizes (JStr (cf_string (cp_filter c)))) (JArr (obj_values (cf_items (cp_filter c))))))"

definition paginationHasChanged :: "PaginationEntityState \<Rightarrow> PaginationEntityState \<Rightarrow> bool" where
  "paginationHasChanged oldPag newPag \<longleftrightarrow> getPaginationCompareString oldPag \<noteq> getPaginationCompareString newPag"

text \<open>
  The functions applied in turn, with the rows of the source as the sorts leave them: \<open>shared\<close> says that the current
  array still is the one of the source.
\<close>

fun apply_functions ::
  "DataFunction list \<Rightarrow> PaginationEntityState \<Rightarrow> bool \<Rightarrow> js list \<Rightarrow> js list \<Rightarrow> (js list \<times> js list) result" where
  "apply_functions [] p shared source current = Inr (source, current)"
| "apply_functions (f # fs) p shared source current =
     res_bind (getDataFunction f current p) (\<lambda>new.
       if sorts_in_place f then apply_functions fs p shared (if shared then new else source) new
       else apply_functions fs p False source new)"

text \<open>
  The controller: the last pagination let through by \<open>distinctUntilChanged\<close>, the rows of the source, the rows after
  the functions, the page number and size last seen, the cache, the page shown, and the counts reported
  (\<open>setResultCount\<close>; what the store makes of them arrives as a later pagination).
\<close>

record LocalListController =
  lc_functions :: "DataFunction list"
  lc_pagination :: "PaginationEntityState option"
  lc_source :: "js list option"
  lc_entities :: "js list option"
  lc_pageNumber :: "int option"
  lc_pageSize :: "int option"
  lc_pageSplitCache :: "js slot list option"
  lc_page :: "js slot list option"
  lc_counts :: "(PaginationEntityState \<times> int) list"

definition newLocalListController :: "DataFunction list \<Rightarrow> LocalListController" where
  "newLocalListController dataFunctions =
     \<lparr>lc_functions = dataFunctions, lc_pagination = None, lc_source = None, lc_entities = None, lc_pageNumber = None,
      lc_pageSize = None, lc_pageSplitCache = None, lc_page = None, lc_counts = []\<rparr>"

fun slot_rows :: "'a slot \<Rightarrow> 'a slot list" where
  "slot_rows (Cut p) = p"
| "slot_rows (Row r) = []"

definition buildCurrentPage :: "LocalListController \<Rightarrow> LocalListController" where
  "buildCurrentPage c =
     (case (lc_entities c, lc_pageNumber c, lc_pageSize c) of
        (Some entities, Some currentPage, Some pageSize) \<Rightarrow>
          let pages = (case lc_pageSplitCache c of Some cache \<Rightarrow> cache | None \<Rightarrow> map Row entities) in
          (case splitCurrentPage pages pageSize currentPage of
             (ents, index) \<Rightarrow> c\<lparr>lc_pageSplitCache := Some ents,
               lc_page := Some (case index of
                   Some i \<Rightarrow> if i < length ents then slot_rows (ents ! i) else []
                 | None \<Rightarrow> [])\<rparr>)
      | _ \<Rightarrow> c)"

definition buildFullCleanPage :: "LocalListController \<Rightarrow> LocalListController result" where
  "buildFullCleanPage c =
     (case (lc_pagination c, lc_source c) of
        (Some paginationEntity, Some entities) \<Rightarrow>
          res_bind (if entities = [] then Inr (entities, []) else apply_functions (lc_functions c) paginationEntity True entities entities)
            (\<lambda>(source, new). Inr (buildCurrentPage (c\<lparr>lc_pageSplitCache := None, lc_source := Some source,
               lc_entities := Some new, lc_counts := lc_counts c @ [(paginationEntity, int (length new))]\<rparr>)))
      | _ \<Rightarrow> Inr c)"

text \<open>
  An emission of the pagination reaches the page size, the comparison and the page number in the order of their
  subscriptions; one of the rows reaches the functions.
\<close>

datatype ListEvent = PaginationEmits PaginationEntityState | RowsEmit "js list"

definition on_pagination :: "PaginationEntityState \<Rightarrow> LocalListController \<Rightarrow> LocalListController result" where
  "on_pagination p c =
     (let c1 = c\<lparr>lc_pageSize := Some (cp_pageSize (pe_clientPagination p))\<rparr> in
      res_bind (if (case lc_pagination c1 of None \<Rightarrow> True | Some old \<Rightarrow> paginationHasChanged old p)
                then buildFullCleanPage (c1\<lparr>lc_pagination := Some p\<rparr>) else Inr c1) (\<lambda>c2.
      let page = cp_currentPage (pe_clientPagination p) in
      Inr (if lc_pageNumber c2 = Some page then c2 else buildCurrentPage (c2\<lparr>lc_pageNumber := Some page\<rparr>))))"

fun list_step :: "LocalListController \<Rightarrow> ListEvent \<Rightarrow> LocalListController result" where
  "list_step c (PaginationEmits p) = on_pagination p c"
| "list_step c (RowsEmit rows) = buildFullCleanPage (c\<lparr>lc_source := Some rows\<rparr>)"

subsection \<open>Selected rows: list-data-source.ts\<close>

record RowSelection =
  rs_selectedRows :: "(string, js) obj"
  rs_selectAllChecked :: bool
  rs_isSelecting :: bool

definition noSelection :: RowSelection where
  "noSelection = \<lparr>rs_selectedRows = [], rs_selectAllChecked = False, rs_isSelecting = False\<rparr>"

definition selectedRowToggle :: "(js \<Rightarrow> string) \<Rightarrow> (js \<Rightarrow> bool) \<Rightarrow> js list \<Rightarrow> js \<Rightarrow> bool \<Rightarrow> RowSelection \<Rightarrow> RowSelection" where
  "selectedRowToggle getRowUniqueId disabled filteredRows row multiMode s =
     (if disabled row then s
      else let key = getRowUniqueId row;
        s' = (if obj_get (rs_selectedRows s) key \<noteq> None
          then s\<lparr>rs_selectedRows := obj_del key (rs_selectedRows s), rs_selectAllChecked := False\<rparr>
          else let rows = obj_set key row (if multiMode then rs_selectedRows s else [])
            in s\<lparr>rs_selectedRows := rows, rs_selectAllChecked := (multiMode \<and> length rows = length filteredRows)\<rparr>)
        in s'\<lparr>rs_isSelecting := (multiMode \<and> length (rs_selectedRows s') > 0)\<rparr>)"

text \<open>\<open>combineLatest()\<close> of no rows completes without emitting.\<close>

definition selectAllFilteredRows :: "(js \<Rightarrow> string) \<Rightarrow> (js \<Rightarrow> bool) \<Rightarrow> js list \<Rightarrow> RowSelection \<Rightarrow> RowSelection" where
  "selectAllFilteredRows getRowUniqueId disabled filteredRows s =
     (let checked = (\<not> rs_selectAllChecked s);
          rows = fold (\<lambda>row rows. if disabled row then rows
              else if checked then obj_set (getRowUniqueId row) row rows
              else obj_del (getRowUniqueId row) rows) filteredRows (rs_selectedRows s);
          s' = s\<lparr>rs_selectedRows := rows, rs_selectAllChecked := checked\<rparr>
      in if filteredRows = [] then s' else s'\<lparr>rs_isSelecting := (length rows > 0)\<rparr>)"

definition selectClear :: "RowSelection \<Rightarrow> RowSelection" where
  "selectClear s = s\<lparr>rs_selectedRows := [], rs_isSelecting := False\<rparr>"

definition setResultCount :: "string \<Rightarrow> string \<Rightarrow> PaginationEntityState \<Rightarrow> int \<Rightarrow> PaginationAction list" where
  "setResultCount entityKey paginationKey paginationEntity newCount =
     (if pe_totalResults paginationEntity \<noteq> newCount \<or> cp_totalResults (pe_clientPagination paginationEntity) \<noteq> newCount
      then [SetResultCount entityKey paginationKey newCount] else [])"

subsection \<open>What the user does to a list: list-pagination-controller.ts\<close>

record ListDataSource =
  ds_entityKey :: string
  ds_paginationKey :: string
  ds_isLocal :: bool

definition page_action :: "ListDataSource \<Rightarrow> PaginationEntityState \<Rightarrow> int \<Rightarrow> PaginationAction list" where
  "page_action d pag pageIndex =
     (let page = pageIndex + 1 in
      if ds_isLocal d then [SetClientPage (ds_entityKey d) (ds_paginationKey d) page]
      else if pe_currentPage pag \<noteq> page then [SetPage (ds_entityKey d) (ds_paginationKey d) page False] else [])"

definition pageSize_action :: "ListDataSource \<Rightarrow> PaginationEntityState \<Rightarrow> int \<Rightarrow> PaginationAction list" where
  "pageSize_action d pag pageSize =
     (if ds_isLocal d then
        if cp_pageSize (pe_clientPagination pag) \<noteq> pageSize
        then [SetClientPageSize (ds_entityKey d) (ds_paginationKey d) pageSize] else []
      else if order_param pag ''results-per-page'' \<noteq> JNum pageSize
        then [AddParams (ds_entityKey d) (ds_paginationKey d) [(''results-per-page'', Param (JNum pageSize))] False]
        else [])"

definition sort_action :: "ListDataSource \<Rightarrow> PaginationEntityState \<Rightarrow> string \<Rightarrow> string \<Rightarrow> PaginationAction list" where
  "sort_action d pag field direction =
     (if order_field pag \<noteq> JStr field \<or> order_direction pag \<noteq> JStr direction
      then [AddParams (ds_entityKey d) (ds_paginationKey d)
        [(''order-direction-field'', Param (JStr field)), (''order-direction'', Param (JStr direction))] (ds_isLocal d)]
      else [])"

text \<open>The filter of a list that is not local is set by an overridden method of its data source, and not modelled.\<close>

definition filterByString_action :: "ListDataSource \<Rightarrow> PaginationEntityState \<Rightarrow> string \<Rightarrow> PaginationAction list" where
  "filterByString_action d pag filterString =
     (let f = cp_filter (pe_clientPagination pag) in
      if ds_isLocal d \<and> cf_string f \<noteq> filterString
      then [SetClientFilter (ds_entityKey d) (ds_paginationKey d) \<lparr>pf_string = Some filterString, pf_items = cf_items f\<rparr>]
      else [])"

definition cleanFilterParam :: "js option \<Rightarrow> js" where
  "cleanFilterParam filterVal = (case filterVal of None \<Rightarrow> JUndef
     | Some v \<Rightarrow> if v = JNull \<or> v = JUndef \<or> v = JStr '''' then JUndef else v)"

definition multiFilter_action :: "ListDataSource \<Rightarrow> PaginationEntityState \<Rightarrow> string \<Rightarrow> js \<Rightarrow> PaginationAction list" where
  "multiFilter_action d pag key filterValue =
     (let f = cp_filter (pe_clientPagination pag) in
      if ds_isLocal d \<and> cleanFilterParam (obj_get (cf_items f) key) \<noteq> cleanFilterParam (Some filterValue)
      then [SetClientFilter (ds_entityKey d) (ds_paginationKey d)
        \<lparr>pf_string = Some (cf_string f), pf_items = obj_set key filterValue (cf_items f)\<rparr>]
      else [])"

datatype ListControl = GoToPage int | PageSize int | SortBy string string | FilterText string | FilterItem string js

fun control_actions :: "ListDataSource \<Rightarrow> PaginationEntityState \<Rightarrow> ListControl \<Rightarrow> PaginationAction list" where
  "control_actions d pag (GoToPage i) = page_action d pag i"
| "control_actions d pag (PageSize n) = pageSize_action d pag n"
| "control_actions d pag (SortBy field direction) = sort_action d pag field direction"
| "control_actions d pag (FilterText s) = filterByString_action d pag s"
| "control_actions d pag (FilterItem k v) = multiFilter_action d pag k v"

text \<open>The effects that follow an action: pagination.effects.ts and set-client-filter.effect.ts.\<close>

fun follow_up :: "PaginationAction \<Rightarrow> PaginationAction list" where
  "follow_up (AddParams ek pk _ keepPages) = (if keepPages then [] else [ResetPagination ek pk])"
| "follow_up (SetParams ek pk _ keepPages _) = (if keepPages then [] else [ResetPagination ek pk])"
| "follow_up (RemoveParams ek pk _ _ keepPages) = (if keepPages then [] else [ResetPagination ek pk])"
| "follow_up (SetClientFilter ek pk _) = [SetClientPage ek pk 1]"
| "follow_up _ = []"

definition use_control :: "ListDataSource \<Rightarrow> PaginationState \<Rightarrow> ListControl \<Rightarrow> PaginationState result" where
  "use_control d s control =
     (case selectPaginationState (ds_entityKey d) (ds_paginationKey d) s of
        None \<Rightarrow> Inr s
      | Some pag \<Rightarrow> res_fold (\<lambda>s a. paginate s (PaginationA a)) s
          (concat (map (\<lambda>a. a # follow_up a) (control_actions d pag control))))"

subsection \<open>The cache of cut pages holds pages\<close>

text \<open>
  The rows of page \<open>k\<close>, and what the cache is: the rows in pages of \<open>n\<close>, some of them cut out.
\<close>

definition page_rows :: "int \<Rightarrow> int \<Rightarrow> 'a list \<Rightarrow> 'a list" where
  "page_rows pageSize k rows = (if 1 \<le> k then take (nat pageSize) (drop (nat (k - 1) * nat pageSize) rows) else [])"

inductive aligned :: "nat \<Rightarrow> 'a list \<Rightarrow> 'a slot list \<Rightarrow> bool" for n where
  aligned_Nil: "aligned n [] []"
| aligned_Rows: "rows \<noteq> [] \<Longrightarrow> aligned n (drop n rows) rest \<Longrightarrow> aligned n rows (map Row (take n rows) @ rest)"
| aligned_Cut: "rows \<noteq> [] \<Longrightarrow> aligned n (drop n rows) rest \<Longrightarrow> aligned n rows (Cut (map Row (take n rows)) # rest)"

inductive_simps aligned_Nil_iff [simp]: "aligned n [] slots"

lemma aligned_uncut: "0 < n \<Longrightarrow> aligned n rows (map Row rows)"
proof (induction "length rows" arbitrary: rows rule: less_induct)
  case less
  show ?case
  proof (cases "rows = []")
    case False
    with less have "aligned n (drop n rows) (map Row (drop n rows))" by simp
    from aligned_Rows[OF False this] show ?thesis by (simp flip: map_append)
  qed simp
qed

text \<open>Scanning the rest of a page that is not cut, and a page number already passed.\<close>

lemma find_start_rest:
  assumes "int i - sp + sp * int n = (cur - 1) * int n + int j" "0 < j" "j + length ys \<le> n" "cur \<noteq> rp"
  shows "find_start (int n) rp (map Row ys @ rest) i cur sp = find_start (int n) rp rest (i + length ys) cur sp"
  using assms
proof (induction ys arbitrary: i j)
  case (Cons y ys)
  have "\<not> int n dvd (cur - 1) * int n + int j"
    using Cons.prems(2,3) by (auto simp: dvd_add_right_iff dest: dvd_imp_le)
  with Cons.prems(1) have "\<not> int n dvd int i - sp + sp * int n" by simp
  with Cons.IH[of "Suc i" "Suc j"] Cons.prems show ?case by (simp add: Let_def algebra_simps)
qed simp

lemma find_start_first:
  assumes "int i - sp + sp * int n = cur * int n" "0 < n" "ys \<noteq> []" "length ys \<le> n"
  shows "find_start (int n) rp (map Row ys @ rest) i cur sp =
    (if cur + 1 = rp then Some i else find_start (int n) rp rest (i + length ys) (cur + 1) sp)"
proof -
  obtain z zs where ys: "ys = z # zs" using assms(3) by (cases ys) auto
  have "int n dvd int i - sp + sp * int n" using assms(1) by simp
  moreover have "find_start (int n) rp (map Row zs @ rest) (Suc i) (cur + 1) sp = find_start (int n) rp rest (Suc i + length zs) (cur + 1) sp"
    if "cur + 1 \<noteq> rp" using assms that by (intro find_start_rest[where j = 1]) (simp_all add: ys algebra_simps)
  ultimately show ?thesis using assms(2) by (simp add: ys Let_def)
qed

lemma find_start_passed:
  assumes "aligned n rows slots" "0 < n" "rp \<le> cur" "rows \<noteq> [] \<Longrightarrow> int i - sp + sp * int n = cur * int n"
  shows "find_start (int n) rp slots i cur sp = None"
  using assms
proof (induction arbitrary: i cur sp)
  case (aligned_Rows rows rest)
  have next_pos: "int (i + length (take n rows)) - sp + sp * int n = (cur + 1) * int n" if "drop n rows \<noteq> []"
    using aligned_Rows.prems(3)[OF aligned_Rows.hyps(1)] that by (simp add: min_def algebra_simps)
  have "find_start (int n) rp rest (i + length (take n rows)) (cur + 1) sp = None"
    using aligned_Rows.prems by (intro aligned_Rows.IH next_pos) auto
  with find_start_first[of i sp n cur "take n rows" rp rest] aligned_Rows.prems aligned_Rows.hyps(1) show ?case by simp
next
  case (aligned_Cut rows rest)
  have "find_start (int n) rp rest (i + 1) (cur + 1) (sp + 1) = None"
    using aligned_Cut.prems aligned_Cut.hyps(1) by (intro aligned_Cut.IH) (auto simp: algebra_simps)
  then show ?case using aligned_Cut.prems(2) by simp
qed simp

text \<open>A page found is all there, cut or not, and can be cut.\<close>

definition page_found :: "nat \<Rightarrow> 'a list \<Rightarrow> 'a slot list \<Rightarrow> 'a list \<Rightarrow> nat option \<Rightarrow> nat \<Rightarrow> bool" where
  "page_found n rows slots p start i \<longleftrightarrow> (if p = [] then start = None
    else \<exists>pre mid post. slots = pre @ mid @ post \<and> start = Some (i + length pre)
      \<and> (mid = [Cut (map Row p)] \<or> mid = map Row p) \<and> aligned n rows (pre @ Cut (map Row p) # post) \<and> (length p = n \<or> post = []))"

lemma page_foundI:
  assumes "p \<noteq> []" "slots = pre @ mid @ post" "start = Some (i + length pre)" "mid = [Cut (map Row p)] \<or> mid = map Row p"
    "aligned n rows (pre @ Cut (map Row p) # post)" "length p = n \<or> post = []"
  shows "page_found n rows slots p start i"
  using assms unfolding page_found_def by auto

lemma page_foundE:
  assumes "page_found n rows slots p start i" "p \<noteq> []"
  obtains pre mid post where "slots = pre @ mid @ post" "start = Some (i + length pre)"
    "mid = [Cut (map Row p)] \<or> mid = map Row p" "aligned n rows (pre @ Cut (map Row p) # post)" "length p = n \<or> post = []"
  using assms unfolding page_found_def by auto

lemma find_start_page:
  assumes "aligned n rows slots" "0 < n" "rows \<noteq> [] \<Longrightarrow> int i - sp + sp * int n = cur * int n"
    and "p = take n (drop (k * n) rows)" "rp = cur + 1 + int k"
  shows "page_found n rows slots p (find_start (int n) rp slots i cur sp) i"
  using assms
proof (induction arbitrary: i cur sp k p)
  case aligned_Nil
  then show ?case by (simp add: page_found_def)
next
  case (aligned_Rows rows rest)
  let ?now = "take n rows"
  have now: "?now \<noteq> []" using aligned_Rows.hyps(1) aligned_Rows.prems(1) by simp
  note first = find_start_first[OF aligned_Rows.prems(2)[OF aligned_Rows.hyps(1)] aligned_Rows.prems(1) now, of rp rest]
  have full: "length ?now = n \<or> rest = []" using aligned_Rows.hyps(2) by (cases "length rows \<le> n") (auto simp: min_def)
  show ?case
  proof (cases k)
    case 0
    then have p: "p = ?now" using aligned_Rows.prems(3) by simp
    have "map Row ?now @ rest = [] @ map Row p @ rest" by (simp add: p)
    moreover have "find_start (int n) rp (map Row ?now @ rest) i cur sp = Some (i + length [])"
      using first aligned_Rows.prems(4) by (simp add: 0)
    moreover have "aligned n rows ([] @ Cut (map Row p) # rest)"
      using aligned.aligned_Cut[OF aligned_Rows.hyps] by (simp add: p)
    ultimately show ?thesis
      using now full by (intro page_foundI[where pre = "[]" and mid = "map Row p" and post = rest]) (simp_all add: p)
  next
    case (Suc k')
    have pos: "int (i + length ?now) - sp + sp * int n = (cur + 1) * int n" if "drop n rows \<noteq> []"
      using aligned_Rows.prems(2)[OF aligned_Rows.hyps(1)] that by (simp add: min_def algebra_simps)
    have p: "p = take n (drop (k' * n) (drop n rows))" using aligned_Rows.prems(3) by (simp add: Suc add.commute)
    have f: "find_start (int n) rp (map Row ?now @ rest) i cur sp = find_start (int n) rp rest (i + length ?now) (cur + 1) sp"
      using first aligned_Rows.prems(4) by (simp add: Suc)
    have rp: "rp = cur + 1 + 1 + int k'" using aligned_Rows.prems(4) by (simp add: Suc)
    note IH = aligned_Rows.IH[OF aligned_Rows.prems(1) pos p rp]
    show ?thesis
    proof (cases "p = []")
      case False
      from page_foundE[OF IH this] obtain pre mid post where split: "rest = pre @ mid @ post"
        "find_start (int n) rp rest (i + length ?now) (cur + 1) sp = Some (i + length ?now + length pre)"
        "mid = [Cut (map Row p)] \<or> mid = map Row p" "aligned n (drop n rows) (pre @ Cut (map Row p) # post)" "length p = n \<or> post = []"
        by blast
      have "aligned n rows ((map Row ?now @ pre) @ Cut (map Row p) # post)"
        using aligned.aligned_Rows[OF aligned_Rows.hyps(1) split(4)] by simp
      moreover have "map Row ?now @ rest = (map Row ?now @ pre) @ mid @ post" by (simp add: split(1))
      moreover have "find_start (int n) rp (map Row ?now @ rest) i cur sp = Some (i + length (map Row ?now @ pre))"
        by (simp only: f split(2) length_append length_map add.assoc)
      ultimately show ?thesis by (intro page_foundI[OF False _ _ split(3) _ split(5)])
    qed (use IH f in \<open>simp add: page_found_def\<close>)
  qed
next
  case (aligned_Cut rows rest)
  let ?now = "take n rows"
  have pos: "int i - sp + sp * int n = cur * int n" by (rule aligned_Cut.prems(2)[OF aligned_Cut.hyps(1)])
  have now: "?now \<noteq> []" using aligned_Cut.hyps(1) aligned_Cut.prems(1) by simp
  have full: "length ?now = n \<or> rest = []" using aligned_Cut.hyps(2) by (cases "length rows \<le> n") (auto simp: min_def)
  show ?case
  proof (cases k)
    case 0
    then have p: "p = ?now" using aligned_Cut.prems(3) by simp
    have "Cut (map Row ?now) # rest = [] @ [Cut (map Row p)] @ rest" by (simp add: p)
    moreover have "find_start (int n) rp (Cut (map Row ?now) # rest) i cur sp = Some (i + length [])"
      using aligned_Cut.prems(4) by (simp add: 0)
    moreover have "aligned n rows ([] @ Cut (map Row p) # rest)"
      using aligned.aligned_Cut[OF aligned_Cut.hyps] by (simp add: p)
    ultimately show ?thesis
      using now full by (intro page_foundI[where pre = "[]" and mid = "[Cut (map Row p)]" and post = rest]) (simp_all add: p)
  next
    case (Suc k')
    have pos': "int (i + 1) - (sp + 1) + (sp + 1) * int n = (cur + 1) * int n" if "drop n rows \<noteq> []"
      using pos by (simp add: algebra_simps)
    have p: "p = take n (drop (k' * n) (drop n rows))" using aligned_Cut.prems(3) by (simp add: Suc add.commute)
    have f: "find_start (int n) rp (Cut (map Row ?now) # rest) i cur sp = find_start (int n) rp rest (i + 1) (cur + 1) (sp + 1)"
      using aligned_Cut.prems(4) by (simp add: Suc)
    have rp: "rp = cur + 1 + 1 + int k'" using aligned_Cut.prems(4) by (simp add: Suc)
    note IH = aligned_Cut.IH[OF aligned_Cut.prems(1) pos' p rp]
    show ?thesis
    proof (cases "p = []")
      case False
      from page_foundE[OF IH this] obtain pre mid post where split: "rest = pre @ mid @ post"
        "find_start (int n) rp rest (i + 1) (cur + 1) (sp + 1) = Some (i + 1 + length pre)"
        "mid = [Cut (map Row p)] \<or> mid = map Row p" "aligned n (drop n rows) (pre @ Cut (map Row p) # post)" "length p = n \<or> post = []"
        by blast
      have "aligned n rows ((Cut (map Row ?now) # pre) @ Cut (map Row p) # post)"
        using aligned.aligned_Cut[OF aligned_Cut.hyps(1) split(4)] by simp
      moreover have "Cut (map Row ?now) # rest = (Cut (map Row ?now) # pre) @ mid @ post" by (simp add: split(1))
      moreover have "find_start (int n) rp (Cut (map Row ?now) # rest) i cur sp = Some (i + length (Cut (map Row ?now) # pre))"
        by (simp only: f split(2)) simp
      ultimately show ?thesis by (intro page_foundI[OF False _ _ split(3) _ split(5)])
    qed (use IH f in \<open>simp add: page_found_def\<close>)
  qed
qed

text \<open>What the controller shows of a page, and the cache after it.\<close>

definition shown :: "'a slot list \<times> nat option \<Rightarrow> 'a slot list" where
  "shown data = (case data of (ents, index) \<Rightarrow>
     (case index of Some i \<Rightarrow> if i < length ents then slot_rows (ents ! i) else [] | None \<Rightarrow> []))"

lemma splitCurrentPage_aligned:
  assumes "aligned n rows slots" "0 < n"
  shows "aligned n rows (fst (splitCurrentPage slots (int n) k))
    \<and> shown (splitCurrentPage slots (int n) k) = map Row (page_rows (int n) k rows)"
proof (cases "rows = []")
  case True
  with assms(1) show ?thesis by (simp add: splitCurrentPage_def shown_def page_rows_def)
next
  case False
  from assms(1) False have some: "slots \<noteq> []" using assms(2) by cases auto
  show ?thesis
  proof (cases "1 \<le> k")
    case False
    then have "getCurrentPageStartIndex slots (int n) k = None"
      using find_start_passed[OF assms, of k 0 0 0] by (simp add: getCurrentPageStartIndex_def)
    with False some assms(1) show ?thesis by (simp add: splitCurrentPage_def shown_def page_rows_def)
  next
    case True
    define p where "p = take n (drop (nat (k - 1) * n) rows)"
    have rows: "page_rows (int n) k rows = p" using True by (simp add: page_rows_def p_def)
    have found: "page_found n rows slots p (getCurrentPageStartIndex slots (int n) k) 0"
      using find_start_page[OF assms _ p_def, of 0 0 0 k] True by (simp add: getCurrentPageStartIndex_def)
    show ?thesis
    proof (cases "p = []")
      case True
      with found some assms(1) show ?thesis by (simp add: page_found_def splitCurrentPage_def shown_def rows)
    next
      case False
      from page_foundE[OF found this] obtain pre mid post where split: "slots = pre @ mid @ post"
        "getCurrentPageStartIndex slots (int n) k = Some (length pre)" "mid = [Cut (map Row p)] \<or> mid = map Row p"
        "aligned n rows (pre @ Cut (map Row p) # post)" "length p = n \<or> post = []" by (auto simp only: add_0)
      from split(3) show ?thesis
      proof
        assume mid: "mid = [Cut (map Row p)]"
        then have "is_cut (slots ! length pre)" by (simp add: split(1) nth_append)
        then have "splitCurrentPage slots (int n) k = (slots, Some (length pre))"
          using some by (simp add: splitCurrentPage_def split(2))
        with split(4) show ?thesis by (simp add: shown_def rows) (simp add: split(1) mid)
      next
        assume mid: "mid = map Row p"
        have "p \<noteq> []" "length p \<le> n" using False by (simp_all add: p_def)
        then have "\<not> is_cut (slots ! length pre)" by (cases p) (simp_all add: split(1) mid nth_append)
        moreover define size where
          "size = (if int (length pre) + int n > int (length slots) then int (length slots) - int (length pre) else int n)"
        ultimately have cut: "splitCurrentPage slots (int n) k = (take (length pre) slots
            @ Cut (take (nat size) (drop (length pre) slots)) # drop (nat size) (drop (length pre) slots), Some (length pre))"
          using some by (simp add: splitCurrentPage_def split(2) Let_def)
        have "nat size = length p \<or> post = [] \<and> length p \<le> nat size"
          using split(5) \<open>length p \<le> n\<close> by (auto simp: size_def split(1) mid)
        then have "take (nat size) (map Row p @ post) = map Row p \<and> drop (nat size) (map Row p @ post) = post" by auto
        moreover have "take (length pre) slots = pre" "drop (length pre) slots = map Row p @ post" by (simp_all add: split(1) mid)
        ultimately have "splitCurrentPage slots (int n) k = (pre @ Cut (map Row p) # post, Some (length pre))"
          by (simp only: cut)
        with split(4) show ?thesis by (simp add: shown_def rows)
      qed
    qed
  qed
qed

subsection \<open>A run of the controller\<close>

lemma buildCurrentPage_shown:
  "buildCurrentPage c = (case (lc_entities c, lc_pageNumber c, lc_pageSize c) of
     (Some entities, Some currentPage, Some pageSize) \<Rightarrow>
       let data = splitCurrentPage (case lc_pageSplitCache c of Some cache \<Rightarrow> cache | None \<Rightarrow> map Row entities) pageSize currentPage
       in c\<lparr>lc_pageSplitCache := Some (fst data), lc_page := Some (shown data)\<rparr>
   | _ \<Rightarrow> c)"
  by (simp add: buildCurrentPage_def shown_def Let_def split: option.splits prod.splits)

text \<open>
  With pages of one size \<open>n\<close>: the cache holds the pages of the current rows, and the page shown is the page of the
  number last seen.
\<close>

definition paged :: "nat \<Rightarrow> LocalListController \<Rightarrow> bool" where
  "paged n c \<longleftrightarrow> lc_pageSize c \<in> {None, Some (int n)}
     \<and> (lc_pageNumber c \<noteq> None \<longrightarrow> lc_pageSize c \<noteq> None)
     \<and> (\<forall>entities cache. lc_entities c = Some entities \<longrightarrow> lc_pageSplitCache c = Some cache \<longrightarrow> aligned n entities cache)
     \<and> (\<forall>entities k. lc_entities c = Some entities \<longrightarrow> lc_pageSize c \<noteq> None \<longrightarrow> lc_pageNumber c = Some k \<longrightarrow>
          lc_page c = Some (map Row (page_rows (int n) k entities)))
     \<and> (\<forall>entities. lc_entities c = Some entities \<longrightarrow> lc_counts c \<noteq> [] \<and> snd (last (lc_counts c)) = int (length entities))"

text \<open>The part of it that holds just before the page is built.\<close>

definition pre_paged :: "nat \<Rightarrow> LocalListController \<Rightarrow> bool" where
  "pre_paged n c \<longleftrightarrow> lc_pageSize c \<in> {None, Some (int n)}
     \<and> (lc_pageNumber c \<noteq> None \<longrightarrow> lc_pageSize c \<noteq> None)
     \<and> (\<forall>entities cache. lc_entities c = Some entities \<longrightarrow> lc_pageSplitCache c = Some cache \<longrightarrow> aligned n entities cache)
     \<and> (\<forall>entities. lc_entities c = Some entities \<longrightarrow> lc_counts c \<noteq> [] \<and> snd (last (lc_counts c)) = int (length entities))"

lemma paged_build:
  assumes "pre_paged n c" "0 < n"
  shows "paged n (buildCurrentPage c)"
proof (cases "\<exists>es k. lc_entities c = Some es \<and> lc_pageNumber c = Some k \<and> lc_pageSize c \<noteq> None")
  case True
  then obtain es k where c: "lc_entities c = Some es" "lc_pageNumber c = Some k" "lc_pageSize c = Some (int n)"
    using assms(1) by (auto simp: pre_paged_def)
  let ?slots = "case lc_pageSplitCache c of Some cache \<Rightarrow> cache | None \<Rightarrow> map Row es"
  have "aligned n es ?slots"
    using assms c(1) aligned_uncut[of n es] by (auto simp: pre_paged_def split: option.splits)
  from splitCurrentPage_aligned[OF this assms(2), of k] show ?thesis
    using assms(1) c by (simp add: buildCurrentPage_shown Let_def paged_def pre_paged_def)
next
  case False
  then have "buildCurrentPage c = c" by (auto simp: buildCurrentPage_def split: option.splits)
  with False assms(1) show ?thesis by (auto simp: paged_def pre_paged_def)
qed

lemma paged_clean:
  assumes "pre_paged n c" "paged n c \<or> lc_source c \<noteq> None \<and> lc_pagination c \<noteq> None" "0 < n" "buildFullCleanPage c = Inr c'"
  shows "paged n c'"
proof (cases "lc_pagination c = None \<or> lc_source c = None")
  case True
  with assms(2,4) show ?thesis by (auto simp: buildFullCleanPage_def split: option.splits)
next
  case False
  then obtain p rows where c: "lc_pagination c = Some p" "lc_source c = Some rows" by auto
  from assms(4) obtain source new where c': "c' = buildCurrentPage (c\<lparr>lc_pageSplitCache := None, lc_source := Some source,
      lc_entities := Some new, lc_counts := lc_counts c @ [(p, int (length new))]\<rparr>)"
    by (auto simp only: buildFullCleanPage_def c res_bind_Inr_iff option.case prod.case sum.inject)
  show ?thesis unfolding c' using assms(1,3) by (intro paged_build) (simp_all add: pre_paged_def)
qed

lemma clean_page_size: "buildFullCleanPage c = Inr c' \<Longrightarrow> lc_pageSize c \<noteq> None \<Longrightarrow> lc_pageSize c' \<noteq> None"
proof (cases "lc_pagination c = None \<or> lc_source c = None")
  case False
  moreover have "lc_pageSize (buildCurrentPage d) = lc_pageSize d" for d
    by (simp add: buildCurrentPage_shown Let_def split: option.splits)
  moreover assume "buildFullCleanPage c = Inr c'" "lc_pageSize c \<noteq> None"
  ultimately show ?thesis by (auto simp: buildFullCleanPage_def res_bind_Inr_iff simp del: if_split split: prod.splits)
qed (auto simp: buildFullCleanPage_def split: option.splits)

definition of_page_size :: "nat \<Rightarrow> ListEvent \<Rightarrow> bool" where
  "of_page_size n e \<longleftrightarrow> (case e of PaginationEmits p \<Rightarrow> cp_pageSize (pe_clientPagination p) = int n | RowsEmit _ \<Rightarrow> True)"

lemma paged_pre: "paged n c \<Longrightarrow> pre_paged n c"
  by (simp add: paged_def pre_paged_def)

lemma paged_step:
  assumes "paged n c" "0 < n" "of_page_size n e" "list_step c e = Inr c'"
  shows "paged n c'"
proof (cases e)
  case (RowsEmit rows)
  then have "buildFullCleanPage (c\<lparr>lc_source := Some rows\<rparr>) = Inr c'" using assms(4) by simp
  moreover have "paged n (c\<lparr>lc_source := Some rows\<rparr>)" using assms(1) by (simp add: paged_def)
  ultimately show ?thesis using paged_clean paged_pre assms(2) by blast
next
  case (PaginationEmits p)
  with assms(3) have size: "cp_pageSize (pe_clientPagination p) = int n" by (simp add: of_page_size_def)
  let ?c1 = "c\<lparr>lc_pageSize := Some (int n)\<rparr>"
  from assms(4) PaginationEmits obtain c2 where c2:
    "(if (case lc_pagination c of None \<Rightarrow> True | Some old \<Rightarrow> paginationHasChanged old p)
      then buildFullCleanPage (?c1\<lparr>lc_pagination := Some p\<rparr>) else Inr ?c1) = Inr c2"
    "c' = (let page = cp_currentPage (pe_clientPagination p) in
      if lc_pageNumber c2 = Some page then c2 else buildCurrentPage (c2\<lparr>lc_pageNumber := Some page\<rparr>))"
    by (auto simp: on_pagination_def size Let_def res_bind_Inr_iff)
  have pre: "pre_paged n ?c1" "pre_paged n (?c1\<lparr>lc_pagination := Some p\<rparr>)"
    using assms(1) by (auto simp: paged_def pre_paged_def)
  have same: "paged n ?c1" "paged n (?c1\<lparr>lc_pagination := Some p\<rparr>)" if "lc_pageNumber c \<noteq> None"
    using assms(1) that by (auto simp: paged_def)
  have "pre_paged n c2 \<and> lc_pageSize c2 \<noteq> None \<and> (lc_pageNumber c2 \<noteq> None \<longrightarrow> paged n c2)"
  proof (cases "c2 = ?c1 \<or> lc_source c = None")
    case True
    with c2(1) have "c2 = ?c1 \<or> c2 = ?c1\<lparr>lc_pagination := Some p\<rparr>"
      by (auto simp: buildFullCleanPage_def split: if_splits)
    with pre same show ?thesis by auto
  next
    case False
    with c2(1) have "buildFullCleanPage (?c1\<lparr>lc_pagination := Some p\<rparr>) = Inr c2" by (auto split: if_splits)
    moreover from this have "lc_pageSize c2 \<noteq> None" by (rule clean_page_size) simp
    ultimately show ?thesis using paged_clean[OF pre(2)] False assms(2) paged_pre by auto
  qed
  then show ?thesis unfolding c2(2) Let_def using assms(2)
    by (auto intro!: paged_build simp: pre_paged_def)
qed

lemma paged_run:
  assumes "0 < n" "list_all (of_page_size n) events" "res_fold list_step (newLocalListController fs) events = Inr c"
  shows "paged n c"
proof (rule res_fold_inv[OF _ _ assms(3)])
  show "paged n (newLocalListController fs)" by (simp add: paged_def newLocalListController_def)
  show "paged n c'" if "e \<in> set events" "paged n d" "list_step d e = Inr c'" for e d c'
    using paged_step[OF that(2) assms(1) _ that(3)] assms(2) that(1) by (simp add: list_all_iff)
qed

text \<open>The pages one after the other are the rows.\<close>

lemma concat_pages:
  "length rows \<le> m * n \<Longrightarrow> concat (map (\<lambda>i. page_rows (int n) (int i + 1) rows) [0..<m]) = rows"
proof -
  have "concat (map (\<lambda>i. page_rows (int n) (int i + 1) rows) [0..<m]) = take (m * n) rows" for m
    by (induction m) (simp_all add: page_rows_def take_add add.commute[of n])
  moreover assume "length rows \<le> m * n"
  ultimately show ?thesis by simp
qed

subsection \<open>Which changes of a pagination are noticed\<close>

lemma is_digit_char: "d < (10 :: nat) \<Longrightarrow> is_digit (char_of (48 + d))"
  by (simp add: is_digit_def)

lemma string_of_nat_digits: "list_all is_digit (string_of_nat n) \<and> string_of_nat n \<noteq> []"
  by (induction n rule: string_of_nat.induct) (subst (1 2) string_of_nat.simps, auto simp: is_digit_char)

lemma digits_value_snoc: "digits_value (ds @ [d]) = 10 * digits_value ds + (of_char d - 48)"
  by (simp add: digits_value_def)

lemma digits_value_string_of_nat: "digits_value (string_of_nat n) = int n"
proof (induction n rule: string_of_nat.induct)
  case (1 n)
  have d: "(of_char (char_of (48 + d) :: char) :: int) = 48 + int d" if "d < 10" for d
  proof -
    have "(of_char (char_of (48 + d) :: char) :: int) = int (of_char (char_of (48 + d) :: char))" by (rule of_nat_of_char[symmetric])
    also have "of_char (char_of (48 + d) :: char) = 48 + d" using that by (simp only: of_char_of) simp
    finally show ?thesis by simp
  qed
  show ?case
  proof (cases "n < 10")
    case True
    then show ?thesis using d[OF True] by (subst string_of_nat.simps) (simp add: digits_value_def)
  next
    case False
    with 1 d[of "n mod 10"] have "digits_value (string_of_nat n) = 10 * int (n div 10) + int (n mod 10)"
      by (subst string_of_nat.simps) (simp add: digits_value_snoc)
    then show ?thesis using mult_div_mod_eq[of 10 n] by linarith
  qed
qed

lemma string_of_nat_inject: "string_of_nat m = string_of_nat n \<longleftrightarrow> m = n"
  by (metis digits_value_string_of_nat of_nat_eq_iff)

lemma js_key_number_inject: "js_key (JNum m) = js_key (JNum n) \<longleftrightarrow> m = n"
proof -
  have "string_of_nat k \<noteq> CHR ''-'' # s" for k s
    using string_of_nat_digits[of k] by (auto simp: is_digit_def)
  from this this[symmetric] show ?thesis by (auto simp: string_of_nat_inject)
qed

abbreviation with_sizes :: "int \<Rightarrow> int \<Rightarrow> PaginationEntityState \<Rightarrow> PaginationEntityState" where
  "with_sizes m t p \<equiv>
     p\<lparr>pe_clientPagination := (pe_clientPagination p)\<lparr>cp_pageSize := m, cp_totalResults := t\<rparr>\<rparr>"

lemma order_param_sizes [simp]: "order_param (with_sizes m t p) k = order_param p k"
  by (simp add: order_param_def)

lemma sum_text_plus: "sum_text (js_plus (Text s) v) = s @ js_key v"
  by simp

lemma sizes_noticed:
  assumes "order_field p = JUndef \<or> (\<exists>f. order_field p = JStr f)"
  shows "paginationHasChanged p (with_sizes m t p) \<longleftrightarrow> order_field p \<noteq> JUndef
    \<and> m + t \<noteq> cp_pageSize (pe_clientPagination p) + cp_totalResults (pe_clientPagination p)"
  using assms by (auto simp: paginationHasChanged_def getPaginationCompareString_def Let_def js_key_number_inject
      simp del: js_key.simps)

subsection \<open>Sorting and filtering\<close>

text \<open>What the comparison of two rows must be for a sort to be one.\<close>

locale row_order =
  fixes before :: "'k \<Rightarrow> 'k \<Rightarrow> bool"
  assumes asym: "before a b \<Longrightarrow> \<not> before b a"
    and between: "before a c \<Longrightarrow> before a b \<or> before b c"
begin

lemma sort_insert_sorted:
  "sorted_wrt (\<lambda>a b. \<not> before (key b) (key a)) ys \<Longrightarrow>
   sorted_wrt (\<lambda>a b. \<not> before (key b) (key a)) (sort_insert (\<lambda>a b. before (key a) (key b)) x ys)"
proof (induction ys)
  case (Cons y ys)
  have "set (sort_insert (\<lambda>a b. before (key a) (key b)) x ys) \<subseteq> insert x (set ys)" for ys
    by (induction ys) auto
  with Cons asym between show ?case by (auto; blast)
qed simp

lemma sort_sorted: "sorted_wrt (\<lambda>a b. \<not> before (key b) (key a)) (js_sort (\<lambda>a b. before (key a) (key b)) xs)"
  by (induction xs) (simp_all add: js_sort_def sort_insert_sorted)

lemma sort_insert_stable:
  assumes "\<And>a b. P a \<Longrightarrow> P b \<Longrightarrow> \<not> before (key a) (key b)"
  shows "filter P (sort_insert (\<lambda>a b. before (key a) (key b)) x ys) = filter P (x # ys)"
  using assms by (induction ys) auto

lemma sort_stable:
  assumes "\<And>a b. P a \<Longrightarrow> P b \<Longrightarrow> \<not> before (key a) (key b)"
  shows "filter P (js_sort (\<lambda>a b. before (key a) (key b)) xs) = filter P xs"
  by (induction xs) (auto simp: js_sort_def sort_insert_stable[OF assms])

end

interpretation string_order: row_order "comes_before ((<) :: string \<Rightarrow> string \<Rightarrow> bool) desc" for desc
  by unfold_locales (auto simp: comes_before_def split: if_splits)

interpretation integer_order: row_order "comes_before ((<) :: int \<Rightarrow> int \<Rightarrow> bool) desc" for desc
  by unfold_locales (auto simp: comes_before_def split: if_splits)

lemma mset_js_sort: "mset (js_sort before xs) = mset xs"
proof -
  have "mset (sort_insert before x ys) = add_mset x (mset ys)" for x ys by (induction ys) auto
  then show ?thesis by (induction xs) (simp_all add: js_sort_def)
qed

lemma res_map_total: "(\<And>x. x \<in> set xs \<Longrightarrow> f x = Inr (g x)) \<Longrightarrow> res_map f xs = Inr (map g xs)"
  by (induction xs) auto

lemma res_map_throws: "x \<in> set xs \<Longrightarrow> (\<And>y. f x \<noteq> Inr y) \<Longrightarrow> (\<And>x e. f x = Inl e \<Longrightarrow> e = TypeError) \<Longrightarrow> res_map f xs = Inl TypeError"
proof (induction xs)
  case (Cons z xs)
  then show ?case by (cases "f z"; cases "f x") auto
qed simp

text \<open>Sorting pairs of a key and a row by the key, and forgetting the keys.\<close>

lemma js_sort_cong:
  assumes "\<And>x y. x \<in> set xs \<Longrightarrow> y \<in> set xs \<Longrightarrow> b x y = b' x y"
  shows "js_sort b xs = js_sort b' xs"
  using assms
proof (induction xs)
  case (Cons x xs)
  have "sort_insert b x ys = sort_insert b' x ys" if "set ys \<subseteq> set xs" for ys
    using that Cons.prems by (induction ys) auto
  moreover have "set (js_sort b' xs) \<subseteq> set xs" by (simp flip: set_mset_mset add: mset_js_sort)
  ultimately show ?case using Cons by (simp add: js_sort_def)
qed (simp add: js_sort_def)

lemma map_js_sort: "map f (js_sort (\<lambda>a b. before (f a) (f b)) xs) = js_sort before (map f xs)"
proof -
  have "map f (sort_insert (\<lambda>a b. before (f a) (f b)) x ys) = sort_insert before (f x) (map f ys)" for x ys
    by (induction ys) auto
  then show ?thesis by (induction xs) (simp_all add: js_sort_def)
qed

lemma sort_by_key_rows:
  assumes "\<And>x. x \<in> set rows \<Longrightarrow> key x = Inr (k x)"
  shows "sort_by_key key before rows = Inr (js_sort (\<lambda>a b. before (k a) (k b)) rows)"
proof (cases "length rows < 2")
  case True
  then have "rows = [] \<or> (\<exists>x. rows = [x])" by (cases rows; cases "tl rows") auto
  then show ?thesis by (auto simp: sort_by_key_def js_sort_def)
next
  case False
  have zip: "zip (map k rows) rows = map (\<lambda>x. (k x, x)) rows" by (induction rows) auto
  have "map snd (js_sort (\<lambda>a b. before (fst a) (fst b)) (map (\<lambda>x. (k x, x)) rows))
      = js_sort (\<lambda>a b. before (k a) (k b)) (map snd (map (\<lambda>x. (k x, x)) rows))"
    using map_js_sort[of snd "\<lambda>a b. before (k a) (k b)" "map (\<lambda>x. (k x, x)) rows"]
    by (subst js_sort_cong[where b' = "\<lambda>a b. before (k (snd a)) (k (snd b))"]) auto
  with False assms show ?thesis by (simp add: sort_by_key_def res_map_total[where g = k] zip o_def)
qed

lemma includes_str_iff: "includes_str s t \<longleftrightarrow> (\<exists>u v. s = u @ t @ v)"
proof -
  have starts: "starts_with t s \<longleftrightarrow> (\<exists>v. s = t @ v)" for t s
    by (induction t s rule: starts_with.induct) auto
  show ?thesis
  proof (induction s)
    case (Cons c s)
    have "(\<exists>u v. c # s = u @ t @ v) \<longleftrightarrow> (\<exists>v. c # s = t @ v) \<or> (\<exists>u v. s = u @ t @ v)"
      by (metis append_Cons append_Nil neq_Nil_conv list.inject)
    with Cons show ?case by (simp add: starts)
  qed auto
qed

subsection \<open>The controls of a list through the store\<close>

lemma order_param_add:
  assumes "wf_obj (pe_params q)" "wf_obj params" "k \<noteq> ''q''"
  shows "order_param (paginationAddParams q params) k =
    (case obj_get params k of
       Some (Param v) \<Rightarrow> if truthy v then v else JUndef
     | Some (QParams qs) \<Rightarrow> JArr (map (\<lambda>_. JObj []) qs)
     | None \<Rightarrow> if truthy (order_param q k) then order_param q k else JUndef)"
  using assms by (auto simp: order_param_def paginationAddParams_def get_nonempty keys_intros obj_get_spread
      split: option.splits param_value.splits)

lemma wf_params_add: "wf_obj (pe_params q) \<Longrightarrow> wf_obj (pe_params (paginationAddParams q params))"
  by (simp add: paginationAddParams_def removeEmptyParams_def wf_filter keys_intros)

lemma paginate_section:
  assumes "section_of s (ek, pk) = Some q" "ek \<noteq> []" "pk \<noteq> []"
    and "paginate s (PaginationA a) = enterPaginationReducer s (PaginationA a)"
    and "getActionKey (PaginationA a) = Some ek" "getPaginationKeyFromAction (PaginationA a) = Some pk"
  shows "\<exists>s'. paginate s (PaginationA a) = Inr s' \<and> section_of s' (ek, pk) = Some (updatePagination q (PaginationA a))
    \<and> (\<forall>k. k \<noteq> (ek, pk) \<longrightarrow> section_of s' k = section_of s k)"
proof -
  from assms(1) obtain t where t: "obj_get s ek = Some t" "obj_get t pk = Some q"
    by (auto simp: section_of_type bind_eq_Some_conv)
  have "action_type (PaginationA a) \<noteq> []" by (cases a) auto
  with assms t obtain s' where s': "paginate s (PaginationA a) = Inr s'"
    by (auto simp: enterPaginationReducer_def pagination_type_def Let_def)
  have "enters (PaginationA a) k \<longleftrightarrow> k = (ek, pk)" for k
    using assms(2,3,5,6) \<open>action_type (PaginationA a) \<noteq> []\<close> by (cases k) (auto simp: enters_def)
  with enterPaginationReducer_get[of s "PaginationA a" s'] s' assms(1,4) show ?thesis
    by (auto simp: section_or_default_def)
qed

lemma paginate_reset:
  assumes "section_of s (ek, pk) = Some q"
  shows "\<exists>s'. paginate s (PaginationA (ResetPagination ek pk)) = Inr s'
    \<and> section_of s' (ek, pk) = Some (q\<lparr>pe_ids := [], pe_pageRequests := [], pe_fetching := Some False, pe_pageCount := Some 0,
        pe_currentPage := 1, pe_totalResults := 0, pe_error := Some False, pe_message := Some ''''\<rparr>)
    \<and> (\<forall>k. k \<noteq> (ek, pk) \<longrightarrow> section_of s' k = section_of s k)"
  using assms by (simp add: paginationResetPagination_def on_section_get)

text \<open>One or two actions on a section: what the section becomes, and that no other one changes.\<close>

definition section_steps :: "PaginationState \<Rightarrow> string \<times> string \<Rightarrow> PaginationAction list \<Rightarrow> PaginationEntityState \<Rightarrow> PaginationState \<Rightarrow> bool" where
  "section_steps s k as q s' \<longleftrightarrow> res_fold (\<lambda>s a. paginate s (PaginationA a)) s as = Inr s' \<and> section_of s' k = Some q
     \<and> (\<forall>k'. k' \<noteq> k \<longrightarrow> section_of s' k' = section_of s k')"

lemma section_steps_none: "section_of s k = Some q \<Longrightarrow> section_steps s k [] q s"
  by (simp add: section_steps_def)

lemma section_steps_update:
  assumes "section_of s (ek, pk) = Some q" "ek \<noteq> []" "pk \<noteq> []"
    and "paginate s (PaginationA a) = enterPaginationReducer s (PaginationA a)"
    and "getActionKey (PaginationA a) = Some ek" "getPaginationKeyFromAction (PaginationA a) = Some pk"
  shows "\<exists>s'. section_steps s (ek, pk) [a] (updatePagination q (PaginationA a)) s'"
  using paginate_section[OF assms] by (auto simp: section_steps_def)

lemma section_steps_append:
  assumes "section_steps s k as q s'" "section_steps s' k bs q' s''"
  shows "section_steps s k (as @ bs) q' s''"
  using assms by (auto simp: section_steps_def res_fold_append)

text \<open>What a control is to bring about, and when it can.\<close>

fun control_holds :: "ListDataSource \<Rightarrow> ListControl \<Rightarrow> PaginationEntityState \<Rightarrow> bool" where
  "control_holds d (GoToPage i) q =
     ((if ds_isLocal d then cp_currentPage (pe_clientPagination q) else pe_currentPage q) = i + 1)"
| "control_holds d (PageSize n) q =
     (if ds_isLocal d then cp_pageSize (pe_clientPagination q) = n else order_param q ''results-per-page'' = JNum n)"
| "control_holds d (SortBy field direction) q = (order_field q = JStr field \<and> order_direction q = JStr direction)"
| "control_holds d (FilterText t) q = (cf_string (cp_filter (pe_clientPagination q)) = t)"
| "control_holds d (FilterItem k v) q =
     (cleanFilterParam (obj_get (cf_items (cp_filter (pe_clientPagination q))) k) = cleanFilterParam (Some v))"

fun valid_control :: "ListDataSource \<Rightarrow> ListControl \<Rightarrow> bool" where
  "valid_control d (GoToPage i) = True"
| "valid_control d (PageSize n) = (ds_isLocal d \<or> n \<noteq> 0)"
| "valid_control d (SortBy field direction) = (field \<noteq> [] \<and> direction \<noteq> [])"
| "valid_control d _ = ds_isLocal d"

definition refetches :: "ListDataSource \<Rightarrow> ListControl \<Rightarrow> bool" where
  "refetches d c \<longleftrightarrow> \<not> ds_isLocal d \<and> (case c of PageSize _ \<Rightarrow> True | SortBy _ _ \<Rightarrow> True | _ \<Rightarrow> False)"

definition filters :: "ListControl \<Rightarrow> bool" where
  "filters c \<longleftrightarrow> (case c of FilterText _ \<Rightarrow> True | FilterItem _ _ \<Rightarrow> True | _ \<Rightarrow> False)"

definition wf_list_section :: "PaginationEntityState \<Rightarrow> bool" where
  "wf_list_section p \<longleftrightarrow> wf_obj (pe_params p) \<and> wf_obj (cf_items (cp_filter (pe_clientPagination p)))"

definition control_done :: "ListDataSource \<Rightarrow> ListControl \<Rightarrow> bool \<Rightarrow> PaginationEntityState \<Rightarrow> bool" where
  "control_done d c changed q \<longleftrightarrow> control_holds d c q \<and> wf_list_section q
     \<and> (changed \<and> refetches d c \<longrightarrow> pe_ids q = [] \<and> pe_currentPage q = 1)
     \<and> (changed \<and> filters c \<longrightarrow> cp_currentPage (pe_clientPagination q) = 1)
     \<and> (ds_isLocal d \<and> (\<exists>i. c = GoToPage i) \<longrightarrow> pe_error q = Some False)"

lemma no_action_done:
  assumes "control_actions d p c = []" "wf_list_section p" "valid_control d c"
  shows "control_done d c False p"
  using assms by (cases c) (auto simp: control_done_def page_action_def pageSize_action_def sort_action_def
      filterByString_action_def multiFilter_action_def Let_def split: if_splits)

lemma order_param_reset [simp]:
  "order_param (q\<lparr>pe_ids := a, pe_pageRequests := b, pe_fetching := f, pe_pageCount := c, pe_currentPage := e, pe_totalResults := t,
     pe_error := r, pe_message := m\<rparr>) k = order_param q k"
  by (simp add: order_param_def)

lemma paginationAddParams_other [simp]:
  "pe_clientPagination (paginationAddParams q ps) = pe_clientPagination q"
  by (simp add: paginationAddParams_def)

definition section_after :: "PaginationAction \<Rightarrow> PaginationEntityState \<Rightarrow> PaginationEntityState" where
  "section_after a q = (case a of
     ResetPagination _ _ \<Rightarrow> q\<lparr>pe_ids := [], pe_pageRequests := [], pe_fetching := Some False, pe_pageCount := Some 0,
        pe_currentPage := 1, pe_totalResults := 0, pe_error := Some False, pe_message := Some ''''\<rparr>
   | _ \<Rightarrow> updatePagination q (PaginationA a))"

fun control_action_of :: "string \<Rightarrow> string \<Rightarrow> PaginationAction \<Rightarrow> bool" where
  "control_action_of ek pk (SetClientPage ek' pk' _) = (ek' = ek \<and> pk' = pk)"
| "control_action_of ek pk (SetPage ek' pk' _ _) = (ek' = ek \<and> pk' = pk)"
| "control_action_of ek pk (SetClientPageSize ek' pk' _) = (ek' = ek \<and> pk' = pk)"
| "control_action_of ek pk (AddParams ek' pk' _ _) = (ek' = ek \<and> pk' = pk)"
| "control_action_of ek pk (SetClientFilter ek' pk' _) = (ek' = ek \<and> pk' = pk)"
| "control_action_of ek pk (ResetPagination ek' pk') = (ek' = ek \<and> pk' = pk)"
| "control_action_of ek pk _ = False"

lemma section_step:
  assumes "section_of s (ek, pk) = Some q" "ek \<noteq> []" "pk \<noteq> []" "control_action_of ek pk a"
  shows "\<exists>s'. section_steps s (ek, pk) [a] (section_after a q) s'"
proof (cases "\<exists>x y. a = ResetPagination x y")
  case True
  with paginate_reset[OF assms(1)] assms(4) show ?thesis by (auto simp: section_steps_def section_after_def)
next
  case False
  with section_steps_update[OF assms(1-3), of a] assms(4) show ?thesis by (cases a) (auto simp: section_after_def)
qed

lemma section_step_list:
  assumes "section_of s (ek, pk) = Some q" "ek \<noteq> []" "pk \<noteq> []" "list_all (control_action_of ek pk) as"
  shows "\<exists>s'. section_steps s (ek, pk) as (fold section_after as q) s'"
  using assms(1,4)
proof (induction as arbitrary: s q)
  case Nil
  then show ?case by (auto simp: section_steps_def)
next
  case (Cons a as)
  from section_step[OF Cons.prems(1) assms(2,3), of a] Cons.prems(2) obtain s1 where
    s1: "section_steps s (ek, pk) [a] (section_after a q) s1" by auto
  with Cons.IH[of s1 "section_after a q"] Cons.prems(2) obtain s2 where
    "section_steps s1 (ek, pk) as (fold section_after as (section_after a q)) s2" by (auto simp: section_steps_def)
  from section_steps_append[OF s1 this] show ?case by auto
qed

lemma control_actions_of:
  "list_all (control_action_of (ds_entityKey d) (ds_paginationKey d)) (concat (map (\<lambda>a. a # follow_up a) (control_actions d p c)))"
  by (cases c) (auto simp: page_action_def pageSize_action_def sort_action_def filterByString_action_def multiFilter_action_def Let_def)

lemma control_settles:
  assumes "wf_list_section p" "valid_control d c" "control_actions d p c \<noteq> []"
  shows "control_done d c True (fold section_after (concat (map (\<lambda>a. a # follow_up a) (control_actions d p c))) p)"
proof -
  note defs = control_done_def wf_list_section_def refetches_def filters_def section_after_def
  show ?thesis
  proof (cases c)
    case (GoToPage i)
    with assms show ?thesis
      by (auto simp: page_action_def Let_def defs paginationSetClientPage_def paginationSetPage_def split: if_splits)
  next
    case (PageSize n)
    with assms show ?thesis
      by (auto simp: pageSize_action_def defs paginationSetClientPageSize_def wf_params_add order_param_add split: if_splits)
  next
    case (SortBy field direction)
    with assms show ?thesis
      by (auto simp: sort_action_def defs wf_params_add order_param_add split: if_splits)
  next
    case (FilterText t)
    with assms show ?thesis
      by (auto simp: filterByString_action_def Let_def defs paginationSetClientFilter_def paginationSetClientPage_def keys_intros split: if_splits)
  next
    case (FilterItem k v)
    with assms show ?thesis
      by (auto simp: multiFilter_action_def Let_def defs paginationSetClientFilter_def paginationSetClientPage_def keys_intros
        obj_get_spread split: if_splits)
  qed
qed

lemma no_actions_left:
  assumes "control_done d c changed q" "section_of s (ds_entityKey d, ds_paginationKey d) = Some q" "ds_entityKey d \<noteq> []" "ds_paginationKey d \<noteq> []"
  shows "use_control d s c = Inr s"
proof (cases "ds_isLocal d \<and> (\<exists>i. c = GoToPage i)")
  case False
  with assms(1) have "control_actions d q c = []"
    by (cases c) (auto simp: control_done_def page_action_def pageSize_action_def sort_action_def filterByString_action_def
        multiFilter_action_def Let_def)
  with assms(2) show ?thesis by (simp add: use_control_def section_of_def)
next
  case True
  then obtain i where c: "c = GoToPage i" "ds_isLocal d" by blast
  with assms(1) have same: "paginationSetClientPage q (i + 1) = q"
    by (simp add: control_done_def paginationSetClientPage_def)
  from assms(2) obtain t where "obj_get s (ds_entityKey d) = Some t" "obj_get t (ds_paginationKey d) = Some q"
    by (auto simp: section_of_type bind_eq_Some_conv)
  with assms(2-4) c same show ?thesis
    by (simp add: use_control_def section_of_def page_action_def enterPaginationReducer_def pagination_type_def Let_def)
qed

subsection \<open>Properties\<close>

text \<open>
  C3: The cache of a local list never shows in what it shows. While the page size stays \<open>n\<close>, after any sequence of
  emissions of the pagination and of the rows (pages visited in any order, rows and filters changing between), the
  page on screen is the page of the current number cut from the current rows, the count reported is theirs, and the
  pages one after the other are the rows.
\<close>

theorem pages_shown:
  assumes "0 < n" and "list_all (of_page_size n) events"
    and "res_fold list_step (newLocalListController fs) events = Inr c"
    and "lc_entities c = Some entities" and "lc_pageNumber c = Some k"
  shows "lc_page c = Some (map Row (page_rows (int n) k entities))
    \<and> snd (last (lc_counts c)) = int (length entities)
    \<and> (\<forall>m. length entities \<le> m * n \<longrightarrow> concat (map (\<lambda>i. page_rows (int n) (int i + 1) entities) [0..<m]) = entities)"
  using paged_run[OF assms(1-3)] assms(4,5) concat_pages[of entities _ n] by (auto simp: paged_def)

definition two_a_page :: PaginationEntityState where
  "two_a_page = paginationSetClientPageSize getDefaultPaginationEntityState 2"

definition visits :: "ListEvent list" where
  "visits = RowsEmit [JNum 1, JNum 2, JNum 3, JNum 4, JNum 5]
     # map (\<lambda>k. PaginationEmits (paginationSetClientPage two_a_page k)) [1, 3, 2, 3, 1]"

theorem pages_shown_witness:
  "\<exists>c. res_fold list_step (newLocalListController []) (visits @ [PaginationEmits (paginationSetClientPage two_a_page 2)]) = Inr c
    \<and> lc_page c = Some [Row (JNum 3), Row (JNum 4)]"
proof -
  let ?events = "visits @ [PaginationEmits (paginationSetClientPage two_a_page 2)]"
  have "case res_fold list_step (newLocalListController []) ?events of
      Inr c \<Rightarrow> lc_entities c = Some [JNum 1, JNum 2, JNum 3, JNum 4, JNum 5] \<and> lc_pageNumber c = Some 2 | Inl _ \<Rightarrow> False"
    by code_simp
  then obtain c where c: "res_fold list_step (newLocalListController []) ?events = Inr c"
    "lc_entities c = Some [JNum 1, JNum 2, JNum 3, JNum 4, JNum 5]" "lc_pageNumber c = Some 2" by (auto split: sum.splits)
  have "list_all (of_page_size 2) ?events" by code_simp
  from pages_shown[OF _ this c] c(1) show ?thesis by (simp add: page_rows_def)
qed

text \<open>
  A change of the page size that goes unseen. While the list has no field to sort by, a change of the page size (and
  of the number of results) does not change the string paginations are compared by, and otherwise it does so only if
  the sum of the two changes: the numbers are added up, not written one after the other. Then the page on screen stays
  the one of the old size.
\<close>

theorem page_size_unseen:
  assumes "lc_pagination c = Some p" and "lc_pageNumber c = Some (cp_currentPage (pe_clientPagination p))"
    and "order_field p = JUndef \<or> (\<exists>f. order_field p = JStr f)"
  shows "(paginationHasChanged p (with_sizes m t p) \<longleftrightarrow> order_field p \<noteq> JUndef
        \<and> m + t \<noteq> cp_pageSize (pe_clientPagination p) + cp_totalResults (pe_clientPagination p))
    \<and> (\<not> paginationHasChanged p (with_sizes m t p) \<longrightarrow>
        on_pagination (with_sizes m t p) c = Inr (c\<lparr>lc_pageSize := Some m\<rparr>))"
  using sizes_noticed[OF assms(3), where m = m and t = t] assms(1,2) by (simp add: on_pagination_def Let_def)

theorem page_size_unseen_witness:
  "\<exists>c. res_fold list_step (newLocalListController []) visits = Inr c
    \<and> on_pagination (with_sizes 4 0 (paginationSetClientPage two_a_page 1)) (c\<lparr>lc_pagination := Some (paginationSetClientPage two_a_page 1)\<rparr>)
      = Inr (c\<lparr>lc_pagination := Some (paginationSetClientPage two_a_page 1), lc_pageSize := Some 4\<rparr>)
    \<and> lc_page c = Some [Row (JNum 1), Row (JNum 2)]"
proof -
  have "case res_fold list_step (newLocalListController []) visits of
      Inr c \<Rightarrow> lc_pageNumber c = Some 1 \<and> lc_page c = Some [Row (JNum 1), Row (JNum 2)] | Inl _ \<Rightarrow> False" by code_simp
  then obtain c where c: "res_fold list_step (newLocalListController []) visits = Inr c" "lc_pageNumber c = Some 1"
    "lc_page c = Some [Row (JNum 1), Row (JNum 2)]" by (auto split: sum.splits)
  let ?p = "paginationSetClientPage two_a_page 1"
  have p: "cp_currentPage (pe_clientPagination ?p) = 1" "order_field ?p = JUndef" by code_simp+
  from page_size_unseen[where c = "c\<lparr>lc_pagination := Some ?p\<rparr>" and p = ?p and m = 4 and t = 0] c p show ?thesis by auto
qed

text \<open>
  A sort by a field of strings. When the list is sorted by the key of a definition, its rows come out once each, in
  the order of their values in capitals, and rows with equal values keep their order; the direction \<open>desc\<close> is the one
  that sorts from small to large, every other direction sorts from large to small. A definition with another key
  leaves the rows alone.
\<close>

theorem sort_function_sorts:
  assumes "\<And>r. r \<in> set rows \<Longrightarrow> getValue r (getFieldArray field) = Inr (JStr (text r))"
  shows "\<exists>rows'. getSortFunction orderKey field rows p = Inr rows' \<and> mset rows' = mset rows
    \<and> (if sorts_list orderKey p
       then sorted_wrt (\<lambda>a b. if order_direction p = JStr ''desc'' then toUpperCase (text a) \<le> toUpperCase (text b)
              else toUpperCase (text b) \<le> toUpperCase (text a)) rows'
         \<and> (\<forall>u. filter (\<lambda>r. toUpperCase (text r) = u) rows' = filter (\<lambda>r. toUpperCase (text r) = u) rows)
       else rows' = rows)"
proof (cases "sorts_list orderKey p")
  case True
  let ?desc = "order_direction p = JStr ''desc''" and ?k = "\<lambda>r. toUpperCase (text r)"
  let ?rows = "js_sort (\<lambda>a b. comes_before (<) ?desc (?k a) (?k b)) rows"
  have "getSortFunction orderKey field rows p = Inr (js_sort (\<lambda>a b. comes_before js_less ?desc (JStr (?k a)) (JStr (?k b))) rows)"
    using assms True by (simp add: getSortFunction_def sort_by_key_rows sort_key_of_def)
  also have "\<dots> = Inr ?rows" by (simp add: js_less_def comes_before_def cong: if_cong)
  finally have sorted: "getSortFunction orderKey field rows p = Inr ?rows" .
  have "sorted_wrt (\<lambda>a b. if ?desc then ?k a \<le> ?k b else ?k b \<le> ?k a) ?rows"
    using string_order.sort_sorted[of ?desc ?k rows] by (cases ?desc) (simp_all add: comes_before_def not_less)
  moreover have "filter (\<lambda>r. ?k r = u) ?rows = filter (\<lambda>r. ?k r = u) rows" for u
    by (rule string_order.sort_stable) (auto simp: comes_before_def)
  ultimately show ?thesis using True sorted by (simp add: mset_js_sort)
qed (simp add: getSortFunction_def)

theorem sort_function_sorts_witness:
  "\<exists>rows'. getSortFunction (Some ''name'') ''name''
      (map (\<lambda>s. JObj [(''name'', JStr s)]) [''b'', ''C'', ''a''])
      (paginationAddParams getDefaultPaginationEntityState
        [(''order-direction-field'', Param (JStr ''name'')), (''order-direction'', Param (JStr ''desc''))]) = Inr rows'
    \<and> sorted_wrt (\<lambda>a b. toUpperCase (case js_field a ''name'' of JStr s \<Rightarrow> s | _ \<Rightarrow> [])
        \<le> toUpperCase (case js_field b ''name'' of JStr s \<Rightarrow> s | _ \<Rightarrow> [])) rows'"
proof -
  let ?p = "paginationAddParams getDefaultPaginationEntityState
        [(''order-direction-field'', Param (JStr ''name'')), (''order-direction'', Param (JStr ''desc''))]"
  have p: "sorts_list (Some ''name'') ?p" "order_direction ?p = JStr ''desc''" by code_simp+
  let ?rows = "map (\<lambda>s. JObj [(''name'', JStr s)]) [''b'', ''C'', ''a'']"
  let ?text = "\<lambda>r. case js_field r ''name'' of JStr s \<Rightarrow> s | _ \<Rightarrow> []"
  have "getValue r (getFieldArray ''name'') = Inr (JStr (?text r))" if "r \<in> set ?rows" for r
    using that by (auto simp: getFieldArray_def)
  from sort_function_sorts[of ?rows "''name''" ?text, OF this, of "Some ''name''" ?p] show ?thesis
    unfolding p(2) using p(1) by (simp only: if_True refl simp_thms) blast
qed

text \<open>
  A filter by a field. Of rows whose value is a string or missing, exactly those whose value contains the text of the
  filter stay, letters compared in capitals, in their order; a missing or empty value never matches, not even the empty
  text. A single row with another value, a number say, makes the filter throw.
\<close>

theorem filter_function_filters:
  assumes "\<And>r. r \<in> set rows \<Longrightarrow> getValue r (getFieldArray field) = Inr (val r)" and "hd (getFieldArray field) \<noteq> []"
  shows "getFilterFunction field rows p =
    (if \<exists>r \<in> set rows. truthy (val r) \<and> (\<forall>t. val r \<noteq> JStr t) then Inl TypeError
     else Inr (filter (\<lambda>r. \<exists>t u v. val r = JStr t \<and> t \<noteq> [] \<and>
       toUpperCase t = u @ toUpperCase (cf_string (cp_filter (pe_clientPagination p))) @ v) rows))"
proof -
  let ?f = "toUpperCase (cf_string (cp_filter (pe_clientPagination p)))"
  let ?m = "row_matches ?f (getFieldArray field)"
  let ?ok = "\<lambda>r. \<exists>t u v. val r = JStr t \<and> t \<noteq> [] \<and> toUpperCase t = u @ ?f @ v"
  have "getFieldArray field \<noteq> []" by (simp add: getFieldArray_def)
  with assms have m: "?m r = (if truthy (val r) \<and> (\<forall>t. val r \<noteq> JStr t) then Inl TypeError else Inr (?ok r))"
    if "r \<in> set rows" for r
    using that by (cases "getFieldArray field"; cases "val r")
      (auto simp: row_matches_def getValue_cast_def includes_str_iff)
  show ?thesis
  proof (cases "\<exists>r \<in> set rows. truthy (val r) \<and> (\<forall>t. val r \<noteq> JStr t)")
    case True
    then obtain r where r: "r \<in> set rows" "?m r = Inl TypeError" using m by auto
    have "res_map ?m rows = Inl TypeError"
    proof -
      have "res_map ?m rs = Inl TypeError" if "set rs \<subseteq> set rows" "r \<in> set rs" for rs
        using that
      proof (induction rs)
        case (Cons z rs)
        then show ?case using m[of z] r(2) by (cases "?m z") (auto split: if_splits)
      qed simp
      then show ?thesis using r(1) by blast
    qed
    with True show ?thesis by (simp add: getFilterFunction_def)
  next
    case False
    then have "res_map ?m rows = Inr (map ?ok rows)" by (intro res_map_total) (use m in auto)
    moreover have "map snd (filter fst (zip (map g rows) rows)) = filter g rows" for g :: "js \<Rightarrow> bool"
      by (induction rows) auto
    ultimately show ?thesis using False by (simp add: getFilterFunction_def)
  qed
qed

theorem filter_function_filters_witness:
  "getFilterFunction ''name'' [JObj [(''name'', JStr ''apple'')], JObj []] (paginationSetClientFilter getDefaultPaginationEntityState
      \<lparr>pf_string = Some ''PL'', pf_items = []\<rparr>) = Inr [JObj [(''name'', JStr ''apple'')]]"
proof -
  let ?rows = "[JObj [(''name'', JStr ''apple'')], JObj []]"
  let ?val = "\<lambda>r. if r = JObj [] then JStr [] else JStr ''apple''"
  let ?p = "paginationSetClientFilter getDefaultPaginationEntityState \<lparr>pf_string = Some ''PL'', pf_items = []\<rparr>"
  have f: "cf_string (cp_filter (pe_clientPagination ?p)) = ''PL''" by code_simp
  have "\<exists>u v. toUpperCase ''apple'' = u @ toUpperCase ''PL'' @ v"
    by (rule exI[where x = "''AP''"], rule exI[where x = "''E''"]) code_simp
  moreover have "getValue r (getFieldArray ''name'') = Inr (?val r)" if "r \<in> set ?rows" for r
    using that by (auto simp: getFieldArray_def)
  from filter_function_filters[of ?rows "''name''" ?val, OF this, of ?p] f have
    "getFilterFunction ''name'' ?rows ?p = Inr (filter (\<lambda>r. \<exists>t u v. ?val r = JStr t \<and> t \<noteq> [] \<and> toUpperCase t = u @ toUpperCase ''PL'' @ v) ?rows)"
    by (auto simp: getFieldArray_def)
  ultimately show ?thesis by simp
qed

text \<open>
  C13: The controls of a list do what they say, once. For a list whose section is there, going to a page, setting the page
  size, sorting, and (for a local list) filtering leave the section with the value asked for and every other section
  alone. A change of size or order of a list fetched page by page forgets its pages and goes to page 1, a change of a
  filter goes to page 1, and using the same control again changes nothing.
\<close>

theorem controls_take_effect:
  assumes "selectPaginationState (ds_entityKey d) (ds_paginationKey d) s = Some p"
    and "ds_entityKey d \<noteq> []" "ds_paginationKey d \<noteq> []" and "wf_list_section p" and "valid_control d c"
  shows "\<exists>s' q. use_control d s c = Inr s' \<and> selectPaginationState (ds_entityKey d) (ds_paginationKey d) s' = Some q
    \<and> control_holds d c q
    \<and> (control_actions d p c \<noteq> [] \<and> refetches d c \<longrightarrow> pe_ids q = [] \<and> pe_currentPage q = 1)
    \<and> (control_actions d p c \<noteq> [] \<and> filters c \<longrightarrow> cp_currentPage (pe_clientPagination q) = 1)
    \<and> (\<forall>K P. (K, P) \<noteq> (ds_entityKey d, ds_paginationKey d) \<longrightarrow> selectPaginationState K P s' = selectPaginationState K P s)
    \<and> use_control d s' c = Inr s'"
proof -
  let ?k = "(ds_entityKey d, ds_paginationKey d)" and ?as = "concat (map (\<lambda>a. a # follow_up a) (control_actions d p c))"
  have sec: "section_of s ?k = Some p" using assms(1) by (simp add: section_of_def)
  from section_step_list[OF sec assms(2,3) control_actions_of] obtain s' where
    s': "section_steps s ?k ?as (fold section_after ?as p) s'" by blast
  have "control_done d c (control_actions d p c \<noteq> []) (fold section_after ?as p)"
    using control_settles[OF assms(4,5)] no_action_done[OF _ assms(4,5)] by (cases "control_actions d p c = []") simp_all
  moreover from s' have "section_of s' ?k = Some (fold section_after ?as p)" by (simp add: section_steps_def)
  moreover note no_actions_left[OF calculation assms(2,3)]
  moreover have "use_control d s c = Inr s'" using s' assms(1) by (simp add: use_control_def section_steps_def)
  ultimately show ?thesis using s' by (auto simp: control_done_def section_steps_def section_of_def)
qed

theorem controls_take_effect_witness:
  "\<exists>s'. use_control \<lparr>ds_entityKey = ''space'', ds_paginationKey = ''all'', ds_isLocal = False\<rparr>
      [(''space'', [(''all'', paginationSetPage getDefaultPaginationEntityState 4)])] (SortBy ''name'' ''asc'') = Inr s'
    \<and> (\<exists>q. selectPaginationState ''space'' ''all'' s' = Some q \<and> pe_currentPage q = 1 \<and> order_field q = JStr ''name'')"
proof -
  let ?d = "\<lparr>ds_entityKey = ''space'', ds_paginationKey = ''all'', ds_isLocal = False\<rparr>"
  let ?p = "paginationSetPage getDefaultPaginationEntityState 4"
  have "wf_list_section ?p" by (simp add: wf_list_section_def paginationSetPage_def getDefaultPaginationEntityState_def)
  moreover have "control_actions ?d ?p (SortBy ''name'' ''asc'') \<noteq> []" "refetches ?d (SortBy ''name'' ''asc'')" by code_simp+
  ultimately show ?thesis
    using controls_take_effect[of ?d "[(''space'', [(''all'', ?p)])]" ?p "SortBy ''name'' ''asc''"]
    by (auto simp: selectPaginationState_def)
qed

text \<open>A run of the selection, with several rows selectable at once.\<close>

datatype SelectionStep = ToggleRow js | ToggleAll | ClearSelection

fun selection_step :: "(js \<Rightarrow> string) \<Rightarrow> (js \<Rightarrow> bool) \<Rightarrow> js list \<Rightarrow> SelectionStep \<Rightarrow> RowSelection \<Rightarrow> RowSelection" where
  "selection_step uid disabled rows (ToggleRow r) s = selectedRowToggle uid disabled rows r True s"
| "selection_step uid disabled rows ToggleAll s = selectAllFilteredRows uid disabled rows s"
| "selection_step uid disabled rows ClearSelection s = selectClear s"

lemma select_all_kept:
  assumes "obj_get sel k \<noteq> None \<longleftrightarrow> checked"
  shows "obj_get (fold (\<lambda>row rows. if disabled row then rows else if checked then obj_set (uid row) row rows
      else obj_del (uid row) rows) rows sel) k \<noteq> None \<longleftrightarrow> checked"
  using assms by (induction rows arbitrary: sel) auto

lemma select_all_rows:
  assumes "r \<in> set rows" "\<not> disabled r"
  shows "obj_get (fold (\<lambda>row rows. if disabled row then rows else if checked then obj_set (uid row) row rows
      else obj_del (uid row) rows) rows sel) (uid r) \<noteq> None \<longleftrightarrow> checked"
  using assms
proof (induction rows arbitrary: sel)
  case (Cons z rows)
  show ?case
  proof (cases "z = r")
    case True
    show ?thesis unfolding fold_simps o_apply by (rule select_all_kept) (simp add: True Cons.prems(2))
  next
    case False
    with Cons show ?thesis by simp
  qed
qed simp

lemma selecting_rows: "rs_isSelecting (fold (selection_step uid disabled rows) steps noSelection)
    \<longleftrightarrow> rs_selectedRows (fold (selection_step uid disabled rows) steps noSelection) \<noteq> []"
proof (rule fold_inv[where P = "\<lambda>s. rs_isSelecting s \<longleftrightarrow> rs_selectedRows s \<noteq> []"])
  show "rs_isSelecting (selection_step uid disabled rows x s) \<longleftrightarrow> rs_selectedRows (selection_step uid disabled rows x s) \<noteq> []"
    if "rs_isSelecting s \<longleftrightarrow> rs_selectedRows s \<noteq> []" for x s
    using that by (cases x) (auto simp: selectedRowToggle_def selectAllFilteredRows_def selectClear_def Let_def)
qed (simp add: noSelection_def)

text \<open>
  Selecting all rows. After any run of row toggles, select-all toggles and clearings, the list is selecting exactly when
  rows are selected, and a select-all leaves every enabled row of the list selected or none, whichever the flag was not
  before. Clearing the selection leaves the flag as it is, so after a select-all and a clearing the next select-all
  selects nothing.
\<close>

theorem select_all_follows_flag:
  assumes "s = fold (selection_step uid disabled rows) steps noSelection" and "r \<in> set rows" "\<not> disabled r"
  shows "(rs_isSelecting s \<longleftrightarrow> rs_selectedRows s \<noteq> [])
    \<and> (obj_get (rs_selectedRows (selectAllFilteredRows uid disabled rows s)) (uid r) \<noteq> None \<longleftrightarrow> \<not> rs_selectAllChecked s)
    \<and> rs_selectAllChecked (selectAllFilteredRows uid disabled rows s) = (\<not> rs_selectAllChecked s)
    \<and> (rs_selectAllChecked s \<longrightarrow>
        obj_get (rs_selectedRows (selectAllFilteredRows uid disabled rows (selectClear s))) (uid r) = None)"
proof -
  have flag: "obj_get (rs_selectedRows (selectAllFilteredRows uid disabled rows t)) (uid r) \<noteq> None \<longleftrightarrow> \<not> rs_selectAllChecked t" for t
    using select_all_rows[of r rows disabled "\<not> rs_selectAllChecked t" uid "rs_selectedRows t"] assms(2,3)
    by (cases "rows = []") (simp_all add: selectAllFilteredRows_def Let_def)
  have "rs_selectAllChecked (selectClear s) = rs_selectAllChecked s" by (simp add: selectClear_def)
  moreover have "rs_selectAllChecked (selectAllFilteredRows uid disabled rows s) = (\<not> rs_selectAllChecked s)"
    by (simp add: selectAllFilteredRows_def Let_def)
  ultimately show ?thesis
    using selecting_rows[of uid disabled rows steps] flag[of s] flag[of "selectClear s"] assms(1) by auto
qed

theorem select_all_follows_flag_witness:
  "obj_get (rs_selectedRows (selectAllFilteredRows js_key (\<lambda>_. False) [JNum 1, JNum 2]
     (fold (selection_step js_key (\<lambda>_. False) [JNum 1, JNum 2]) [ToggleAll, ClearSelection] noSelection))) (js_key (JNum 2)) = None"
proof -
  have "\<not> rs_selectAllChecked (fold (selection_step js_key (\<lambda>_. False) [JNum 1, JNum 2]) [] noSelection)" by code_simp
  moreover have "rs_selectAllChecked (fold (selection_step js_key (\<lambda>_. False) [JNum 1, JNum 2]) [ToggleAll, ClearSelection] noSelection)"
    by code_simp
  ultimately show ?thesis
    using select_all_follows_flag[OF refl, of "JNum 2" "[JNum 1, JNum 2]" "\<lambda>_. False" js_key "[ToggleAll, ClearSelection]"] by simp
qed

end
