(* ===== verification/Role_Checkbox.thy ===== *)
theory Role_Checkbox
  imports Users_Roles Permissions
begin

section \<open>The checkboxes of the wizard: cf-role-checkbox.component.ts, and who may change roles: cf-roles.service.ts\<close>

text \<open>
  Every role of the organization and of each of its spaces has a checkbox. It shows the selection where there is one
  and otherwise the roles the picked users have: checked when all have the role, unchecked when none has, and half
  checked (\<open>null\<close>, here \<open>None\<close>) with a tooltip naming those who have it when some do. The checkbox of the role \<open>users\<close>
  of the organization is disabled while it is not unchecked and any other role of the organization is.

  Properties of \<open>newRoles\<close> that are \<open>undefined\<close> are \<open>None\<close>; the roles of the users have arrived (\<open>existingRoles$\<close>
  has emitted), and a space guid is empty for a checkbox of the organization.
\<close>

subsection \<open>The state of a role: getCheckedState\<close>

definition role_state :: "string \<Rightarrow> IUserPermissionInOrg \<Rightarrow> string option \<Rightarrow> bool option" where
  "role_state role orgRoles spaceGuid =
     (if truthy_str spaceGuid
      then (case obj_get (po_spaces orgRoles) (the spaceGuid) of
          Some spaceRoles \<Rightarrow> Option.bind (obj_get (ps_permissions spaceRoles) role) id | None \<Rightarrow> None)
      else Option.bind (obj_get (po_permissions orgRoles) role) id)"

definition hasExistingRole :: "string \<Rightarrow> CfUserRolesSelected \<Rightarrow> string \<Rightarrow> string \<Rightarrow> string option \<Rightarrow> bool" where
  "hasExistingRole role roles userGuid orgGuid spaceGuid =
     (case Option.bind (obj_get roles userGuid) (\<lambda>orgs. obj_get orgs orgGuid) of
        Some orgRoles \<Rightarrow> role_state role orgRoles spaceGuid = Some True
      | None \<Rightarrow> False)"

record CheckedState =
  ck_checked :: "bool option"
  ck_tooltip :: string

definition getCheckedState ::
  "string \<Rightarrow> CfUser list \<Rightarrow> CfUserRolesSelected \<Rightarrow> IUserPermissionInOrg \<Rightarrow> string \<Rightarrow> string option \<Rightarrow> CheckedState" where
  "getCheckedState role users existingRoles newRoles orgGuid spaceGuid =
     (case role_state role newRoles spaceGuid of
        Some checked \<Rightarrow> \<lparr>ck_checked = Some checked, ck_tooltip = ''''\<rparr>
      | None \<Rightarrow>
          if length users = 1
          then \<lparr>ck_checked = Some (hasExistingRole role existingRoles (us_guid (hd users)) orgGuid spaceGuid), ck_tooltip = ''''\<rparr>
          else
            let has = (\<lambda>user. hasExistingRole role existingRoles (us_guid user) orgGuid spaceGuid);
                tooltip = concat (map (\<lambda>user. (case us_username user of Some n \<Rightarrow> n | None \<Rightarrow> ''undefined'') @ '', '') (filter has users))
            in if tooltip = '''' then \<lparr>ck_checked = Some False, ck_tooltip = tooltip\<rparr>
               else if list_all has users then \<lparr>ck_checked = Some True, ck_tooltip = ''''\<rparr>
               else \<lparr>ck_checked = None, ck_tooltip = take (length tooltip - 2) tooltip\<rparr>)"

subsection \<open>Is any other role of the organization set: hasOrgSpaceRole\<close>

definition role_maybe ::
  "string \<Rightarrow> CfUser list \<Rightarrow> CfUserRolesSelected \<Rightarrow> IUserPermissionInOrg \<Rightarrow> string \<Rightarrow> string option \<Rightarrow> bool" where
  "role_maybe role users existingRoles newRoles orgGuid spaceGuid \<longleftrightarrow>
     ck_checked (getCheckedState role users existingRoles newRoles orgGuid spaceGuid) \<noteq> Some False"

text \<open>The loop over the spaces of one object, which passes over the spaces it has checked before.\<close>

fun hasSpaceRole :: "(string \<Rightarrow> bool) \<Rightarrow> string list \<Rightarrow> string list \<Rightarrow> bool \<times> string list" where
  "hasSpaceRole maybe [] checkedSpaces = (False, checkedSpaces)"
| "hasSpaceRole maybe (spaceGuid # spaceGuids) checkedSpaces =
     (if spaceGuid \<in> set checkedSpaces then hasSpaceRole maybe spaceGuids checkedSpaces
      else if maybe spaceGuid then (True, checkedSpaces)
      else hasSpaceRole maybe spaceGuids (checkedSpaces @ [spaceGuid]))"

fun existing_space_role ::
  "(string \<Rightarrow> bool) \<Rightarrow> string \<Rightarrow> (string, IUserPermissionInOrg) obj list \<Rightarrow> string list \<Rightarrow> bool" where
  "existing_space_role maybe orgGuid [] checkedSpaces = False"
| "existing_space_role maybe orgGuid (orgs # users) checkedSpaces =
     (case obj_get orgs orgGuid of
        None \<Rightarrow> existing_space_role maybe orgGuid users checkedSpaces
      | Some org \<Rightarrow> (case hasSpaceRole maybe (obj_keys (po_spaces org)) checkedSpaces of
          (True, _) \<Rightarrow> True
        | (False, checked) \<Rightarrow> existing_space_role maybe orgGuid users checked))"

definition hasOrgSpaceRole :: "CfUser list \<Rightarrow> CfUserRolesSelected \<Rightarrow> IUserPermissionInOrg \<Rightarrow> string \<Rightarrow> bool" where
  "hasOrgSpaceRole users existingRoles newRoles orgGuid =
     (let maybe = (\<lambda>role spaceGuid. role_maybe role users existingRoles newRoles orgGuid spaceGuid);
          space_maybe = (\<lambda>spaceGuid. maybe ''managers'' (Some spaceGuid) \<or> maybe ''developers'' (Some spaceGuid)
            \<or> maybe ''auditors'' (Some spaceGuid))
      in if maybe ''managers'' None \<or> maybe ''billing_managers'' None \<or> maybe ''auditors'' None then True
         else case hasSpaceRole space_maybe (obj_keys (po_spaces newRoles)) [] of
           (True, _) \<Rightarrow> True
         | (False, checked) \<Rightarrow> existing_space_role space_maybe orgGuid (obj_values existingRoles) checked)"

subsection \<open>The checkbox\<close>

definition isDisabled ::
  "bool \<Rightarrow> string \<Rightarrow> CfUser list \<Rightarrow> CfUserRolesSelected \<Rightarrow> IUserPermissionInOrg \<Rightarrow> string \<Rightarrow> bool option \<Rightarrow> bool" where
  "isDisabled isOrgRole role users existingRoles newRoles orgGuid checked =
     (if isOrgRole \<and> role = ''users''
      then (if \<not> (checked = Some True \<or> checked = None) then False
            else hasOrgSpaceRole users existingRoles newRoles orgGuid)
      else False)"

record CfRoleCheckbox =
  cb_checked :: "bool option"
  cb_tooltip :: string
  cb_disabled :: bool

text \<open>\<open>None\<close> while the filter of the subscription lets nothing through.\<close>

definition role_checkbox ::
  "string \<Rightarrow> string option \<Rightarrow> CfUserRolesSelected \<Rightarrow> IUserPermissionInOrg \<Rightarrow> CfUser list \<Rightarrow> bool \<Rightarrow> CfRoleCheckbox option" where
  "role_checkbox role spaceGuid existingRoles newRoles users canEditRole =
     (if users \<noteq> [] \<and> po_orgGuid newRoles \<noteq> '''' then
        let orgGuid = po_orgGuid newRoles;
            state = getCheckedState role users existingRoles newRoles orgGuid spaceGuid
        in Some \<lparr>cb_checked = ck_checked state, cb_tooltip = ck_tooltip state,
             cb_disabled = (\<not> canEditRole
               \<or> isDisabled (\<not> truthy_str spaceGuid) role users existingRoles newRoles orgGuid (ck_checked state))\<rparr>
      else None)"

definition roleUpdated :: "string \<Rightarrow> string \<Rightarrow> string option \<Rightarrow> bool \<Rightarrow> UsersRolesAction" where
  "roleUpdated orgGuid role spaceGuid checked =
     (if \<not> truthy_str spaceGuid then UsersRolesSetOrgRole orgGuid role checked
      else UsersRolesSetSpaceRole orgGuid (the spaceGuid) role checked)"

text \<open>A click on an enabled checkbox checks it unless it is checked.\<close>

definition click ::
  "CfUserRolesSelected \<Rightarrow> (string option \<Rightarrow> bool) \<Rightarrow> string option \<times> string \<Rightarrow> UsersRolesState \<Rightarrow> UsersRolesState" where
  "click existingRoles canEdit box s =
     (case box of (spaceGuid, role) \<Rightarrow>
       (case role_checkbox role spaceGuid existingRoles (ur_newRoles s) (ur_users s) (canEdit spaceGuid) of
          Some c \<Rightarrow> if cb_disabled c then s
            else UsersRolesReducer s (roleUpdated (po_orgGuid (ur_newRoles s)) role spaceGuid (cb_checked c \<noteq> Some True))
        | None \<Rightarrow> s))"

subsection \<open>Who may change roles: canUpdateOrgSpaceRoles and filterEditableOrgOrSpace\<close>

definition obs_of_can :: "bool obs result option \<Rightarrow> bool obs" where
  "obs_of_can r = (case r of None \<Rightarrow> Throws RangeError | Some (Inl e) \<Rightarrow> Throws e | Some (Inr x) \<Rightarrow> x)"

definition canUpdateOrgSpaceRoles :: "AppState \<Rightarrow> string option \<Rightarrow> string option \<Rightarrow> string option \<Rightarrow> bool obs" where
  "canUpdateOrgSpaceRoles state cfGuid orgGuid spaceGuid =
     obs_map (\<lambda>checks. list_ex id checks)
       (combineLatest
         [obs_of_can (can state (CanPermission ORGANIZATION_CHANGE_ROLES) cfGuid orgGuid None),
          obs_of_can (can state (CanPermission SPACE_CHANGE_ROLES) cfGuid orgGuid spaceGuid)])"

record OrgOrSpace =
  os_guid :: string
  os_cfGuid :: "string option"
  os_organization_guid :: "string option"

definition canEditOrgOrSpace ::
  "AppState \<Rightarrow> string \<Rightarrow> string option \<Rightarrow> string option \<Rightarrow> string option \<Rightarrow> (string \<times> bool) obs" where
  "canEditOrgOrSpace state guid cfGuid orgGuid spaceGuid =
     obs_map (\<lambda>canEdit. (guid, canEdit)) (canUpdateOrgSpaceRoles state cfGuid orgGuid spaceGuid)"

definition filterEditableOrgOrSpace :: "AppState \<Rightarrow> bool \<Rightarrow> OrgOrSpace list \<Rightarrow> OrgOrSpace list obs" where
  "filterEditableOrgOrSpace state isOrg orgsOrSpaces =
     obs_map (\<lambda>(orgs, canEdit). filter (\<lambda>org. case find (\<lambda>c. fst c = os_guid org) canEdit of Some c \<Rightarrow> snd c | None \<Rightarrow> False) orgs)
       (combineLatest2 (Emits orgsOrSpaces)
         (combineLatest (map (\<lambda>r. canEditOrgOrSpace state (os_guid r) (os_cfGuid r)
             (if isOrg then Some (os_guid r) else os_organization_guid r)
             (if isOrg then Some ALL_SPACES else Some (os_guid r))) orgsOrSpaces)))"

subsection \<open>What the checkboxes show\<close>

lemma role_state_held:
  "role_state role org sp = held_in org (if truthy_str sp then sp else None) role"
  by (cases sp) (auto simp: role_state_def held_in_def split: option.splits)

lemma hasExistingRole_holds:
  "hasExistingRole role roles user org sp \<longleftrightarrow> holds roles (user, org, if truthy_str sp then sp else None, role)"
  by (simp add: hasExistingRole_def holds_def role_state_held split: option.splits)

lemma tooltip_empty: "concat (map (\<lambda>u. f u @ '', '') us) = '''' \<longleftrightarrow> us = []"
  by (cases us) auto

lemma checked_state:
  assumes "users \<noteq> []"
  shows "ck_checked (getCheckedState role users roles new org sp) =
    (case held_in new (if truthy_str sp then sp else None) role of
       Some b \<Rightarrow> Some b
     | None \<Rightarrow>
         let has = (\<lambda>user. holds roles (us_guid user, org, if truthy_str sp then sp else None, role)) in
         if \<forall>u \<in> set users. has u then Some True else if \<exists>u \<in> set users. has u then None else Some False)"
proof (cases "length users = 1")
  case True
  then obtain u where "users = [u]" by (cases users; cases "tl users") auto
  then show ?thesis by (simp add: getCheckedState_def role_state_held hasExistingRole_holds split: option.splits)
next
  case False
  with assms show ?thesis
    by (auto simp: getCheckedState_def role_state_held hasExistingRole_holds Let_def tooltip_empty filter_empty_conv
        list_all_iff split: option.splits)
qed

text \<open>An unchecked box: the role is taken away, or left alone and nobody has it.\<close>

lemma not_role_maybe:
  assumes "users \<noteq> []"
  shows "\<not> role_maybe role users roles new org sp \<longleftrightarrow>
    (let t = (if truthy_str sp then sp else None) in
     held_in new t role = Some False
     \<or> held_in new t role = None \<and> (\<forall>u \<in> set users. \<not> holds roles (us_guid u, org, t, role)))"
  using assms by (cases users) (auto simp: role_maybe_def checked_state Let_def split: option.splits)

lemma hasSpaceRole_fst:
  "fst (hasSpaceRole maybe gs checked) \<longleftrightarrow> (\<exists>g \<in> set gs. g \<notin> set checked \<and> maybe g)"
proof (induction maybe gs checked rule: hasSpaceRole.induct)
  case (2 maybe g gs checked)
  then show ?case by (cases "g \<in> set checked"; cases "maybe g") auto
qed simp

lemma hasSpaceRole_snd:
  "\<not> fst (hasSpaceRole maybe gs checked) \<Longrightarrow> set (snd (hasSpaceRole maybe gs checked)) = set checked \<union> set gs"
  by (induction maybe gs checked rule: hasSpaceRole.induct) auto

lemma existing_space_role_iff:
  "(\<forall>g \<in> set checked. \<not> maybe g) \<Longrightarrow> existing_space_role maybe org users checked \<longleftrightarrow>
    (\<exists>orgs \<in> set users. \<exists>r. obj_get orgs org = Some r \<and> (\<exists>g \<in> set (obj_keys (po_spaces r)). maybe g))"
proof (induction users arbitrary: checked)
  case (Cons orgs users)
  show ?case
  proof (cases "obj_get orgs org")
    case None
    with Cons show ?thesis by simp
  next
    case (Some r)
    obtain found checked' where h: "hasSpaceRole maybe (obj_keys (po_spaces r)) checked = (found, checked')" by force
    with hasSpaceRole_fst[of maybe "obj_keys (po_spaces r)" checked] hasSpaceRole_snd[of maybe "obj_keys (po_spaces r)" checked]
    have found: "found \<longleftrightarrow> (\<exists>g \<in> set (obj_keys (po_spaces r)). g \<notin> set checked \<and> maybe g)"
      "\<not> found \<Longrightarrow> set checked' = set checked \<union> set (obj_keys (po_spaces r))" by auto
    show ?thesis
    proof (cases found)
      case True
      with found(1) h Some show ?thesis by (simp del: found(1)) blast
    next
      case False
      with found Cons.prems have "\<forall>g \<in> set checked'. \<not> maybe g" by auto
      from Cons.IH[OF this] h Some False found(2) Cons.prems found(1) show ?thesis by (auto simp del: found(1))
    qed
  qed
qed simp

lemma hasOrgSpaceRole_iff:
  "hasOrgSpaceRole users roles new org \<longleftrightarrow>
    (\<exists>role \<in> {''managers'', ''billing_managers'', ''auditors''}. role_maybe role users roles new org None)
    \<or> (\<exists>g. (g \<in> set (obj_keys (po_spaces new))
          \<or> (\<exists>orgs \<in> set (obj_values roles). \<exists>r. obj_get orgs org = Some r \<and> g \<in> set (obj_keys (po_spaces r))))
        \<and> (\<exists>role \<in> set space_roles. role_maybe role users roles new org (Some g)))"
proof -
  let ?space = "\<lambda>g. role_maybe ''managers'' users roles new org (Some g) \<or> role_maybe ''developers'' users roles new org (Some g)
    \<or> role_maybe ''auditors'' users roles new org (Some g)"
  obtain found checked where h: "hasSpaceRole ?space (obj_keys (po_spaces new)) [] = (found, checked)" by force
  with hasSpaceRole_fst[of ?space "obj_keys (po_spaces new)" "[]"] hasSpaceRole_snd[of ?space "obj_keys (po_spaces new)" "[]"]
  have "found \<longleftrightarrow> (\<exists>g \<in> set (obj_keys (po_spaces new)). ?space g)" "\<not> found \<Longrightarrow> set checked = set (obj_keys (po_spaces new))" by auto
  then show ?thesis
    using existing_space_role_iff[of checked ?space org "obj_values roles"] h
    by (cases found) (auto simp: hasOrgSpaceRole_def Let_def space_roles_def)
qed

subsection \<open>A run of clicks\<close>

text \<open>The boxes there are, and spaces that have a guid.\<close>

definition valid_box :: "string option \<times> string \<Rightarrow> bool" where
  "valid_box box \<longleftrightarrow> (case box of (None, role) \<Rightarrow> role \<in> set org_roles | (Some g, role) \<Rightarrow> g \<noteq> '''' \<and> role \<in> set space_roles)"

definition named_spaces :: "CfUserRolesSelected \<Rightarrow> bool" where
  "named_spaces roles \<longleftrightarrow> (\<forall>u m o' r. obj_get roles u = Some m \<longrightarrow> obj_get m o' = Some r \<longrightarrow> obj_get (po_spaces r) '''' = None)"

text \<open>While the membership is to be taken away, nothing else stays.\<close>

definition membership_last :: "CfUserRolesSelected \<Rightarrow> CfUser list \<Rightarrow> string \<Rightarrow> IUserPermissionInOrg \<Rightarrow> bool" where
  "membership_last roles users org new \<longleftrightarrow> (selected new None ''users'' = Some False \<longrightarrow>
     (\<forall>sp role. (sp, role) \<noteq> (None, ''users'') \<longrightarrow> selected new sp role = Some False
        \<or> selected new sp role = None \<and> (\<forall>u \<in> set users. \<not> holds roles (us_guid u, org, sp, role))))"

definition clickable :: "CfUserRolesSelected \<Rightarrow> CfUser list \<Rightarrow> string \<Rightarrow> UsersRolesState \<Rightarrow> bool" where
  "clickable roles users org s \<longleftrightarrow> ur_users s = users \<and> po_orgGuid (ur_newRoles s) = org \<and> wf_org (ur_newRoles s)
     \<and> obj_get (po_spaces (ur_newRoles s)) '''' = None \<and> membership_last roles users org (ur_newRoles s)"

lemma held_in_known:
  assumes "wf_org r" "held_in r sp role \<noteq> None"
  shows "(sp = None \<and> role \<in> set org_roles) \<or> (\<exists>g. sp = Some g \<and> g \<in> set (obj_keys (po_spaces r)) \<and> role \<in> set space_roles)"
proof (cases sp)
  case None
  with assms(2) have "role \<in> set (obj_keys (po_permissions r))" by (auto simp: held_in_def set_obj_keys bind_eq_Some_conv)
  with assms(1) None show ?thesis by (simp add: wf_org_def)
next
  case (Some g)
  with assms(2) obtain p where p: "obj_get (po_spaces r) g = Some p" "role \<in> set (obj_keys (ps_permissions p))"
    by (cases "obj_get (po_spaces r) g") (auto simp: held_in_def set_obj_keys bind_eq_Some_conv)
  with assms(1) have "role \<in> set space_roles" by (auto simp: wf_org_def wf_space_def)
  with Some p(1) show ?thesis by (simp add: set_obj_keys)
qed

lemma no_role_left:
  fixes users :: "CfUser list"
  assumes "\<not> hasOrgSpaceRole users roles new org" "users \<noteq> []" "wf_roles roles" "named_spaces roles" "wf_org new"
    "obj_get (po_spaces new) '''' = None" "(sp, role) \<noteq> (None, ''users'')"
  shows "selected new sp role = Some False
        \<or> selected new sp role = None \<and> (\<forall>u \<in> set users. \<not> holds roles (us_guid u, org, sp, role))"
proof (rule ccontr)
  assume no: "\<not> ?thesis"
  have known: "(sp = None \<and> role \<in> set org_roles) \<or> (\<exists>g. sp = Some g \<and> g \<noteq> '''' \<and> role \<in> set space_roles
      \<and> (g \<in> set (obj_keys (po_spaces new))
          \<or> (\<exists>orgs \<in> set (obj_values roles). \<exists>r. obj_get orgs org = Some r \<and> g \<in> set (obj_keys (po_spaces r)))))"
  proof (cases "selected new sp role")
    case Some
    with held_in_known[OF assms(5), of sp role] assms(6) show ?thesis by (auto simp: set_obj_keys)
  next
    case None
    with no obtain u where "u \<in> set users" "holds roles (us_guid u, org, sp, role)" by blast
    then obtain m r where r: "obj_get roles (us_guid u) = Some m" "obj_get m org = Some r" "held_in r sp role = Some True"
      by (auto simp: holds_def bind_eq_Some_conv split: option.splits)
    then have "wf_org r" "obj_get (po_spaces r) '''' = None" using assms(3,4) by (auto simp: wf_roles_def named_spaces_def)
    moreover have "m \<in> set (obj_values roles)" using obj_get_mem[OF r(1)] by (force simp: obj_values_def)
    ultimately show ?thesis using held_in_known[of r sp role] r(2,3) by (auto simp: set_obj_keys)
  qed
  have same: "(if truthy_str sp then sp else None) = sp" using known by auto
  have "role_maybe role users roles new org sp"
    using no not_role_maybe[OF assms(2), of role roles new org sp, unfolded same Let_def] by argo
  with known assms(1,7) show False by (auto simp: hasOrgSpaceRole_iff org_roles_def)
qed

text \<open>The states of the slice a run of clicks goes through.\<close>

lemma po_orgGuid_kept [simp]:
  "setOrgRole new role b = Some new' \<Longrightarrow> po_orgGuid new' = po_orgGuid new"
  "po_orgGuid (setSpaceRole new org g role b) = po_orgGuid new"
  by (auto simp: setOrgRole_def setSpaceRole_def Let_def split: if_splits prod.splits)

lemma spaces_kept:
  "setOrgRole new role b = Some new' \<Longrightarrow> po_spaces new' = po_spaces new"
  "g \<noteq> '''' \<Longrightarrow> obj_get (po_spaces (setSpaceRole new org g role b)) '''' = obj_get (po_spaces new) ''''"
  by (auto simp: setOrgRole_def setSpaceRole_def Let_def split: if_splits prod.splits)

lemma click_effect:
  assumes "clickable roles users org s" "valid_box (sp, role)"
  shows "\<exists>new'. UsersRolesReducer s (roleUpdated org role sp b) = s\<lparr>ur_newRoles := new'\<rparr> \<and> wf_org new' \<and> po_orgGuid new' = org
    \<and> obj_get (po_spaces new') '''' = None
    \<and> (\<forall>sp' role'. selected new' sp' role' =
        (if sp' = sp \<and> role' = role then Some b
         else if sp' = None \<and> role' = ''users'' \<and> b \<and> selected (ur_newRoles s) sp role \<noteq> Some True then Some True
         else selected (ur_newRoles s) sp' role'))"
proof (cases sp)
  case None
  note ok = assms[unfolded clickable_def valid_box_def None]
  show ?thesis
  proof (cases "setOrgRole (ur_newRoles s) role b")
    case same: None
    then have "selected (ur_newRoles s) None role = Some b"
      by (auto simp: setOrgRole_def setPermission_def held_in_def split: if_splits)
    with same None ok show ?thesis by (intro exI[of _ "ur_newRoles s"]) (auto simp: roleUpdated_def setRole_def)
  next
    case (Some new')
    have eff: "wf_org new' \<and> obj_get (po_permissions (ur_newRoles s)) role \<noteq> Some (Some b) \<and> held_in new' sp' r =
        (if sp' = None \<and> r = role then Some b else if sp' = None \<and> r = ''users'' \<and> b then Some True else held_in (ur_newRoles s) sp' r)" for sp' r
      using setOrgRole_selected[OF _ _ Some, of sp' r] ok by auto
    then have "selected (ur_newRoles s) None role \<noteq> Some b" by (auto simp: held_in_def bind_eq_Some_conv)
    with eff ok Some None spaces_kept(1)[OF Some] show ?thesis
      by (intro exI[of _ new']) (auto simp: roleUpdated_def setRole_def)
  qed
next
  case (Some g)
  note ok = assms[unfolded clickable_def valid_box_def Some]
  let ?new' = "setSpaceRole (ur_newRoles s) org g role b"
  have "wf_org ?new' \<and> held_in ?new' sp' r = (if sp' = Some g \<and> r = role then Some b
      else if sp' = None \<and> r = ''users'' \<and> b \<and> held_in (ur_newRoles s) (Some g) role \<noteq> Some b then Some True
      else held_in (ur_newRoles s) sp' r)" for sp' r
    using ok by (intro setSpaceRole_selected) auto
  with ok Some spaces_kept(2)[of g] show ?thesis
    by (intro exI[of _ ?new']) (auto simp: roleUpdated_def setRole_def)
qed

lemma click_step:
  assumes ok: "clickable roles users org s" and box: "valid_box box" and roles: "wf_roles roles" "named_spaces roles"
  shows "clickable roles users org (click roles canEdit box s)"
proof (cases box)
  case (Pair sp role)
  show ?thesis
  proof (cases "\<exists>c. role_checkbox role sp roles (ur_newRoles s) (ur_users s) (canEdit sp) = Some c \<and> \<not> cb_disabled c")
    case False
    then have "click roles canEdit box s = s" by (auto simp: click_def Pair split: option.splits)
    with ok show ?thesis by simp
  next
    case True
    then obtain c where c: "role_checkbox role sp roles (ur_newRoles s) (ur_users s) (canEdit sp) = Some c" "\<not> cb_disabled c" by blast
    let ?b = "cb_checked c \<noteq> Some True"
    have ok': "ur_users s = users" "po_orgGuid (ur_newRoles s) = org" "wf_org (ur_newRoles s)"
      "obj_get (po_spaces (ur_newRoles s)) '''' = None" "membership_last roles users org (ur_newRoles s)"
      using ok by (auto simp: clickable_def)
    have some: "users \<noteq> []" using c(1) ok'(1) by (auto simp: role_checkbox_def split: if_splits)
    have checked: "cb_checked c = ck_checked (getCheckedState role users roles (ur_newRoles s) org sp)"
      "sp = None \<and> role = ''users'' \<Longrightarrow> cb_checked c = Some True \<Longrightarrow> \<not> hasOrgSpaceRole users roles (ur_newRoles s) org"
      using c ok'(1,2) by (auto simp: role_checkbox_def isDisabled_def Let_def split: if_splits)
    from click_effect[OF ok box[unfolded Pair], of ?b] obtain new' where new':
      "UsersRolesReducer s (roleUpdated org role sp ?b) = s\<lparr>ur_newRoles := new'\<rparr>" "wf_org new'" "po_orgGuid new' = org"
      "obj_get (po_spaces new') '''' = None"
      "\<And>sp' role'. selected new' sp' role' =
        (if sp' = sp \<and> role' = role then Some ?b
         else if sp' = None \<and> role' = ''users'' \<and> ?b \<and> selected (ur_newRoles s) sp role \<noteq> Some True then Some True
         else selected (ur_newRoles s) sp' role')" by blast
    have click: "click roles canEdit box s = s\<lparr>ur_newRoles := new'\<rparr>"
      using c new'(1) ok'(2) by (simp add: click_def Pair)
    have "membership_last roles users org new'"
    proof (cases "sp = None \<and> role = ''users''")
      case True
      show ?thesis
      proof (cases "?b")
        case False
        then have "\<not> hasOrgSpaceRole users roles (ur_newRoles s) org" using checked(2) True by blast
        from no_role_left[OF this some roles ok'(3,4)] True False show ?thesis
          by (auto simp: membership_last_def new'(5))
      qed (use True in \<open>simp add: membership_last_def new'(5)\<close>)
    next
      case False
      have "selected (ur_newRoles s) sp role \<noteq> Some True" if "selected (ur_newRoles s) None ''users'' = Some False"
        using ok'(5)[unfolded membership_last_def, rule_format, OF that, of sp role] False by auto
      note not_selected = this
      show ?thesis unfolding membership_last_def
      proof (intro impI allI)
        fix sp' :: "string option" and role' assume removed: "selected new' None ''users'' = Some False" and other: "(sp', role') \<noteq> (None, ''users'')"
        from removed False have before: "selected (ur_newRoles s) None ''users'' = Some False"
          "\<not> (?b \<and> selected (ur_newRoles s) sp role \<noteq> Some True)"
          unfolding new'(5) by (auto split: if_splits)
        with not_selected have no: "\<not> ?b" by blast
        note rest = ok'(5)[unfolded membership_last_def, rule_format, OF before(1) other]
        show "selected new' sp' role' = Some False
            \<or> selected new' sp' role' = None \<and> (\<forall>u \<in> set users. \<not> holds roles (us_guid u, org, sp', role'))"
          unfolding new'(5) using no rest by (simp only: if_False simp_thms split: if_splits)
      qed
    qed
    with new' ok'(1) show ?thesis by (simp add: click clickable_def)
  qed
qed

definition wizard_of :: "string \<Rightarrow> CfUser list \<Rightarrow> string \<Rightarrow> UsersRolesState" where
  "wizard_of cfGuid picked org = UsersRolesReducer (UsersRolesReducer usersRolesDefault (UsersRolesSetUsers cfGuid picked)) (UsersRolesSetOrg org)"

lemma clickable_start: "clickable roles picked org (wizard_of cfGuid picked org)"
  by (simp add: wizard_of_def clickable_def membership_last_def usersRolesDefault_def)
    (simp add: createDefaultOrgRoles_def)

lemma clicks_run:
  assumes "wf_roles roles" "named_spaces roles" "list_all valid_box boxes"
  shows "clickable roles picked org (fold (click roles canEdit) boxes (wizard_of cfGuid picked org))"
proof (rule fold_inv[where P = "clickable roles picked org"])
  show "clickable roles picked org (click roles canEdit box s)" if "box \<in> set boxes" "clickable roles picked org s" for box s
    using click_step[OF that(2) _ assms(1,2)] assms(3) that(1) by (simp add: list_all_iff)
qed (rule clickable_start)

subsection \<open>Properties\<close>

text \<open>The roles read off well-formed users have no space without a guid.\<close>

definition named_map :: "(string, IUserPermissionInOrg) obj \<Rightarrow> bool" where
  "named_map m \<longleftrightarrow> (\<forall>o' r. obj_get m o' = Some r \<longrightarrow> obj_get (po_spaces r) '''' = None)"

lemma populateUserRoles_named:
  assumes "populateUserRoles user = Inr m" and wf: "wf_user user"
  shows "named_map m"
proof -
  from assms(1) obtain os ss where ss: "getSpaceRolesFromUser user = Inr ss"
    and m: "m = fold add_space ss (fold (\<lambda>p. obj_set (po_orgGuid p) (p\<lparr>po_spaces := []\<rparr>)) os [])"
    by (auto simp: populateUserRoles_def res_bind_Inr_iff)
  have entry: "e \<in> listed_in user space_lists \<Longrightarrow> re_entityGuid e \<noteq> ''''" for e
    using wf unfolding wf_user_def listed_in_def by fastforce
  have named: "'''' \<noteq> ps_spaceGuid p" if "p \<in> set ss" for p
  proof -
    from getSpaceRoles_parsed[OF ss] that obtain e where "e \<in> listed_in user space_lists" "p = space_of user e"
      by (auto simp: parsed_def)
    then show ?thesis using entry[of e] by (simp add: space_of_def)
  qed
  have "named_map (fold (\<lambda>p. obj_set (po_orgGuid p) (p\<lparr>po_spaces := []\<rparr>)) os [])"
    by (rule fold_inv) (auto simp: named_map_def split: if_splits)
  then show ?thesis unfolding m
    by (rule fold_inv[rotated])
      (auto simp: named_map_def add_space_def Let_def createDefaultOrgRoles_def named split: option.splits if_splits)
qed

lemma populateRoles_named:
  assumes "populateRoles cf picked users = Inr roles" and wf: "wf_users users"
  shows "named_spaces roles"
proof (cases "cf = '''' \<or> picked = []")
  case False
  then have run: "res_fold (\<lambda>roles user.
          if us_guid user \<in> set (map us_guid picked)
          then res_bind (populateUserRoles user) (\<lambda>mappedUser. Inr (obj_set (us_guid user) mappedUser roles))
          else Inr roles) [] users = Inr roles"
    using assms unfolding populateRoles_def by (simp only: if_False)
  have "\<forall>u m. obj_get roles u = Some m \<longrightarrow> named_map m"
  proof (rule res_fold_inv[where P = "\<lambda>roles. \<forall>u m. obj_get roles u = Some m \<longrightarrow> named_map m", OF _ _ run])
    fix roles u roles'
    assume u: "u \<in> set users" and roles: "\<forall>u m. obj_get roles u = Some m \<longrightarrow> named_map m"
      and step: "(if us_guid u \<in> set (map us_guid picked)
          then res_bind (populateUserRoles u) (\<lambda>mappedUser. Inr (obj_set (us_guid u) mappedUser roles))
          else Inr roles) = Inr roles'"
    have "wf_user u" using u wf by (simp add: wf_users_def)
    with roles step show "\<forall>u m. obj_get roles' u = Some m \<longrightarrow> named_map m"
      by (auto simp: res_bind_Inr_iff populateUserRoles_named split: if_splits)
  qed simp
  then show ?thesis by (auto simp: named_spaces_def named_map_def)
qed (use assms in \<open>auto simp: populateRoles_def named_spaces_def\<close>)

text \<open>
  C6: Taking the membership of an organization away takes every role in it. Whatever enabled checkboxes are clicked after
  the users and the organization were picked, if the membership of the organization ends up deselected, then the
  changes the wizard makes, applied to the roles the users in the store hold by the entries of their lists, leave every
  picked user with no role in the organization and none in any of its spaces. Only the roles of the store are meant: a role
  whose entry is not loaded is not seen by the wizard and not taken away. The endpoint has a guid, no user is in the store
  twice, the guid of an entry is that of its entity, spaces have guids, and a space is in one organization.
\<close>

theorem removal_leaves_nothing:
  fixes picked :: "CfUser list"
  assumes roles: "populateRoles cfGuid picked users = Inr roles" "cfGuid \<noteq> ''''" and users: "wf_users users"
    and boxes: "list_all valid_box boxes"
    and new: "new = ur_newRoles (fold (click roles canEdit) boxes (wizard_of cfGuid picked org))"
    and removed: "selected new None ''users'' = Some False" and user: "user \<in> us_guid ` set picked"
  shows "\<not> fold apply_change (createRolesDiff roles new picked org) (held_by users) (user, org, sp, role)"
proof -
  have wf: "wf_roles roles" by (rule populateRoles_wf[OF roles(1)])
  have run: "wf_org new" "membership_last roles picked org new"
    using clicks_run[OF wf populateRoles_named[OF roles(1) users] boxes, of picked org canEdit cfGuid]
    by (simp_all add: clickable_def new)
  note held = populated_roles[OF roles users]
  have "selected new sp role = Some False \<or> selected new sp role = None \<and> \<not> held_by users (user, org, sp, role)"
  proof (cases "(sp, role) = (None, ''users'')")
    case False
    from user obtain u where "u \<in> set picked" "user = us_guid u" by blast
    with run(2)[unfolded membership_last_def, rule_format, OF removed False] held[OF user] show ?thesis by blast
  qed (use removed in simp)
  moreover have "fold apply_change (createRolesDiff roles new picked org) (held_by users) (user, org, sp, role) =
      (case selected new sp role of Some b \<Rightarrow> b | None \<Rightarrow> held_by users (user, org, sp, role))"
    using fun_cong[OF conjunct1[OF changes_applied[OF wf run(1) held, of picked org]], of "(user, org, sp, role)"] user by simp
  ultimately show ?thesis by auto
qed

text \<open>A user who is a member without other roles, and one click on the box of the role \<open>users\<close>.\<close>

definition plain_member :: CfUser where
  "plain_member = \<lparr>us_guid = ''u1'', us_username = Some ''ann'', us_roles = [(''organizations'',
     [Some \<lparr>re_guid = ''o1'', re_entityGuid = ''o1'', re_name = ''dev'', re_organization_guid = ''''\<rparr>])]\<rparr>"

theorem removal_leaves_nothing_witness:
  "\<exists>roles new. populateRoles ''cf'' [plain_member] [plain_member] = Inr roles
    \<and> new = ur_newRoles (fold (click roles (\<lambda>_. True)) [(None, ''users'')] (wizard_of ''cf'' [plain_member] ''o1''))
    \<and> held_by [plain_member] (''u1'', ''o1'', None, ''users'')
    \<and> \<not> fold apply_change (createRolesDiff roles new [plain_member] ''o1'') (held_by [plain_member]) (''u1'', ''o1'', None, ''users'')"
proof -
  let ?roles = "[(''u1'', [(''o1'', \<lparr>po_name = ''dev'', po_orgGuid = ''o1'',
        po_permissions = createUserRoleInOrg (Some False) (Some False) (Some False) (Some True), po_spaces = []\<rparr>)])]"
  let ?new = "ur_newRoles (fold (click ?roles (\<lambda>_. True)) [(None, ''users'')] (wizard_of ''cf'' [plain_member] ''o1''))"
  have r: "populateRoles ''cf'' [plain_member] [plain_member] = Inr ?roles" by code_simp
  have "wf_users [plain_member]" by (auto simp: wf_users_def wf_user_def listed_in_def user_list_def plain_member_def)
  moreover have "list_all valid_box [(None, ''users'')]" by code_simp
  moreover have "selected ?new None ''users'' = Some False" by code_simp
  moreover have "''u1'' \<in> us_guid ` set [plain_member]" by (simp add: plain_member_def)
  moreover have "held_by [plain_member] (''u1'', ''o1'', None, ''users'')"
    by (auto simp: held_by_def role_list_def user_list_def names_place_def plain_member_def)
  ultimately show ?thesis
    using removal_leaves_nothing[OF r _ _ _ refl, where user = "''u1''" and sp = None and role = "''users''"] r by blast
qed

text \<open>
  What a checkbox shows. A selection is shown as it is; without one the box is checked when all picked users have
  the role, unchecked when none has, and otherwise half checked.
\<close>

theorem checkbox_shows_roles:
  assumes "role_checkbox role sp roles new users canEdit = Some c" and "sp \<noteq> Some ''''"
  shows "cb_checked c = (case selected new sp role of
      Some b \<Rightarrow> Some b
    | None \<Rightarrow>
        if \<forall>u \<in> set users. holds roles (us_guid u, po_orgGuid new, sp, role) then Some True
        else if \<exists>u \<in> set users. holds roles (us_guid u, po_orgGuid new, sp, role) then None else Some False)
    \<and> (cb_checked c \<noteq> None \<longrightarrow> cb_tooltip c = '''')"
proof -
  have some: "users \<noteq> []" using assms(1) by (auto simp: role_checkbox_def split: if_splits)
  have sp: "(if truthy_str sp then sp else None) = sp" using assms(2) by (cases sp) auto
  have "ck_tooltip (getCheckedState role users roles new org sp) = ''''"
    if "ck_checked (getCheckedState role users roles new org sp) \<noteq> None" for org
    using that by (auto simp: getCheckedState_def Let_def split: option.splits if_splits)
  with assms(1) checked_state[OF some, of role roles new "po_orgGuid new" sp, unfolded sp Let_def] show ?thesis
    by (auto simp: role_checkbox_def Let_def split: if_splits)
qed

theorem checkbox_shows_roles_witness:
  "\<exists>c. role_checkbox ''auditors'' None [] (createDefaultOrgRoles ''o1'') [plain_member] True = Some c \<and> cb_checked c = Some False"
proof -
  have "role_checkbox ''auditors'' None [] (createDefaultOrgRoles ''o1'') [plain_member] True \<noteq> None" by code_simp
  then obtain c where c: "role_checkbox ''auditors'' None [] (createDefaultOrgRoles ''o1'') [plain_member] True = Some c" by blast
  have "\<not> holds [] (us_guid plain_member, po_orgGuid (createDefaultOrgRoles ''o1''), None, ''auditors'')" by code_simp
  with checkbox_shows_roles[OF c] c show ?thesis by simp
qed

text \<open>
  Which organizations or spaces are offered. When every check answers, exactly those are whose roles the connected user
  can change, in their order; but the observable never emits for an empty list, as \<open>combineLatest\<close> of no checks does not.
\<close>

theorem editable_list:
  assumes "\<And>r. r \<in> set rs \<Longrightarrow> canUpdateOrgSpaceRoles state (os_cfGuid r) (if isOrg then Some (os_guid r) else os_organization_guid r)
      (if isOrg then Some ALL_SPACES else Some (os_guid r)) = Emits (allowed r)"
    and "distinct (map os_guid rs)"
  shows "filterEditableOrgOrSpace state isOrg rs = (if rs = [] then Silent else Emits (filter allowed rs))"
proof -
  let ?edit = "\<lambda>r. canEditOrgOrSpace state (os_guid r) (os_cfGuid r) (if isOrg then Some (os_guid r) else os_organization_guid r)
      (if isOrg then Some ALL_SPACES else Some (os_guid r))"
  have edit: "map ?edit rs = map (\<lambda>r. Emits (os_guid r, allowed r)) rs"
    using assms(1) by (simp add: canEditOrgOrSpace_def)
  have find: "find (\<lambda>c. fst c = os_guid r) (map (\<lambda>r. (os_guid r, allowed r)) rs) = Some (os_guid r, allowed r)"
    if "r \<in> set rs" for r
    using that assms(2) by (induction rs) auto
  have "filter (\<lambda>r. case find (\<lambda>c. fst c = os_guid r) (map (\<lambda>r. (os_guid r, allowed r)) rs) of Some c \<Rightarrow> snd c | None \<Rightarrow> False) rs
      = filter allowed rs"
    by (rule filter_cong) (simp_all add: find)
  then show ?thesis by (simp add: filterEditableOrgOrSpace_def edit combineLatest2_def)
qed

lemma canUpdateOrgSpaceRoles_checks:
  "canUpdateOrgSpaceRoles state cf org sp = obs_map (\<lambda>checks. list_ex id checks) (combineLatest
     [getSimplePermission state (config ORGANIZATION ORG_MANAGER) cf org None,
      getSimplePermission state (config SPACE SPACE_MANAGER) cf org sp])"
  by (simp add: canUpdateOrgSpaceRoles_def obs_of_can_def can_def)

definition manager_state :: AppState where
  "manager_state = \<lparr>ap_currentUserRoles = getDefaultState\<lparr>ur_cf := [(''cf1'', getDefaultEndpointRoles\<lparr>
        cr_global := (cr_global getDefaultEndpointRoles)\<lparr>gr_canWrite := True\<rparr>,
        cr_organizations := [(''o1'', createOrgRoleStateState\<lparr>or_isManager := True\<rparr>)]\<rparr>)]\<rparr>,
      ap_endpoints = [], ap_featureFlags = (\<lambda>_. Silent)\<rparr>"

theorem editable_list_witness:
  "filterEditableOrgOrSpace manager_state False
    [\<lparr>os_guid = ''s1'', os_cfGuid = Some ''cf1'', os_organization_guid = Some ''o1''\<rparr>,
     \<lparr>os_guid = ''s2'', os_cfGuid = Some ''cf1'', os_organization_guid = Some ''o2''\<rparr>]
    = Emits [\<lparr>os_guid = ''s1'', os_cfGuid = Some ''cf1'', os_organization_guid = Some ''o1''\<rparr>]"
proof -
  let ?s1 = "\<lparr>os_guid = ''s1'', os_cfGuid = Some ''cf1'', os_organization_guid = Some ''o1''\<rparr>"
  let ?s2 = "\<lparr>os_guid = ''s2'', os_cfGuid = Some ''cf1'', os_organization_guid = Some ''o2''\<rparr>"
  have "canUpdateOrgSpaceRoles manager_state (Some ''cf1'') (Some ''o1'') (Some ''s1'') = Emits True"
    unfolding canUpdateOrgSpaceRoles_checks by code_simp
  moreover have "canUpdateOrgSpaceRoles manager_state (Some ''cf1'') (Some ''o2'') (Some ''s2'') = Emits False"
    unfolding canUpdateOrgSpaceRoles_checks by code_simp
  ultimately have "canUpdateOrgSpaceRoles manager_state (os_cfGuid r) (if False then Some (os_guid r) else os_organization_guid r)
      (if False then Some ALL_SPACES else Some (os_guid r)) = Emits (os_guid r = ''s1'')" if "r \<in> set [?s1, ?s2]" for r
    using that by auto
  from editable_list[of "[?s1, ?s2]" manager_state False "\<lambda>r. os_guid r = ''s1''", OF this] show ?thesis by simp
qed

end
