(* ===== verification/Ignore_Filter.thy ===== *)
theory Ignore_Filter
  imports Prelude "HOL-Library.List_Lexorder" "HOL-Library.Char_ord"
begin

section \<open>Ignore files of an application to push: deploy-application-ignorefiles.ts\<close>

text \<open>
  \<open>GitIgnoreFilter\<close> turns the lines of a \<open>.cfignore\<close> file into two regular expressions and tests file names
  with them. The text of the expressions is built here character by character, as the code does; of the language's
  regular expressions the theory has the part such texts can use, with a lexer, a parser that can fail as
  \<open>new RegExp\<close> does, and a matcher that returns the positions at which a match can end. Which of several matches a
  backtracking engine finds first does not matter for \<open>test\<close>.
\<close>

subsection \<open>The texts of the expressions\<close>

abbreviation backslash :: char where "backslash \<equiv> CHR 0x5C"

definition special :: "char \<Rightarrow> bool" where
  "special c \<longleftrightarrow> c \<in> set (backslash # ''-[]/{}()+?.^$|'')"

definition escapeRegex :: "string \<Rightarrow> string" where
  "escapeRegex pattern = concat (map (\<lambda>c. if special c then [backslash, c] else [c]) pattern)"

definition any_path :: string where "any_path = ''(.+)''"

definition any_name :: string where "any_name = ''([^'' @ [backslash] @ ''/]+)''"

definition prepareRegexPattern :: "string \<Rightarrow> string" where
  "prepareRegexPattern pattern = replace_first ''*'' any_name (replace_first ''**'' any_path (escapeRegex pattern))"

definition preparePartialRegex :: "string \<Rightarrow> string" where
  "preparePartialRegex pattern =
     (case split_on (CHR ''/'') pattern of
        [] \<Rightarrow> []
      | item # items \<Rightarrow>
          ''('' @ prepareRegexPattern item @ [backslash] @ ''b)''
          @ concat (map (\<lambda>item. ''(['' @ [backslash] @ ''/]?('' @ prepareRegexPattern item @ [backslash] @ ''b|$))'') items))"

subsection \<open>The lines of the file\<close>

definition ignore_lines :: "string \<Rightarrow> string list" where
  "ignore_lines content =
     filter (\<lambda>line. line \<noteq> [] \<and> hd line \<noteq> CHR ''#'') (map trim_blanks (split_on (CHR 0x0A) content))"

definition strip_slash :: "string \<Rightarrow> string" where
  "strip_slash s = (case s of c # cs \<Rightarrow> if c = CHR ''/'' then cs else s | [] \<Rightarrow> [])"

definition add_line :: "string \<Rightarrow> string list \<times> string list \<Rightarrow> string list \<times> string list" where
  "add_line line pats =
     (case pats of (positives, negatives) \<Rightarrow>
        if hd line = CHR ''!'' then (positives, negatives @ [strip_slash (tl line)])
        else (positives @ [strip_slash line], negatives))"

text \<open>The positive and the negative patterns, each list in order.\<close>

definition ignore_patterns :: "string \<Rightarrow> string list \<times> string list" where
  "ignore_patterns content =
     (case fold add_line (ignore_lines content) ([], []) of
        (positives, negatives) \<Rightarrow> (sort positives, sort negatives))"

definition regex_text :: "string list \<Rightarrow> string" where
  "regex_text items = (if items \<noteq> [] then ''^(('' @ join_with '')|('' items @ ''))'' else ''$^'')"

subsection \<open>Regular expressions: lexer, parser and matcher\<close>

datatype quantifier = Star | Plus | Opt

datatype token =
    TChar char
  | TDot
  | TClass bool string
  | TBoundary
  | TStart
  | TEnd
  | TOpen
  | TClose
  | TBar
  | TQuant quantifier

fun plain_token :: "char \<Rightarrow> token" where
  "plain_token c =
     (if c = CHR ''.'' then TDot else if c = CHR ''^'' then TStart else if c = CHR ''$'' then TEnd
      else if c = CHR ''('' then TOpen else if c = CHR '')'' then TClose else if c = CHR ''|'' then TBar
      else if c = CHR ''*'' then TQuant Star else if c = CHR ''+'' then TQuant Plus else if c = CHR ''?'' then TQuant Opt
      else TChar c)"

text \<open>
  The lexer, in a state: outside, behind a backslash, behind the opening bracket of a class, in a class, behind a
  backslash in a class. The texts escape punctuation only, and \<open>\b\<close>; their classes have no ranges.
\<close>

datatype lexer = Outside | Escape | ClassStart | InClass bool string | ClassEscape bool string

fun lexes :: "lexer \<Rightarrow> string \<Rightarrow> token list option" where
  "lexes Outside [] = Some []"
| "lexes _ [] = None"
| "lexes Outside (c # cs) =
     (if c = backslash then lexes Escape cs
      else if c = CHR ''['' then lexes ClassStart cs
      else map_option ((#) (plain_token c)) (lexes Outside cs))"
| "lexes Escape (c # cs) = map_option ((#) (if c = CHR ''b'' then TBoundary else TChar c)) (lexes Outside cs)"
| "lexes ClassStart (c # cs) =
     (if c = CHR ''^'' then lexes (InClass True []) cs
      else if c = CHR '']'' then map_option ((#) (TClass False [])) (lexes Outside cs)
      else if c = backslash then lexes (ClassEscape False []) cs
      else lexes (InClass False [c]) cs)"
| "lexes (InClass neg cls) (c # cs) =
     (if c = CHR '']'' then map_option ((#) (TClass neg (rev cls))) (lexes Outside cs)
      else if c = backslash then lexes (ClassEscape neg cls) cs
      else lexes (InClass neg (c # cls)) cs)"
| "lexes (ClassEscape neg cls) (c # cs) = lexes (InClass neg (c # cls)) cs"

datatype regex =
    Chr char
  | AnyChar
  | OneOf bool string
  | WordBoundary
  | LineStart
  | LineEnd
  | Group "regex list list"
  | Rep quantifier regex

fun quantifiable :: "regex \<Rightarrow> bool" where
  "quantifiable (Rep _ _) = False"
| "quantifiable WordBoundary = False"
| "quantifiable LineStart = False"
| "quantifiable LineEnd = False"
| "quantifiable _ = True"

text \<open>The open groups, innermost first: the alternatives finished and the one being read, both backwards.\<close>

type_synonym frame = "regex list list \<times> regex list"

fun push :: "regex \<Rightarrow> frame list \<Rightarrow> frame list option" where
  "push r ((alts, seq) # st) = Some ((alts, r # seq) # st)"
| "push r [] = None"

fun parse_token :: "token \<Rightarrow> frame list \<Rightarrow> frame list option" where
  "parse_token TOpen st = Some (([], []) # st)"
| "parse_token TClose (f # f' # st) = push (Group (rev (rev (snd f) # fst f))) (f' # st)"
| "parse_token TClose _ = None"
| "parse_token TBar (f # st) = Some ((rev (snd f) # fst f, []) # st)"
| "parse_token TBar [] = None"
| "parse_token (TQuant q) ((alts, r # seq) # st) = (if quantifiable r then Some ((alts, Rep q r # seq) # st) else None)"
| "parse_token (TQuant q) _ = None"
| "parse_token (TChar c) st = push (Chr c) st"
| "parse_token TDot st = push AnyChar st"
| "parse_token (TClass neg cls) st = push (OneOf neg cls) st"
| "parse_token TBoundary st = push WordBoundary st"
| "parse_token TStart st = push LineStart st"
| "parse_token TEnd st = push LineEnd st"

fun parse_tokens :: "token list \<Rightarrow> frame list \<Rightarrow> frame list option" where
  "parse_tokens [] st = Some st"
| "parse_tokens (t # ts) st = (case parse_token t st of None \<Rightarrow> None | Some st' \<Rightarrow> parse_tokens ts st')"

abbreviation SyntaxError :: js_error where "SyntaxError \<equiv> ThrownError ''Invalid regular expression''"

text \<open>\<open>new RegExp(s)\<close>: its alternatives, or a \<open>SyntaxError\<close>.\<close>

definition newRegExp :: "string \<Rightarrow> regex list list result" where
  "newRegExp s =
     (case lexes Outside s of
        None \<Rightarrow> Inl SyntaxError
      | Some ts \<Rightarrow>
          (case parse_tokens ts [([], [])] of
             Some [f] \<Rightarrow> Inr (rev (rev (snd f) # fst f))
           | _ \<Rightarrow> Inl SyntaxError))"

definition is_word :: "char \<Rightarrow> bool" where
  "is_word c \<longleftrightarrow> (let n = (of_char c :: nat) in 48 \<le> n \<and> n \<le> 57 \<or> 65 \<le> n \<and> n \<le> 90 \<or> n = 95 \<or> 97 \<le> n \<and> n \<le> 122)"

definition line_end :: "char \<Rightarrow> bool" where "line_end c \<longleftrightarrow> c = CHR 0x0A \<or> c = CHR 0x0D"

text \<open>
  Where a match from position \<open>i\<close> of \<open>s\<close> can end. An iteration that matches the empty string ends a repetition, so
  \<open>length s\<close> iterations are enough.
\<close>

fun star_ends :: "nat \<Rightarrow> (nat \<Rightarrow> nat list) \<Rightarrow> nat \<Rightarrow> nat list" where
  "star_ends 0 f i = [i]"
| "star_ends (Suc n) f i = i # concat (map (\<lambda>j. if i < j then star_ends n f j else []) (f i))"

fun seq_ends :: "(nat \<Rightarrow> nat list) list \<Rightarrow> nat \<Rightarrow> nat list" where
  "seq_ends [] i = [i]"
| "seq_ends (f # fs) i = concat (map (seq_ends fs) (f i))"

definition one_char :: "(char \<Rightarrow> bool) \<Rightarrow> string \<Rightarrow> nat \<Rightarrow> nat list" where
  "one_char P s i = (if i < length s \<and> P (s ! i) then [Suc i] else [])"

definition at_boundary :: "string \<Rightarrow> nat \<Rightarrow> bool" where
  "at_boundary s i \<longleftrightarrow> (0 < i \<and> is_word (s ! (i - 1))) \<noteq> (i < length s \<and> is_word (s ! i))"

primrec ends :: "string \<Rightarrow> regex \<Rightarrow> nat \<Rightarrow> nat list" where
  "ends s (Chr c) = one_char (\<lambda>d. d = c) s"
| "ends s AnyChar = one_char (\<lambda>d. \<not> line_end d) s"
| "ends s (OneOf neg cls) = one_char (\<lambda>d. (d \<in> set cls) \<noteq> neg) s"
| "ends s WordBoundary = (\<lambda>i. if at_boundary s i then [i] else [])"
| "ends s LineStart = (\<lambda>i. if i = 0 then [i] else [])"
| "ends s LineEnd = (\<lambda>i. if i = length s then [i] else [])"
| "ends s (Group alts) = (\<lambda>i. concat (map (\<lambda>fs. seq_ends fs i) (map (map (ends s)) alts)))"
| "ends s (Rep q r) =
     (case q of
        Opt \<Rightarrow> (\<lambda>i. i # ends s r i)
      | Star \<Rightarrow> star_ends (length s) (ends s r)
      | Plus \<Rightarrow> (\<lambda>i. concat (map (star_ends (length s) (ends s r)) (ends s r i))))"

definition regex_test :: "regex list list \<Rightarrow> string \<Rightarrow> bool" where
  "regex_test alts s = list_ex (\<lambda>i. ends s (Group alts) i \<noteq> []) [0..<length s + 1]"

subsection \<open>The filter\<close>

record GitIgnoreFilter =
  gi_positives :: "regex list list \<times> regex list list"
  gi_negatives :: "regex list list \<times> regex list list"

definition regexes_of :: "string list \<Rightarrow> (regex list list \<times> regex list list) result" where
  "regexes_of patterns =
     res_bind (newRegExp (regex_text (map prepareRegexPattern patterns))) (\<lambda>exact.
     res_bind (newRegExp (regex_text (map preparePartialRegex patterns))) (\<lambda>partial. Inr (exact, partial)))"

definition newGitIgnoreFilter :: "string \<Rightarrow> GitIgnoreFilter result" where
  "newGitIgnoreFilter content =
     (case ignore_patterns content of (positives, negatives) \<Rightarrow>
        res_bind (regexes_of positives) (\<lambda>pos. res_bind (regexes_of negatives) (\<lambda>neg.
          Inr \<lparr>gi_positives = pos, gi_negatives = neg\<rparr>)))"

definition accepts :: "GitIgnoreFilter \<Rightarrow> string \<Rightarrow> bool" where
  "accepts f input =
     (let input = strip_slash input in
      regex_test (fst (gi_negatives f)) input \<or> \<not> regex_test (fst (gi_positives f)) input)"

definition denies :: "GitIgnoreFilter \<Rightarrow> string \<Rightarrow> bool" where
  "denies f input =
     (let input = strip_slash input in
      \<not> (regex_test (fst (gi_negatives f)) input \<or> \<not> regex_test (fst (gi_positives f)) input))"

definition maybe_accepts :: "GitIgnoreFilter \<Rightarrow> string \<Rightarrow> bool" where
  "maybe_accepts f input =
     (let input = strip_slash input in
      regex_test (snd (gi_negatives f)) input \<or> \<not> regex_test (snd (gi_positives f)) input)"

subsection \<open>What a line means\<close>

datatype glob = Lit char | Name | Path

fun globs :: "string \<Rightarrow> glob list" where
  "globs [] = []"
| "globs [c] = [if c = CHR ''*'' then Name else Lit c]"
| "globs (c # d # s) =
     (if c = CHR ''*'' \<and> d = CHR ''*'' then Path # globs s
      else (if c = CHR ''*'' then Name else Lit c) # globs (d # s))"

text \<open>The line is the beginning of a name: \<open>*\<close> for a part of one folder's name, \<open>**\<close> for a part of the path.\<close>

fun glob_prefix :: "glob list \<Rightarrow> string \<Rightarrow> bool" where
  "glob_prefix [] s = True"
| "glob_prefix (Lit c # g) s = (\<exists>v. s = c # v \<and> glob_prefix g v)"
| "glob_prefix (Name # g) s = (\<exists>u v. s = u @ v \<and> u \<noteq> [] \<and> CHR ''/'' \<notin> set u \<and> glob_prefix g v)"
| "glob_prefix (Path # g) s = (\<exists>u v. s = u @ v \<and> u \<noteq> [] \<and> (\<forall>c \<in> set u. \<not> line_end c) \<and> glob_prefix g v)"

definition simple_line :: "string \<Rightarrow> bool" where
  "simple_line p \<longleftrightarrow> count_list (globs p) Path \<le> 1 \<and> count_list (globs p) Name \<le> 1"

definition some_line :: "string set \<Rightarrow> string \<Rightarrow> bool" where
  "some_line lines s \<longleftrightarrow> (if lines = {} then s = [] else \<exists>p \<in> lines. glob_prefix (globs p) s)"

lemma glob_prefix_plain: "CHR ''*'' \<notin> set p \<Longrightarrow> glob_prefix (globs p) s \<longleftrightarrow> (\<exists>v. s = p @ v)"
  by (induction p arbitrary: s rule: globs.induct) auto

lemma globs_no_star: "Lit (CHR ''*'') \<notin> set (globs p)"
  by (induction p rule: globs.induct) auto

subsection \<open>The text of a line\<close>

lemma escapeRegex_simps [simp]:
  "escapeRegex [] = []"
  "escapeRegex (c # s) = (if special c then [backslash, c] else [c]) @ escapeRegex s"
  by (simp_all add: escapeRegex_def)

lemma not_special_star [simp]: "\<not> special (CHR ''*'')"
  by (simp add: special_def)

fun raw_text :: "glob \<Rightarrow> string" where
  "raw_text (Lit c) = escapeRegex [c]"
| "raw_text Name = ''*''"
| "raw_text Path = ''**''"

fun path_text :: "glob \<Rightarrow> string" where
  "path_text Path = any_path"
| "path_text g = raw_text g"

fun glob_text :: "glob \<Rightarrow> string" where
  "glob_text Name = any_name"
| "glob_text g = path_text g"

lemma escape_raw: "escapeRegex p = concat (map raw_text (globs p))"
  by (induction p rule: globs.induct) auto

lemma texts_agree:
  "Path \<notin> set g \<Longrightarrow> map path_text g = map raw_text g"
  "Name \<notin> set g \<Longrightarrow> map glob_text g = map path_text g"
  by (auto elim: path_text.elims glob_text.elims intro!: map_cong) (metis path_text.simps glob_text.simps glob.exhaust)+

lemma replace_paths:
  "count_list (globs p) Path \<le> 1 \<Longrightarrow>
   replace_first ''**'' any_path (escapeRegex p) = concat (map path_text (globs p))"
proof (induction p rule: globs.induct)
  case (3 c d s)
  show ?case
  proof (cases "c = CHR ''*'' \<and> d = CHR ''*''")
    case True
    with 3 have "Path \<notin> set (globs s)" by (simp add: count_list_0_iff)
    with True show ?thesis by (simp add: escape_raw texts_agree(1))
  next
    case False
    with 3 have "replace_first ''**'' any_path (escapeRegex (d # s)) = concat (map path_text (globs (d # s)))"
      by (auto split: if_splits)
    moreover have "special x \<Longrightarrow> CHR ''*'' \<noteq> x" for x by auto
    ultimately show ?thesis using False by auto
  qed
qed auto

lemma replace_first_skip: "CHR ''*'' \<notin> set a \<Longrightarrow> replace_first ''*'' r (a @ b) = a @ replace_first ''*'' r b"
  by (induction a) auto

lemma replace_names:
  "count_list g Name \<le> 1 \<Longrightarrow> Lit (CHR ''*'') \<notin> set g \<Longrightarrow>
   replace_first ''*'' any_name (concat (map path_text g)) = concat (map glob_text g)"
proof (induction g)
  case (Cons x g)
  show ?case
  proof (cases x)
    case Name
    with Cons.prems have "Name \<notin> set g" by (simp add: count_list_0_iff)
    with Name show ?thesis by (simp add: texts_agree(2))
  next
    case (Lit c)
    with Cons show ?thesis by (simp add: replace_first_skip)
  next
    case Path
    with Cons show ?thesis by (simp add: replace_first_skip any_path_def)
  qed
qed simp

lemma prepared_text: "simple_line p \<Longrightarrow> prepareRegexPattern p = concat (map glob_text (globs p))"
  by (simp add: prepareRegexPattern_def simple_line_def replace_paths replace_names globs_no_star)

subsection \<open>Reading an expression back\<close>

text \<open>
  A text reads as a sequence of expressions when it does so wherever it stands: the lexer goes on behind it, and the
  parser adds the sequence to the alternative it is reading.
\<close>

definition reads :: "string \<Rightarrow> regex list \<Rightarrow> bool" where
  "reads t R \<longleftrightarrow> (\<exists>T. (\<forall>s. lexes Outside (t @ s) = map_option ((@) T) (lexes Outside s))
     \<and> (\<forall>alts seq st. parse_tokens T ((alts, seq) # st) = Some ((alts, rev R @ seq) # st)))"

lemma readsI:
  assumes "\<And>s. lexes Outside (t @ s) = map_option ((@) T) (lexes Outside s)"
    and "\<And>alts seq st. parse_tokens T ((alts, seq) # st) = Some ((alts, rev R @ seq) # st)"
  shows "reads t R"
  using assms by (auto simp: reads_def)

lemma readsE:
  assumes "reads t R"
  obtains T where "\<And>s. lexes Outside (t @ s) = map_option ((@) T) (lexes Outside s)"
    and "\<And>alts seq st. parse_tokens T ((alts, seq) # st) = Some ((alts, rev R @ seq) # st)"
  using assms by (auto simp: reads_def)

lemma append_funs: "(@) [] = (\<lambda>x. x)" "(@) (x # xs) = (\<lambda>zs. x # xs @ zs)" "(@) (xs @ ys) = (\<lambda>zs. xs @ ys @ zs)"
  by auto

lemma parse_tokens_append:
  "parse_tokens (T @ U) st = Option.bind (parse_tokens T st) (parse_tokens U)"
  by (induction T arbitrary: st) (auto split: option.splits)

lemma reads_Nil: "reads [] []"
  by (rule readsI[of _ "[]"]) (auto simp: append_funs option.map_ident)

lemma reads_append: "reads t R \<Longrightarrow> reads t' R' \<Longrightarrow> reads (t @ t') (R @ R')"
proof (elim readsE)
  fix T T'
  assume "\<And>s. lexes Outside (t @ s) = map_option ((@) T) (lexes Outside s)"
    and "\<And>s. lexes Outside (t' @ s) = map_option ((@) T') (lexes Outside s)"
    and "\<And>alts seq st. parse_tokens T ((alts, seq) # st) = Some ((alts, rev R @ seq) # st)"
    and "\<And>alts seq st. parse_tokens T' ((alts, seq) # st) = Some ((alts, rev R' @ seq) # st)"
  then show "reads (t @ t') (R @ R')"
    by (intro readsI[of _ "T @ T'"]) (auto simp: parse_tokens_append option.map_comp o_def append_funs)
qed

lemma reads_concat: "list_all2 (\<lambda>t r. reads t [r]) ts rs \<Longrightarrow> reads (concat ts) rs"
  by (induction rule: list_all2_induct) (use reads_append[where R = "[_]"] in \<open>auto simp: reads_Nil\<close>)

text \<open>Alternatives \<open>t1|...|tn\<close> in a group.\<close>

lemma join_with_simps [simp]:
  "join_with sep [] = []"
  "join_with sep [s] = s"
  "join_with sep (s # t # ts) = s @ sep @ join_with sep (t # ts)"
  by (simp_all add: join_with_def)

lemma reads_alternatives:
  assumes "list_all2 reads ts Rs" "ts \<noteq> []"
  shows "\<exists>T. (\<forall>s. lexes Outside (join_with ''|'' ts @ s) = map_option ((@) T) (lexes Outside s))
    \<and> (\<forall>alts st. parse_tokens T ((alts, []) # st) = Some ((rev (butlast Rs) @ alts, rev (last Rs)) # st))"
  using assms
proof (induction ts Rs rule: list_all2_induct)
  case (Cons t ts R Rs)
  from \<open>reads t R\<close> obtain T where T: "\<And>s. lexes Outside (t @ s) = map_option ((@) T) (lexes Outside s)"
    "\<And>alts seq st. parse_tokens T ((alts, seq) # st) = Some ((alts, rev R @ seq) # st)"
    by (rule readsE) blast
  show ?case
  proof (cases ts)
    case Nil
    with Cons T show ?thesis by auto
  next
    case (Cons u us)
    with Cons.IH obtain U where U: "\<And>s. lexes Outside (join_with ''|'' ts @ s) = map_option ((@) U) (lexes Outside s)"
      "\<And>alts st. parse_tokens U ((alts, []) # st) = Some ((rev (butlast Rs) @ alts, rev (last Rs)) # st)"
      by auto
    from Cons \<open>list_all2 reads ts Rs\<close> have "Rs \<noteq> []" by auto
    with Cons T U show ?thesis
      by (intro exI[of _ "T @ TBar # U"]) (auto simp: parse_tokens_append option.map_comp o_def append_funs)
  qed
qed simp

lemma reads_group:
  assumes "list_all2 reads ts Rs" "ts \<noteq> []"
  shows "reads (''('' @ join_with ''|'' ts @ '')'') [Group Rs]"
proof -
  from reads_alternatives[OF assms] obtain T
    where T: "\<And>s. lexes Outside (join_with ''|'' ts @ s) = map_option ((@) T) (lexes Outside s)"
      "\<And>alts st. parse_tokens T ((alts, []) # st) = Some ((rev (butlast Rs) @ alts, rev (last Rs)) # st)"
    by auto
  have "Rs \<noteq> []" using assms by auto
  with T show ?thesis
    by (intro readsI[of _ "TOpen # T @ [TClose]"]) (auto simp: parse_tokens_append option.map_comp o_def append_funs)
qed

lemma reads_paren: "reads t R \<Longrightarrow> reads (''('' @ t @ '')'') [Group [R]]"
  using reads_group[of "[t]" "[R]"] by simp

lemma newRegExp_reads: "reads t R \<Longrightarrow> newRegExp t = Inr [R]"
proof (elim readsE)
  fix T
  assume "\<And>s. lexes Outside (t @ s) = map_option ((@) T) (lexes Outside s)"
    and "\<And>alts seq st. parse_tokens T ((alts, seq) # st) = Some ((alts, rev R @ seq) # st)"
  from this(1)[of "[]"] this(2) show ?thesis by (simp add: newRegExp_def)
qed

lemma join_groups:
  "ts \<noteq> [] \<Longrightarrow> ''('' @ join_with '')|('' ts @ '')'' = join_with ''|'' (map (\<lambda>t. ''('' @ t @ '')'') ts)"
  by (induction ts rule: induct_list012) auto

lemma regex_of_items:
  assumes "list_all2 reads ts Rs"
  shows "newRegExp (regex_text ts) =
    Inr [if ts = [] then [LineEnd, LineStart] else [LineStart, Group (map (\<lambda>R. [Group [R]]) Rs)]]"
proof (cases "ts = []")
  case True
  then show ?thesis by (simp add: regex_text_def newRegExp_def)
next
  case False
  have "reads (''('' @ join_with ''|'' (map (\<lambda>t. ''('' @ t @ '')'') ts) @ '')'') [Group (map (\<lambda>R. [Group [R]]) Rs)]"
    using False by (intro reads_group)
      (simp_all add: list_all2_map1 list_all2_map2 list_all2_mono[OF assms reads_paren] del: append_Cons)
  then have group: "reads (''('' @ (''('' @ join_with '')|('' ts @ '')'') @ '')'') [Group (map (\<lambda>R. [Group [R]]) Rs)]"
    by (simp only: join_groups[OF False])
  have "reads ''^'' [LineStart]"
    by (rule readsI[of _ "[TStart]"]) (auto simp: option.map_comp o_def append_funs)
  from newRegExp_reads[OF reads_append[OF this group]] False show ?thesis by (simp add: regex_text_def)
qed

subsection \<open>Simple lines are read\<close>

fun atom :: "glob \<Rightarrow> regex" where
  "atom (Lit c) = Chr c"
| "atom Name = Group [[Rep Plus (OneOf True ''/'')]]"
| "atom Path = Group [[Rep Plus AnyChar]]"

lemma reads_char: "c \<noteq> CHR ''*'' \<Longrightarrow> reads (escapeRegex [c]) [Chr c]"
  by (rule readsI[of _ "[TChar c]"]) (auto simp: special_def option.map_comp o_def append_funs)

lemma reads_glob: "g \<noteq> Lit (CHR ''*'') \<Longrightarrow> reads (glob_text g) [atom g]"
proof (cases g)
  case Name
  have "reads (''([^'' @ [backslash] @ ''/]+)'') [atom Name]"
    by (rule readsI[of _ "[TOpen, TClass True ''/'', TQuant Plus, TClose]"]) (auto simp: option.map_comp o_def append_funs)
  with Name show ?thesis by (simp add: any_name_def)
next
  case Path
  have "reads ''(.+)'' [atom Path]"
    by (rule readsI[of _ "[TOpen, TDot, TQuant Plus, TClose]"]) (auto simp: option.map_comp o_def append_funs)
  with Path show ?thesis by (simp add: any_path_def)
qed (auto dest: reads_char simp del: escapeRegex_simps)

lemma reads_prepared: "simple_line p \<Longrightarrow> reads (prepareRegexPattern p) (map atom (globs p))"
  unfolding prepared_text using globs_no_star[of p]
  by (intro reads_concat) (auto simp: list_all2_map1 list_all2_map2 list_all2_same intro!: reads_glob)

text \<open>The parts of a simple line between slashes are simple lines, so its partial expression can be read as well.\<close>

lemma globs_slash: "globs (u @ CHR ''/'' # v) = globs u @ Lit (CHR ''/'') # globs v"
proof (induction u rule: globs.induct)
  case (2 c)
  then show ?case by (cases v) auto
qed (cases v, auto)

lemma join_split: "join_with [c] (split_on c p) = p"
proof (induction p)
  case (Cons d p)
  obtain w ws where "split_on c p = w # ws" by (meson neq_Nil_conv split_on_not_Nil)
  with Cons show ?case by (cases ws) auto
qed simp

lemma globs_join:
  "item \<in> set items \<Longrightarrow> \<exists>g h. globs (join_with ''/'' items) = g @ globs item @ h"
proof (induction items rule: induct_list012)
  case (2 x)
  then show ?case by (intro exI[of _ "[]"]) simp
next
  case (3 x y zs)
  show ?case
  proof (cases "item = x")
    case True
    then show ?thesis
      by (intro exI[of _ "[]"] exI[of _ "Lit (CHR ''/'') # globs (join_with ''/'' (y # zs))"]) (simp add: globs_slash)
  next
    case False
    with 3 obtain g h where "globs (join_with ''/'' (y # zs)) = g @ globs item @ h" by auto
    then show ?thesis by (intro exI[of _ "globs x @ Lit (CHR ''/'') # g"] exI[of _ h]) (simp add: globs_slash)
  qed
qed auto

lemma simple_parts:
  assumes "simple_line p" "item \<in> set (split_on (CHR ''/'') p)"
  shows "simple_line item"
  using globs_join[OF assms(2)] assms(1) unfolding join_split by (auto simp: simple_line_def)

lemma reads_partial:
  assumes "simple_line p"
  shows "\<exists>R. reads (preparePartialRegex p) R"
proof -
  obtain item items where items: "split_on (CHR ''/'') p = item # items" by (meson neq_Nil_conv split_on_not_Nil)
  let ?first = "\<lambda>i. ''('' @ (prepareRegexPattern i @ [backslash] @ ''b'') @ '')''"
  let ?next = "\<lambda>i. ''('' @ ((''['' @ [backslash] @ ''/]?'')
    @ (''('' @ join_with ''|'' [prepareRegexPattern i @ [backslash] @ ''b'', ''$''] @ '')'')) @ '')''"
  let ?part = "\<lambda>i. map atom (globs i) @ [WordBoundary]"
  have boundary: "reads ([backslash] @ ''b'') [WordBoundary]"
    by (rule readsI[of _ "[TBoundary]"]) (auto simp: append_funs)
  have end_sign: "reads ''$'' [LineEnd]"
    by (rule readsI[of _ "[TEnd]"]) (auto simp: append_funs)
  have slash: "reads (''['' @ [backslash] @ ''/]?'') [Rep Opt (OneOf False ''/'')]"
    by (rule readsI[of _ "[TClass False ''/'', TQuant Opt]"]) (auto simp: option.map_comp o_def append_funs)
  have part: "reads (prepareRegexPattern i @ [backslash] @ ''b'') (?part i)" if "i \<in> set (item # items)" for i
    using simple_parts[OF assms] that items by (intro reads_append reads_prepared boundary) auto
  have "reads (?next i) [Group [[Rep Opt (OneOf False ''/'')] @ [Group [?part i, [LineEnd]]]]]" if "i \<in> set items" for i
    using that part end_sign by (intro reads_paren reads_append slash reads_group) auto
  then have next_parts: "\<exists>R. reads (concat (map ?next is)) R" if "set is \<subseteq> set items" for "is"
    using that by (induction "is") (auto intro: reads_Nil reads_append simp del: append_Cons append_assoc)
  from next_parts[of items] obtain R where "reads (concat (map ?next items)) R" by auto
  from reads_append[OF reads_paren[OF part[of item]] this] show ?thesis
    by (intro exI) (simp add: preparePartialRegex_def items)
qed

lemma list_all2_choose: "\<forall>x \<in> set xs. \<exists>y. P x y \<Longrightarrow> \<exists>ys. list_all2 P xs ys"
proof (induction xs)
  case (Cons x xs)
  then obtain y ys where "P x y" "list_all2 P xs ys" by auto
  then show ?case by (intro exI[of _ "y # ys"]) simp
qed (rule exI[of _ "[]"], simp)

lemma regexes_of_simple:
  assumes "\<forall>p \<in> set ps. simple_line p"
  shows "\<exists>partial. regexes_of ps =
    Inr ([if ps = [] then [LineEnd, LineStart] else [LineStart, Group (map (\<lambda>p. [Group [map atom (globs p)]]) ps)]], partial)"
proof -
  have exact: "list_all2 reads (map prepareRegexPattern ps) (map (\<lambda>p. map atom (globs p)) ps)"
    using assms by (simp add: list_all2_map1 list_all2_map2 list_all2_same reads_prepared)
  obtain Rs where partial: "list_all2 reads (map preparePartialRegex ps) Rs"
    using list_all2_choose[of "map preparePartialRegex ps" reads] assms reads_partial by auto
  show ?thesis
    using regex_of_items[OF exact] regex_of_items[OF partial] by (auto simp: regexes_of_def o_def)
qed

subsection \<open>What the expressions match\<close>

lemma one_char_hit: "i < length s \<Longrightarrow> P (s ! i) \<Longrightarrow> one_char P s i = [Suc i]"
  by (simp add: one_char_def)

lemma all_from:
  "P (s ! i) \<Longrightarrow> (\<forall>k. i \<le> k \<and> k < j \<longrightarrow> P (s ! k)) \<longleftrightarrow> (\<forall>k. Suc i \<le> k \<and> k < j \<longrightarrow> P (s ! k))"
  by (metis Suc_leD Suc_leI le_neq_implies_less)

lemma set_star_ends:
  assumes "i \<le> length s" "length s - i \<le> n"
  shows "set (star_ends n (one_char P s) i) = {j. i \<le> j \<and> j \<le> length s \<and> (\<forall>k. i \<le> k \<and> k < j \<longrightarrow> P (s ! k))}"
  using assms
proof (induction n arbitrary: i)
  case (Suc n)
  show ?case
  proof (cases "i < length s \<and> P (s ! i)")
    case True
    with Suc.prems have "set (star_ends n (one_char P s) (Suc i)) =
        {j. Suc i \<le> j \<and> j \<le> length s \<and> (\<forall>k. Suc i \<le> k \<and> k < j \<longrightarrow> P (s ! k))}"
      by (intro Suc.IH) auto
    with True Suc.prems show ?thesis by (auto simp: one_char_hit all_from[of P s i])
  next
    case False
    then have "j = i" if "i \<le> j" "j \<le> length s" "\<forall>k. i \<le> k \<and> k < j \<longrightarrow> P (s ! k)" for j
      using that by (metis le_less_trans le_neq_implies_less order_refl order_less_le_trans)
    with False Suc.prems show ?thesis by (auto simp: one_char_def)
  qed
qed auto

lemma set_plus_ends:
  assumes "ends s r = one_char P s" "i \<le> length s"
  shows "set (ends s (Group [[Rep Plus r]]) i) = {j. i < j \<and> j \<le> length s \<and> (\<forall>k. i \<le> k \<and> k < j \<longrightarrow> P (s ! k))}"
proof (cases "i < length s \<and> P (s ! i)")
  case True
  then have "set (ends s (Group [[Rep Plus r]]) i) = set (star_ends (length s) (one_char P s) (Suc i))"
    by (simp add: assms(1)) (simp add: one_char_def o_def)
  with True show ?thesis
    by (auto simp: set_star_ends) (metis Suc_leI le_neq_implies_less)+
next
  case False
  with assms show ?thesis by (auto simp: one_char_def)
qed

lemma drop_split:
  assumes "i \<le> length s"
  shows "(\<exists>j. i < j \<and> j \<le> length s \<and> (\<forall>k. i \<le> k \<and> k < j \<longrightarrow> P (s ! k)) \<and> Q (drop j s)) \<longleftrightarrow>
    (\<exists>u v. drop i s = u @ v \<and> u \<noteq> [] \<and> (\<forall>c \<in> set u. P c) \<and> Q v)"
proof (intro iffI; elim exE conjE)
  fix j assume j: "i < j" "j \<le> length s" "\<forall>k. i \<le> k \<and> k < j \<longrightarrow> P (s ! k)" "Q (drop j s)"
  have "drop i s = take (j - i) (drop i s) @ drop j s" using j by (metis append_take_drop_id drop_drop le_add_diff_inverse2 less_imp_le)
  moreover have "\<forall>c \<in> set (take (j - i) (drop i s)). P c" using j by (auto simp: in_set_conv_nth)
  ultimately show "\<exists>u v. drop i s = u @ v \<and> u \<noteq> [] \<and> (\<forall>c \<in> set u. P c) \<and> Q v"
    using j by (metis diff_is_0_eq drop_eq_Nil le_trans less_imp_le linorder_not_le take_eq_Nil)
next
  fix u v assume u: "drop i s = u @ v" "u \<noteq> []" "\<forall>c \<in> set u. P c" "Q v"
  have len: "length s = i + length u + length v" using u(1) assms by (metis add.assoc append_take_drop_id length_append length_take min.absorb2)
  have v: "drop (i + length u) s = v" using u(1) by (metis add.commute append_eq_conv_conj drop_drop)
  have each: "P (s ! k)" if "i \<le> k" "k < i + length u" for k
  proof -
    have "s = take i s @ u @ v" using u(1) by (metis append_take_drop_id)
    from arg_cong[OF this, of "\<lambda>x. x ! k"] that len have "s ! k = u ! (k - i)" by (simp add: nth_append less_diff_conv2)
    with u(3) that show ?thesis by auto
  qed
  have "i < i + length u" "i + length u \<le> length s" using u(2) len by simp_all
  with each v u(4) show "\<exists>j. i < j \<and> j \<le> length s \<and> (\<forall>k. i \<le> k \<and> k < j \<longrightarrow> P (s ! k)) \<and> Q (drop j s)"
    by blast
qed

lemma seq_ends_Cons_Nil: "seq_ends (f # fs) i \<noteq> [] \<longleftrightarrow> (\<exists>j \<in> set (f i). seq_ends fs j \<noteq> [])"
  by auto

lemma seq_ends_single [simp]: "seq_ends [f] i = f i"
proof -
  have "concat (map (seq_ends []) js) = js" for js by (induction js) auto
  then show ?thesis by simp
qed

lemma group_ends: "ends s (Group alts) i \<noteq> [] \<longleftrightarrow> (\<exists>seq \<in> set alts. seq_ends (map (ends s) seq) i \<noteq> [])"
  by simp

lemma seq_ends_globs:
  "i \<le> length s \<Longrightarrow> seq_ends (map (ends s) (map atom g)) i \<noteq> [] \<longleftrightarrow> glob_prefix g (drop i s)"
proof (induction g arbitrary: i)
  case (Cons x g)
  have run: "seq_ends (map (ends s) (map atom (x # g))) i \<noteq> [] \<longleftrightarrow>
      (\<exists>u v. drop i s = u @ v \<and> u \<noteq> [] \<and> (\<forall>c \<in> set u. P c) \<and> glob_prefix g v)"
    if "atom x = Group [[Rep Plus r]]" "ends s r = one_char P s" for r P
  proof -
    have "seq_ends (map (ends s) (map atom (x # g))) i \<noteq> [] \<longleftrightarrow>
        (\<exists>j. i < j \<and> j \<le> length s \<and> (\<forall>k. i \<le> k \<and> k < j \<longrightarrow> P (s ! k)) \<and> glob_prefix g (drop j s))"
      using set_plus_ends[OF that(2) Cons.prems] Cons.IH
      unfolding list.map seq_ends_Cons_Nil that(1) by auto
    with drop_split[OF Cons.prems] show ?thesis by simp
  qed
  show ?case
  proof (cases x)
    case (Lit c)
    show ?thesis
    proof (cases "i < length s \<and> s ! i = c")
      case True
      then have "drop i s = c # drop (Suc i) s" by (metis Cons_nth_drop_Suc)
      with True Lit Cons.IH[of "Suc i"] show ?thesis by (simp add: one_char_def)
    next
      case False
      then have "\<nexists>v. drop i s = c # v" by (metis drop_eq_Nil hd_drop_conv_nth list.distinct(1) list.sel(1) linorder_not_le)
      with False Lit show ?thesis by (auto simp: one_char_def)
    qed
  next
    case Name
    then show ?thesis using run[of "OneOf True ''/''" "\<lambda>d. d \<noteq> CHR ''/''"] by (auto simp: fun_eq_iff)
  next
    case Path
    then show ?thesis using run[of AnyChar "\<lambda>d. \<not> line_end d"] by auto
  qed
qed simp

lemma start_test: "regex_test [[LineStart, r]] s \<longleftrightarrow> ends s r 0 \<noteq> []"
  by (auto simp: regex_test_def list_ex_iff)

lemma test_simple:
  "regex_test [if ps = [] then [LineEnd, LineStart] else [LineStart, Group (map (\<lambda>p. [Group [map atom (globs p)]]) ps)]] s
    \<longleftrightarrow> some_line (set ps) s"
proof (cases "ps = []")
  case True
  then show ?thesis by (auto simp: regex_test_def some_line_def list_ex_iff)
next
  case False
  have "regex_test [[LineStart, Group (map (\<lambda>p. [Group [map atom (globs p)]]) ps)]] s \<longleftrightarrow>
      ends s (Group (map (\<lambda>p. [Group [map atom (globs p)]]) ps)) 0 \<noteq> []"
    by (rule start_test)
  also have "\<dots> \<longleftrightarrow> (\<exists>p \<in> set ps. seq_ends (map (ends s) (map atom (globs p))) 0 \<noteq> [])"
    using group_ends[of s "[map atom (globs p)]" 0 for p] by (simp add: group_ends del: ends.simps(7) map_map)
  finally show ?thesis using False by (simp add: seq_ends_globs some_line_def del: map_map)
qed

subsection \<open>The filter of a file of simple lines\<close>

definition positive_lines :: "string \<Rightarrow> string set" where
  "positive_lines content = strip_slash ` {line \<in> set (ignore_lines content). hd line \<noteq> CHR ''!''}"

definition negative_lines :: "string \<Rightarrow> string set" where
  "negative_lines content = (\<lambda>line. strip_slash (tl line)) ` {line \<in> set (ignore_lines content). hd line = CHR ''!''}"

lemma fold_add_line:
  "fold add_line ls (p, n) =
    (p @ map strip_slash (filter (\<lambda>l. hd l \<noteq> CHR ''!'') ls),
     n @ map (\<lambda>l. strip_slash (tl l)) (filter (\<lambda>l. hd l = CHR ''!'') ls))"
  by (induction ls arbitrary: p n) (auto simp: add_line_def)

lemma ignore_patterns_sets:
  "set (fst (ignore_patterns content)) = positive_lines content"
  "set (snd (ignore_patterns content)) = negative_lines content"
  by (auto simp: ignore_patterns_def fold_add_line positive_lines_def negative_lines_def)

lemma filter_of_simple_lines:
  assumes "\<forall>line \<in> positive_lines content \<union> negative_lines content. simple_line line"
  shows "\<exists>f. newGitIgnoreFilter content = Inr f \<and> (\<forall>name.
    accepts f name \<longleftrightarrow> some_line (negative_lines content) (strip_slash name)
      \<or> \<not> some_line (positive_lines content) (strip_slash name))"
proof -
  obtain pos neg where patterns: "ignore_patterns content = (pos, neg)" by fastforce
  with ignore_patterns_sets[of content] have sets: "set pos = positive_lines content" "set neg = negative_lines content" by simp_all
  with assms obtain pp np where regexes:
    "regexes_of pos = Inr ([if pos = [] then [LineEnd, LineStart] else [LineStart, Group (map (\<lambda>p. [Group [map atom (globs p)]]) pos)]], pp)"
    "regexes_of neg = Inr ([if neg = [] then [LineEnd, LineStart] else [LineStart, Group (map (\<lambda>p. [Group [map atom (globs p)]]) neg)]], np)"
    using regexes_of_simple[of pos] regexes_of_simple[of neg] by auto
  let ?f = "\<lparr>gi_positives = ([if pos = [] then [LineEnd, LineStart] else [LineStart, Group (map (\<lambda>p. [Group [map atom (globs p)]]) pos)]], pp),
    gi_negatives = ([if neg = [] then [LineEnd, LineStart] else [LineStart, Group (map (\<lambda>p. [Group [map atom (globs p)]]) neg)]], np)\<rparr>"
  have "newGitIgnoreFilter content = Inr ?f"
    unfolding newGitIgnoreFilter_def patterns regexes prod.case res_bind_simps by (rule refl)
  moreover have "accepts ?f name \<longleftrightarrow> some_line (negative_lines content) (strip_slash name)
      \<or> \<not> some_line (positive_lines content) (strip_slash name)" for name
    unfolding accepts_def Let_def GitIgnoreFilter.select_convs fst_conv test_simple sets by (rule refl)
  ultimately show ?thesis by blast
qed

lemma denies_accepts: "denies f name \<longleftrightarrow> \<not> accepts f name"
  by (simp add: denies_def accepts_def Let_def)

text \<open>
  C18: What an ignore file filters. When no line of the file has more than one \<open>**\<close> and one further \<open>*\<close>, the filter
  can be built, and a name is let through exactly when the text of some negated line, or of no other line, is the
  beginning of it, \<open>*\<close> standing for a part of a single folder's name and \<open>**\<close> for any part of the path. A line is
  the beginning of a name, not a name: \<open>.git\<close> keeps out \<open>.github\<close> as well.
\<close>

theorem ignore_file_filters:
  assumes "\<forall>line \<in> positive_lines content \<union> negative_lines content. simple_line line"
  shows "\<exists>f. newGitIgnoreFilter content = Inr f \<and> (\<forall>name.
    (accepts f name \<longleftrightarrow> some_line (negative_lines content) (strip_slash name)
      \<or> \<not> some_line (positive_lines content) (strip_slash name))
    \<and> (denies f name \<longleftrightarrow> \<not> accepts f name))"
  using filter_of_simple_lines[OF assms] by (auto simp: denies_accepts)

lemma ignore_file_filters_witness:
  "\<exists>f. newGitIgnoreFilter (''.git'' @ [CHR 0x0A] @ ''!.gitkeep'') = Inr f
    \<and> denies f ''.github/x'' \<and> accepts f ''/.gitkeep'' \<and> accepts f ''src/.git''"
proof -
  have patterns: "ignore_patterns (''.git'' @ [CHR 0x0A] @ ''!.gitkeep'') = ([''.git''], [''.gitkeep''])" by code_simp
  have sets: "positive_lines (''.git'' @ [CHR 0x0A] @ ''!.gitkeep'') = {''.git''}"
    "negative_lines (''.git'' @ [CHR 0x0A] @ ''!.gitkeep'') = {''.gitkeep''}"
    by (simp_all only: ignore_patterns_sets[symmetric] patterns) simp_all
  have "\<forall>line \<in> {''.git''} \<union> {''.gitkeep''}. simple_line line" by (simp add: simple_line_def)
  from ignore_file_filters[of "''.git'' @ [CHR 0x0A] @ ''!.gitkeep''", unfolded sets, OF this]
  show ?thesis by (auto simp: some_line_def strip_slash_def)
qed

subsection \<open>Lines that cannot be compiled\<close>

definition breaks :: "string \<Rightarrow> bool" where
  "breaks t \<longleftrightarrow> (\<exists>T. (\<forall>s. lexes Outside (t @ s) = map_option ((@) T) (lexes Outside s))
     \<and> (\<forall>alts seq st. parse_tokens T ((alts, seq) # st) = None))"

lemma breaks_after: "reads t R \<Longrightarrow> breaks t' \<Longrightarrow> breaks (t @ t')"
proof (elim readsE)
  fix T
  assume "breaks t'" and "\<And>s. lexes Outside (t @ s) = map_option ((@) T) (lexes Outside s)"
    and "\<And>alts seq st. parse_tokens T ((alts, seq) # st) = Some ((alts, rev R @ seq) # st)"
  moreover from \<open>breaks t'\<close> obtain U where "\<And>s. lexes Outside (t' @ s) = map_option ((@) U) (lexes Outside s)"
    "\<And>alts seq st. parse_tokens U ((alts, seq) # st) = None" by (auto simp: breaks_def)
  ultimately show ?thesis
    unfolding breaks_def by (intro exI[of _ "T @ U"]) (simp add: parse_tokens_append option.map_comp o_def append_funs)
qed

lemma breaks_before: "breaks t \<Longrightarrow> reads t' R \<or> breaks t' \<Longrightarrow> breaks (t @ t')"
proof -
  assume "breaks t" "reads t' R \<or> breaks t'"
  then obtain T U where "\<And>s. lexes Outside (t @ s) = map_option ((@) T) (lexes Outside s)"
    "\<And>alts seq st. parse_tokens T ((alts, seq) # st) = None"
    "\<And>s. lexes Outside (t' @ s) = map_option ((@) U) (lexes Outside s)"
    unfolding breaks_def reads_def by metis
  then show ?thesis
    unfolding breaks_def by (intro exI[of _ "T @ U"]) (simp add: parse_tokens_append option.map_comp o_def append_funs)
qed

lemma newRegExp_breaks: "breaks t \<Longrightarrow> newRegExp t = Inl SyntaxError"
proof -
  assume "breaks t"
  then obtain T where T: "\<And>s. lexes Outside (t @ s) = map_option ((@) T) (lexes Outside s)"
    "\<And>alts seq st. parse_tokens T ((alts, seq) # st) = None" by (auto simp: breaks_def)
  from T(1)[of "[]"] T(2) show ?thesis by (simp add: newRegExp_def)
qed

lemma breaks_paren: "breaks t \<Longrightarrow> breaks (''('' @ t @ '')'')"
proof -
  assume "breaks t"
  then obtain T where "\<And>s. lexes Outside (t @ s) = map_option ((@) T) (lexes Outside s)"
    "\<And>alts seq st. parse_tokens T ((alts, seq) # st) = None" by (auto simp: breaks_def)
  then show ?thesis
    unfolding breaks_def by (intro exI[of _ "TOpen # T @ [TClose]"]) (simp add: parse_tokens_append option.map_comp o_def append_funs)
qed

text \<open>Behind the opening parenthesis the alternatives are read with none of the first one, so no context is needed.\<close>

lemma breaks_alternatives:
  assumes "\<forall>t \<in> set ts. (\<exists>R. reads t R) \<or> breaks t" "ts \<noteq> []"
  shows "\<exists>T. (\<forall>s. lexes Outside (join_with ''|'' ts @ s) = map_option ((@) T) (lexes Outside s))
    \<and> ((\<exists>t \<in> set ts. breaks t) \<longrightarrow> (\<forall>alts st. parse_tokens T ((alts, []) # st) = None))"
  using assms
proof (induction ts rule: induct_list012)
  case (2 t)
  show ?case
  proof (cases "breaks t")
    case True
    then show ?thesis unfolding breaks_def by auto
  next
    case False
    with 2 show ?thesis by (auto simp: reads_def)
  qed
next
  case (3 t u us)
  let ?rest = "join_with ''|'' (u # us)"
  have "\<forall>t \<in> set (u # us). (\<exists>R. reads t R) \<or> breaks t" using 3 by auto
  from "3.IH"(2)[OF this] obtain U where U: "\<forall>s. lexes Outside (?rest @ s) = map_option ((@) U) (lexes Outside s)"
    "(\<exists>t \<in> set (u # us). breaks t) \<longrightarrow> (\<forall>alts st. parse_tokens U ((alts, []) # st) = None)"
    by blast
  show ?case
  proof (cases "breaks t")
    case True
    then obtain T where T: "\<And>s. lexes Outside (t @ s) = map_option ((@) T) (lexes Outside s)"
      "\<And>alts seq st. parse_tokens T ((alts, seq) # st) = None" by (auto simp: breaks_def)
    with U(1) show ?thesis
      by (intro exI[of _ "T @ TBar # U"]) (simp add: parse_tokens_append option.map_comp o_def append_funs)
  next
    case False
    with 3 obtain R where "reads t R" by auto
    then obtain T where T: "\<And>s. lexes Outside (t @ s) = map_option ((@) T) (lexes Outside s)"
      "\<And>alts seq st. parse_tokens T ((alts, seq) # st) = Some ((alts, rev R @ seq) # st)" by (rule readsE) blast
    with U False show ?thesis
      by (intro exI[of _ "T @ TBar # U"]) (simp add: parse_tokens_append option.map_comp o_def append_funs)
  qed
qed simp

lemma regexes_of_broken:
  assumes items: "\<forall>t \<in> set ts. (\<exists>R. reads t R) \<or> breaks t" and broken: "t \<in> set ts" "breaks t"
  shows "newRegExp (regex_text ts) = Inl SyntaxError"
proof -
  have "ts \<noteq> []" using broken by auto
  let ?groups = "map (\<lambda>t. ''('' @ t @ '')'') ts"
  have groups: "\<forall>t \<in> set ?groups. (\<exists>R. reads t R) \<or> breaks t" "\<exists>t \<in> set ?groups. breaks t"
    using items broken by (auto intro: reads_paren breaks_paren simp del: append_Cons)
  from breaks_alternatives[OF groups(1)] groups(2) \<open>ts \<noteq> []\<close> obtain T
    where T: "\<And>s. lexes Outside (join_with ''|'' ?groups @ s) = map_option ((@) T) (lexes Outside s)"
      "\<And>alts st. parse_tokens T ((alts, []) # st) = None" by auto
  then have "breaks (''^('' @ join_with ''|'' ?groups @ '')'')"
    unfolding breaks_def
    by (intro exI[of _ "TStart # TOpen # T @ [TClose]"]) (simp add: parse_tokens_append option.map_comp o_def append_funs)
  then have "breaks (''^'' @ ''('' @ (''('' @ join_with '')|('' ts @ '')'') @ '')'')"
    unfolding join_groups[OF \<open>ts \<noteq> []\<close>] by simp
  from newRegExp_breaks[OF this] \<open>ts \<noteq> []\<close> show ?thesis by (simp add: regex_text_def)
qed

lemma escapeRegex_append [simp]: "escapeRegex (u @ v) = escapeRegex u @ escapeRegex v"
  by (simp add: escapeRegex_def)

lemma escapeRegex_star: "CHR ''*'' \<in> set (escapeRegex u) \<longleftrightarrow> CHR ''*'' \<in> set u"
  by (induction u) auto

lemma replace_double_skip: "CHR ''*'' \<notin> set a \<Longrightarrow> replace_first ''**'' r (a @ b) = a @ replace_first ''**'' r b"
  by (induction a) auto

lemma reads_plain: "CHR ''*'' \<notin> set u \<Longrightarrow> reads (escapeRegex u) (map Chr u)"
proof (induction u)
  case (Cons c u)
  then have "reads (escapeRegex [c] @ escapeRegex u) ([Chr c] @ map Chr u)"
    by (intro reads_append reads_char) auto
  then show ?case by simp
qed (simp add: reads_Nil)

abbreviation three_paths :: "string \<Rightarrow> string \<Rightarrow> string \<Rightarrow> string \<Rightarrow> string" where
  "three_paths a b c d \<equiv> a @ ''**'' @ b @ ''**'' @ c @ ''**'' @ d"

lemma three_paths_text:
  assumes "CHR ''*'' \<notin> set (a @ b @ c @ d)"
  shows "prepareRegexPattern (three_paths a b c d) =
    escapeRegex a @ any_path @ escapeRegex b @ any_name @ ''*'' @ escapeRegex c @ ''**'' @ escapeRegex d"
proof -
  have "CHR ''*'' \<notin> set any_path" by (simp add: any_path_def)
  with assms show ?thesis
    by (simp add: prepareRegexPattern_def replace_double_skip replace_first_skip escapeRegex_star)
qed

lemma three_paths_break:
  assumes "CHR ''*'' \<notin> set (a @ b @ c @ d)"
  shows "breaks (prepareRegexPattern (three_paths a b c d))"
proof -
  have stars: "breaks (any_name @ ''*'' @ escapeRegex c @ ''**'')"
  proof (cases c rule: rev_cases)
    case Nil
    have "breaks (any_name @ ''***'')"
      unfolding breaks_def any_name_def
      by (intro exI[of _ "[TOpen, TClass True ''/'', TQuant Plus, TClose, TQuant Star, TQuant Star, TQuant Star]"])
        (simp add: option.map_comp o_def append_funs)
    with Nil show ?thesis by simp
  next
    case (snoc c' x)
    have name: "reads (any_name @ ''*'') [Rep Star (atom Name)]"
      unfolding any_name_def
      by (rule readsI[of _ "[TOpen, TClass True ''/'', TQuant Plus, TClose, TQuant Star]"])
        (auto simp: option.map_comp o_def append_funs)
    have "x \<noteq> CHR ''*''" using assms snoc by auto
    then have "breaks (escapeRegex [x] @ ''**'')"
      unfolding breaks_def
      by (intro exI[of _ "[TChar x, TQuant Star, TQuant Star]"])
        (auto simp: special_def option.map_comp o_def append_funs)
    from breaks_after[OF name breaks_after[OF reads_plain this]] snoc assms show ?thesis by auto
  qed
  have "breaks ((any_name @ ''*'' @ escapeRegex c @ ''**'') @ escapeRegex d)"
    using breaks_before[OF stars] reads_plain[of d] assms by auto
  note rest = this
  have path: "reads any_path [atom Path]" using reads_glob[of Path] by simp
  have plain: "CHR ''*'' \<notin> set a" "CHR ''*'' \<notin> set b" using assms by auto
  from breaks_after[OF reads_plain[OF plain(1)] breaks_after[OF path breaks_after[OF reads_plain[OF plain(2)] rest]]]
  have "breaks (escapeRegex a @ any_path @ escapeRegex b @ (any_name @ ''*'' @ escapeRegex c @ ''**'') @ escapeRegex d)" .
  then show ?thesis by (simp only: three_paths_text[OF assms] append_assoc)
qed

text \<open>
  A line that stops the deployment. A line with three \<open>**\<close> cannot be compiled: the third one is left in the text as
  two quantifiers in a row, so building the filter of any file with such a line (the other lines being simple) throws
  a \<open>SyntaxError\<close>.
\<close>

theorem three_paths_throw:
  assumes "CHR ''*'' \<notin> set (a @ b @ c @ d)"
    and "three_paths a b c d \<in> positive_lines content \<union> negative_lines content"
    and "\<forall>line \<in> positive_lines content \<union> negative_lines content. line = three_paths a b c d \<or> simple_line line"
  shows "newGitIgnoreFilter content = Inl SyntaxError"
proof -
  obtain pos neg where patterns: "ignore_patterns content = (pos, neg)" by fastforce
  with ignore_patterns_sets[of content] have sets: "set pos = positive_lines content" "set neg = negative_lines content" by simp_all
  note broken = three_paths_break[OF assms(1)]
  have throws: "regexes_of ps = Inl SyntaxError" if "three_paths a b c d \<in> set ps" "set ps \<subseteq> set pos \<union> set neg" for ps
  proof -
    have "(\<exists>R. reads (prepareRegexPattern p) R) \<or> breaks (prepareRegexPattern p)" if "p \<in> set ps" for p
    proof -
      from that \<open>set ps \<subseteq> _\<close> assms(3) sets consider "p = three_paths a b c d" | "simple_line p" by blast
      then show ?thesis by cases (use broken reads_prepared in blast)+
    qed
    with that(1) broken have "newRegExp (regex_text (map prepareRegexPattern ps)) = Inl SyntaxError"
      by (intro regexes_of_broken[of _ "prepareRegexPattern (three_paths a b c d)"]) auto
    then show ?thesis by (simp add: regexes_of_def)
  qed
  show ?thesis
  proof (cases "three_paths a b c d \<in> set pos")
    case True
    then show ?thesis using throws[of pos] by (simp add: newGitIgnoreFilter_def patterns)
  next
    case False
    have "simple_line p" if "p \<in> set pos" for p
    proof -
      from that have "p \<in> positive_lines content \<union> negative_lines content" "p \<noteq> three_paths a b c d"
        using False unfolding sets by blast+
      with assms(3) show ?thesis by blast
    qed
    then have "\<forall>p \<in> set pos. simple_line p" by simp
    from regexes_of_simple[OF this] obtain r where "regexes_of pos = Inr r" by auto
    moreover have "regexes_of neg = Inl SyntaxError" using throws[of neg] False assms(2) sets by auto
    ultimately show ?thesis by (simp add: newGitIgnoreFilter_def patterns)
  qed
qed

lemma three_paths_throw_witness: "newGitIgnoreFilter ''/**/x/**/y/**'' = Inl SyntaxError"
proof -
  have patterns: "ignore_patterns ''/**/x/**/y/**'' = ([three_paths '''' ''/x/'' ''/y/'' ''''], [])" by code_simp
  have sets: "positive_lines ''/**/x/**/y/**'' = {three_paths '''' ''/x/'' ''/y/'' ''''}" "negative_lines ''/**/x/**/y/**'' = {}"
    by (simp_all only: ignore_patterns_sets[symmetric] patterns) simp_all
  have "CHR ''*'' \<notin> set ('''' @ ''/x/'' @ ''/y/'' @ '''')" by simp
  note t = three_paths_throw[OF this, of "''/**/x/**/y/**''"]
  show ?thesis by (rule t) (auto simp: sets)
qed

end
