(* ===== verification/Deploy_Source.thy ===== *)
theory Deploy_Source
  imports Ignore_Filter "HOL-Library.Multiset"
begin

section \<open>Scanning the files of an application: deploy-application-fs-scanner.ts, deploy-application-fs-utils.ts\<close>

text \<open>
  The user picks a folder or a file; \<open>DeployApplicationFSScanner\<close> puts the files the ignore filter lets through into
  a tree of folders, counts them, and records what it left out. \<open>handleFileInputSelection\<close> looks for the ignore file
  and the name of the root folder first. A file of the browser has a name, a size, a path below the chosen folder and
  its data.

  The dictionary of the folders in a folder is an object literal, so the names of \<open>Object.prototype\<close> are found in
  it: these names give \<open>InheritedProperty\<close> here, an object with neither files nor folders. The order of folders is the one they
  were added in (folders named by numbers would come first in the code; no property depends on the order of siblings).
\<close>

record SourceFile =
  fl_name :: string
  fl_size :: int
  fl_path :: string
  fl_data :: string

datatype FileScannerFolderContext = Folder (folder_files: "SourceFile list") (folder_folders: "(string \<times> FileScannerFolderContext) list")

datatype FileScannerInfoType = FileType | FolderType

record DeployApplicationFSScanner =
  sc_filter :: "GitIgnoreFilter option"
  sc_rootFolderName :: string
  sc_total :: int
  sc_files :: nat
  sc_folders :: nat
  sc_excludes :: "string list"
  sc_root :: FileScannerFolderContext
  sc_summaryType :: FileScannerInfoType
  sc_summaryItem :: "SourceFile option"
  sc_manifestFile :: "SourceFile option"
  sc_cfIgnoreFile :: "SourceFile option"

definition newScanner :: "string \<Rightarrow> string \<Rightarrow> DeployApplicationFSScanner result" where
  "newScanner fileExcludes rootFolderName =
     res_bind (if fileExcludes = [] then Inr None else res_bind (newGitIgnoreFilter fileExcludes) (\<lambda>f. Inr (Some f)))
       (\<lambda>flt. Inr \<lparr>sc_filter = flt, sc_rootFolderName = rootFolderName, sc_total = 0, sc_files = 0, sc_folders = 0,
          sc_excludes = [], sc_root = Folder [] [], sc_summaryType = FileType, sc_summaryItem = None,
          sc_manifestFile = None, sc_cfIgnoreFile = None\<rparr>)"

text \<open>
  The test of the name of an archive, \<open>/\.(tar|zip|tar.gz)$/i\<close>, with letters in capitals for the flag. The code tests
  the global variable \<open>name\<close>, the name of the window, and not its argument.
\<close>

definition archiveRegex :: "regex list list" where
  "archiveRegex = [[Chr (CHR ''.''), Group [map Chr ''TAR'', map Chr ''ZIP'', map Chr ''TAR'' @ [AnyChar] @ map Chr ''GZ''], LineEnd]]"

definition isArchiveFile :: "string \<Rightarrow> string \<Rightarrow> bool" where
  "isArchiveFile windowName fileName = regex_test archiveRegex (toUpperCase windowName)"

subsection \<open>Adding a file\<close>

definition denied_name :: "GitIgnoreFilter option \<Rightarrow> string \<Rightarrow> bool" where
  "denied_name flt name = (case flt of None \<Rightarrow> False | Some f \<Rightarrow> \<not> accepts f name)"

definition skips_file :: "GitIgnoreFilter option \<Rightarrow> string \<Rightarrow> SourceFile \<Rightarrow> bool" where
  "skips_file flt fullName file = (denied_name flt fullName \<or> denied_name flt (fl_name file))"

definition scan_file :: "FileScannerFolderContext \<Rightarrow> SourceFile \<Rightarrow> string \<Rightarrow> DeployApplicationFSScanner
    \<Rightarrow> DeployApplicationFSScanner \<times> FileScannerFolderContext" where
  "scan_file ctx file path s =
     (let fullName = strip_slash (path @ ''/'' @ fl_name file) in
      if \<not> skips_file (sc_filter s) fullName file
      then (s\<lparr>sc_files := sc_files s + 1, sc_total := sc_total s + fl_size file\<rparr>,
            Folder (folder_files ctx @ [file]) (folder_folders ctx))
      else (s\<lparr>sc_excludes := sc_excludes s @ [fullName]\<rparr>, ctx))"

definition prototype_names :: "string list" where
  "prototype_names = [''constructor'', ''__proto__'', ''hasOwnProperty'', ''isPrototypeOf'', ''propertyIsEnumerable'',
     ''toLocaleString'', ''toString'', ''valueOf'', ''__defineGetter__'', ''__defineSetter__'', ''__lookupGetter__'',
     ''__lookupSetter__'']"

datatype opened = Opened FileScannerFolderContext | IgnoredFolder | InheritedProperty

definition scan_folder :: "FileScannerFolderContext \<Rightarrow> string \<Rightarrow> string \<Rightarrow> DeployApplicationFSScanner
    \<Rightarrow> DeployApplicationFSScanner \<times> opened" where
  "scan_folder ctx name fullName s =
     (case obj_get (folder_folders ctx) name of
        Some sub \<Rightarrow> (s, Opened sub)
      | None \<Rightarrow>
          if name \<in> set prototype_names then (s, InheritedProperty)
          else let fullName = strip_slash fullName @ ''/'' in
            if denied_name (sc_filter s) fullName then (s\<lparr>sc_excludes := sc_excludes s @ [fullName]\<rparr>, IgnoredFolder)
            else (s\<lparr>sc_folders := sc_folders s + 1\<rparr>, Opened (Folder [] [])))"

text \<open>
  The rest of the loop of \<open>addFile\<close> from a folder on, and the folder afterwards. Below an inherited property another
  folder is looked up in \<open>undefined\<close>, and a file is pushed onto \<open>undefined\<close> unless it is skipped.
\<close>

fun add_parts :: "string list \<Rightarrow> string \<Rightarrow> SourceFile \<Rightarrow> DeployApplicationFSScanner \<Rightarrow> FileScannerFolderContext
    \<Rightarrow> (DeployApplicationFSScanner \<times> FileScannerFolderContext) result" where
  "add_parts [] fullPath file s ctx = Inr (scan_file ctx file fullPath s)"
| "add_parts (part # parts) fullPath file s ctx =
     (let fullPath = fullPath @ ''/'' @ part in
      case scan_folder ctx part fullPath s of
        (s', IgnoredFolder) \<Rightarrow> Inr (s', ctx)
      | (s', InheritedProperty) \<Rightarrow>
          if parts = [] \<and> skips_file (sc_filter s') (strip_slash (fullPath @ ''/'' @ fl_name file)) file
          then Inr (fst (scan_file ctx file fullPath s'), ctx)
          else Inl TypeError
      | (s', Opened sub) \<Rightarrow>
          res_bind (add_parts parts fullPath file s' sub) (\<lambda>(s'', sub').
            Inr (s'', Folder (folder_files ctx) (obj_set part sub' (folder_folders ctx)))))"

definition folder_parts :: "string \<Rightarrow> SourceFile \<Rightarrow> string list" where
  "folder_parts rootFolderName file =
     (let parts = butlast (split_on (CHR ''/'') (fl_path file)) in
      if rootFolderName \<noteq> [] \<and> parts \<noteq> [] \<and> hd parts = rootFolderName then tl parts else parts)"

definition addFile :: "DeployApplicationFSScanner \<Rightarrow> SourceFile \<Rightarrow> DeployApplicationFSScanner result" where
  "addFile s file =
     res_bind (add_parts (folder_parts (sc_rootFolderName s) file) [] file s (sc_root s))
       (\<lambda>(s', root). Inr (s'\<lparr>sc_root := root\<rparr>))"

definition summarize :: "DeployApplicationFSScanner \<Rightarrow> DeployApplicationFSScanner" where
  "summarize s =
     (if sc_folders s = 0 \<and> sc_files s = 0 then s\<lparr>sc_summaryType := FolderType\<rparr>
      else if sc_folders s = 0 \<and> sc_files s = 1
      then s\<lparr>sc_summaryItem := Some (hd (folder_files (sc_root s))), sc_summaryType := FileType\<rparr>
      else s\<lparr>sc_summaryType := FolderType\<rparr>)"

subsection \<open>Choosing files: handleFileInputSelection\<close>

abbreviation newline :: string where "newline \<equiv> [CHR 0x0A]"

definition CF_IGNORE_FILE :: string where "CF_IGNORE_FILE = ''.cfignore''"

definition CF_DEFAULT_IGNORES :: string where
  "CF_DEFAULT_IGNORES = ''.cfignore'' @ newline @ ''_darcs'' @ newline @ ''.DS_Store'' @ newline @ ''.git'' @ newline
     @ ''.gitignore'' @ newline @ ''.hg'' @ newline @ ''.svn'' @ newline"

definition CF_MANIFEST_FILE :: string where "CF_MANIFEST_FILE = ''manifest.yml''"

text \<open>The root folder, the ignore file and the manifest file; the search stops at the first file below the first level.\<close>

fun find_special_files :: "SourceFile list \<Rightarrow> string \<times> SourceFile option \<times> SourceFile option
    \<Rightarrow> string \<times> SourceFile option \<times> SourceFile option" where
  "find_special_files [] found = found"
| "find_special_files (item # items) (rootFolderName, cfIgnoreFile, manifestFile) =
     (let filePath = split_on (CHR ''/'') (fl_path item);
          root = (if length filePath = 2 \<and> rootFolderName = [] then hd filePath else rootFolderName)
      in if length filePath > 2 then (root, cfIgnoreFile, manifestFile)
         else find_special_files items (root,
           (if cfIgnoreFile = None \<and> length filePath = 2 \<and> filePath ! 1 = CF_IGNORE_FILE then Some item else cfIgnoreFile),
           (if length filePath = 2 \<and> filePath ! 1 = CF_MANIFEST_FILE then Some item else manifestFile)))"

definition scan_items :: "string \<Rightarrow> string \<Rightarrow> SourceFile option \<Rightarrow> SourceFile option \<Rightarrow> SourceFile list
    \<Rightarrow> DeployApplicationFSScanner result" where
  "scan_items fileExcludes rootFolderName cfIgnoreFile manifestFile items =
     res_bind (newScanner fileExcludes rootFolderName) (\<lambda>s.
     res_bind (res_fold addFile (s\<lparr>sc_cfIgnoreFile := cfIgnoreFile, sc_manifestFile := manifestFile\<rparr>) items) (\<lambda>s.
     Inr (summarize s)))"

text \<open>
  The scanners \<open>obs$\<close> emits. A single file is taken for an archive or nothing; the promise of the ignore file is then
  followed up in any case, and emits nothing when the file cannot be read or the scan throws.
\<close>

definition handleFileInputSelection :: "string \<Rightarrow> (SourceFile \<Rightarrow> bool) \<Rightarrow> SourceFile list
    \<Rightarrow> DeployApplicationFSScanner list result" where
  "handleFileInputSelection windowName readable items =
     res_bind (newScanner CF_DEFAULT_IGNORES []) (\<lambda>scanner.
     res_bind (if length items = 1 \<and> isArchiveFile windowName (fl_name (hd items))
               then res_bind (addFile scanner (hd items)) (\<lambda>s. Inr [summarize s]) else Inr []) (\<lambda>first.
     case (if length items = 1 then ([], None, None) else find_special_files items ([], None, None)) of
       (rootFolderName, cfIgnoreFile, manifestFile) \<Rightarrow>
         let ignores = (case cfIgnoreFile of None \<Rightarrow> Some []
               | Some file \<Rightarrow> if readable file then Some (fl_data file) else None)
         in (case ignores of
               None \<Rightarrow> Inr first
             | Some ignores \<Rightarrow>
                 (case scan_items (CF_DEFAULT_IGNORES @ ignores) rootFolderName cfIgnoreFile manifestFile items of
                    Inl e \<Rightarrow> Inr first
                  | Inr s \<Rightarrow> Inr (first @ [s])))))"

subsection \<open>The files and folders of a tree\<close>

fun entries :: "FileScannerFolderContext \<Rightarrow> (string list \<times> SourceFile) list" where
  "entries (Folder files folders) =
     map (Pair []) files @ concat (map (\<lambda>(name, sub). map (\<lambda>(p, f). (name # p, f)) (entries sub)) folders)"

fun folder_paths :: "FileScannerFolderContext \<Rightarrow> string list list" where
  "folder_paths (Folder files folders) = concat (map (\<lambda>(name, sub). [name] # map ((#) name) (folder_paths sub)) folders)"

text \<open>What a file is recorded as when it is left out: the first folder of its path that is denied, or its own name.\<close>

fun first_denied :: "GitIgnoreFilter option \<Rightarrow> string \<Rightarrow> string list \<Rightarrow> string option" where
  "first_denied flt path [] = None"
| "first_denied flt path (part # parts) =
     (let path = path @ ''/'' @ part; name = strip_slash path @ ''/'' in
      if denied_name flt name then Some name else first_denied flt path parts)"

definition parts_text :: "string list \<Rightarrow> string" where
  "parts_text parts = concat (map (\<lambda>part. ''/'' @ part) parts)"

definition left_out_as :: "GitIgnoreFilter option \<Rightarrow> string \<Rightarrow> string list \<Rightarrow> SourceFile \<Rightarrow> string option" where
  "left_out_as flt path parts file =
     (case first_denied flt path parts of
        Some name \<Rightarrow> Some name
      | None \<Rightarrow> let fullName = strip_slash (path @ parts_text parts @ ''/'' @ fl_name file) in
          if skips_file flt fullName file then Some fullName else None)"

subsection \<open>One file\<close>

lemma obj_get_split:
  assumes "obj_get folders name = Some sub"
  obtains A B where "folders = A @ (name, sub) # B" "name \<notin> fst ` set A"
    "\<And>v. obj_set name v folders = A @ (name, v) # B"
  using assms
proof (induction folders arbitrary: thesis)
  case (Cons x folders)
  obtain n c where x: "x = (n, c)" by fastforce
  show ?case
  proof (cases "n = name")
    case True
    with Cons.prems(2) x show ?thesis by (intro Cons.prems(1)[of "[]" folders]) auto
  next
    case False
    with Cons.prems(2) x have "obj_get folders name = Some sub" by (auto split: if_splits)
    from Cons.IH[OF _ this] obtain A B where "folders = A @ (name, sub) # B" "name \<notin> fst ` set A"
      "\<And>v. obj_set name v folders = A @ (name, v) # B" by blast
    with x False show ?thesis by (intro Cons.prems(1)[of "x # A" B]) auto
  qed
qed simp

lemma obj_set_fresh: "name \<notin> fst ` set folders \<Longrightarrow> obj_set name v folders = folders @ [(name, v)]"
  by (induction folders) auto

lemma obj_get_fresh: "obj_get folders name = None \<Longrightarrow> name \<notin> fst ` set folders"
  by (simp add: obj_get_def map_of_eq_None_iff)

text \<open>The folders of a list of subfolders; each path begins with the name of its subfolder.\<close>

abbreviation paths_below :: "(string \<times> FileScannerFolderContext) list \<Rightarrow> string list list" where
  "paths_below folders \<equiv> concat (map (\<lambda>(name, sub). [name] # map ((#) name) (folder_paths sub)) folders)"

lemma paths_below_hd: "p \<in> set (paths_below folders) \<Longrightarrow> p \<noteq> [] \<and> hd p \<in> fst ` set folders"
  by (induction folders) auto

lemma name_in_paths: "name \<in> fst ` set folders \<Longrightarrow> [name] \<in> set (paths_below folders)"
  by (induction folders) auto

lemma no_empty_path: "[] \<notin> set (folder_paths ctx)"
  using paths_below_hd[of "[]" "folder_folders ctx"] by (cases ctx) auto

lemma distinct_middle:
  "distinct (xs @ ys @ zs) \<Longrightarrow> distinct ys' \<Longrightarrow> (\<And>x. x \<in> set xs \<union> set zs \<Longrightarrow> x \<notin> set ys') \<Longrightarrow> distinct (xs @ ys' @ zs)"
  by auto

text \<open>The folders made for a path: its beginnings that are not denied.\<close>

definition made_folders :: "GitIgnoreFilter option \<Rightarrow> string \<Rightarrow> string list \<Rightarrow> string list set" where
  "made_folders flt path parts = {d. d \<noteq> [] \<and> (\<exists>e. parts = d @ e) \<and> first_denied flt path d = None}"

lemma made_folders_simps [simp]:
  "made_folders flt path [] = {}"
  "made_folders flt path (part # parts) =
     (if denied_name flt (strip_slash (path @ ''/'' @ part) @ ''/'') then {}
      else insert [part] ((#) part ` made_folders flt (path @ ''/'' @ part) parts))"
proof -
  show "made_folders flt path (part # parts) =
     (if denied_name flt (strip_slash (path @ ''/'' @ part) @ ''/'') then {}
      else insert [part] ((#) part ` made_folders flt (path @ ''/'' @ part) parts))"
    unfolding made_folders_def by (auto simp: Let_def Cons_eq_append_conv image_iff)
qed (simp add: made_folders_def)

lemma left_out_as_Cons [simp]:
  "left_out_as flt path (part # parts) file =
    (let path = path @ ''/'' @ part; name = strip_slash path @ ''/'' in
     if denied_name flt name then Some name else left_out_as flt path parts file)"
  by (auto simp: left_out_as_def Let_def parts_text_def split: option.splits)

definition scanned :: "GitIgnoreFilter option \<Rightarrow> string \<Rightarrow> string list \<Rightarrow> SourceFile
    \<Rightarrow> DeployApplicationFSScanner \<times> FileScannerFolderContext \<Rightarrow> DeployApplicationFSScanner \<times> FileScannerFolderContext \<Rightarrow> bool" where
  "scanned flt path parts file before after \<longleftrightarrow>
    (case (before, after) of ((s, ctx), (s', ctx')) \<Rightarrow>
      sc_filter s' = sc_filter s \<and> sc_rootFolderName s' = sc_rootFolderName s
      \<and> distinct (folder_paths ctx')
      \<and> set (folder_paths ctx') = set (folder_paths ctx) \<union> made_folders flt path parts
      \<and> sc_folders s' + length (folder_paths ctx) = sc_folders s + length (folder_paths ctx')
      \<and> (case left_out_as flt path parts file of
          None \<Rightarrow> mset (entries ctx') = add_mset (parts, file) (mset (entries ctx))
            \<and> sc_files s' = sc_files s + 1 \<and> sc_total s' = sc_total s + fl_size file \<and> sc_excludes s' = sc_excludes s
        | Some name \<Rightarrow> mset (entries ctx') = mset (entries ctx)
            \<and> sc_files s' = sc_files s \<and> sc_total s' = sc_total s \<and> sc_excludes s' = sc_excludes s @ [name]))"

text \<open>Scanning into a subfolder, whether it was there or is new.\<close>

lemma scanned_below:
  assumes folders: "folders = A @ olds @ B" "olds = [] \<and> old = Folder [] [] \<and> n = 1 \<or> olds = [(part, old)] \<and> n = 0"
    and fresh: "part \<notin> fst ` set (A @ B)" "distinct (folder_paths (Folder files folders))"
    and allowed: "\<not> denied_name flt (strip_slash (path @ ''/'' @ part) @ ''/'')"
    and below: "scanned flt (path @ ''/'' @ part) parts file (s\<lparr>sc_folders := sc_folders s + n\<rparr>, old) (s', new)"
  shows "scanned flt path (part # parts) file (s, Folder files folders) (s', Folder files (A @ (part, new) # B))"
proof -
  let ?sub = "\<lambda>c. [part] # map ((#) part) (folder_paths c)"
  have olds: "paths_below olds = (if olds = [] then [] else ?sub old)" using folders(2) by auto
  have "distinct (paths_below A @ paths_below olds @ paths_below B)" using fresh(2) unfolding folders(1) by simp
  then have old: "distinct (paths_below A @ (if olds = [] then [] else ?sub old) @ paths_below B)" unfolding olds .
  have new: "distinct (folder_paths new)" using below by (simp add: scanned_def)
  have apart: "p \<noteq> [part] \<and> p \<notin> (#) part ` X" if "p \<in> set (paths_below A) \<union> set (paths_below B)" for p X
  proof -
    have "hd p \<in> fst ` set A \<union> fst ` set B" using that paths_below_hd[of p] by blast
    with fresh(1) have "hd p \<noteq> part" by auto
    then show ?thesis by auto
  qed
  have "distinct (?sub new)" using new no_empty_path[of new] by (auto simp: distinct_map)
  from distinct_middle[OF old this] apart have "distinct (paths_below A @ ?sub new @ paths_below B)" by simp
  then have "distinct (folder_paths (Folder files (A @ (part, new) # B)))" by simp
  moreover have "set (folder_paths (Folder files (A @ (part, new) # B)))
      = set (folder_paths (Folder files folders)) \<union> made_folders flt path (part # parts)"
    using below folders allowed by (auto simp: scanned_def)
  moreover have "sc_folders s' + length (folder_paths (Folder files folders))
      = sc_folders s + length (folder_paths (Folder files (A @ (part, new) # B)))"
    using below folders by (auto simp: scanned_def)
  moreover have "mset (map (\<lambda>(p, f). (part # p, f)) (entries new)) = (case left_out_as flt (path @ ''/'' @ part) parts file of
      None \<Rightarrow> add_mset (part # parts, file) (mset (map (\<lambda>(p, f). (part # p, f)) (entries old)))
    | Some name \<Rightarrow> mset (map (\<lambda>(p, f). (part # p, f)) (entries old)))"
    using below by (auto simp: scanned_def split: option.splits)
  ultimately show ?thesis
    using below folders allowed by (auto simp: scanned_def Let_def split: option.splits)
qed

lemma add_parts_scans:
  assumes "set parts \<inter> set prototype_names = {}" "distinct (folder_paths ctx)"
    and "\<forall>d \<in> set (folder_paths ctx). first_denied (sc_filter s) path d = None"
  shows "\<exists>after. add_parts parts path file s ctx = Inr after
    \<and> scanned (sc_filter s) path parts file (s, ctx) after"
  using assms
proof (induction parts arbitrary: path s ctx)
  case Nil
  then show ?case by (cases ctx) (auto simp: scanned_def scan_file_def left_out_as_def parts_text_def Let_def)
next
  case (Cons part parts)
  obtain files folders where ctx: "ctx = Folder files folders" by (cases ctx)
  let ?path = "path @ ''/'' @ part"
  show ?case
  proof (cases "obj_get folders part")
    case None
    have new: "part \<notin> fst ` set folders" "\<And>v. obj_set part v folders = folders @ [(part, v)]"
      using obj_get_fresh[OF None] obj_set_fresh by auto
    show ?thesis
    proof (cases "denied_name (sc_filter s) (strip_slash ?path @ ''/'')")
      case True
      with None ctx Cons.prems show ?thesis by (auto simp: scan_folder_def scanned_def Let_def)
    next
      case False
      let ?s = "s\<lparr>sc_folders := sc_folders s + 1\<rparr>"
      obtain s' new_folder where step: "add_parts parts ?path file ?s (Folder [] []) = Inr (s', new_folder)"
        "scanned (sc_filter ?s) ?path parts file (?s, Folder [] []) (s', new_folder)"
        using Cons.IH[of "Folder [] []" ?s ?path] Cons.prems(1) by auto
      have "scanned (sc_filter s) path (part # parts) file (s, Folder files folders)
          (s', Folder files (folders @ (part, new_folder) # []))"
        using step(2) new(1) False Cons.prems(2) ctx
        by (intro scanned_below[where A = folders and B = "[]" and olds = "[]" and old = "Folder [] []" and n = 1]) auto
      with step(1) None False new ctx Cons.prems(1) show ?thesis by (simp add: scan_folder_def Let_def)
    qed
  next
    case (Some sub)
    then obtain A B where split: "folders = A @ (part, sub) # B" "part \<notin> fst ` set A"
      "\<And>v. obj_set part v folders = A @ (part, v) # B" by (rule obj_get_split) blast
    from Cons.prems(2) ctx split(1) have B: "part \<notin> fst ` set B"
      using name_in_paths[of part B] by auto
    have "first_denied (sc_filter s) path (part # d) = None" if "d = [] \<or> d \<in> set (folder_paths sub)" for d
    proof -
      from that have "part # d \<in> set (folder_paths ctx)" using ctx split(1) by auto
      with Cons.prems(3) show ?thesis by blast
    qed
    then have allowed: "\<not> denied_name (sc_filter s) (strip_slash ?path @ ''/'')"
      "\<forall>d \<in> set (folder_paths sub). first_denied (sc_filter s) ?path d = None"
      by (fastforce simp: Let_def split: if_splits)+
    have "distinct (folder_paths sub)" using Cons.prems(2) ctx split(1) by (auto simp: distinct_map)
    with Cons.IH[of sub s ?path] Cons.prems(1) allowed(2) obtain s' new where
      step: "add_parts parts ?path file s sub = Inr (s', new)" "scanned (sc_filter s) ?path parts file (s, sub) (s', new)"
      by auto
    have "scanned (sc_filter s) path (part # parts) file (s, Folder files folders) (s', Folder files (A @ (part, new) # B))"
      using step(2) split(1,2) B allowed(1) Cons.prems(2) ctx
      by (intro scanned_below[where olds = "[(part, sub)]" and old = sub and n = 0]) auto
    with step(1) Some split ctx show ?thesis by (simp add: scan_folder_def Let_def)
  qed
qed

subsection \<open>All files\<close>

text \<open>The state of the scanner after some files.\<close>

definition scan_state :: "GitIgnoreFilter option \<Rightarrow> string \<Rightarrow> SourceFile list \<Rightarrow> DeployApplicationFSScanner \<Rightarrow> bool" where
  "scan_state flt root items s \<longleftrightarrow>
    (let out = (\<lambda>f. left_out_as flt [] (folder_parts root f) f); kept = filter (\<lambda>f. out f = None) items in
      mset (entries (sc_root s)) = mset (map (\<lambda>f. (folder_parts root f, f)) kept)
      \<and> sc_files s = length kept \<and> sc_total s = sum_list (map fl_size kept)
      \<and> sc_excludes s = List.map_filter out items
      \<and> distinct (folder_paths (sc_root s))
      \<and> set (folder_paths (sc_root s)) = (\<Union>f \<in> set items. made_folders flt [] (folder_parts root f))
      \<and> sc_folders s = length (folder_paths (sc_root s)))"

lemma addFile_scans:
  assumes "scan_state flt root items s" "sc_filter s = flt" "sc_rootFolderName s = root"
    and "set (folder_parts root file) \<inter> set prototype_names = {}"
  shows "\<exists>s'. addFile s file = Inr s' \<and> scan_state flt root (items @ [file]) s' \<and> sc_filter s' = flt \<and> sc_rootFolderName s' = root"
proof -
  have "\<forall>d \<in> set (folder_paths (sc_root s)). first_denied flt [] d = None" "distinct (folder_paths (sc_root s))"
    using assms(1) by (auto simp: scan_state_def made_folders_def Let_def)
  with add_parts_scans[OF assms(4), of "sc_root s" s "[]" "file"] assms(2,3) obtain s' ctx where
    step: "add_parts (folder_parts root file) [] file s (sc_root s) = Inr (s', ctx)"
      "scanned flt [] (folder_parts root file) file (s, sc_root s) (s', ctx)" by auto
  have "scan_state flt root (items @ [file]) (s'\<lparr>sc_root := ctx\<rparr>)"
    using step(2) assms(1) by (auto simp: scan_state_def scanned_def Let_def map_filter_simps List.map_filter_def split: option.splits)
  with step assms(2,3) show ?thesis by (auto simp: addFile_def scanned_def)
qed

lemma addFiles_scan:
  assumes "scan_state flt root before s" "sc_filter s = flt" "sc_rootFolderName s = root"
    and "\<forall>file \<in> set items. set (folder_parts root file) \<inter> set prototype_names = {}"
  shows "\<exists>s'. res_fold addFile s items = Inr s' \<and> scan_state flt root (before @ items) s'
    \<and> sc_filter s' = flt \<and> sc_rootFolderName s' = root"
  using assms
proof (induction items arbitrary: before s)
  case (Cons x items)
  then obtain s' where "addFile s x = Inr s'" "scan_state flt root (before @ [x]) s'" "sc_filter s' = flt" "sc_rootFolderName s' = root"
    using addFile_scans[of flt root before s x] by auto
  with Cons.IH[of "before @ [x]" s'] Cons.prems(4) show ?case by auto
qed auto

lemma summarize_keeps [simp]:
  "sc_root (summarize s) = sc_root s" "sc_files (summarize s) = sc_files s" "sc_folders (summarize s) = sc_folders s"
  "sc_total (summarize s) = sc_total s" "sc_excludes (summarize s) = sc_excludes s"
  by (simp_all add: summarize_def)

lemma scan_state_summarize: "scan_state flt root items (summarize s) \<longleftrightarrow> scan_state flt root items s"
  by (simp add: scan_state_def)

lemma newScanner_filter:
  assumes "newScanner ex root = Inr s"
  shows "s = \<lparr>sc_filter = sc_filter s, sc_rootFolderName = root, sc_total = 0, sc_files = 0, sc_folders = 0,
          sc_excludes = [], sc_root = Folder [] [], sc_summaryType = FileType, sc_summaryItem = None,
          sc_manifestFile = None, sc_cfIgnoreFile = None\<rparr>"
  using assms by (auto simp: newScanner_def res_bind_Inr_iff)

lemma scan_of_new:
  assumes "newScanner ex root = Inr s0"
    and "\<forall>file \<in> set items. set (folder_parts root file) \<inter> set prototype_names = {}"
  shows "\<exists>s. scan_items ex root ignore manifest items = Inr (summarize s) \<and> scan_state (sc_filter s0) root items s"
proof -
  let ?s = "s0\<lparr>sc_cfIgnoreFile := ignore, sc_manifestFile := manifest\<rparr>"
  have new: "scan_state (sc_filter s0) root [] ?s" "sc_rootFolderName ?s = root"
    by (subst newScanner_filter[OF assms(1)], simp add: scan_state_def List.map_filter_def)+
  from addFiles_scan[OF new(1) _ new(2) assms(2)] obtain s where
    "res_fold addFile ?s items = Inr s" "scan_state (sc_filter s0) root items s" by auto
  with assms(1) show ?thesis by (auto simp: scan_items_def)
qed

text \<open>
  C15: What a scan collects. Unless a folder has the name of a property every object inherits, the scan of any files in
  any order ends, and the tree holds exactly the files the ignore filter lets through, each once and in the folder of
  its path, with their number and the sum of their sizes. The folders of the tree are the folders of all files that are
  not denied themselves or above, each once, and are counted; every other file is recorded by the topmost
  folder that is denied, or by its own name.
\<close>

theorem scan_collects_files:
  assumes "newScanner fileExcludes root = Inr s0"
    and "\<forall>file \<in> set items. set (folder_parts root file) \<inter> set prototype_names = {}"
  shows "\<exists>s out kept. scan_items fileExcludes root ignore manifest items = Inr s
    \<and> out = (\<lambda>f. left_out_as (sc_filter s0) [] (folder_parts root f) f) \<and> kept = filter (\<lambda>f. out f = None) items
    \<and> mset (entries (sc_root s)) = mset (map (\<lambda>f. (folder_parts root f, f)) kept)
    \<and> sc_files s = length kept \<and> sc_total s = sum_list (map fl_size kept)
    \<and> distinct (folder_paths (sc_root s)) \<and> sc_folders s = length (folder_paths (sc_root s))
    \<and> set (folder_paths (sc_root s)) =
        {d. d \<noteq> [] \<and> first_denied (sc_filter s0) [] d = None \<and> (\<exists>f \<in> set items. \<exists>e. folder_parts root f = d @ e)}
    \<and> sc_excludes s = List.map_filter out items"
proof -
  obtain s where s: "scan_items fileExcludes root ignore manifest items = Inr (summarize s)"
    "scan_state (sc_filter s0) root items (summarize s)"
    using scan_of_new[OF assms] scan_state_summarize by blast
  then show ?thesis
    by (intro exI[of _ "summarize s"] exI conjI refl)
      (auto simp: scan_state_def Let_def made_folders_def)
qed

text \<open>Two files of a folder, one of them in a folder named in the ignore file.\<close>

definition example_items :: "SourceFile list" where
  "example_items =
    [\<lparr>fl_name = ''index.js'', fl_size = 3, fl_path = ''app/src/index.js'', fl_data = ''abc''\<rparr>,
     \<lparr>fl_name = ''.cfignore'', fl_size = 4, fl_path = ''app/.cfignore'', fl_data = ''tmp/''\<rparr>,
     \<lparr>fl_name = ''a'', fl_size = 1, fl_path = ''app/tmp/b/a'', fl_data = ''x''\<rparr>]"

lemma example_scanner:
  "(case newScanner ''tmp/'' ''app'' of Inl e \<Rightarrow> False
    | Inr s \<Rightarrow> map (\<lambda>f. left_out_as (sc_filter s) [] (folder_parts ''app'' f) f) example_items = [None, None, Some ''tmp/'']
      \<and> map (first_denied (sc_filter s) []) [[''src''], [''tmp''], [''tmp'', ''b'']] = [None, Some ''tmp/'', Some ''tmp/''])"
  by code_simp

lemma scan_collects_files_witness:
  "\<exists>s. scan_items ''tmp/'' ''app'' None None example_items = Inr s \<and> sc_files s = 2 \<and> sc_total s = 7
    \<and> sc_excludes s = [''tmp/''] \<and> set (folder_paths (sc_root s)) = {[''src'']}"
proof -
  obtain s0 where s0: "newScanner ''tmp/'' ''app'' = Inr s0"
    "map (\<lambda>f. left_out_as (sc_filter s0) [] (folder_parts ''app'' f) f) example_items = [None, None, Some ''tmp/'']"
    "map (first_denied (sc_filter s0) []) [[''src''], [''tmp''], [''tmp'', ''b'']] = [None, Some ''tmp/'', Some ''tmp/'']"
    using example_scanner by (auto split: sum.splits)
  have parts: "map (folder_parts ''app'') example_items = [[''src''], [], [''tmp'', ''b'']]" by code_simp
  have "\<forall>f \<in> set example_items. set (folder_parts ''app'' f) \<inter> set prototype_names = {}"
    using parts by (auto simp: example_items_def prototype_names_def)
  from scan_collects_files[OF s0(1) this, of None None] obtain s where s: "scan_items ''tmp/'' ''app'' None None example_items = Inr s"
    "sc_files s = length (filter (\<lambda>f. left_out_as (sc_filter s0) [] (folder_parts ''app'' f) f = None) example_items)"
    "sc_total s = sum_list (map fl_size (filter (\<lambda>f. left_out_as (sc_filter s0) [] (folder_parts ''app'' f) f = None) example_items))"
    "sc_excludes s = List.map_filter (\<lambda>f. left_out_as (sc_filter s0) [] (folder_parts ''app'' f) f) example_items"
    "set (folder_paths (sc_root s)) = {d. d \<noteq> [] \<and> first_denied (sc_filter s0) [] d = None
      \<and> (\<exists>f \<in> set example_items. \<exists>e. folder_parts ''app'' f = d @ e)}"
    by blast
  have "set (folder_paths (sc_root s)) = {[''src'']}"
    unfolding s(5) using parts s0(3) by (auto simp del: first_denied.simps simp: example_items_def Cons_eq_append_conv append_eq_Cons_conv)
  with s(1-4) s0(2) show ?thesis by (simp add: example_items_def List.map_filter_def)
qed

subsection \<open>Folders with inherited names\<close>

lemma add_parts_inherited:
  assumes "n \<in> set prototype_names" "set p \<inter> set prototype_names = {}" "first_denied (sc_filter s) path p = None"
    and "q = [] \<longrightarrow> \<not> skips_file (sc_filter s) (strip_slash (path @ parts_text (p @ [n]) @ ''/'' @ fl_name x)) x"
    and "\<forall>d \<in> set (folder_paths ctx). set d \<inter> set prototype_names = {}"
  shows "add_parts (p @ n # q) path x s ctx = Inl TypeError"
  using assms
proof (induction p arbitrary: path s ctx)
  case Nil
  obtain files folders where ctx: "ctx = Folder files folders" by (cases ctx)
  have "obj_get folders n = None"
    using name_in_paths[of n folders] Nil.prems(1,5) ctx by (fastforce simp: obj_get_def map_of_eq_None_iff)
  with Nil ctx show ?case by (auto simp: scan_folder_def Let_def parts_text_def)
next
  case (Cons part p)
  obtain files folders where ctx: "ctx = Folder files folders" by (cases ctx)
  let ?path = "path @ ''/'' @ part"
  have allowed: "\<not> denied_name (sc_filter s) (strip_slash ?path @ ''/'')" "first_denied (sc_filter s) ?path p = None"
    using Cons.prems(3) by (auto simp: Let_def split: if_splits)
  have step: "add_parts (p @ n # q) ?path x t sub = Inl TypeError"
    if "sc_filter t = sc_filter s" "\<forall>d \<in> set (folder_paths sub). set d \<inter> set prototype_names = {}" for t sub
    using that Cons.prems allowed(2) by (intro Cons.IH) (auto simp: parts_text_def)
  show ?case
  proof (cases "obj_get folders part")
    case None
    with Cons.prems(2) allowed(1) ctx step[of "s\<lparr>sc_folders := sc_folders s + 1\<rparr>" "Folder [] []"]
    show ?thesis by (simp add: scan_folder_def Let_def)
  next
    case (Some sub)
    then have "(part, sub) \<in> set folders" by (rule obj_get_mem)
    then have "part # d \<in> set (folder_paths ctx)" if "d \<in> set (folder_paths sub)" for d
      using that ctx by auto
    then have "\<forall>d \<in> set (folder_paths sub). set d \<inter> set prototype_names = {}"
      using Cons.prems(5) by fastforce
    with Some ctx step[of s sub] show ?thesis by (simp add: scan_folder_def Let_def)
  qed
qed

text \<open>
  A folder that stops the upload. When a file the filter does not leave out lies below a folder called
  \<open>constructor\<close>, or like another property every object inherits, the scan of the whole selection throws a
  \<open>TypeError\<close>, whatever files come before and after.
\<close>

theorem inherited_folder_throws:
  assumes "newScanner fileExcludes root = Inr s0"
    and "\<forall>f \<in> set before. set (folder_parts root f) \<inter> set prototype_names = {}"
    and "folder_parts root x = p @ n # q" "n \<in> set prototype_names" "set p \<inter> set prototype_names = {}"
    and "first_denied (sc_filter s0) [] p = None"
    and "q = [] \<longrightarrow> \<not> skips_file (sc_filter s0) (strip_slash (parts_text (p @ [n]) @ ''/'' @ fl_name x)) x"
  shows "scan_items fileExcludes root ignore manifest (before @ x # after) = Inl TypeError"
proof -
  let ?s = "s0\<lparr>sc_cfIgnoreFile := ignore, sc_manifestFile := manifest\<rparr>"
  have new: "scan_state (sc_filter s0) root [] ?s" "sc_rootFolderName ?s = root"
    by (subst newScanner_filter[OF assms(1)], simp add: scan_state_def List.map_filter_def)+
  from addFiles_scan[OF new(1) _ new(2) assms(2)] obtain s where
    s: "res_fold addFile ?s before = Inr s" "scan_state (sc_filter s0) root before s"
      "sc_filter s = sc_filter s0" "sc_rootFolderName s = root" by auto
  have "\<forall>d \<in> set (folder_paths (sc_root s)). set d \<inter> set prototype_names = {}"
    using s(2) assms(2) by (fastforce simp: scan_state_def Let_def made_folders_def)
  with add_parts_inherited[of n p s "[]" q x "sc_root s"] assms(3-7) s(3,4)
  have "addFile s x = Inl TypeError" by (simp add: addFile_def)
  with s(1) assms(1) show ?thesis by (simp add: scan_items_def res_fold_append)
qed

lemma inherited_folder_throws_witness:
  "scan_items '''' '''' None None
     [\<lparr>fl_name = ''a.js'', fl_size = 1, fl_path = ''lib/constructor/a.js'', fl_data = ''x''\<rparr>] = Inl TypeError"
proof -
  let ?x = "\<lparr>fl_name = ''a.js'', fl_size = 1, fl_path = ''lib/constructor/a.js'', fl_data = ''x''\<rparr>"
  obtain s0 where s0: "newScanner '''' '''' = Inr s0" "sc_filter s0 = None" by (simp add: newScanner_def)
  have parts: "folder_parts '''' ?x = [''lib''] @ ''constructor'' # []" by code_simp
  have "scan_items '''' '''' None None ([] @ ?x # []) = Inl TypeError"
    by (rule inherited_folder_throws[OF s0(1) _ parts])
      (simp_all add: s0(2) prototype_names_def skips_file_def denied_name_def)
  then show ?thesis by simp
qed

end
