(* ===== verification/Deploy_State.thy ===== *)
theory Deploy_State
  imports Prelude
begin

section \<open>What is to be deployed: deploy-app.reducer.ts, deploy-app.effects.ts, github-project-exists.directive.ts\<close>

text \<open>
  The slice \<open>deployApplication\<close> of the store collects what the steps of the deploy wizard ask for. One part of it is
  a small protocol: the form asks whether a GitHub project exists (\<open>CheckProjectExists\<close>), an effect sends the request
  and dispatches one of three answers, and the validator of the form waits for the answer to the name in the field.
\<close>

subsection \<open>The slice\<close>

record SourceType =
  ty_name :: string
  ty_id :: string

record CloudFoundryDetails =
  cd_cloudFoundry :: string
  cd_org :: string
  cd_space :: string

record GitBranches =
  gb_fetching :: bool
  gb_success :: bool

text \<open>The data of the branches is always \<open>null\<close>. A field a spread has not set yet is \<open>undefined\<close>.\<close>

record DeployApplicationSource =
  as_type :: "SourceType option"
  as_projectName :: js
  as_branch :: js
  as_branchName :: js
  as_commit :: js
  as_branches :: "GitBranches option"

record ProjectExistsState =
  px_checking :: bool
  px_exists :: bool
  px_error :: "bool option"
  px_name :: string
  px_data :: js

record DeployApplicationState =
  da_cloudFoundryDetails :: "CloudFoundryDetails option"
  da_applicationSource :: "DeployApplicationSource option"
  da_applicationOverrides :: js
  da_projectExists :: ProjectExistsState

datatype DeployAction =
    SetAppSourceDetails SourceType
  | CheckProjectExists string
  | ProjectDoesntExist string
  | ProjectFetchFail string string
  | ProjectExists string js
  | FetchBranchesForProject string
  | SaveAppDetails js js
  | SaveAppOverrides js
  | StoreCFSettings "CloudFoundryDetails option"
  | DeleteDeployAppSection
  | SetBranch js
  | SetDeployBranch js
  | SetDeployCommit js
  | OtherAction

definition emptySource :: DeployApplicationSource where
  "emptySource = \<lparr>as_type = None, as_projectName = JUndef, as_branch = JUndef, as_branchName = JUndef, as_commit = JUndef,
     as_branches = None\<rparr>"

definition deployDefault :: DeployApplicationState where
  "deployDefault = \<lparr>da_cloudFoundryDetails = None, da_applicationSource = Some emptySource, da_applicationOverrides = JNull,
     da_projectExists = \<lparr>px_checking = False, px_exists = False, px_error = Some False, px_name = [], px_data = JUndef\<rparr>\<rparr>"

text \<open>\<open>{ ...state.applicationSource, ... }\<close>; spreading \<open>undefined\<close> gives no properties.\<close>

definition update_source :: "(DeployApplicationSource \<Rightarrow> DeployApplicationSource) \<Rightarrow> DeployApplicationState \<Rightarrow> DeployApplicationState" where
  "update_source f s = s\<lparr>da_applicationSource :=
     Some (f (case da_applicationSource s of None \<Rightarrow> emptySource | Some src \<Rightarrow> src))\<rparr>"

fun deployAppReducer :: "DeployApplicationState \<Rightarrow> DeployAction \<Rightarrow> DeployApplicationState" where
  "deployAppReducer s (SetAppSourceDetails t) = update_source (\<lambda>src. src\<lparr>as_type := Some t\<rparr>) s"
| "deployAppReducer s (StoreCFSettings cf) = s\<lparr>da_cloudFoundryDetails := cf\<rparr>"
| "deployAppReducer s (CheckProjectExists name) =
     s\<lparr>da_projectExists := \<lparr>px_checking = True, px_exists = False, px_error = None, px_name = name, px_data = JUndef\<rparr>\<rparr>"
| "deployAppReducer s (ProjectExists name data) =
     s\<lparr>da_projectExists := \<lparr>px_checking = False, px_exists = True, px_error = Some False, px_name = name, px_data = data\<rparr>\<rparr>"
| "deployAppReducer s (ProjectDoesntExist name) =
     s\<lparr>da_projectExists := \<lparr>px_checking = False, px_exists = False, px_error = Some False, px_name = name, px_data = JNull\<rparr>\<rparr>"
| "deployAppReducer s (ProjectFetchFail name err) =
     s\<lparr>da_projectExists := \<lparr>px_checking = False, px_exists = False, px_error = Some True, px_name = name, px_data = JStr err\<rparr>\<rparr>"
| "deployAppReducer s (FetchBranchesForProject name) =
     update_source (\<lambda>src. src\<lparr>as_branches := Some \<lparr>gb_fetching = True, gb_success = False\<rparr>\<rparr>) s"
| "deployAppReducer s (SaveAppDetails projectName branch) =
     update_source (\<lambda>src. src\<lparr>as_projectName := projectName, as_branch := branch\<rparr>) s"
| "deployAppReducer s (SaveAppOverrides overrides) = s\<lparr>da_applicationOverrides := js_spread (JObj []) overrides\<rparr>"
| "deployAppReducer s (SetBranch branch) = update_source (\<lambda>src. src\<lparr>as_branch := branch\<rparr>) s"
| "deployAppReducer s (SetDeployBranch name) = update_source (\<lambda>src. src\<lparr>as_branchName := name\<rparr>) s"
| "deployAppReducer s (SetDeployCommit commit) = update_source (\<lambda>src. src\<lparr>as_commit := commit\<rparr>) s"
| "deployAppReducer s DeleteDeployAppSection = deployDefault"
| "deployAppReducer s OtherAction = s"

subsection \<open>The answer of GitHub\<close>

text \<open>
  A response, or an error with its status; a body that is not JSON is \<open>None\<close>. In \<open>parseHttpPipeError\<close> the handler of
  such a body uses \<open>this\<close>, which is undefined in a plain function of a module, and throws itself.
\<close>

datatype HttpReply = HttpOk "js option" | HttpError int "js option"

definition parseHttpPipeError :: "int \<Rightarrow> js option \<Rightarrow> js result" where
  "parseHttpPipeError status body =
     (if status = 0 then Inr (JObj [(''status'', JNum status)])
      else case body of Some v \<Rightarrow> Inr v | None \<Rightarrow> Inl TypeError)"

definition limit_message :: string where "limit_message = ''API rate limit exceeded for''"

definition createFailedGithubRequestMessage :: "int \<Rightarrow> js option \<Rightarrow> string result" where
  "createFailedGithubRequestMessage status body =
     res_bind (parseHttpPipeError status body) (\<lambda>response.
     res_bind (js_prop response ''message'') (\<lambda>m.
       if status \<noteq> 403 then Inr ''Github request failed''
       else case (if truthy m then m else JStr '''') of
         JStr s \<Rightarrow> Inr (if starts_with limit_message s then ''Github '' @ (if CHR ''('' \<in> set s then takeWhile (\<lambda>c. c \<noteq> CHR ''('') s else [])
             else ''Github request failed'')
       | _ \<Rightarrow> Inl TypeError))"

text \<open>\<open>new ProjectExists\<close> parses the body; its exception is caught like an error of the request, and has no status.\<close>

definition checkAnswer :: "string \<Rightarrow> HttpReply \<Rightarrow> DeployAction result" where
  "checkAnswer projectName reply =
     (case reply of
        HttpOk (Some v) \<Rightarrow> Inr (ProjectExists projectName v)
      | HttpOk None \<Rightarrow> Inr (ProjectFetchFail projectName ''Github request failed'')
      | HttpError status body \<Rightarrow>
          if status = 404 then Inr (ProjectDoesntExist projectName)
          else res_bind (createFailedGithubRequestMessage status body) (\<lambda>m. Inr (ProjectFetchFail projectName m)))"

subsection \<open>The effect and the validator\<close>

text \<open>
  The effect \<open>checkAppExists$\<close> after the reducer: it sends a request when the slice is checking, and forgets the
  request before (\<open>switchMap\<close>). An exception in the handler of errors ends the effect. The steps: an action of the
  wizard is dispatched, or the answer to the request under way arrives.
\<close>

record GithubCheck =
  gc_state :: DeployApplicationState
  gc_pending :: "string option"
  gc_alive :: bool

datatype CheckStep = Dispatch DeployAction | Answer HttpReply

definition checkAppExists :: "DeployAction \<Rightarrow> GithubCheck \<Rightarrow> GithubCheck" where
  "checkAppExists a g =
     (case a of
        CheckProjectExists name \<Rightarrow>
          if gc_alive g \<and> px_checking (da_projectExists (gc_state g)) then g\<lparr>gc_pending := Some name\<rparr> else g
      | _ \<Rightarrow> g)"

definition dispatch_deploy :: "DeployAction \<Rightarrow> GithubCheck \<Rightarrow> GithubCheck" where
  "dispatch_deploy a g = checkAppExists a (g\<lparr>gc_state := deployAppReducer (gc_state g) a\<rparr>)"

fun check_step :: "CheckStep \<Rightarrow> GithubCheck \<Rightarrow> GithubCheck" where
  "check_step (Dispatch a) g = dispatch_deploy a g"
| "check_step (Answer reply) g =
     (case gc_pending g of
        None \<Rightarrow> g
      | Some name \<Rightarrow>
          (case checkAnswer name reply of
             Inl e \<Rightarrow> g\<lparr>gc_pending := None, gc_alive := False\<rparr>
           | Inr a \<Rightarrow> dispatch_deploy a (g\<lparr>gc_pending := None\<rparr>)))"

text \<open>What the validator makes of a state of the slice: the actions it dispatches, and its verdict if it has one.\<close>

datatype Verdict = ValidProject | NoSuchProject js

definition validate_project :: "string \<Rightarrow> DeployApplicationState \<Rightarrow> DeployAction list \<times> Verdict option" where
  "validate_project c s =
     (if c = [] then ([], Some ValidProject)
      else let p = da_projectExists s in
        ((if px_name p \<noteq> c then [CheckProjectExists c] else []),
         if \<not> px_checking p \<and> px_name p = c
         then Some (if px_exists p then ValidProject
           else NoSuchProject (if px_error p = Some True \<and> truthy (px_data p) then px_data p else JStr ''''))
         else None))"

subsection \<open>Branches and commits\<close>

text \<open>The normalized response the effects make of the lists GitHub sends: the ids, and the entities by id.\<close>

type_synonym mapped_data = "string list \<times> (string, js) obj"

definition add_entity :: "string \<Rightarrow> js \<Rightarrow> mapped_data \<Rightarrow> mapped_data" where
  "add_entity i entity mapped =
     (case mapped of (result, entities) \<Rightarrow> (result @ [i], obj_set i (JObj [(''entity'', entity), (''metadata'', JObj [])]) entities))"

definition fetchBranches :: "string \<Rightarrow> js list \<Rightarrow> mapped_data" where
  "fetchBranches projectName branches =
     fold (\<lambda>b. let i = projectName @ ''-'' @ js_key (js_field b ''name'') in
         add_entity i (js_spread b (JObj [(''projectId'', JStr projectName), (''entityId'', JStr i)])))
       branches ([], [])"

definition addCommit :: "string \<Rightarrow> js \<Rightarrow> mapped_data \<Rightarrow> mapped_data" where
  "addCommit projectName commit = add_entity (projectName @ ''-'' @ js_key (js_field commit ''sha'')) commit"

definition fetchCommit :: "string \<Rightarrow> js \<Rightarrow> mapped_data" where
  "fetchCommit projectName commit = addCommit projectName commit ([], [])"

definition fetchCommits :: "string \<Rightarrow> js list \<Rightarrow> mapped_data" where
  "fetchCommits projectName commits = fold (addCommit projectName) commits ([], [])"

subsection \<open>The check of a project\<close>

lemma reducer_project [simp]:
  "da_projectExists (update_source f s) = da_projectExists s"
  by (simp add: update_source_def)

fun checks :: "CheckStep \<Rightarrow> bool" where
  "checks (Dispatch (CheckProjectExists _)) = True"
| "checks _ = False"

text \<open>Answers come from the effect only, and the section is not deleted while the form is open.\<close>

fun wizard_step :: "CheckStep \<Rightarrow> bool" where
  "wizard_step (Dispatch (ProjectExists _ _)) = False"
| "wizard_step (Dispatch (ProjectDoesntExist _)) = False"
| "wizard_step (Dispatch (ProjectFetchFail _ _)) = False"
| "wizard_step (Dispatch DeleteDeployAppSection) = False"
| "wizard_step _ = True"

fun last_checked :: "CheckStep list \<Rightarrow> string option" where
  "last_checked [] = None"
| "last_checked (st # steps) =
     (case last_checked steps of Some n \<Rightarrow> Some n
      | None \<Rightarrow> (case st of Dispatch (CheckProjectExists n) \<Rightarrow> Some n | _ \<Rightarrow> None))"

definition start_check :: GithubCheck where
  "start_check = \<lparr>gc_state = deployDefault, gc_pending = None, gc_alive = True\<rparr>"

text \<open>The name of the slice is the one asked for last, checked as long as the request for it is under way.\<close>

definition check_inv :: "string option \<Rightarrow> GithubCheck \<Rightarrow> bool" where
  "check_inv n g \<longleftrightarrow> (let p = da_projectExists (gc_state g) in
     px_name p = (case n of None \<Rightarrow> [] | Some n \<Rightarrow> n)
     \<and> (gc_alive g \<longrightarrow> px_checking p = (gc_pending g \<noteq> None)) \<and> (gc_pending g \<noteq> None \<longrightarrow> gc_pending g = n)
     \<and> (\<not> gc_alive g \<longrightarrow> gc_pending g = None)
     \<and> (px_exists p \<longrightarrow> \<not> px_checking p))"

lemma last_checked_snoc:
  "last_checked (steps @ [st]) = (case st of Dispatch (CheckProjectExists n) \<Rightarrow> Some n | _ \<Rightarrow> last_checked steps)"
  by (induction steps) (auto split: CheckStep.splits DeployAction.splits option.splits)

lemma answer_names:
  "checkAnswer name reply = Inr a \<Longrightarrow> (\<exists>v. a = ProjectExists name v) \<or> a = ProjectDoesntExist name \<or> (\<exists>m. a = ProjectFetchFail name m)"
  by (auto simp: checkAnswer_def res_bind_Inr_iff split: HttpReply.splits option.splits if_splits)

lemma check_inv_step:
  assumes "check_inv n g" "wizard_step st"
  shows "check_inv (case st of Dispatch (CheckProjectExists m) \<Rightarrow> Some m | _ \<Rightarrow> n) (check_step st g)"
proof (cases st)
  case (Dispatch a)
  with assms show ?thesis
    by (cases a) (auto simp: check_inv_def dispatch_deploy_def checkAppExists_def Let_def)
next
  case (Answer reply)
  show ?thesis
  proof (cases "gc_pending g")
    case (Some name)
    show ?thesis
    proof (cases "checkAnswer name reply")
      case (Inl e)
      then have "check_step st g = g\<lparr>gc_pending := None, gc_alive := False\<rparr>" using Some Answer by simp
      with Answer assms(1) show ?thesis by (simp add: check_inv_def Let_def)
    next
      case (Inr a)
      then have "check_step st g = dispatch_deploy a (g\<lparr>gc_pending := None\<rparr>)" using Some Answer by simp
      moreover have "n = Some name" using Some assms(1) by (auto simp: check_inv_def Let_def)
      ultimately show ?thesis using answer_names[OF Inr] Some Answer assms(1)
        by (auto simp: check_inv_def dispatch_deploy_def checkAppExists_def Let_def)
    qed
  qed (use Answer assms in auto)
qed

lemma check_inv_run: "list_all wizard_step steps \<Longrightarrow> check_inv (last_checked steps) (fold check_step steps start_check)"
proof (induction steps rule: rev_induct)
  case Nil
  then show ?case by (simp add: check_inv_def start_check_def deployDefault_def)
next
  case (snoc st steps)
  then have "check_inv (last_checked steps) (fold check_step steps start_check)" "wizard_step st" by simp_all
  from check_inv_step[OF this] show ?case by (simp add: last_checked_snoc)
qed

text \<open>
  C23: The validator never judges by a stale answer. After any actions of the wizard and answers of GitHub, in any
  order, the slice holds the name asked for last; while its request is under way the validator of that name has no
  verdict, and the answer to the request decides it: a project is accepted exactly when GitHub sent it. Answers to
  earlier requests never show.
\<close>

theorem project_check_is_current:
  assumes "list_all wizard_step steps" "fold check_step steps start_check = g" "last_checked steps = Some name" "name \<noteq> []"
    and "gc_alive g" "gc_pending g \<noteq> None"
  shows "snd (validate_project name (gc_state g)) = None \<and> fst (validate_project name (gc_state g)) = []
    \<and> (\<forall>reply a. checkAnswer name reply = Inr a \<longrightarrow>
        snd (validate_project name (gc_state (check_step (Answer reply) g))) =
          Some (case a of ProjectExists _ _ \<Rightarrow> ValidProject | ProjectFetchFail _ m \<Rightarrow> NoSuchProject (JStr m) | _ \<Rightarrow> NoSuchProject (JStr ''''))
        \<and> gc_pending (check_step (Answer reply) g) = None)"
proof -
  have inv: "check_inv (Some name) g" using check_inv_run[OF assms(1)] assms(2,3) by simp
  then have p: "px_name (da_projectExists (gc_state g)) = name" "px_checking (da_projectExists (gc_state g))" "gc_pending g = Some name"
    using assms(5,6) by (auto simp: check_inv_def Let_def)
  have "snd (validate_project name (gc_state (check_step (Answer reply) g))) =
        Some (case a of ProjectExists _ _ \<Rightarrow> ValidProject | ProjectFetchFail _ m \<Rightarrow> NoSuchProject (JStr m) | _ \<Rightarrow> NoSuchProject (JStr ''''))
      \<and> gc_pending (check_step (Answer reply) g) = None" if "checkAnswer name reply = Inr a" for reply a
    using answer_names[OF that] that p(3) assms(4)
    by (auto simp: dispatch_deploy_def checkAppExists_def validate_project_def Let_def)
  with p assms(4) show ?thesis by (auto simp: validate_project_def Let_def)
qed

lemma project_check_is_current_witness:
  "let g = fold check_step [Dispatch (CheckProjectExists ''a/b''), Dispatch (CheckProjectExists ''a/c'')] start_check in
    snd (validate_project ''a/c'' (gc_state g)) = None
    \<and> snd (validate_project ''a/c'' (gc_state (check_step (Answer (HttpOk (Some (JObj [])))) g))) = Some ValidProject"
proof -
  let ?steps = "[Dispatch (CheckProjectExists ''a/b''), Dispatch (CheckProjectExists ''a/c'')]"
  have "gc_alive (fold check_step ?steps start_check)" "gc_pending (fold check_step ?steps start_check) \<noteq> None"
    by (simp_all add: start_check_def dispatch_deploy_def checkAppExists_def deployDefault_def)
  with project_check_is_current[of ?steps "fold check_step ?steps start_check" "''a/c''"]
  show ?thesis by (auto simp: Let_def checkAnswer_def)
qed

text \<open>
  C39: An unreadable answer stops the check for good. When GitHub answers a check with an error status other than 404 and
  a body that is not JSON, the handler of the error throws and the effect ends: the slice stays checking, and whatever
  names are asked for afterwards, with whatever answers, the validator never has a verdict on them.
\<close>

theorem unreadable_answer_stops_checks:
  assumes "list_all wizard_step steps" "fold check_step steps start_check = g" "gc_alive g" "gc_pending g \<noteq> None"
    and "status \<noteq> 0" "status \<noteq> 404" and "list_all wizard_step later"
    and "h = fold check_step later (check_step (Answer (HttpError status None)) g)"
  shows "\<not> gc_alive h \<and> px_checking (da_projectExists (gc_state h))
    \<and> (name \<noteq> [] \<longrightarrow> snd (validate_project name (gc_state h)) = None)"
proof -
  let ?g = "check_step (Answer (HttpError status None)) g"
  have "check_inv (last_checked steps) g" using check_inv_run[OF assms(1)] assms(2) by simp
  then have "px_checking (da_projectExists (gc_state g))" using assms(3,4) by (simp add: check_inv_def Let_def)
  with assms(4-6) have dead: "\<not> gc_alive ?g" "px_checking (da_projectExists (gc_state ?g))" "gc_pending ?g = None"
    by (auto simp: checkAnswer_def createFailedGithubRequestMessage_def parseHttpPipeError_def)
  have "\<not> gc_alive (fold check_step later g') \<and> px_checking (da_projectExists (gc_state (fold check_step later g')))"
    if "\<not> gc_alive g'" "px_checking (da_projectExists (gc_state g'))" "gc_pending g' = None" for g'
    using assms(7) that
  proof (induction later arbitrary: g')
    case (Cons st later)
    have "\<not> gc_alive (check_step st g') \<and> px_checking (da_projectExists (gc_state (check_step st g'))) \<and> gc_pending (check_step st g') = None"
    proof (cases st)
      case (Dispatch a)
      with Cons.prems show ?thesis by (cases a) (auto simp: dispatch_deploy_def checkAppExists_def)
    next
      case (Answer r)
      with Cons.prems show ?thesis by simp
    qed
    with Cons show ?case by simp
  qed simp
  from this[OF dead] assms(8) show ?thesis by (auto simp: validate_project_def Let_def)
qed

lemma unreadable_answer_stops_checks_witness:
  "let h = fold check_step [Dispatch (CheckProjectExists ''a/b''), Answer (HttpError 502 None),
      Dispatch (CheckProjectExists ''a/c''), Answer (HttpOk (Some (JObj [])))] start_check in
    \<not> gc_alive h \<and> snd (validate_project ''a/c'' (gc_state h)) = None"
proof -
  let ?steps = "[Dispatch (CheckProjectExists ''a/b'')]"
  have g: "gc_alive (fold check_step ?steps start_check)" "gc_pending (fold check_step ?steps start_check) \<noteq> None"
    by (simp_all add: start_check_def dispatch_deploy_def checkAppExists_def deployDefault_def)
  from unreadable_answer_stops_checks[of ?steps "fold check_step ?steps start_check" 502
      "[Dispatch (CheckProjectExists ''a/c''), Answer (HttpOk (Some (JObj [])))]" _ "''a/c''"] g
  show ?thesis by (simp add: Let_def del: check_step.simps)
qed

end
