(* ===== verification/Deployer.thy ===== *)
theory Deployer
  imports Deploy_Source Deploy_State
begin

section \<open>Deploying an application: deploy-application-deployer.ts\<close>

text \<open>
  \<open>DeployApplicationDeployer\<close> talks to the backend over a web socket: it describes the source when asked, sends the
  files one by one as they are acknowledged, and turns the events of the push into a status. The state is the fields of
  the class; an exception in the handling of a message ends the subscription (\<open>dd_listening\<close>). Messages are objects
  whose JSON text is left out, as are their time stamps; \<open>JSON.parse\<close> of a text inside a message is a parameter. The
  files being read by a \<open>FileReader\<close> wait in \<open>dd_reading\<close>, what was given to the socket waits in \<open>dd_outbox\<close>.

  The other side is the function of the backend that receives the files, \<open>getFolderSource\<close> of
  \<open>jetstream/plugins/cfapppush/deploy.go\<close>.
\<close>

subsection \<open>Messages\<close>

datatype SocketEventTypes =
    DATA | MANIFEST | CLOSE_SUCCESS | APP_GUID_NOTIFY
  | CLOSE_PUSH_ERROR | CLOSE_NO_MANIFEST | CLOSE_INVALID_MANIFEST | CLOSE_FAILED_CLONE | CLOSE_FAILED_NO_BRANCH
  | CLOSE_FAILURE | CLOSE_NO_SESSION | CLOSE_NO_CNSI | CLOSE_NO_CNSI_USERTOKEN
  | EVENT_CLONED | EVENT_FETCHED_MANIFEST | EVENT_PUSH_STARTED | EVENT_PUSH_COMPLETED
  | SOURCE_REQUIRED | SOURCE_GITHUB | SOURCE_FOLDER | SOURCE_FILE | SOURCE_FILE_DATA | SOURCE_FILE_ACK | SOURCE_GITURL
  | SOURCE_WAIT_ACK | OVERRIDES_REQUIRED | OVERRIDES_SUPPLIED

fun socket_code :: "SocketEventTypes \<Rightarrow> int" where
  "socket_code DATA = 20000"
| "socket_code MANIFEST = 20001"
| "socket_code CLOSE_SUCCESS = 20002"
| "socket_code APP_GUID_NOTIFY = 20003"
| "socket_code CLOSE_PUSH_ERROR = 40000"
| "socket_code CLOSE_NO_MANIFEST = 40001"
| "socket_code CLOSE_INVALID_MANIFEST = 40002"
| "socket_code CLOSE_FAILED_CLONE = 40003"
| "socket_code CLOSE_FAILED_NO_BRANCH = 40004"
| "socket_code CLOSE_FAILURE = 40005"
| "socket_code CLOSE_NO_SESSION = 40006"
| "socket_code CLOSE_NO_CNSI = 40007"
| "socket_code CLOSE_NO_CNSI_USERTOKEN = 40008"
| "socket_code EVENT_CLONED = 10000"
| "socket_code EVENT_FETCHED_MANIFEST = 10001"
| "socket_code EVENT_PUSH_STARTED = 10002"
| "socket_code EVENT_PUSH_COMPLETED = 10003"
| "socket_code SOURCE_REQUIRED = 30000"
| "socket_code SOURCE_GITHUB = 30001"
| "socket_code SOURCE_FOLDER = 30002"
| "socket_code SOURCE_FILE = 30003"
| "socket_code SOURCE_FILE_DATA = 30004"
| "socket_code SOURCE_FILE_ACK = 30005"
| "socket_code SOURCE_GITURL = 30006"
| "socket_code SOURCE_WAIT_ACK = 30007"
| "socket_code OVERRIDES_REQUIRED = 50000"
| "socket_code OVERRIDES_SUPPLIED = 50001"

definition socket_events :: "SocketEventTypes list" where
  "socket_events =
     [DATA, MANIFEST, CLOSE_SUCCESS, APP_GUID_NOTIFY, CLOSE_PUSH_ERROR, CLOSE_NO_MANIFEST, CLOSE_INVALID_MANIFEST,
      CLOSE_FAILED_CLONE, CLOSE_FAILED_NO_BRANCH, CLOSE_FAILURE, CLOSE_NO_SESSION, CLOSE_NO_CNSI, CLOSE_NO_CNSI_USERTOKEN,
      EVENT_CLONED, EVENT_FETCHED_MANIFEST, EVENT_PUSH_STARTED, EVENT_PUSH_COMPLETED, SOURCE_REQUIRED, SOURCE_GITHUB,
      SOURCE_FOLDER, SOURCE_FILE, SOURCE_FILE_DATA, SOURCE_FILE_ACK, SOURCE_GITURL, SOURCE_WAIT_ACK, OVERRIDES_REQUIRED,
      OVERRIDES_SUPPLIED]"

definition socket_event :: "int \<Rightarrow> SocketEventTypes option" where
  "socket_event n = find (\<lambda>e. socket_code e = n) socket_events"

lemma socket_event_code [simp]: "socket_event (socket_code e) = Some e"
  by (cases e) (simp_all add: socket_event_def socket_events_def)

text \<open>What the browser sends, text or binary, and what it gets: the object in the text of the message.\<close>

datatype Frame = TextFrame SocketEventTypes js | BinaryFrame string

record Log =
  lg_type :: int
  lg_message :: string

datatype Incoming = NotJson | FalsyJson | LogMessage Log

subsection \<open>The deployer\<close>

record DeployApplicationDeployerStatus =
  st_error :: js
  st_errorMsg :: "string option"
  st_deploying :: bool

record FileTransferStatus =
  ft_totalFiles :: nat
  ft_filesSent :: nat
  ft_bytesSent :: int
  ft_totalBytes :: int
  ft_fileName :: string

record DeployApplicationDeployer =
  dd_streamTitle :: string
  dd_appData :: js
  dd_target :: "CloudFoundryDetails option"
  dd_applicationSource :: "DeployApplicationSource option"
  dd_applicationOverrides :: js
  dd_status :: DeployApplicationDeployerStatus
  dd_applicationGuid :: "string option"
  dd_messages :: "string list"
  dd_deploying :: bool
  dd_isOpen :: bool
  dd_anyReady :: bool
  dd_connecting :: bool
  dd_updating :: bool
  dd_listening :: bool
  dd_streamUrl :: string
  dd_fsFileInfo :: "DeployApplicationFSScanner option"
  dd_fileTransfers :: "(string \<times> SourceFile) list option"
  dd_fileTransferStatus :: "FileTransferStatus option"
  dd_currentFileTransfer :: "SourceFile option"
  dd_reading :: "SourceFile list"
  dd_outbox :: "Frame list"

definition newDeployer :: DeployApplicationDeployer where
  "newDeployer =
     \<lparr>dd_streamTitle = ''Preparing...'', dd_appData = JUndef, dd_target = None, dd_applicationSource = None,
      dd_applicationOverrides = JUndef,
      dd_status = \<lparr>st_error = JBool False, st_errorMsg = None, st_deploying = False\<rparr>, dd_applicationGuid = None,
      dd_messages = [], dd_deploying = False, dd_isOpen = False, dd_anyReady = False, dd_connecting = False,
      dd_updating = False, dd_listening = False, dd_streamUrl = [], dd_fsFileInfo = None, dd_fileTransfers = None,
      dd_fileTransferStatus = None, dd_currentFileTransfer = None, dd_reading = [], dd_outbox = []\<rparr>"

definition updateStatus :: "js \<Rightarrow> string option \<Rightarrow> DeployApplicationDeployer \<Rightarrow> DeployApplicationDeployer" where
  "updateStatus err errorMsg d =
     d\<lparr>dd_status := \<lparr>st_error = err, st_errorMsg = errorMsg, st_deploying = dd_deploying d\<rparr>\<rparr>"

definition close :: "DeployApplicationDeployer \<Rightarrow> DeployApplicationDeployer" where
  "close d = d\<lparr>dd_listening := False, dd_connecting := False, dd_updating := False, dd_isOpen := False,
     dd_currentFileTransfer := None\<rparr>"

text \<open>\<open>open\<close> subscribes to the store; the first state that is ready connects, every such state sets the overrides.\<close>

definition open_deployer :: "DeployApplicationDeployer \<Rightarrow> DeployApplicationDeployer" where
  "open_deployer d =
     (if dd_isOpen d then d
      else d\<lparr>dd_anyReady := (dd_fsFileInfo d \<noteq> None), dd_isOpen := True, dd_connecting := True, dd_updating := True\<rparr>)"

definition is_ready :: "bool \<Rightarrow> DeployApplicationState \<Rightarrow> bool" where
  "is_ready anyReady app \<longleftrightarrow> da_cloudFoundryDetails app \<noteq> None
     \<and> (anyReady \<or> (case da_applicationSource app of None \<Rightarrow> False
          | Some src \<Rightarrow> truthy (as_projectName src) \<and> truthy (da_applicationOverrides app)))"

definition stream_url :: "string \<Rightarrow> string \<Rightarrow> CloudFoundryDetails \<Rightarrow> string \<Rightarrow> string \<Rightarrow> string" where
  "stream_url host proxyAPIVersion cf orgName spaceName =
     ''wss://'' @ host @ ''/pp/'' @ proxyAPIVersion @ ''/'' @ cd_cloudFoundry cf @ ''/'' @ cd_org cf @ ''/'' @ cd_space cf
     @ ''/deploy?org='' @ orgName @ ''&space='' @ spaceName"

definition store_emits :: "string \<Rightarrow> string \<Rightarrow> (string \<Rightarrow> string) \<Rightarrow> (string \<Rightarrow> string) \<Rightarrow> DeployApplicationState
    \<Rightarrow> DeployApplicationDeployer \<Rightarrow> DeployApplicationDeployer" where
  "store_emits host proxyAPIVersion orgName spaceName app d =
     (if \<not> is_ready (dd_anyReady d) app then d
      else
        let cf = the (da_cloudFoundryDetails app);
            d1 = (if dd_connecting d
              then d\<lparr>dd_connecting := False, dd_target := Some cf, dd_applicationSource := da_applicationSource app,
                dd_applicationOverrides := da_applicationOverrides app,
                dd_streamUrl := stream_url host proxyAPIVersion cf (orgName (cd_org cf)) (spaceName (cd_space cf)),
                dd_outbox := [], dd_listening := True\<rparr>
              else d)
        in if dd_updating d1 then d1\<lparr>dd_applicationOverrides := da_applicationOverrides app\<rparr> else d1)"

definition send :: "Frame \<Rightarrow> DeployApplicationDeployer \<Rightarrow> DeployApplicationDeployer" where
  "send frame d = d\<lparr>dd_outbox := dd_outbox d @ [frame]\<rparr>"

definition deploy :: "DeployApplicationDeployer \<Rightarrow> DeployApplicationDeployer" where
  "deploy d = send (TextFrame SOURCE_WAIT_ACK (JStr '''')) d"

definition sendAppOverride :: "js \<Rightarrow> Frame" where
  "sendAppOverride appOverrides = TextFrame OVERRIDES_SUPPLIED appOverrides"

definition branch_name :: "DeployApplicationSource \<Rightarrow> js result" where
  "branch_name src = js_prop (as_branch src) ''name''"

definition sendGitHubSourceMetadata :: "DeployApplicationSource \<Rightarrow> Frame result" where
  "sendGitHubSourceMetadata src =
     res_bind (branch_name src) (\<lambda>branch. Inr (TextFrame SOURCE_GITHUB
       (JObj [(''project'', as_projectName src), (''branch'', branch), (''type'', JStr (ty_id (the (as_type src)))), (''commit'', as_commit src)])))"

definition sendGitUrlSourceMetadata :: "DeployApplicationSource \<Rightarrow> Frame result" where
  "sendGitUrlSourceMetadata src =
     res_bind (branch_name src) (\<lambda>branch. Inr (TextFrame SOURCE_GITURL
       (JObj [(''url'', as_projectName src), (''branch'', branch), (''type'', JStr (ty_id (the (as_type src))))])))"

text \<open>The files with their full paths, and the folders, in the order of the tree.\<close>

definition child_path :: "string \<Rightarrow> string \<Rightarrow> string" where
  "child_path base name = (if base \<noteq> [] then base @ ''/'' @ name else name)"

fun collectFoldersAndFiles :: "(string \<times> SourceFile) list \<times> string list \<Rightarrow> string \<Rightarrow> FileScannerFolderContext
    \<Rightarrow> (string \<times> SourceFile) list \<times> string list" where
  "collectFoldersAndFiles (files, folders) base (Folder fs subs) =
     fold (\<lambda>(name, sub) (files, folders).
         collectFoldersAndFiles (files, folders @ [child_path base name]) (child_path base name) sub)
       subs (files @ map (\<lambda>f. (child_path base (fl_name f), f)) fs, folders)"

definition sendLocalSourceMetadata :: "DeployApplicationDeployer \<Rightarrow> (DeployApplicationDeployer \<times> Frame) result" where
  "sendLocalSourceMetadata d =
     (case dd_fsFileInfo d of
        None \<Rightarrow> Inl TypeError
      | Some info \<Rightarrow>
          (case collectFoldersAndFiles ([], []) [] (sc_root info) of (files, folders) \<Rightarrow>
             Inr (d\<lparr>dd_fileTransfers := Some files,
                  dd_fileTransferStatus := Some \<lparr>ft_totalFiles = length files, ft_filesSent = 0, ft_bytesSent = 0,
                    ft_totalBytes = sc_total info, ft_fileName = []\<rparr>\<rparr>,
               TextFrame SOURCE_FOLDER (JObj [(''files'', JNum (int (length files))), (''folders'', JArr (map JStr folders)),
                 (''type'', JStr ''filefolder''), (''wait'', JBool True)]))))"

text \<open>\<open>None\<close> is the empty string of an unknown type of source.\<close>

definition sendProjectInfo :: "DeployApplicationDeployer \<Rightarrow> (DeployApplicationDeployer \<times> Frame option) result" where
  "sendProjectInfo d =
     (case dd_applicationSource d of
        None \<Rightarrow> Inl TypeError
      | Some src \<Rightarrow>
          (case as_type src of
             None \<Rightarrow> Inl TypeError
           | Some sourceType \<Rightarrow>
               let t = ty_id sourceType in
               if t = ''github'' then res_bind (sendGitHubSourceMetadata src) (\<lambda>f. Inr (d, Some f))
               else if t = ''giturl'' then res_bind (sendGitUrlSourceMetadata src) (\<lambda>f. Inr (d, Some f))
               else if t = ''file'' \<or> t = ''folder''
               then res_bind (sendLocalSourceMetadata d) (\<lambda>(d', f). Inr (d', Some f))
               else Inr (d, None)))"

definition onClose :: "string \<Rightarrow> string option \<Rightarrow> string option \<Rightarrow> DeployApplicationDeployer \<Rightarrow> DeployApplicationDeployer" where
  "onClose message title err d =
     updateStatus (case err of None \<Rightarrow> JNull | Some e \<Rightarrow> JStr e)
       (case err of None \<Rightarrow> None | Some e \<Rightarrow> Some (e @ newline @ ''Reason: '' @ message))
       (d\<lparr>dd_streamTitle := (case title of None \<Rightarrow> dd_streamTitle d | Some t \<Rightarrow> t), dd_deploying := False\<rparr>)"

text \<open>The next file, once the one before was acknowledged; and the end of reading a file.\<close>

definition count_sent :: "SourceFile \<Rightarrow> FileTransferStatus \<Rightarrow> FileTransferStatus" where
  "count_sent f s = s\<lparr>ft_bytesSent := ft_bytesSent s + fl_size f, ft_filesSent := ft_filesSent s + 1\<rparr>"

definition sendNextFile :: "DeployApplicationDeployer \<Rightarrow> DeployApplicationDeployer result" where
  "sendNextFile d =
     (let d1 = (case dd_currentFileTransfer d of None \<Rightarrow> d
          | Some f \<Rightarrow> d\<lparr>dd_fileTransferStatus := map_option (count_sent f) (dd_fileTransferStatus d)\<rparr>)
      in case dd_fileTransfers d1 of
           None \<Rightarrow> Inl TypeError
         | Some [] \<Rightarrow> Inr d1
         | Some ((fullPath, f) # rest) \<Rightarrow>
             Inr (send (TextFrame SOURCE_FILE (JStr fullPath)) (d1\<lparr>dd_fileTransfers := Some rest,
               dd_fileTransferStatus := map_option (\<lambda>s. s\<lparr>ft_fileName := fullPath\<rparr>) (dd_fileTransferStatus d1),
               dd_reading := dd_reading d1 @ [f]\<rparr>)))"

definition fileLoaded :: "SourceFile \<Rightarrow> DeployApplicationDeployer \<Rightarrow> DeployApplicationDeployer" where
  "fileLoaded f d =
     send (BinaryFrame (fl_data f)) (d\<lparr>dd_reading := remove1 f (dd_reading d), dd_currentFileTransfer := Some f\<rparr>)"

text \<open>An exception leaves the state as the code left it, with the subscription gone.\<close>

definition stop_listening :: "DeployApplicationDeployer \<Rightarrow> DeployApplicationDeployer" where
  "stop_listening d = d\<lparr>dd_listening := False\<rparr>"

definition manifest_app :: "(string \<Rightarrow> js option) \<Rightarrow> string \<Rightarrow> js result" where
  "manifest_app json message =
     (case json message of None \<Rightarrow> Inl (ThrownError ''SyntaxError'')
      | Some v \<Rightarrow> res_bind (js_prop v ''Applications'') (\<lambda>apps. js_prop apps ''0''))"

fun close_title :: "SocketEventTypes \<Rightarrow> (string option \<times> string option) option" where
  "close_title CLOSE_SUCCESS = Some (None, None)"
| "close_title CLOSE_INVALID_MANIFEST = Some (Some ''Deploy Failed - Invalid manifest!'',
     Some ''Failed to deploy app! Please make sure that a valid manifest.yaml was provided!'')"
| "close_title CLOSE_NO_MANIFEST = Some (Some ''Deploy Failed - No manifest present!'',
     Some ''Failed to deploy app! Please make sure that a valid manifest.yaml is present!'')"
| "close_title CLOSE_FAILED_CLONE = Some (Some ''Deploy Failed - Failed to clone repository!'',
     Some ''Failed to deploy app! Please make sure the repository is public!'')"
| "close_title CLOSE_FAILED_NO_BRANCH = Some (Some ''Deploy Failed - Failed to located branch!'',
     Some ''Failed to deploy app! Please make sure that branch exists!'')"
| "close_title e =
     (if e \<in> {CLOSE_FAILURE, CLOSE_PUSH_ERROR, CLOSE_NO_SESSION, CLOSE_NO_CNSI, CLOSE_NO_CNSI_USERTOKEN}
      then Some (Some ''Deploy Failed!'', Some ''Failed to deploy app!'') else None)"

definition processWebSocketMessage :: "(string \<Rightarrow> js option) \<Rightarrow> Log \<Rightarrow> DeployApplicationDeployer \<Rightarrow> DeployApplicationDeployer" where
  "processWebSocketMessage json l d =
     (case socket_event (lg_type l) of
        None \<Rightarrow> d
      | Some event \<Rightarrow>
          (case close_title event of
             Some (title, err) \<Rightarrow> onClose (lg_message l) title err d
           | None \<Rightarrow>
               (case event of
                  MANIFEST \<Rightarrow>
                    (let d1 = d\<lparr>dd_streamTitle := ''Starting deployment...''\<rparr> in
                     case manifest_app json (lg_message l) of
                       Inl e \<Rightarrow> stop_listening d1 | Inr app \<Rightarrow> d1\<lparr>dd_appData := app\<rparr>)
                | APP_GUID_NOTIFY \<Rightarrow> d\<lparr>dd_applicationGuid := Some (lg_message l)\<rparr>
                | EVENT_PUSH_STARTED \<Rightarrow>
                    updateStatus (JBool False) None (d\<lparr>dd_streamTitle := ''Deploying...'', dd_deploying := True\<rparr>)
                | EVENT_PUSH_COMPLETED \<Rightarrow>
                    updateStatus (JBool False) None (d\<lparr>dd_streamTitle := ''Deployed'', dd_deploying := False\<rparr>)
                | SOURCE_REQUIRED \<Rightarrow>
                    (case sendProjectInfo d of
                       Inl e \<Rightarrow> stop_listening d
                     | Inr (d1, Some frame) \<Rightarrow> send frame d1
                     | Inr (d1, None) \<Rightarrow> onClose (lg_message l) (Some ''Deploy Failed - Unknown source type'')
                         (Some ''Failed to deploy the app - unknown source type'') d1)
                | OVERRIDES_REQUIRED \<Rightarrow> send (sendAppOverride (dd_applicationOverrides d)) d
                | SOURCE_FILE_ACK \<Rightarrow> (case sendNextFile d of Inl e \<Rightarrow> stop_listening d | Inr d1 \<Rightarrow> d1)
                | _ \<Rightarrow> d)))"

definition on_message :: "(string \<Rightarrow> js option) \<Rightarrow> Incoming \<Rightarrow> DeployApplicationDeployer \<Rightarrow> DeployApplicationDeployer" where
  "on_message json m d =
     (if \<not> dd_listening d then d
      else case m of
        NotJson \<Rightarrow> stop_listening d
      | FalsyJson \<Rightarrow> d
      | LogMessage l \<Rightarrow>
          if lg_type l \<noteq> socket_code DATA then processWebSocketMessage json l d
          else d\<lparr>dd_messages := dd_messages d @ [lg_message l]\<rparr>)"

text \<open>\<open>valid$\<close> of the step that uploads the source.\<close>

definition upload_valid :: "DeployApplicationDeployer \<Rightarrow> bool" where
  "upload_valid d \<longleftrightarrow> (case dd_fileTransferStatus d of None \<Rightarrow> False | Some s \<Rightarrow> ft_filesSent s = ft_totalFiles s)"

subsection \<open>The backend's side: getFolderSource of deploy.go\<close>

text \<open>
  The description of the source, the folders to make, and then one file after the other, each asked for and the last one
  acknowledged; with \<open>wait\<close> the push starts on a further message. Making a folder fails when it is there or its parent
  is not, writing a file when its folder is not. The unpacking of a single archive with its errors (after the last file) and other
  errors of the file system are not modelled; a path sent twice is listed twice where the code overwrites the file.
\<close>

datatype UploadPhase = WantSource | WantFile | WantData string | WantGo | UploadDone | UploadFailed

record FolderUpload =
  up_phase :: UploadPhase
  up_transfers :: nat
  up_wait :: bool
  up_folders :: "string list"
  up_files :: "(string \<times> string) list"

definition newUpload :: FolderUpload where
  "newUpload = \<lparr>up_phase = WantSource, up_transfers = 0, up_wait = False, up_folders = [], up_files = []\<rparr>"

definition parent_made :: "string list \<Rightarrow> string \<Rightarrow> bool" where
  "parent_made folders path \<longleftrightarrow> (let parts = split_on (CHR ''/'') path in
     length parts \<le> 1 \<or> join_with ''/'' (butlast parts) \<in> set folders)"

fun make_folders :: "string list \<Rightarrow> string list \<Rightarrow> string list option" where
  "make_folders made [] = Some made"
| "make_folders made (folder # folders) =
     (if folder \<in> set made \<or> \<not> parent_made made folder then None else make_folders (made @ [folder]) folders)"

fun folder_names :: "js list \<Rightarrow> string list option" where
  "folder_names [] = Some []"
| "folder_names (JStr s # vs) = map_option ((#) s) (folder_names vs)"
| "folder_names (_ # vs) = None"

definition FolderSourceInfo :: "js \<Rightarrow> (nat \<times> string list \<times> bool) option" where
  "FolderSourceInfo info =
     (case (js_field info ''files'', js_field info ''folders'', js_field info ''wait'') of
        (JNum n, JArr vs, JBool b) \<Rightarrow> map_option (\<lambda>folders. (nat n, folders, b)) (folder_names vs)
      | _ \<Rightarrow> None)"

definition fail_upload :: "FolderUpload \<Rightarrow> FolderUpload \<times> SocketEventTypes list" where
  "fail_upload u = (u\<lparr>up_phase := UploadFailed\<rparr>, [])"

definition files_done :: "bool \<Rightarrow> UploadPhase" where
  "files_done wait = (if wait then WantGo else UploadDone)"

definition getFolderSource :: "FolderUpload \<Rightarrow> Frame \<Rightarrow> FolderUpload \<times> SocketEventTypes list" where
  "getFolderSource u frame =
     (case up_phase u of
        WantSource \<Rightarrow>
          (case frame of
             TextFrame e info \<Rightarrow>
               (if e \<noteq> SOURCE_FOLDER then fail_upload u
                else case FolderSourceInfo info of
                  None \<Rightarrow> fail_upload u
                | Some (n, folders, wait) \<Rightarrow>
                    (case make_folders [] folders of
                       None \<Rightarrow> fail_upload u
                     | Some made \<Rightarrow>
                         (u\<lparr>up_phase := (if n > 0 then WantFile else files_done wait), up_transfers := n, up_wait := wait,
                            up_folders := made\<rparr>, if n > 0 then [SOURCE_FILE_ACK] else [])))
           | BinaryFrame data \<Rightarrow> fail_upload u)
      | WantFile \<Rightarrow>
          (case frame of
             TextFrame e (JStr path) \<Rightarrow> if e = SOURCE_FILE then (u\<lparr>up_phase := WantData path\<rparr>, []) else fail_upload u
           | _ \<Rightarrow> fail_upload u)
      | WantData path \<Rightarrow>
          (case frame of
             BinaryFrame data \<Rightarrow>
               if parent_made (up_folders u) path
               then (u\<lparr>up_files := up_files u @ [(path, data)], up_transfers := up_transfers u - 1,
                       up_phase := (if up_transfers u - 1 = 0 then files_done (up_wait u) else WantFile)\<rparr>, [SOURCE_FILE_ACK])
               else fail_upload u
           | TextFrame e m \<Rightarrow> fail_upload u)
      | WantGo \<Rightarrow>
          (case frame of
             TextFrame e m \<Rightarrow> if e = SOURCE_WAIT_ACK then (u\<lparr>up_phase := UploadDone\<rparr>, []) else fail_upload u
           | BinaryFrame data \<Rightarrow> fail_upload u)
      | _ \<Rightarrow> (u, []))"

subsection \<open>Both sides and the connection between them\<close>

record UploadSystem =
  sy_client :: DeployApplicationDeployer
  sy_server :: FolderUpload
  sy_down :: "Incoming list"
  sy_deployed :: bool

definition event_message :: "SocketEventTypes \<Rightarrow> Incoming" where
  "event_message e = LogMessage \<lparr>lg_type = socket_code e, lg_message = ''''\<rparr>"

inductive upload_step :: "(string \<Rightarrow> js option) \<Rightarrow> UploadSystem \<Rightarrow> UploadSystem \<Rightarrow> bool" for json where
  to_server: "dd_outbox (sy_client s) = frame # rest \<Longrightarrow> getFolderSource (sy_server s) frame = (u, events) \<Longrightarrow>
    upload_step json s (s\<lparr>sy_client := (sy_client s)\<lparr>dd_outbox := rest\<rparr>, sy_server := u,
      sy_down := sy_down s @ map event_message events\<rparr>)"
| to_client: "sy_down s = m # ms \<Longrightarrow>
    upload_step json s (s\<lparr>sy_client := on_message json m (sy_client s), sy_down := ms\<rparr>)"
| file_read: "f \<in> set (dd_reading (sy_client s)) \<Longrightarrow>
    upload_step json s (s\<lparr>sy_client := fileLoaded f (sy_client s)\<rparr>)"
| user_deploys: "upload_valid (sy_client s) \<Longrightarrow> \<not> sy_deployed s \<Longrightarrow>
    upload_step json s (s\<lparr>sy_client := deploy (sy_client s), sy_deployed := True\<rparr>)"

text \<open>
  The backend has just asked for the source. A deployer has a source when it is connected and was given files, and no
  file of it was read last, which is how a new deployer is and how \<open>close\<close> leaves one; \<open>close\<close> also leaves the status of
  an earlier transfer and the readers of its files. It has files to send when, besides, its step is not valid by such a
  status and no such reader is at work.
\<close>

definition start_upload :: "DeployApplicationDeployer \<Rightarrow> UploadSystem" where
  "start_upload c = \<lparr>sy_client = c, sy_server = newUpload, sy_down = [event_message SOURCE_REQUIRED], sy_deployed = False\<rparr>"

definition has_source :: "DeployApplicationFSScanner \<Rightarrow> DeployApplicationDeployer \<Rightarrow> bool" where
  "has_source info c \<longleftrightarrow> dd_listening c \<and> dd_fsFileInfo c = Some info
     \<and> (\<exists>src. dd_applicationSource c = Some src \<and> map_option ty_id (as_type src) \<in> {Some ''file'', Some ''folder''})
     \<and> dd_currentFileTransfer c = None \<and> dd_outbox c = []"

definition has_files :: "DeployApplicationFSScanner \<Rightarrow> DeployApplicationDeployer \<Rightarrow> bool" where
  "has_files info c \<longleftrightarrow> has_source info c \<and> \<not> upload_valid c \<and> dd_reading c = []"

subsection \<open>The description of a tree\<close>

definition good_part :: "string \<Rightarrow> bool" where
  "good_part n \<longleftrightarrow> n \<noteq> [] \<and> CHR ''/'' \<notin> set n"

text \<open>A tree as the scanner makes it: every folder once, and no name with a slash or without characters.\<close>

definition good_tree :: "FileScannerFolderContext \<Rightarrow> bool" where
  "good_tree t \<longleftrightarrow> distinct (folder_paths t) \<and> (\<forall>p \<in> set (folder_paths t). list_all good_part p)
     \<and> (\<forall>(p, f) \<in> set (entries t). list_all good_part p \<and> good_part (fl_name f))"

abbreviation file_path :: "string list \<times> SourceFile \<Rightarrow> string" where
  "file_path e \<equiv> join_with ''/'' (fst e @ [fl_name (snd e)])"

lemma collect_below:
  "collectFoldersAndFiles (files, folders) base t =
    (files @ map (\<lambda>(p, f). (child_path (foldl child_path base p) (fl_name f), f)) (entries t),
     folders @ map (foldl child_path base) (folder_paths t))"
proof (induction t arbitrary: files folders base)
  case (Folder fs subs)
  have "fold (\<lambda>(name, sub) (files, folders).
         collectFoldersAndFiles (files, folders @ [child_path base name]) (child_path base name) sub) subs (files, folders) =
    (files @ concat (map (\<lambda>(name, sub). map (\<lambda>(p, f). (child_path (foldl child_path (child_path base name) p) (fl_name f), f)) (entries sub)) subs),
     folders @ concat (map (\<lambda>(name, sub). map (foldl child_path base) ([name] # map ((#) name) (folder_paths sub))) subs))"
    for files folders
    using Folder.IH
  proof (induction subs arbitrary: files folders)
    case (Cons x subs)
    obtain name sub where x: "x = (name, sub)" by fastforce
    have "sub \<in> Basic_BNFs.snds x" by (simp add: x)
    note step = Cons.prems[of x sub, OF _ this]
    note rest = Cons.IH[OF Cons.prems[OF list.set_intros(2)]]
    show ?case unfolding x by (simp add: step rest x o_def)
  qed simp
  then show ?case by (simp add: map_concat o_def split_def)
qed

lemma foldl_child: "list_all good_part p \<Longrightarrow> p \<noteq> [] \<Longrightarrow> foldl child_path [] p = join_with ''/'' p"
proof (induction p rule: rev_induct)
  case (snoc n p)
  show ?case
  proof (cases "p = []")
    case False
    with snoc have "foldl child_path [] p = join_with ''/'' p" by simp
    moreover have "join_with ''/'' p \<noteq> []"
      using snoc.prems(1) False by (cases p) (auto simp: join_with_def good_part_def)
    moreover have "join_with ''/'' (p @ [n]) = join_with ''/'' p @ ''/'' @ n"
      using False by (cases p) (simp_all add: join_with_def)
    ultimately show ?thesis by (simp add: child_path_def[of "join_with ''/'' p" n])
  qed (simp add: child_path_def)
qed simp

lemma child_of_parts: "list_all good_part p \<Longrightarrow> good_part n \<Longrightarrow> child_path (foldl child_path [] p) n = join_with ''/'' (p @ [n])"
  using foldl_child[of "p @ [n]"] by simp

lemma collect_good:
  assumes "good_tree t"
  shows "collectFoldersAndFiles ([], []) [] t =
    (map (\<lambda>e. (file_path e, snd e)) (entries t), map (join_with ''/'') (folder_paths t))"
proof -
  have "p \<noteq> []" if "p \<in> set (folder_paths t)" for p using no_empty_path that by metis
  with assms show ?thesis
    by (auto simp: collect_below good_tree_def child_of_parts foldl_child intro!: map_cong)
qed

lemma split_join: "ps \<noteq> [] \<Longrightarrow> list_all (\<lambda>s. c \<notin> set s) ps \<Longrightarrow> split_on c (join_with [c] ps) = ps"
proof (induction ps rule: induct_list012)
  case (2 s)
  then show ?case by (induction s) auto
next
  case (3 s t ps)
  from 3(3,4) have "split_on c (s @ c # join_with [c] (t # ps)) = s # split_on c (join_with [c] (t # ps))"
    by (induction s) auto
  with 3 show ?case by simp
qed simp

lemma split_path: "list_all good_part p \<Longrightarrow> p \<noteq> [] \<Longrightarrow> split_on (CHR ''/'') (join_with ''/'' p) = p"
  by (rule split_join) (auto simp: good_part_def list_all_iff)

text \<open>Parents come before their folders, so the backend can make all folders.\<close>

fun parents_first :: "string list set \<Rightarrow> string list list \<Rightarrow> bool" where
  "parents_first made [] = True"
| "parents_first made (p # ps) = ((butlast p = [] \<or> butlast p \<in> made) \<and> parents_first (insert p made) ps)"

lemma parents_first_append:
  "parents_first made (ps @ qs) \<longleftrightarrow> parents_first made ps \<and> parents_first (made \<union> set ps) qs"
  by (induction ps arbitrary: made) (auto simp: Un_insert_right[symmetric] simp del: Un_insert_right)

lemma parents_first_mono: "parents_first made ps \<Longrightarrow> made \<subseteq> made' \<Longrightarrow> parents_first made' ps"
proof (induction ps arbitrary: made made')
  case (Cons p ps)
  from Cons.IH[of "insert p made" "insert p made'"] Cons.prems show ?case by auto
qed simp

lemma parents_first_below:
  "parents_first made ps \<Longrightarrow> [] \<notin> set ps \<Longrightarrow> [n] \<in> made' \<Longrightarrow> (#) n ` made \<subseteq> made' \<Longrightarrow> parents_first made' (map ((#) n) ps)"
proof (induction ps arbitrary: made made')
  case (Cons p ps)
  from Cons.IH[of "insert p made" "insert (n # p) made'"] Cons.prems show ?case by auto
qed simp

lemma folder_paths_parents: "parents_first {} (folder_paths t)"
proof (induction t)
  case (Folder fs subs)
  have "parents_first made (paths_below subs)" for made
    using Folder
  proof (induction subs arbitrary: made)
    case (Cons x subs)
    obtain name sub where x: "x = (name, sub)" by fastforce
    have sub: "sub \<in> Basic_BNFs.snds x" by (simp add: x)
    then have "parents_first {} (folder_paths sub)" using Cons.prems[of x sub] by simp
    then have "parents_first {[name]} (map ((#) name) (folder_paths sub))"
      using no_empty_path[of sub] by (intro parents_first_below[of "{}"]) auto
    then show ?case
      using Cons.IH[OF Cons.prems[OF list.set_intros(2)]] by (auto simp: x parents_first_append intro: parents_first_mono)
  qed simp
  then show ?case by simp
qed

lemma entries_folders: "(p, f) \<in> set (entries t) \<Longrightarrow> p = [] \<or> p \<in> set (folder_paths t)"
proof (induction t arbitrary: p)
  case (Folder fs subs)
  show ?case
  proof (cases p)
    case (Cons n q)
    with Folder.prems obtain sub where "(n, sub) \<in> set subs" "(q, f) \<in> set (entries sub)" by auto
    with Folder.IH[of "(n, sub)" sub q] Cons show ?thesis by force
  qed simp
qed

lemma parent_made_path:
  assumes "list_all good_part p" "p \<noteq> []"
  shows "parent_made made (join_with ''/'' p) \<longleftrightarrow> butlast p = [] \<or> join_with ''/'' (butlast p) \<in> set made"
  using split_path[OF assms] assms(2) by (cases p rule: rev_cases) (auto simp: parent_made_def Let_def)

lemma join_inj: "list_all good_part p \<Longrightarrow> list_all good_part q \<Longrightarrow> p \<noteq> [] \<Longrightarrow> q \<noteq> []
    \<Longrightarrow> join_with ''/'' p = join_with ''/'' q \<longleftrightarrow> p = q"
  using split_path by metis

lemma make_folders_paths:
  assumes "parents_first (set made) ps" "distinct (made @ ps)" "\<forall>p \<in> set (made @ ps). list_all good_part p \<and> p \<noteq> []"
  shows "make_folders (map (join_with ''/'') made) (map (join_with ''/'') ps) = Some (map (join_with ''/'') (made @ ps))"
  using assms
proof (induction ps arbitrary: made)
  case (Cons p ps)
  have p: "list_all good_part p" "p \<noteq> []" using Cons.prems(3) by auto
  have "join_with ''/'' p \<notin> set (map (join_with ''/'') made)"
    using Cons.prems(2,3) p by (auto simp: join_inj)
  moreover have "parent_made (map (join_with ''/'') made) (join_with ''/'' p)"
    using Cons.prems(1) p by (auto simp: parent_made_path)
  ultimately show ?case using Cons.IH[of "made @ [p]"] Cons.prems by simp
qed simp

lemma make_folders_tree:
  assumes "good_tree t"
  shows "make_folders [] (map (join_with ''/'') (folder_paths t)) = Some (map (join_with ''/'') (folder_paths t))"
  using make_folders_paths[of "[]" "folder_paths t"] folder_paths_parents[of t] assms no_empty_path[of t]
  by (auto simp: good_tree_def)

subsection \<open>The stages of an upload\<close>

definition transfers :: "DeployApplicationFSScanner \<Rightarrow> (string \<times> SourceFile) list" where
  "transfers info = map (\<lambda>e. (file_path e, snd e)) (entries (sc_root info))"

abbreviation folder_names_of :: "DeployApplicationFSScanner \<Rightarrow> string list" where
  "folder_names_of info \<equiv> map (join_with ''/'') (folder_paths (sc_root info))"

abbreviation written :: "string \<times> SourceFile \<Rightarrow> string \<times> string" where
  "written e \<equiv> (fst e, fl_data (snd e))"

abbreviation bytes :: "(string \<times> SourceFile) list \<Rightarrow> int" where
  "bytes T \<equiv> sum_list (map (\<lambda>e. fl_size (snd e)) T)"

text \<open>
  The backend asked; the client described the source; \<open>k\<close> files were received and the last one was acknowledged; the
  name of a file was sent and its data are being read; the data were sent (the flag: the name has not been received
  yet); all files were acknowledged; the push may start.
\<close>

datatype stage = Asked | Described | Acked nat | Named nat bool | Sent nat bool | Finished | Started

definition client_at :: "DeployApplicationFSScanner \<Rightarrow> nat \<Rightarrow> nat \<Rightarrow> nat \<Rightarrow> SourceFile list \<Rightarrow> Frame list
    \<Rightarrow> DeployApplicationDeployer \<Rightarrow> bool" where
  "client_at info counted current taken reading outbox c \<longleftrightarrow>
     dd_listening c \<and> dd_reading c = reading \<and> dd_outbox c = outbox
     \<and> dd_fileTransfers c = Some (drop taken (transfers info))
     \<and> dd_currentFileTransfer c = (if current = 0 then None else Some (snd (transfers info ! (current - 1))))
     \<and> (\<exists>name. dd_fileTransferStatus c = Some \<lparr>ft_totalFiles = length (transfers info), ft_filesSent = counted,
          ft_bytesSent = bytes (take counted (transfers info)), ft_totalBytes = sc_total info, ft_fileName = name\<rparr>)"

definition server_at :: "DeployApplicationFSScanner \<Rightarrow> nat \<Rightarrow> UploadPhase \<Rightarrow> FolderUpload \<Rightarrow> bool" where
  "server_at info k phase u \<longleftrightarrow>
     up_phase u = phase \<and> up_files u = map written (take k (transfers info))
     \<and> up_transfers u = length (transfers info) - k \<and> up_wait u \<and> up_folders u = folder_names_of info"

definition describe_frame :: "DeployApplicationFSScanner \<Rightarrow> Frame" where
  "describe_frame info = TextFrame SOURCE_FOLDER (JObj [(''files'', JNum (int (length (transfers info)))),
     (''folders'', JArr (map JStr (folder_names_of info))), (''type'', JStr ''filefolder''), (''wait'', JBool True)])"

definition name_frame :: "DeployApplicationFSScanner \<Rightarrow> nat \<Rightarrow> Frame" where
  "name_frame info k = TextFrame SOURCE_FILE (JStr (fst (transfers info ! k)))"

definition data_frame :: "DeployApplicationFSScanner \<Rightarrow> nat \<Rightarrow> Frame" where
  "data_frame info k = BinaryFrame (fl_data (snd (transfers info ! k)))"

definition go_frames :: "UploadSystem \<Rightarrow> Frame list" where
  "go_frames s = (if sy_deployed s then [TextFrame SOURCE_WAIT_ACK (JStr '''')] else [])"

lemma go_frames_upd [simp]:
  "go_frames (s\<lparr>sy_client := c\<rparr>) = go_frames s" "go_frames (s\<lparr>sy_server := u\<rparr>) = go_frames s"
  "go_frames (s\<lparr>sy_down := ms\<rparr>) = go_frames s"
  by (simp_all add: go_frames_def)

abbreviation name_frames :: "DeployApplicationFSScanner \<Rightarrow> nat \<Rightarrow> bool \<Rightarrow> Frame list" where
  "name_frames info k waiting \<equiv> if waiting then [name_frame info k] else []"

abbreviation name_phase :: "DeployApplicationFSScanner \<Rightarrow> nat \<Rightarrow> bool \<Rightarrow> UploadPhase" where
  "name_phase info k waiting \<equiv> if waiting then WantFile else WantData (fst (transfers info ! k))"

fun stage_at :: "DeployApplicationFSScanner \<Rightarrow> stage \<Rightarrow> UploadSystem \<Rightarrow> bool" where
  "stage_at info Asked s \<longleftrightarrow> has_files info (sy_client s) \<and> sy_server s = newUpload
     \<and> sy_down s = [event_message SOURCE_REQUIRED] \<and> \<not> sy_deployed s"
| "stage_at info Described s \<longleftrightarrow> client_at info 0 0 0 [] (describe_frame info # go_frames s) (sy_client s)
     \<and> sy_server s = newUpload \<and> sy_down s = [] \<and> (sy_deployed s \<longrightarrow> transfers info = [])"
| "stage_at info (Acked k) s \<longleftrightarrow> k \<le> length (transfers info) \<and> transfers info \<noteq> []
     \<and> client_at info (k - 1) k k [] [] (sy_client s)
     \<and> server_at info k (if k = length (transfers info) then WantGo else WantFile) (sy_server s)
     \<and> sy_down s = [event_message SOURCE_FILE_ACK] \<and> \<not> sy_deployed s"
| "stage_at info (Named k waiting) s \<longleftrightarrow> k < length (transfers info)
     \<and> client_at info k k (k + 1) [snd (transfers info ! k)] (name_frames info k waiting) (sy_client s)
     \<and> server_at info k (name_phase info k waiting) (sy_server s) \<and> sy_down s = [] \<and> \<not> sy_deployed s"
| "stage_at info (Sent k waiting) s \<longleftrightarrow> k < length (transfers info)
     \<and> client_at info k (k + 1) (k + 1) [] (name_frames info k waiting @ [data_frame info k]) (sy_client s)
     \<and> server_at info k (name_phase info k waiting) (sy_server s) \<and> sy_down s = [] \<and> \<not> sy_deployed s"
| "stage_at info Finished s \<longleftrightarrow>
     client_at info (length (transfers info)) (length (transfers info)) (length (transfers info)) [] (go_frames s) (sy_client s)
     \<and> server_at info (length (transfers info)) WantGo (sy_server s) \<and> sy_down s = []"
| "stage_at info Started s \<longleftrightarrow>
     client_at info (length (transfers info)) (length (transfers info)) (length (transfers info)) [] [] (sy_client s)
     \<and> server_at info (length (transfers info)) UploadDone (sy_server s) \<and> sy_down s = [] \<and> sy_deployed s"

text \<open>The steps a stage is away from the end at most.\<close>

fun stage_rank :: "nat \<Rightarrow> stage \<Rightarrow> nat" where
  "stage_rank n Asked = 4 * n + 5"
| "stage_rank n Described = 4 * n + 4"
| "stage_rank n (Acked k) = 4 * (n - k) + 3"
| "stage_rank n (Named k waiting) = 4 * (n - k) + (if waiting then 2 else 1)"
| "stage_rank n (Sent k waiting) = 4 * (n - k) + (if waiting then 1 else 0)"
| "stage_rank n Finished = 2"
| "stage_rank n Started = 0"

definition system_rank :: "nat \<Rightarrow> stage \<Rightarrow> UploadSystem \<Rightarrow> nat" where
  "system_rank n st s = stage_rank n st + (if sy_deployed s then 0 else 1)"

inductive_cases upload_stepE: "upload_step json s t"

lemma socket_events_of [simp]:
  "socket_event 30000 = Some SOURCE_REQUIRED" "socket_event 30005 = Some SOURCE_FILE_ACK"
  using socket_event_code[of SOURCE_REQUIRED] socket_event_code[of SOURCE_FILE_ACK] by simp_all

lemma ack_received:
  "dd_listening c \<Longrightarrow> on_message json (event_message SOURCE_FILE_ACK) c =
    (case sendNextFile c of Inl e \<Rightarrow> stop_listening c | Inr d \<Rightarrow> d)"
  by (simp add: on_message_def event_message_def processWebSocketMessage_def)

lemma asked_received:
  assumes "has_files info c" "good_tree (sc_root info)"
  shows "client_at info 0 0 0 [] [describe_frame info] (on_message json (event_message SOURCE_REQUIRED) c)"
  using assms collect_good[OF assms(2)]
  by (auto simp: has_files_def has_source_def on_message_def event_message_def processWebSocketMessage_def sendProjectInfo_def
      sendLocalSourceMetadata_def client_at_def send_def describe_frame_def o_def transfers_def)

lemma folder_names_strings: "folder_names (map (JStr \<circ> f) xs) = Some (map f xs)"
  by (induction xs) simp_all

lemma described_received:
  assumes "good_tree (sc_root info)"
  shows "getFolderSource newUpload (describe_frame info) = (u, events) \<Longrightarrow>
    server_at info 0 (if transfers info = [] then WantGo else WantFile) u
    \<and> events = (if transfers info = [] then [] else [SOURCE_FILE_ACK])"
proof -
  have "FolderSourceInfo (JObj [(''files'', JNum (int (length (transfers info)))),
      (''folders'', JArr (map JStr (folder_names_of info))), (''type'', JStr ''filefolder''), (''wait'', JBool True)])
    = Some (length (transfers info), folder_names_of info, True)"
    by (simp add: FolderSourceInfo_def folder_names_strings)
  with make_folders_tree[OF assms] have "getFolderSource newUpload (describe_frame info) =
    (newUpload\<lparr>up_phase := (if length (transfers info) > 0 then WantFile else files_done True),
       up_transfers := length (transfers info), up_wait := True, up_folders := folder_names_of info\<rparr>,
     if length (transfers info) > 0 then [SOURCE_FILE_ACK] else [])"
    unfolding getFolderSource_def describe_frame_def newUpload_def by simp
  moreover assume "getFolderSource newUpload (describe_frame info) = (u, events)"
  ultimately show ?thesis by (auto simp: server_at_def newUpload_def files_done_def)
qed

lemma name_received:
  assumes "server_at info k WantFile u"
  shows "getFolderSource u (name_frame info k) = (u\<lparr>up_phase := WantData (fst (transfers info ! k))\<rparr>, [])"
  using assms by (simp add: server_at_def getFolderSource_def name_frame_def)

lemma data_received:
  assumes "server_at info k (WantData (fst (transfers info ! k))) u" "k < length (transfers info)" "good_tree (sc_root info)"
    and "getFolderSource u (data_frame info k) = (u', events)"
  shows "server_at info (k + 1) (if k + 1 = length (transfers info) then WantGo else WantFile) u' \<and> events = [SOURCE_FILE_ACK]"
proof -
  obtain p f where e: "entries (sc_root info) ! k = (p, f)" by fastforce
  have "k < length (entries (sc_root info))" using assms(2) by (simp add: transfers_def)
  from nth_mem[OF this] e have mem: "(p, f) \<in> set (entries (sc_root info))" by simp
  with assms(3) have good: "list_all good_part (p @ [fl_name f])" by (auto simp: good_tree_def)
  have "parent_made (folder_names_of info) (fst (transfers info ! k))"
    using entries_folders[OF mem] parent_made_path[OF good] assms(2) e by (auto simp: transfers_def)
  moreover have "map written (take (Suc k) (transfers info)) = map written (take k (transfers info)) @ [written (transfers info ! k)]"
    using assms(2) by (simp add: take_Suc_conv_app_nth)
  ultimately show ?thesis
    using assms by (auto simp: server_at_def getFolderSource_def data_frame_def files_done_def)
qed

lemma next_file:
  assumes "client_at info (k - 1) k k [] [] c" "k \<le> length (transfers info)"
  shows "\<exists>d. sendNextFile c = Inr d \<and>
    (if k = length (transfers info) then client_at info k k k [] [] d
     else client_at info k k (k + 1) [snd (transfers info ! k)] [name_frame info k] d)"
proof -
  have counted: "bytes (take (k - 1) (transfers info)) + fl_size (snd (transfers info ! (k - 1))) = bytes (take k (transfers info))"
    if "k \<noteq> 0" using that assms(2) by (cases k) (simp_all add: take_Suc_conv_app_nth)
  show ?thesis
  proof (cases "k = length (transfers info)")
    case True
    with assms counted show ?thesis
      by (auto simp: client_at_def sendNextFile_def Let_def count_sent_def split: option.splits)
  next
    case False
    with assms(2) have "k < length (transfers info)" by simp
    from Cons_nth_drop_Suc[OF this, symmetric]
    have "drop k (transfers info) = transfers info ! k # drop (k + 1) (transfers info)" by (simp only: Suc_eq_plus1)
    with assms counted False show ?thesis
      by (cases "transfers info ! k") (auto simp: client_at_def sendNextFile_def Let_def count_sent_def send_def name_frame_def split: option.splits)
  qed
qed

lemma file_loaded:
  assumes "client_at info k k (k + 1) [snd (transfers info ! k)] out c"
  shows "client_at info k (k + 1) (k + 1) [] (out @ [data_frame info k]) (fileLoaded (snd (transfers info ! k)) c)"
  using assms by (auto simp: client_at_def fileLoaded_def send_def data_frame_def)

lemma client_outbox: "client_at info n m t r out c \<Longrightarrow> client_at info n m t r out' (c\<lparr>dd_outbox := out'\<rparr>)"
  by (auto simp: client_at_def)

lemma client_fields: "client_at info n m t r out c \<Longrightarrow>
    dd_listening c \<and> dd_reading c = r \<and> dd_outbox c = out \<and> (upload_valid c \<longleftrightarrow> n = length (transfers info))"
  by (auto simp: client_at_def upload_valid_def)

lemma stage_step:
  assumes good: "good_tree (sc_root info)" and at: "stage_at info st s" and step: "upload_step json s t"
  shows "\<exists>st'. stage_at info st' t \<and> system_rank (length (transfers info)) st' t < system_rank (length (transfers info)) st s"
proof (cases st)
  case Asked
  with at step have "t = s\<lparr>sy_client := on_message json (event_message SOURCE_REQUIRED) (sy_client s), sy_down := []\<rparr>"
    by (auto elim!: upload_stepE simp: has_files_def has_source_def upload_valid_def)
  with at Asked asked_received[OF _ good] have "stage_at info Described t"
    by (auto simp: go_frames_def)
  moreover have "system_rank (length (transfers info)) Described t < system_rank (length (transfers info)) st s"
    using Asked at \<open>t = _\<close> by (auto simp: system_rank_def)
  ultimately show ?thesis by blast
next
  case Described
  have c: "client_at info 0 0 0 [] (describe_frame info # go_frames s) (sy_client s)" using at Described by simp
  note fields = client_fields[OF this]
  from step show ?thesis
  proof (cases rule: upload_stepE[consumes 1, case_names to_server to_client file_read user_deploys])
    case (to_server frame rest u events)
    with fields have "frame = describe_frame info" "rest = go_frames s" by auto
    with to_server at Described described_received[OF good, of u events]
    have u: "server_at info 0 (if transfers info = [] then WantGo else WantFile) u"
      "events = (if transfers info = [] then [] else [SOURCE_FILE_ACK])" by auto
    show ?thesis
    proof (cases "transfers info = []")
      case True
      with to_server(1) u at Described \<open>rest = _\<close> have "stage_at info Finished t"
        by (auto simp: go_frames_def intro: client_outbox)
      moreover have "system_rank (length (transfers info)) Finished t < system_rank (length (transfers info)) st s"
        using Described to_server(1) by (auto simp: system_rank_def)
      ultimately show ?thesis by blast
    next
      case False
      with to_server(1) u at Described \<open>rest = _\<close> have "stage_at info (Acked 0) t"
        by (auto simp: go_frames_def intro: client_outbox)
      moreover have "system_rank (length (transfers info)) (Acked 0) t < system_rank (length (transfers info)) st s"
        using Described to_server(1) by (simp add: system_rank_def)
      ultimately show ?thesis by blast
    qed
  next
    case user_deploys
    with at Described fields have "stage_at info Described t"
      by (auto simp: deploy_def send_def go_frames_def intro: client_outbox)
    moreover have "system_rank (length (transfers info)) Described t < system_rank (length (transfers info)) st s"
      using Described user_deploys by (auto simp: system_rank_def)
    ultimately show ?thesis by blast
  qed (use at Described fields in auto)
next
  case (Acked k)
  have c: "client_at info (k - 1) k k [] [] (sy_client s)" and k: "k \<le> length (transfers info)" "transfers info \<noteq> []"
    using at Acked by simp_all
  note fields = client_fields[OF c]
  have "k - 1 < length (transfers info)" using k by (cases k) auto
  then have "\<not> upload_valid (sy_client s)" using fields by simp
  with fields at Acked step have t: "t = s\<lparr>sy_client := on_message json (event_message SOURCE_FILE_ACK) (sy_client s), sy_down := []\<rparr>"
    by (auto elim!: upload_stepE)
  obtain d where d: "sendNextFile (sy_client s) = Inr d"
    "if k = length (transfers info) then client_at info k k k [] [] d
     else client_at info k k (k + 1) [snd (transfers info ! k)] [name_frame info k] d"
    using next_file[OF c k(1)] by auto
  show ?thesis
  proof (cases "k = length (transfers info)")
    case True
    with d t fields at Acked have "stage_at info Finished t" by (simp add: ack_received go_frames_def)
    moreover have "system_rank (length (transfers info)) Finished t < system_rank (length (transfers info)) st s"
      using Acked t at by (auto simp: system_rank_def)
    ultimately show ?thesis by blast
  next
    case False
    with d t fields at Acked have "stage_at info (Named k True) t" by (simp add: ack_received)
    moreover have "system_rank (length (transfers info)) (Named k True) t < system_rank (length (transfers info)) st s"
      using Acked t at by (auto simp: system_rank_def)
    ultimately show ?thesis by blast
  qed
next
  case (Named k waiting)
  have c: "client_at info k k (k + 1) [snd (transfers info ! k)] (name_frames info k waiting) (sy_client s)"
    using at Named by simp
  note fields = client_fields[OF this]
  from step show ?thesis
  proof (cases rule: upload_stepE[consumes 1, case_names to_server to_client file_read user_deploys])
    case (to_server frame rest u events)
    with fields have waiting: "waiting" "frame = name_frame info k" "rest = []" by (auto split: if_splits)
    with to_server at Named name_received[of info k "sy_server s"] have "stage_at info (Named k False) t"
      by (auto simp: server_at_def intro: client_outbox)
    moreover have "system_rank (length (transfers info)) (Named k False) t < system_rank (length (transfers info)) st s"
      using Named to_server(1) waiting by (auto simp: system_rank_def)
    ultimately show ?thesis by blast
  next
    case (file_read f)
    with fields have "f = snd (transfers info ! k)" by simp
    with file_read file_loaded[OF c] at Named have "stage_at info (Sent k waiting) t" by simp
    moreover have "system_rank (length (transfers info)) (Sent k waiting) t < system_rank (length (transfers info)) st s"
      using Named file_read(1) by (auto simp: system_rank_def)
    ultimately show ?thesis by blast
  qed (use at Named fields in auto)
next
  case (Sent k waiting)
  have c: "client_at info k (k + 1) (k + 1) [] (name_frames info k waiting @ [data_frame info k]) (sy_client s)"
    using at Sent by simp
  note fields = client_fields[OF this]
  from step show ?thesis
  proof (cases rule: upload_stepE[consumes 1, case_names to_server to_client file_read user_deploys])
    case (to_server frame rest u events)
    show ?thesis
    proof (cases waiting)
      case True
      with fields to_server have "frame = name_frame info k" "rest = [data_frame info k]" by auto
      with to_server at Sent True name_received[of info k "sy_server s"] have "stage_at info (Sent k False) t"
        by (auto simp: server_at_def intro: client_outbox)
      moreover have "system_rank (length (transfers info)) (Sent k False) t < system_rank (length (transfers info)) st s"
        using Sent to_server(1) True by (auto simp: system_rank_def)
      ultimately show ?thesis by blast
    next
      case False
      with fields to_server have frame: "frame = data_frame info k" "rest = []" by auto
      have server: "server_at info k (WantData (fst (transfers info ! k))) (sy_server s)" "k < length (transfers info)"
        using at Sent False by simp_all
      from data_received[OF server good, of u events] to_server(3) frame
      have u: "server_at info (k + 1) (if k + 1 = length (transfers info) then WantGo else WantFile) u" "events = [SOURCE_FILE_ACK]"
        by simp_all
      have "transfers info \<noteq> []" using server(2) by auto
      with to_server(1) u frame at Sent False server(2) have "stage_at info (Acked (k + 1)) t"
        by (auto intro: client_outbox)
      moreover have "system_rank (length (transfers info)) (Acked (k + 1)) t < system_rank (length (transfers info)) st s"
        using Sent to_server(1) False server(2) by (auto simp: system_rank_def)
      ultimately show ?thesis by blast
    qed
  qed (use at Sent fields in auto)
next
  case Finished
  have c: "client_at info (length (transfers info)) (length (transfers info)) (length (transfers info)) [] (go_frames s) (sy_client s)"
    using at Finished by simp
  note fields = client_fields[OF this]
  from step show ?thesis
  proof (cases rule: upload_stepE[consumes 1, case_names to_server to_client file_read user_deploys])
    case (to_server frame rest u events)
    with fields have go: "sy_deployed s" "frame = TextFrame SOURCE_WAIT_ACK (JStr '''')" "rest = []"
      by (auto simp: go_frames_def split: if_splits)
    with to_server at Finished have "stage_at info Started t"
      by (auto simp: server_at_def getFolderSource_def intro: client_outbox)
    moreover have "system_rank (length (transfers info)) Started t < system_rank (length (transfers info)) st s"
      using Finished to_server(1) go by (auto simp: system_rank_def)
    ultimately show ?thesis by blast
  next
    case user_deploys
    with at Finished fields have "stage_at info Finished t"
      by (auto simp: deploy_def send_def go_frames_def intro: client_outbox)
    moreover have "system_rank (length (transfers info)) Finished t < system_rank (length (transfers info)) st s"
      using Finished user_deploys by (auto simp: system_rank_def)
    ultimately show ?thesis by blast
  qed (use at Finished fields in auto)
next
  case Started
  have c: "client_at info (length (transfers info)) (length (transfers info)) (length (transfers info)) [] [] (sy_client s)"
    using at Started by simp
  note fields = client_fields[OF this]
  from step at Started fields show ?thesis by (auto elim!: upload_stepE)
qed

lemma stage_progress:
  assumes "stage_at info st s" "st \<noteq> Started"
  shows "\<exists>t. upload_step json s t"
proof -
  have sends: "\<exists>t. upload_step json s t" if "dd_outbox (sy_client s) = frame # rest" for frame rest
    using to_server[OF that] by (metis surj_pair)
  show ?thesis
  proof (cases st)
    case Asked
    with assms(1) show ?thesis by (auto intro: to_client)
  next
    case Described
    with assms(1) client_fields[of info 0 0 0 "[]" _ "sy_client s"] show ?thesis by (auto intro: sends)
  next
    case (Acked k)
    with assms(1) show ?thesis by (auto intro: to_client)
  next
    case (Named k waiting)
    with assms(1) client_fields show ?thesis by (fastforce intro: file_read)
  next
    case (Sent k waiting)
    with assms(1) client_fields[of info k _ _ _ _ "sy_client s"] show ?thesis
      by (cases waiting) (auto intro: sends)
  next
    case Finished
    with assms(1) have c: "client_at info (length (transfers info)) (length (transfers info)) (length (transfers info)) [] (go_frames s) (sy_client s)"
      by simp
    show ?thesis
    proof (cases "sy_deployed s")
      case True
      with client_fields[OF c] show ?thesis by (auto simp: go_frames_def intro: sends)
    next
      case False
      with client_fields[OF c] show ?thesis by (blast intro: user_deploys)
    qed
  qed (use assms(2) in simp)
qed

lemma stages_reached:
  assumes "good_tree (sc_root info)" "has_files info c" "(upload_step json ^^ m) (start_upload c) s"
  shows "\<exists>st. stage_at info st s \<and> system_rank (length (transfers info)) st s + m \<le> 4 * length (transfers info) + 6"
  using assms(3)
proof (induction m arbitrary: s)
  case 0
  then have "s = start_upload c" by simp
  with assms(2) show ?case by (intro exI[of _ Asked]) (simp add: start_upload_def system_rank_def)
next
  case (Suc m)
  then obtain r where r: "(upload_step json ^^ m) (start_upload c) r" "upload_step json r s" by auto
  from Suc.IH[OF r(1)] obtain st where st: "stage_at info st r"
    "system_rank (length (transfers info)) st r + m \<le> 4 * length (transfers info) + 6" by auto
  from stage_step[OF assms(1) st(1) r(2)] st(2) show ?case by fastforce
qed

lemma stage_counts:
  assumes "stage_at info st s" "st \<noteq> Asked"
  shows "\<exists>n m t r out k. client_at info n m t r out (sy_client s) \<and> up_phase (sy_server s) \<noteq> UploadFailed
    \<and> up_files (sy_server s) = map written (take k (transfers info)) \<and> n \<le> k"
proof (cases st)
  case Described
  with assms have "client_at info 0 0 0 [] (describe_frame info # go_frames s) (sy_client s)" "sy_server s = newUpload" by simp_all
  then show ?thesis by (intro exI[of _ 0] exI conjI) (auto simp: newUpload_def)
next
  case (Acked k)
  with assms(1) have "client_at info (k - 1) k k [] [] (sy_client s)" "up_phase (sy_server s) \<noteq> UploadFailed"
    "up_files (sy_server s) = map written (take k (transfers info))" by (auto simp: server_at_def)
  moreover have "k - 1 \<le> k" by simp
  ultimately show ?thesis by blast
next
  case (Named k waiting)
  with assms(1) have "client_at info k k (k + 1) [snd (transfers info ! k)] (name_frames info k waiting) (sy_client s)"
    "up_phase (sy_server s) \<noteq> UploadFailed" "up_files (sy_server s) = map written (take k (transfers info))"
    by (auto simp: server_at_def)
  then show ?thesis by blast
next
  case (Sent k waiting)
  with assms(1) have "client_at info k (k + 1) (k + 1) [] (name_frames info k waiting @ [data_frame info k]) (sy_client s)"
    "up_phase (sy_server s) \<noteq> UploadFailed" "up_files (sy_server s) = map written (take k (transfers info))"
    by (auto simp: server_at_def)
  then show ?thesis by blast
next
  case Finished
  with assms(1) have "client_at info (length (transfers info)) (length (transfers info)) (length (transfers info)) [] (go_frames s) (sy_client s)"
    "up_phase (sy_server s) \<noteq> UploadFailed" "up_files (sy_server s) = map written (take (length (transfers info)) (transfers info))"
    by (auto simp: server_at_def)
  then show ?thesis by blast
next
  case Started
  with assms(1) have "client_at info (length (transfers info)) (length (transfers info)) (length (transfers info)) [] [] (sy_client s)"
    "up_phase (sy_server s) \<noteq> UploadFailed" "up_files (sy_server s) = map written (take (length (transfers info)) (transfers info))"
    by (auto simp: server_at_def)
  then show ?thesis by blast
qed (use assms(2) in simp)

lemma stage_safe:
  assumes "stage_at info st s"
  shows "up_phase (sy_server s) \<noteq> UploadFailed
    \<and> (\<exists>k. up_files (sy_server s) = map written (take k (transfers info)))
    \<and> (upload_valid (sy_client s) \<longrightarrow> up_files (sy_server s) = map written (transfers info))"
proof (cases "st = Asked")
  case True
  with assms show ?thesis by (auto simp: has_files_def has_source_def newUpload_def upload_valid_def intro: exI[of _ 0])
next
  case False
  from stage_counts[OF assms this] obtain n m t r out k where c: "client_at info n m t r out (sy_client s)"
    and s: "up_phase (sy_server s) \<noteq> UploadFailed" "up_files (sy_server s) = map written (take k (transfers info))" "n \<le> k"
    by blast
  with client_fields[OF c] show ?thesis by auto
qed

text \<open>What an earlier upload left behind lets the backend meet a message it does not expect: a click, or its last file.\<close>

lemma leftover_fails:
  assumes "has_source info c" and "upload_valid c \<or> dd_reading c \<noteq> []"
  shows "\<exists>s. (upload_step json)\<^sup>*\<^sup>* (start_upload c) s \<and> up_phase (sy_server s) = UploadFailed"
proof -
  have fails: "\<exists>s'. (upload_step json)\<^sup>*\<^sup>* (start_upload c) s' \<and> up_phase (sy_server s') = UploadFailed"
    if step: "upload_step json (start_upload c) s" and out: "dd_outbox (sy_client s) = [frame]" and server: "sy_server s = newUpload"
      and frame: "fst (getFolderSource newUpload frame) = newUpload\<lparr>up_phase := UploadFailed\<rparr>" for s frame
  proof -
    obtain u events where u: "getFolderSource newUpload frame = (u, events)" by force
    let ?t = "s\<lparr>sy_client := (sy_client s)\<lparr>dd_outbox := []\<rparr>, sy_server := u, sy_down := sy_down s @ map event_message events\<rparr>"
    have "upload_step json s ?t" by (rule to_server[OF out]) (simp add: server u)
    with step have "(upload_step json)\<^sup>*\<^sup>* (start_upload c) ?t" by (meson r_into_rtranclp rtranclp.rtrancl_into_rtrancl)
    moreover have "up_phase (sy_server ?t) = UploadFailed" using frame u by simp
    ultimately show ?thesis by blast
  qed
  have start: "sy_client (start_upload c) = c" "sy_server (start_upload c) = newUpload" "\<not> sy_deployed (start_upload c)"
    by (simp_all add: start_upload_def)
  have empty: "dd_outbox c = []" using assms(1) by (simp add: has_source_def)
  from assms(2) show ?thesis
  proof
    assume "upload_valid c"
    then have "upload_step json (start_upload c) ((start_upload c)\<lparr>sy_client := deploy c, sy_deployed := True\<rparr>)"
      using user_deploys[of "start_upload c" json] start by simp
    then show ?thesis
      by (rule fails[where frame = "TextFrame SOURCE_WAIT_ACK (JStr '''')"])
        (simp_all add: deploy_def send_def empty start getFolderSource_def newUpload_def fail_upload_def)
  next
    assume "dd_reading c \<noteq> []"
    then obtain f where f: "f \<in> set (dd_reading c)" by (meson list.set_sel(1))
    then have "upload_step json (start_upload c) ((start_upload c)\<lparr>sy_client := fileLoaded f c\<rparr>)"
      using file_read[of f "start_upload c" json] start by simp
    then show ?thesis
      by (rule fails[where frame = "BinaryFrame (fl_data f)"])
        (simp_all add: fileLoaded_def send_def empty start getFolderSource_def newUpload_def fail_upload_def)
  qed
qed

text \<open>
  C11: When an upload goes wrong. Take a tree as the scanner makes it and a deployer that was given it and has just been
  asked for it, new or used before and closed. However the messages of the two sides, the readings of the files and the
  user's click interleave, the backend can meet a message it does not expect, a folder it cannot make or a file without its
  folder exactly when an earlier upload left something behind: a transfer status with all files sent, which makes the
  step valid at once, so that the user can start the push before the source is described, or a reader still at work, whose
  file is sent before it. Otherwise the upload never goes wrong: what the backend has written is always the first files
  of the tree, each under its path and with its data, and the step is valid only when the backend has every file.
\<close>

theorem upload_never_fails:
  assumes "good_tree (sc_root info)" "has_source info c"
  shows "((\<exists>s. (upload_step json)\<^sup>*\<^sup>* (start_upload c) s \<and> up_phase (sy_server s) = UploadFailed)
        \<longleftrightarrow> upload_valid c \<or> dd_reading c \<noteq> [])
    \<and> (\<not> upload_valid c \<and> dd_reading c = [] \<longrightarrow> (\<forall>s. (upload_step json)\<^sup>*\<^sup>* (start_upload c) s \<longrightarrow>
        (\<exists>k. up_files (sy_server s) = map (\<lambda>e. (file_path e, fl_data (snd e))) (take k (entries (sc_root info))))
      \<and> (upload_valid (sy_client s) \<longrightarrow>
          up_files (sy_server s) = map (\<lambda>e. (file_path e, fl_data (snd e))) (entries (sc_root info)))))"
proof -
  have safe: "up_phase (sy_server s) \<noteq> UploadFailed
    \<and> (\<exists>k. up_files (sy_server s) = map (\<lambda>e. (file_path e, fl_data (snd e))) (take k (entries (sc_root info))))
    \<and> (upload_valid (sy_client s) \<longrightarrow>
        up_files (sy_server s) = map (\<lambda>e. (file_path e, fl_data (snd e))) (entries (sc_root info)))"
    if ready: "\<not> upload_valid c" "dd_reading c = []" and run: "(upload_step json)\<^sup>*\<^sup>* (start_upload c) s" for s
  proof -
    have "has_files info c" using assms(2) ready by (simp add: has_files_def)
    moreover obtain m where "(upload_step json ^^ m) (start_upload c) s" using run by (auto simp: rtranclp_power)
    ultimately obtain st where "stage_at info st s" using stages_reached[OF assms(1)] by blast
    from stage_safe[OF this] show ?thesis by (simp add: take_map o_def transfers_def)
  qed
  show ?thesis
  proof (intro conjI impI allI iffI)
    show "upload_valid c \<or> dd_reading c \<noteq> []"
      if "\<exists>s. (upload_step json)\<^sup>*\<^sup>* (start_upload c) s \<and> up_phase (sy_server s) = UploadFailed"
      using that safe by blast
  qed (use leftover_fails[OF assms(2)] safe in blast)+
qed


lemma bounded_run_ends:
  assumes "\<And>m s. (R ^^ m) a s \<Longrightarrow> m \<le> N"
  shows "\<exists>m s. (R ^^ m) a s \<and> (\<nexists>t. R s t)"
proof (rule ccontr)
  assume endless: "\<not> ?thesis"
  have "\<exists>s. (R ^^ m) a s" for m
  proof (induction m)
    case (Suc m)
    with endless show ?case by (metis relpowp_Suc_I)
  qed auto
  then obtain s where "(R ^^ Suc N) a s" by blast
  from assms[OF this] show False by simp
qed

definition example_tree :: DeployApplicationFSScanner where
  "example_tree = \<lparr>sc_filter = None, sc_rootFolderName = ''app'', sc_total = 5, sc_files = 2, sc_folders = 1,
     sc_excludes = [],
     sc_root = Folder [\<lparr>fl_name = ''manifest.yml'', fl_size = 2, fl_path = ''app/manifest.yml'', fl_data = ''ab''\<rparr>]
       [(''src'', Folder [\<lparr>fl_name = ''i.js'', fl_size = 3, fl_path = ''app/src/i.js'', fl_data = ''abc''\<rparr>] [])],
     sc_summaryType = FolderType, sc_summaryItem = None, sc_manifestFile = None, sc_cfIgnoreFile = None\<rparr>"

definition example_client :: "DeployApplicationFSScanner \<Rightarrow> DeployApplicationDeployer" where
  "example_client info = newDeployer\<lparr>dd_fsFileInfo := Some info, dd_listening := True, dd_isOpen := True,
     dd_applicationSource := Some (emptySource\<lparr>as_type := Some \<lparr>ty_name = ''Application Folder'', ty_id = ''folder''\<rparr>\<rparr>)\<rparr>"

lemma example_ready: "has_files info (example_client info)"
  by (simp add: has_files_def has_source_def upload_valid_def example_client_def newDeployer_def)

lemma example_good: "good_tree (sc_root example_tree)"
  by (simp add: good_tree_def example_tree_def good_part_def)

text \<open>The example is uploaded to its end; with the status of a completed transfer left over, it can fail.\<close>

lemma example_ends:
  "\<exists>s. (upload_step (\<lambda>_. None))\<^sup>*\<^sup>* (start_upload (example_client example_tree)) s \<and> upload_valid (sy_client s)"
proof -
  let ?a = "start_upload (example_client example_tree)"
  note reached = stages_reached[OF example_good example_ready, where json = "\<lambda>_. None"]
  have bound: "(upload_step (\<lambda>_. None) ^^ m) ?a s \<Longrightarrow> m \<le> 4 * length (transfers example_tree) + 6" for m s
    using reached by fastforce
  have "\<exists>m s. (upload_step (\<lambda>_. None) ^^ m) ?a s \<and> (\<nexists>t. upload_step (\<lambda>_. None) s t)"
    by (rule bounded_run_ends) (rule bound)
  then obtain m s where run: "(upload_step (\<lambda>_. None) ^^ m) ?a s" "\<nexists>t. upload_step (\<lambda>_. None) s t" by blast
  from reached[OF run(1)] obtain st where st: "stage_at example_tree st s" by auto
  with stage_progress[OF st] run(2) have "st = Started" by blast
  with st have "upload_valid (sy_client s)" by (auto simp: client_at_def upload_valid_def)
  then show ?thesis using relpowp_imp_rtranclp[OF run(1)] by blast
qed

lemma upload_never_fails_witness:
  "(\<exists>s. (upload_step (\<lambda>_. None))\<^sup>*\<^sup>* (start_upload (example_client example_tree)) s \<and> upload_valid (sy_client s)
      \<and> up_files (sy_server s) = [(''manifest.yml'', ''ab''), (''src/i.js'', ''abc'')] \<and> up_phase (sy_server s) \<noteq> UploadFailed)
    \<and> (\<exists>s. (upload_step (\<lambda>_. None))\<^sup>*\<^sup>* (start_upload ((example_client example_tree)\<lparr>dd_fileTransferStatus :=
          Some \<lparr>ft_totalFiles = 2, ft_filesSent = 2, ft_bytesSent = 5, ft_totalBytes = 5, ft_fileName = ''src/i.js''\<rparr>\<rparr>)) s
      \<and> up_phase (sy_server s) = UploadFailed)"
proof -
  let ?c = "example_client example_tree"
  let ?used = "?c\<lparr>dd_fileTransferStatus :=
          Some \<lparr>ft_totalFiles = 2, ft_filesSent = 2, ft_bytesSent = 5, ft_totalBytes = 5, ft_fileName = ''src/i.js''\<rparr>\<rparr>"
  have c: "has_source example_tree ?c" "\<not> upload_valid ?c" "dd_reading ?c = []"
    using example_ready[of example_tree] by (simp_all add: has_files_def)
  have used: "has_source example_tree ?used" using c(1) by (simp add: has_source_def)
  have valid: "upload_valid ?used" by (simp add: upload_valid_def)
  obtain s where s: "(upload_step (\<lambda>_. None))\<^sup>*\<^sup>* (start_upload ?c) s" "upload_valid (sy_client s)" using example_ends by blast
  have "up_files (sy_server s) = [(''manifest.yml'', ''ab''), (''src/i.js'', ''abc'')]"
    using upload_never_fails[OF example_good c(1), of "\<lambda>_. None"] c(2,3) s by (simp add: example_tree_def)
  moreover have "up_phase (sy_server s) \<noteq> UploadFailed"
    using upload_never_fails[OF example_good c(1), of "\<lambda>_. None"] c(2,3) s(1) by blast
  moreover have "\<exists>s. (upload_step (\<lambda>_. None))\<^sup>*\<^sup>* (start_upload ?used) s \<and> up_phase (sy_server s) = UploadFailed"
    using upload_never_fails[OF example_good used, of "\<lambda>_. None"] valid by blast
  ultimately show ?thesis using s by blast
qed


subsection \<open>From the files chosen to the files received\<close>



subsection \<open>The status of the push\<close>

lemma sendNextFile_keeps: "sendNextFile d = Inr d' \<Longrightarrow> dd_status d' = dd_status d \<and> dd_deploying d' = dd_deploying d"
  by (auto simp: sendNextFile_def send_def Let_def split: option.splits list.splits)

lemma sendLocalSourceMetadata_keeps:
  "sendLocalSourceMetadata d = Inr (d', frame) \<Longrightarrow> dd_status d' = dd_status d \<and> dd_deploying d' = dd_deploying d"
  by (auto simp: sendLocalSourceMetadata_def split: option.splits prod.splits)

lemma sendProjectInfo_keeps:
  assumes "sendProjectInfo d = Inr (d', frame)"
  shows "dd_status d' = dd_status d \<and> dd_deploying d' = dd_deploying d"
proof -
  have "d' = d \<or> (\<exists>f. sendLocalSourceMetadata d = Inr (d', f))"
    using assms by (simp add: sendProjectInfo_def Let_def res_bind_Inr_iff split: option.splits if_split_asm prod.splits) blast+
  with sendLocalSourceMetadata_keeps show ?thesis by blast
qed

lemma onClose_status [simp]:
  "st_deploying (dd_status (onClose message title err d)) = False" "dd_deploying (onClose message title err d) = False"
  by (simp_all add: onClose_def updateStatus_def)

fun deploying_after :: "SocketEventTypes option \<Rightarrow> bool \<Rightarrow> bool" where
  "deploying_after None before = before"
| "deploying_after (Some EVENT_PUSH_STARTED) before = True"
| "deploying_after (Some EVENT_PUSH_COMPLETED) before = False"
| "deploying_after (Some e) before = (before \<and> close_title e = None)"

text \<open>A source of an unknown kind closes the deployment too.\<close>

definition known_source :: "DeployApplicationDeployer \<Rightarrow> bool" where
  "known_source d \<longleftrightarrow> (\<forall>src t. dd_applicationSource d = Some src \<and> as_type src = Some t
     \<longrightarrow> ty_id t \<in> {''github'', ''giturl'', ''file'', ''folder''})"

lemma process_status:
  assumes "known_source d"
  shows "dd_deploying (processWebSocketMessage json l d) = deploying_after (socket_event (lg_type l)) (dd_deploying d)
    \<and> (st_deploying (dd_status d) = dd_deploying d \<longrightarrow>
        st_deploying (dd_status (processWebSocketMessage json l d)) = dd_deploying (processWebSocketMessage json l d))"
proof (cases "socket_event (lg_type l)")
  case (Some e)
  have source: "sendProjectInfo d \<noteq> Inr (d', None)" for d'
    using assms by (auto simp: sendProjectInfo_def Let_def known_source_def res_bind_Inr_iff split: option.splits if_splits)
  show ?thesis
  proof (cases e)
    case SOURCE_REQUIRED
    with Some source show ?thesis
      by (auto simp: processWebSocketMessage_def stop_listening_def send_def dest: sendProjectInfo_keeps split: sum.splits option.splits)
  next
    case SOURCE_FILE_ACK
    with Some show ?thesis
      by (auto simp: processWebSocketMessage_def stop_listening_def dest: sendNextFile_keeps split: sum.splits)
  qed (use Some in \<open>auto simp: processWebSocketMessage_def updateStatus_def stop_listening_def send_def Let_def split: sum.splits\<close>)
qed (simp add: processWebSocketMessage_def)

fun event_of :: "Incoming \<Rightarrow> SocketEventTypes option" where
  "event_of (LogMessage l) = socket_event (lg_type l)"
| "event_of _ = None"

lemma known_source_kept: "known_source (on_message json m d) = known_source d"
proof -
  have "dd_applicationSource (on_message json m d) = dd_applicationSource d"
  proof -
    have local: "sendLocalSourceMetadata d = Inr (d', f) \<Longrightarrow> dd_applicationSource d' = dd_applicationSource d" for d' f
      by (auto simp: sendLocalSourceMetadata_def split: option.splits prod.splits)
    have "sendProjectInfo d = Inr (d', f) \<Longrightarrow> d' = d \<or> (\<exists>f. sendLocalSourceMetadata d = Inr (d', f))" for d' f
      by (simp add: sendProjectInfo_def Let_def res_bind_Inr_iff split: option.splits if_split_asm prod.splits) blast+
    with local have project: "sendProjectInfo d = Inr (d', f) \<Longrightarrow> dd_applicationSource d' = dd_applicationSource d" for d' f by blast
    have next_file: "sendNextFile d = Inr d' \<Longrightarrow> dd_applicationSource d' = dd_applicationSource d" for d'
      by (auto simp: sendNextFile_def send_def Let_def split: option.splits list.splits)
    have closed: "dd_applicationSource (onClose x y z d') = dd_applicationSource d'" for x y z d'
      by (simp add: onClose_def updateStatus_def)
    have "dd_applicationSource (processWebSocketMessage json l d) = dd_applicationSource d" for l
    proof (cases "socket_event (lg_type l)")
      case (Some e)
      then show ?thesis
        by (cases e) (auto simp: processWebSocketMessage_def updateStatus_def stop_listening_def send_def closed Let_def
            dest: project next_file split: sum.splits option.splits)
    qed (simp add: processWebSocketMessage_def)
    then show ?thesis by (simp add: on_message_def stop_listening_def split: Incoming.split)
  qed
  then show ?thesis by (simp add: known_source_def)
qed

lemma on_message_status:
  assumes "known_source d"
  shows "(st_deploying (dd_status d) = dd_deploying d \<longrightarrow>
      st_deploying (dd_status (on_message json m d)) = dd_deploying (on_message json m d))
    \<and> (dd_listening d \<longrightarrow> dd_deploying (on_message json m d) = deploying_after (event_of m) (dd_deploying d))
    \<and> (\<not> dd_listening d \<longrightarrow> on_message json m d = d)"
proof (cases m)
  case (LogMessage l)
  show ?thesis
  proof (cases "lg_type l = socket_code DATA")
    case True
    then have "socket_event (lg_type l) = Some DATA" by (simp only: socket_event_code)
    with LogMessage True show ?thesis by (simp add: on_message_def)
  next
    case False
    with LogMessage process_status[OF assms, of json l] show ?thesis by (simp add: on_message_def)
  qed
qed (simp_all add: on_message_def stop_listening_def)

text \<open>
  C38: The status of a deployment follows the push. After any messages the status shown says \<open>deploying\<close> exactly
  when the deployer is deploying; and while the deployer still listens, that is exactly when the last event that starts,
  completes or closes the push is its start.
\<close>

theorem status_follows_push:
  assumes "known_source d" "st_deploying (dd_status d) = dd_deploying d"
  shows "st_deploying (dd_status (fold (on_message json) ms d)) = dd_deploying (fold (on_message json) ms d)
    \<and> (dd_listening (fold (on_message json) ms d) \<longrightarrow>
        dd_deploying (fold (on_message json) ms d) = fold deploying_after (map event_of ms) (dd_deploying d))"
proof -
  have dead: "fold (on_message json) ms d = d" if "\<not> dd_listening d" for ms d
    using that by (induction ms) (simp_all add: on_message_def)
  show ?thesis
    using assms
  proof (induction ms arbitrary: d)
    case (Cons m ms)
    note m = on_message_status[OF Cons.prems(1), of json m]
    show ?case
    proof (cases "dd_listening d")
      case True
      with m Cons.IH[of "on_message json m d"] Cons.prems known_source_kept show ?thesis by auto
    next
      case False
      then show ?thesis unfolding dead[OF False, of "m # ms"] using Cons.prems(2) by simp
    qed
  qed simp
qed

lemma status_follows_push_witness:
  "dd_deploying (fold (on_message (\<lambda>_. None)) (map event_message [EVENT_PUSH_STARTED, CLOSE_FAILURE, EVENT_PUSH_STARTED])
    (example_client example_tree))"
proof -
  let ?d = "example_client example_tree"
  let ?ms = "map event_message [EVENT_PUSH_STARTED, CLOSE_FAILURE, EVENT_PUSH_STARTED]"
  have "known_source ?d" "st_deploying (dd_status ?d) = dd_deploying ?d"
    by (simp_all add: known_source_def example_client_def newDeployer_def)
  from status_follows_push[OF this, of "\<lambda>_. None" ?ms]
  have "dd_listening (fold (on_message (\<lambda>_. None)) ?ms ?d) \<longrightarrow>
      dd_deploying (fold (on_message (\<lambda>_. None)) ?ms ?d) = fold deploying_after (map event_of ?ms) (dd_deploying ?d)" by blast
  moreover have "dd_listening (fold (on_message (\<lambda>_. None)) ?ms ?d)" by code_simp
  moreover have "map event_of ?ms = map Some [EVENT_PUSH_STARTED, CLOSE_FAILURE, EVENT_PUSH_STARTED]"
    by (simp add: event_message_def del: socket_code.simps)
  ultimately show ?thesis by simp
qed



end
