(* ===== verification/Endpoint_Effects.thy ===== *)
theory Endpoint_Effects
  imports Request_Slices
begin

section \<open>Requests about endpoints: store/effects/endpoint.effects.ts\<close>

text \<open>
  Connecting, disconnecting, registering, updating and unregistering an endpoint: each action starts a request, and its
  answer becomes the actions that tell the slices of the store how it ended. The theory composes the effect with the
  reducers that receive those actions. The HTTP exchange is an argument (\<open>EndpointReply\<close>); the text of a method turned
  into a string (\<open>method_text\<close>), which the engine and the minifier choose, is one too.
\<close>

subsection \<open>All endpoints\<close>

definition endpoint_entity :: "js \<Rightarrow> js" where
  "endpoint_entity endpointInfo =
     (let user = truthy (js_field endpointInfo ''user'') in
      js_with (js_with (js_spread (JObj []) endpointInfo) ''connectionStatus''
          (JStr (if user then ''connected'' else ''disconnected''))) ''registered'' (JBool user))"

definition add_endpoint :: "(string, js) obj \<times> string list \<Rightarrow> js \<Rightarrow> ((string, js) obj \<times> string list) result" where
  "add_endpoint mappedData endpointInfo =
     (case mappedData of (byGuid, guids) \<Rightarrow>
        res_bind (js_prop endpointInfo ''guid'') (\<lambda>guid.
          Inr (obj_set (js_key guid) (endpoint_entity endpointInfo) byGuid, guids @ [js_key guid])))"

definition add_type :: "js \<Rightarrow> (string, js) obj \<times> string list \<Rightarrow> string \<Rightarrow> ((string, js) obj \<times> string list) result" where
  "add_type endpoints mappedData type =
     (let endpointsForType = js_field endpoints type in
      res_bind (js_keys endpointsForType) (\<lambda>_. res_fold add_endpoint mappedData (obj_values (js_own endpointsForType))))"

definition getAllEndpoints :: "js \<Rightarrow> ApiAction \<Rightarrow> Action list result" where
  "getAllEndpoints payload associatedAction =
     res_bind (js_prop payload ''endpoints'') (\<lambda>endpoints.
     res_bind (js_keys endpoints) (\<lambda>types.
     res_bind (res_fold (add_type endpoints) ([], []) types) (\<lambda>(byGuid, guids).
       Inr [RequestA (WrapperRequestActionSuccess
              (Some \<lparr>nr_entities = Some [(''endpoint'', JObj byGuid)], nr_result = guids\<rparr>) associatedAction FetchType None None),
            OtherA ''[Endpoints] Get all success'' None None])))"

subsection \<open>The requests\<close>

datatype EndpointRequest =
    ConnectEndpoint (er_guid: string) (er_endpointType: string) (er_authType: string) "(string, js) obj" bool "string option"
  | DisconnectEndpoint string (er_endpointType: string)
  | UnregisterEndpoint string (er_endpointType: string) (er_name: string) string
  | UpdateregisterEndpoint (er_endpointType: string) (er_name: string) string string
  | RegisterEndpoint (er_endpointType: string) (er_name: string) string bool string string bool

record EndpointCall =
  ec_apiAction :: ApiAction
  ec_requestType :: ApiRequestTypes
  ec_url :: string
  ec_params :: "(string, js) obj"
  ec_success :: string
  ec_failed :: string
  ec_endpointType :: string
  ec_body :: "string option"
  ec_describes :: bool
  ec_task :: "(string \<times> (string, js) obj) option"

text \<open>
  \<open>getEndpointUpdateAction\<close> and \<open>getEndpointDeleteAction\<close>. The effects of unregistering and updating give
  \<open>action.guid\<close>, which for these classes is a method, so the guid of the request is the text of that method.
\<close>

definition getEndpointUpdateAction :: "string \<Rightarrow> string \<Rightarrow> string \<Rightarrow> ApiAction" where
  "getEndpointUpdateAction guid type updatingKey =
     (entity_action ''endpoint'' guid)\<lparr>aa_type := type, aa_updatingKey := Some updatingKey\<rparr>"

definition getEndpointDeleteAction :: "string \<Rightarrow> string \<Rightarrow> ApiAction" where
  "getEndpointDeleteAction guid type = (entity_action ''endpoint'' guid)\<lparr>aa_type := type\<rparr>"

definition bool_text :: "bool \<Rightarrow> js" where
  "bool_text b = JStr (if b then ''true'' else ''false'')"

text \<open>
  The call an action makes, \<open>None\<close> where it leaves the page for a single sign-on. Connecting and disconnecting pass
  \<open>null\<close> for the request type; with an updating key no reducer reads it.
\<close>

fun endpoint_call :: "string \<Rightarrow> EndpointRequest \<Rightarrow> EndpointCall option" where
  "endpoint_call method_text (ConnectEndpoint guid endpointType authType authValues systemShared body) =
     (if authType = ''sso'' then None
      else Some \<lparr>ec_apiAction = getEndpointUpdateAction guid CONNECT_ENDPOINTS ''connecting'', ec_requestType = UpdateType,
        ec_url = ''/pp/v1/auth/login/cnsi'',
        ec_params = obj_spread authValues [(''cnsi_guid'', JStr guid), (''connect_type'', JStr authType), (''system_shared'', JBool systemShared)],
        ec_success = CONNECT_ENDPOINTS_SUCCESS, ec_failed = CONNECT_ENDPOINTS_FAILED, ec_endpointType = endpointType,
        ec_body = body, ec_describes = False, ec_task = None\<rparr>)"
| "endpoint_call method_text (DisconnectEndpoint guid endpointType) =
     Some \<lparr>ec_apiAction = getEndpointUpdateAction guid DISCONNECT_ENDPOINTS ''disconnecting'', ec_requestType = UpdateType,
       ec_url = ''/pp/v1/auth/logout/cnsi'', ec_params = [(''cnsi_guid'', JStr guid)],
       ec_success = DISCONNECT_ENDPOINTS_SUCCESS, ec_failed = DISCONNECT_ENDPOINTS_FAILED, ec_endpointType = endpointType,
       ec_body = None, ec_describes = False, ec_task = None\<rparr>"
| "endpoint_call method_text (UnregisterEndpoint guid1 endpointType name taskID) =
     Some \<lparr>ec_apiAction = getEndpointDeleteAction method_text UNREGISTER_ENDPOINTS, ec_requestType = DeleteType,
       ec_url = ''/pp/v1/unregister'', ec_params = [],
       ec_success = UNREGISTER_ENDPOINTS_SUCCESS, ec_failed = UNREGISTER_ENDPOINTS_FAILED, ec_endpointType = endpointType,
       ec_body = None, ec_describes = False,
       ec_task = Some (''/pp/v1/delete'', [(''taskname'', JStr name), (''taskID'', JStr taskID)])\<rparr>"
| "endpoint_call method_text (UpdateregisterEndpoint endpointType name taskID replica) =
     Some \<lparr>ec_apiAction = getEndpointDeleteAction method_text UPDATEREGISTER_ENDPOINTS, ec_requestType = DeleteType,
       ec_url = ''/pp/v1/unregister'', ec_params = [],
       ec_success = UNREGISTER_ENDPOINTS_SUCCESS, ec_failed = UNREGISTER_ENDPOINTS_FAILED, ec_endpointType = endpointType,
       ec_body = None, ec_describes = False,
       ec_task = Some (''/pp/v1/update'', [(''taskname'', JStr name), (''taskID'', JStr taskID)])\<rparr>"
| "endpoint_call method_text (RegisterEndpoint endpointType name endpoint skipSslValidation clientID clientSecret ssoAllowed) =
     Some \<lparr>ec_apiAction = getEndpointUpdateAction (''<New Endpoint>'' @ name) REGISTER_ENDPOINTS ''registering'', ec_requestType = CreateType,
       ec_url = ''/pp/v1/register/'' @ endpointType,
       ec_params = [(''cnsi_name'', JStr name), (''api_endpoint'', JStr endpoint),
         (''skip_ssl_validation'', bool_text skipSslValidation), (''cnsi_client_id'', JStr clientID),
         (''cnsi_client_secret'', JStr clientSecret), (''sso_allowed'', bool_text ssoAllowed)],
       ec_success = REGISTER_ENDPOINTS_SUCCESS, ec_failed = REGISTER_ENDPOINTS_FAILED, ec_endpointType = endpointType,
       ec_body = None, ec_describes = True,
       ec_task = Some (''/pp/v1/create'', [(''datacenter'', JStr ''datacenter_1''), (''taskname'', JStr name),
         (''type'', JStr endpointType), (''replica'', JStr ''1'')])\<rparr>"

subsection \<open>The answer\<close>

text \<open>The endpoint the backend sends, or an error: its status and what \<open>e.error\<close> is.\<close>

datatype EndpointReply = EndpointOk "EndpointInfo option" | EndpointError int js

definition processRegisterError :: "int \<Rightarrow> js \<Rightarrow> string result" where
  "processRegisterError status err =
     res_bind (js_prop err ''error'') (\<lambda>text.
       Inr (if status = 403
            then js_key text @ ''. Please check \"Skip SSL validation for the endpoint\" if the certificate issuer is trusted\"''
            else ''There was a problem creating the endpoint. Please ensure the endpoint address is correct and try again ('' @ js_key text @ '')''))"

definition start_endpoint :: "EndpointCall \<Rightarrow> Action" where
  "start_endpoint call = RequestA (StartRequestAction (ec_apiAction call) (ec_requestType call))"

definition doEndpointAction :: "EndpointCall \<Rightarrow> EndpointReply \<Rightarrow> Action list result" where
  "doEndpointAction call reply =
     (let a = ec_apiAction call; guid = the (aa_guid a);
          completed = RequestA (WrapperRequestActionSuccess None a (ec_requestType call) None None)
      in case reply of
           EndpointOk endpoint \<Rightarrow> Inr
             ([EndpointA (EndpointActionComplete (ec_success call) guid (ec_endpointType call) endpoint)]
              @ (if ec_requestType call = DeleteType then [PaginationA (ClearPaginationOfEntity ''endpoint'' guid)] else [])
              @ (if ec_requestType call = CreateType then [SystemA (GetSystemInfo False)] else [])
              @ [completed])
         | EndpointError status err \<Rightarrow>
             res_bind (if ec_describes call then processRegisterError status err else Inr ''Could not perform action'') (\<lambda>_.
               Inr [EndpointA (EndpointStart (ec_failed call) (Some guid) ''''), completed]))"

text \<open>All actions of one request, from the one that asks for it.\<close>

fun request_event :: "EndpointRequest \<Rightarrow> Action" where
  "request_event (ConnectEndpoint guid endpointType _ _ _ _) = EndpointA (EndpointStart CONNECT_ENDPOINTS (Some guid) endpointType)"
| "request_event (DisconnectEndpoint guid endpointType) = EndpointA (EndpointStart DISCONNECT_ENDPOINTS (Some guid) endpointType)"
| "request_event (UnregisterEndpoint _ endpointType _ _) = EndpointA (EndpointStart UNREGISTER_ENDPOINTS None endpointType)"
| "request_event (UpdateregisterEndpoint endpointType _ _ _) = EndpointA (EndpointStart UPDATEREGISTER_ENDPOINTS None endpointType)"
| "request_event (RegisterEndpoint endpointType _ _ _ _ _ _) = EndpointA (EndpointStart REGISTER_ENDPOINTS None endpointType)"

definition endpoint_run :: "string \<Rightarrow> EndpointRequest \<Rightarrow> EndpointReply \<Rightarrow> Action list result" where
  "endpoint_run method_text request reply =
     (case endpoint_call method_text request of
        None \<Rightarrow> Inr [request_event request]
      | Some call \<Rightarrow> res_bind (doEndpointAction call reply) (\<lambda>answered. Inr ([request_event request, start_endpoint call] @ answered)))"


subsection \<open>What the run does to the slices\<close>

fun silent :: "Action \<Rightarrow> bool" where
  "silent (RequestA _) = False"
| "silent (RecursiveA _) = False"
| "silent _ = True"

lemma silent_run: "list_all silent as \<Longrightarrow> res_fold apiRequestReducer s (as @ bs) = res_fold apiRequestReducer s bs"
proof (induction as)
  case (Cons a as)
  then show ?case by (cases a) auto
qed simp

lemma answered_actions:
  assumes "doEndpointAction call reply = Inr answered"
  obtains pre where "list_all silent pre" "answered = pre @ [RequestA (WrapperRequestActionSuccess None (ec_apiAction call) (ec_requestType call) None None)]"
proof (cases reply)
  case (EndpointOk e)
  with assms show thesis
    by (intro that[of "butlast answered"]) (auto simp: doEndpointAction_def Let_def)
next
  case (EndpointError status err)
  with assms show thesis
    by (intro that[of "butlast answered"]) (auto simp: doEndpointAction_def Let_def res_bind_Inr_iff)
qed

lemma endpoint_call_action:
  assumes "endpoint_call m request = Some call"
  shows "aa_entityKey (ec_apiAction call) = Some ''endpoint''" "aa_guid (ec_apiAction call) \<noteq> None"
  using assms by (cases request; auto simp: getEndpointUpdateAction_def getEndpointDeleteAction_def entity_action_def split: if_splits)+

text \<open>The section of requests after the run: the request is completed as a success, whatever the answer.\<close>

lemma requests_after_run:
  assumes "wf_requests keys s" "''endpoint'' \<in> set keys" and call: "endpoint_call m request = Some call"
    and guid: "aa_guid (ec_apiAction call) = Some g" "g \<noteq> []" and run: "endpoint_run m request reply = Inr actions"
  shows "\<exists>s'. res_fold apiRequestReducer s actions = Inr s'
    \<and> entity_request s' ''endpoint'' g =
        success_state (ec_apiAction call) (ec_requestType call) None
          (start_state (ec_apiAction call) (ec_requestType call) (entity_request s ''endpoint'' g))
    \<and> (\<forall>h. h \<noteq> g \<longrightarrow> req_get s' ''endpoint'' h = req_get s ''endpoint'' h)"
proof -
  let ?a = "ec_apiAction call" and ?t = "ec_requestType call"
  note key = endpoint_call_action(1)[OF call]
  from run call obtain answered where answered: "doEndpointAction call reply = Inr answered"
    and actions: "actions = [request_event request, start_endpoint call] @ answered"
    by (auto simp: endpoint_run_def res_bind_Inr_iff)
  from answered obtain pre where pre: "list_all silent pre" "answered = pre @ [RequestA (WrapperRequestActionSuccess None ?a ?t None None)]"
    by (rule answered_actions)
  define s1 where "s1 = setEntityRequestState s (start_state ?a ?t (entity_request s ''endpoint'' g)) ''endpoint'' g"
  have start: "apiRequestReducer s (start_endpoint call) = Inr s1"
    using with_entity_state_known[OF assms(1,2) key guid] by (simp add: start_endpoint_def startRequest_def s1_def)
  have wf1: "wf_requests keys s1"
    using apiRequestReducer_wf[OF start assms(1)] .
  have known: "known_action keys (RequestA (WrapperRequestActionSuccess None ?a ?t None None))" using key assms(2) by simp
  from succeedRequest_own[OF wf1 known key guid] obtain s2 where
    s2: "apiRequestReducer s1 (RequestA (WrapperRequestActionSuccess None ?a ?t None None)) = Inr s2"
    "entity_request s2 ''endpoint'' g = success_state ?a ?t None (entity_request s1 ''endpoint'' g)" by blast
  have event: "apiRequestReducer s (request_event request) = Inr s" by (cases request) simp_all
  have "res_fold apiRequestReducer s actions = Inr s2"
    using event start s2(1) by (simp add: actions pre(2) silent_run[OF pre(1)])
  moreover have "req_get s2 ''endpoint'' h = req_get s ''endpoint'' h" if "h \<noteq> g" for h
  proof -
    have "req_get s2 ''endpoint'' h = req_get s1 ''endpoint'' h"
      using succeedRequest_get[of s1 None ?a ?t s2 keys "''endpoint''" g "''endpoint''" h] s2(1) wf1 key guid that
      by (simp add: in_response_def split: option.splits)
    then show ?thesis using that by (simp add: s1_def obj_simps)
  qed
  ultimately show ?thesis using s2(2) by (auto simp: s1_def obj_simps)
qed

text \<open>
  C19: What connecting and disconnecting an endpoint come to. After the run of the request its connection status is the
  one the backend's answer gives: connected when connecting succeeded or disconnecting failed, disconnected otherwise;
  no other endpoint changes. The section of requests shows the request as done and without an error in either case, so
  no screen that watches it can tell a failure.
\<close>

theorem connection_follows_answer:
  assumes "request = ConnectEndpoint g t authType authValues shared body \<and> authType \<noteq> ''sso'' \<or> request = DisconnectEndpoint g t"
    and "g \<noteq> []" and "truthy endpoints" and "wf_requests keys s" and "''endpoint'' \<in> set keys"
    and "endpoint_run m request reply = Inr actions"
  shows "\<exists>endpoints' s'. res_fold systemEndpointsReducer endpoints actions = Inr endpoints'
    \<and> res_fold apiRequestReducer s actions = Inr s'
    \<and> js_field (js_field endpoints' g) ''connectionStatus'' =
        JStr (if (request = DisconnectEndpoint g t) = (case reply of EndpointOk _ \<Rightarrow> True | EndpointError _ _ \<Rightarrow> False)
              then ''disconnected'' else ''connected'')
    \<and> (\<forall>h. h \<noteq> g \<longrightarrow> js_field endpoints' h = js_field endpoints h)
    \<and> obj_get (ri_updating (entity_request s' ''endpoint'' g)) (if request = DisconnectEndpoint g t then ''disconnecting'' else ''connecting'') =
        Some \<lparr>as_busy = False, as_error = False, as_message = JStr ''''\<rparr>"
proof -
  obtain call where call: "endpoint_call m request = Some call" "aa_guid (ec_apiAction call) = Some g"
    "aa_updatingKey (ec_apiAction call) = Some (if request = DisconnectEndpoint g t then ''disconnecting'' else ''connecting'')"
    using assms(1) by (auto simp: getEndpointUpdateAction_def entity_action_def)
  obtain s' where s': "res_fold apiRequestReducer s actions = Inr s'" "entity_request s' ''endpoint'' g =
      success_state (ec_apiAction call) (ec_requestType call) None
        (start_state (ec_apiAction call) (ec_requestType call) (entity_request s ''endpoint'' g))"
    using requests_after_run[OF assms(4,5) call(1,2) assms(2,6)] by blast
  have done_section: "obj_get (ri_updating (entity_request s' ''endpoint'' g)) (if request = DisconnectEndpoint g t then ''disconnecting'' else ''connecting'') =
        Some \<lparr>as_busy = False, as_error = False, as_message = JStr ''''\<rparr>"
    using call(3) unfolding s'(2) by (simp add: success_state_def mergeUpdatingState_def)
  have change: "changeEndpointConnectionStatus e (Some g) status = Inr (js_with e g (js_with (js_field e g) ''connectionStatus'' (JStr status)))"
    if "truthy e" for e status
    using that assms(2) by (simp add: changeEndpointConnectionStatus_def truthy_js_prop)
  have with_truthy: "truthy (js_with e k v)" for e k v by (simp add: js_with_def)
  have run: "\<exists>e'. res_fold systemEndpointsReducer endpoints actions = Inr e'
      \<and> js_field (js_field e' g) ''connectionStatus'' =
        JStr (if (request = DisconnectEndpoint g t) = (case reply of EndpointOk _ \<Rightarrow> True | EndpointError _ _ \<Rightarrow> False)
              then ''disconnected'' else ''connected'')
      \<and> (\<forall>h. h \<noteq> g \<longrightarrow> js_field e' h = js_field endpoints h)"
    using assms(1)
  proof
    assume "request = ConnectEndpoint g t authType authValues shared body \<and> authType \<noteq> ''sso''"
    then show ?thesis using assms(3,6)
      by (cases reply) (auto simp: endpoint_run_def doEndpointAction_def Let_def start_endpoint_def getEndpointUpdateAction_def entity_action_def
          status_of_event_def event_guid_def endpoint_types change with_truthy)
  next
    assume "request = DisconnectEndpoint g t"
    then show ?thesis using assms(3,6)
      by (cases reply) (auto simp: endpoint_run_def doEndpointAction_def Let_def start_endpoint_def getEndpointUpdateAction_def entity_action_def
          status_of_event_def event_guid_def endpoint_types change with_truthy)
  qed
  then show ?thesis using s'(1) done_section by blast
qed

lemma connection_follows_answer_witness:
  "\<exists>actions endpoints'. endpoint_run '''' (DisconnectEndpoint ''e'' ''cf'') (EndpointError 500 JUndef) = Inr actions
    \<and> res_fold systemEndpointsReducer (JObj [(''e'', JObj [(''name'', JStr ''E'')])]) actions = Inr endpoints'
    \<and> js_field (js_field endpoints' ''e'') ''connectionStatus'' = JStr ''connected''"
proof -
  obtain actions where run: "endpoint_run '''' (DisconnectEndpoint ''e'' ''cf'') (EndpointError 500 JUndef) = Inr actions"
    by (auto simp: endpoint_run_def doEndpointAction_def Let_def)
  from connection_follows_answer[of "DisconnectEndpoint ''e'' ''cf''" "''e''" "''cf''" _ _ _ _
      "JObj [(''e'', JObj [(''name'', JStr ''E'')])]" "[''endpoint'']" "generateDefaultState [''endpoint'']", OF _ _ _ wf_requests_default _ run]
  show ?thesis using run by auto
qed

text \<open>
  C40: Unregistering an endpoint, and updating one, miss it. Both send the request under the text of a method as its guid:
  whatever the backend answers, no endpoint of another guid leaves the store or changes in the section of requests; and
  the actions of an update are those of unregistering, so its success is announced as an unregistration.
\<close>

theorem unregister_misses_endpoint:
  assumes "request = UnregisterEndpoint g t name taskID \<or> request = UpdateregisterEndpoint t name taskID replica"
    and "method_text \<noteq> []" and "wf_requests keys s" and "''endpoint'' \<in> set keys" and "endpoint_run method_text request reply = Inr actions"
  shows "\<exists>s' data'. res_fold apiRequestReducer s actions = Inr s' \<and> res_fold entitiesReducer data actions = Inr data'
    \<and> (\<forall>h. h \<noteq> method_text \<longrightarrow> req_get s' ''endpoint'' h = req_get s ''endpoint'' h)
    \<and> (\<forall>K h. h \<noteq> method_text \<longrightarrow> entity_at data' K h = entity_at data K h)
    \<and> (\<forall>e. reply = EndpointOk e \<longrightarrow> EndpointA (EndpointActionComplete UNREGISTER_ENDPOINTS_SUCCESS method_text t e) \<in> set actions)"
proof -
  obtain call where call: "endpoint_call method_text request = Some call" "aa_guid (ec_apiAction call) = Some method_text"
    "ec_requestType call = DeleteType" "aa_updatingKey (ec_apiAction call) = None" "ec_success call = UNREGISTER_ENDPOINTS_SUCCESS"
    "ec_endpointType call = t"
    using assms(1) by (auto simp: getEndpointDeleteAction_def entity_action_def)
  obtain answered where answered: "doEndpointAction call reply = Inr answered"
    and actions: "actions = [request_event request, start_endpoint call] @ answered"
    using assms(5) call(1) by (auto simp: endpoint_run_def res_bind_Inr_iff)
  from answered obtain pre where pre: "list_all silent pre"
    "answered = pre @ [RequestA (WrapperRequestActionSuccess None (ec_apiAction call) DeleteType None None)]"
    unfolding call(3)[symmetric] by (rule answered_actions)
  have silent: "list_all silent as \<Longrightarrow> res_fold entitiesReducer data (as @ bs) = res_fold entitiesReducer data bs" for as bs
  proof (induction as)
    case (Cons a as)
    then show ?case by (cases a) auto
  qed simp
  have event: "entitiesReducer data (request_event request) = Inr data" by (cases request) simp_all
  have "res_fold entitiesReducer data actions = Inr (deleteEntity data (aa_entityKey (ec_apiAction call)) (Some method_text))"
    using call(2,4) event by (simp add: actions pre(2) silent[OF pre(1)] start_endpoint_def)
  moreover have "EndpointA (EndpointActionComplete UNREGISTER_ENDPOINTS_SUCCESS method_text t e) \<in> set actions" if "reply = EndpointOk e" for e
    using answered that call(2,5,6) by (auto simp: actions doEndpointAction_def Let_def)
  ultimately show ?thesis
    using requests_after_run[OF assms(3,4) call(1,2) assms(2,5)] by (auto simp: entity_at_deleteEntity)
qed

lemma unregister_misses_endpoint_witness:
  "\<exists>actions data'. endpoint_run ''function () { }'' (UnregisterEndpoint ''e'' ''cf'' ''E'' ''1'') (EndpointOk None) = Inr actions
    \<and> res_fold entitiesReducer [(''endpoint'', JObj [(''e'', JObj [(''name'', JStr ''E'')])])] actions = Inr data'
    \<and> entity_at data' ''endpoint'' ''e'' = JObj [(''name'', JStr ''E'')]"
proof -
  obtain actions where run: "endpoint_run ''function () { }'' (UnregisterEndpoint ''e'' ''cf'' ''E'' ''1'') (EndpointOk None) = Inr actions"
    by (auto simp: endpoint_run_def doEndpointAction_def Let_def)
  have "''function () { }'' \<noteq> []" by simp
  from unregister_misses_endpoint[OF disjI1[OF refl] this wf_requests_default _ run, of "[''endpoint'']" 
      "[(''endpoint'', JObj [(''e'', JObj [(''name'', JStr ''E'')])])]"]
  obtain data' where "res_fold entitiesReducer [(''endpoint'', JObj [(''e'', JObj [(''name'', JStr ''E'')])])] actions = Inr data'"
    "\<forall>K h. h \<noteq> ''function () { }'' \<longrightarrow> entity_at data' K h = entity_at [(''endpoint'', JObj [(''e'', JObj [(''name'', JStr ''E'')])])] K h"
    by auto
  with run show ?thesis by (auto simp: entity_at_def js_at_def)
qed

subsection \<open>All endpoints in the store\<close>

text \<open>The endpoints of a payload, type by type.\<close>

definition payload_endpoints :: "js \<Rightarrow> js list" where
  "payload_endpoints endpoints = concat (map (\<lambda>t. obj_values (js_own (js_field endpoints t))) (obj_keys (js_own endpoints)))"

lemma add_endpoints:
  "res_fold add_endpoint (es, gs) infos = Inr (es', gs') \<Longrightarrow>
     gs' = gs @ map (\<lambda>i. js_key (js_field i ''guid'')) infos
     \<and> es' = fold (\<lambda>i. obj_set (js_key (js_field i ''guid'')) (endpoint_entity i)) infos es"
proof (induction infos arbitrary: es gs)
  case (Cons i infos)
  then obtain st where st: "add_endpoint (es, gs) i = Inr st" "res_fold add_endpoint st infos = Inr (es', gs')"
    by (auto simp: res_bind_Inr_iff)
  from st(1) have "st = (obj_set (js_key (js_field i ''guid'')) (endpoint_entity i) es, gs @ [js_key (js_field i ''guid'')])"
    by (auto simp: add_endpoint_def res_bind_Inr_iff dest!: js_prop_field)
  with st(2) have "res_fold add_endpoint
      (obj_set (js_key (js_field i ''guid'')) (endpoint_entity i) es, gs @ [js_key (js_field i ''guid'')]) infos = Inr (es', gs')"
    by simp
  from Cons.IH[OF this] show ?case by simp
qed simp

lemma add_types:
  "res_fold (add_type endpoints) (es, gs) types = Inr (es', gs') \<Longrightarrow>
     (let infos = concat (map (\<lambda>t. obj_values (js_own (js_field endpoints t))) types) in
      gs' = gs @ map (\<lambda>i. js_key (js_field i ''guid'')) infos
      \<and> es' = fold (\<lambda>i. obj_set (js_key (js_field i ''guid'')) (endpoint_entity i)) infos es)"
proof (induction types arbitrary: es gs)
  case (Cons t types)
  then obtain st where st: "add_type endpoints (es, gs) t = Inr st" "res_fold (add_type endpoints) st types = Inr (es', gs')"
    by (auto simp: res_bind_Inr_iff)
  obtain es1 gs1 where "st = (es1, gs1)" by force
  with st have "res_fold add_endpoint (es, gs) (obj_values (js_own (js_field endpoints t))) = Inr (es1, gs1)"
    "res_fold (add_type endpoints) (es1, gs1) types = Inr (es', gs')"
    by (simp_all add: add_type_def res_bind_Inr_iff Let_def)
  from add_endpoints[OF this(1)] Cons.IH[OF this(2)] show ?case by (simp add: Let_def)
qed simp

lemma fold_set_distinct:
  "i \<in> set infos \<Longrightarrow> distinct (map f infos) \<Longrightarrow> obj_get (fold (\<lambda>i. obj_set (f i) (v i)) infos es) (f i) = Some (v i)"
proof (induction infos arbitrary: es)
  case (Cons j infos)
  have keep: "f i \<notin> f ` set infos \<Longrightarrow> obj_get (fold (\<lambda>i. obj_set (f i) (v i)) infos es) (f i) = obj_get es (f i)" for es
    by (induction infos arbitrary: es) auto
  show ?case
  proof (cases "i \<in> set infos")
    case True
    with Cons show ?thesis by simp
  next
    case False
    with Cons.prems have "i = j" by simp
    with Cons.prems keep[of "obj_set (f j) (v j) es"] show ?thesis by simp
  qed
qed simp

text \<open>
  All endpoints arrive. Whenever the system information can be read, its endpoints, of every type, are the result of
  the response that is stored, in order; when their guids differ, each is there with what the backend said of it, as
  connected and registered exactly when it has a user.
\<close>

theorem all_endpoints_stored:
  assumes "getAllEndpoints payload a = Inr actions" and "infos = payload_endpoints (js_field payload ''endpoints'')"
  shows "\<exists>es. hd actions = RequestA (WrapperRequestActionSuccess
        (Some \<lparr>nr_entities = Some [(''endpoint'', JObj es)], nr_result = map (\<lambda>i. js_key (js_field i ''guid'')) infos\<rparr>) a FetchType None None)
    \<and> (distinct (map (\<lambda>i. js_key (js_field i ''guid'')) infos) \<longrightarrow> (\<forall>i \<in> set infos.
        obj_get es (js_key (js_field i ''guid'')) = Some (endpoint_entity i)
        \<and> js_field (endpoint_entity i) ''connectionStatus'' =
            JStr (if truthy (js_field i ''user'') then ''connected'' else ''disconnected'')
        \<and> js_field (endpoint_entity i) ''registered'' = JBool (truthy (js_field i ''user''))))"
proof -
  from assms(1) obtain endpoints types es gs where run: "js_prop payload ''endpoints'' = Inr endpoints" "js_keys endpoints = Inr types"
    "res_fold (add_type endpoints) ([], []) types = Inr (es, gs)"
    "hd actions = RequestA (WrapperRequestActionSuccess (Some \<lparr>nr_entities = Some [(''endpoint'', JObj es)], nr_result = gs\<rparr>) a FetchType None None)"
    by (auto simp: getAllEndpoints_def res_bind_Inr_iff)
  have types: "types = obj_keys (js_own endpoints)" using run(2) by (cases endpoints) auto
  have infos: "infos = concat (map (\<lambda>t. obj_values (js_own (js_field endpoints t))) types)"
    using assms(2) js_prop_field[OF run(1)] by (simp add: payload_endpoints_def types)
  from add_types[OF run(3)] have "gs = map (\<lambda>i. js_key (js_field i ''guid'')) infos"
    "es = fold (\<lambda>i. obj_set (js_key (js_field i ''guid'')) (endpoint_entity i)) infos []"
    by (simp_all add: Let_def infos)
  with run(4) fold_set_distinct[of _ infos "\<lambda>i. js_key (js_field i ''guid'')" endpoint_entity "[]"] show ?thesis
    by (auto simp: endpoint_entity_def Let_def)
qed

lemma all_endpoints_stored_witness:
  "\<exists>actions. getAllEndpoints (JObj [(''endpoints'', JObj [(''cf'', JObj [(''e'', JObj [(''guid'', JStr ''e'')])])])])
      (list_action ''endpoint'' ''endpoint-list'') = Inr actions
    \<and> (\<exists>es. hd actions = RequestA (WrapperRequestActionSuccess (Some \<lparr>nr_entities = Some [(''endpoint'', JObj es)], nr_result = [''e'']\<rparr>)
         (list_action ''endpoint'' ''endpoint-list'') FetchType None None)
       \<and> js_field (the (obj_get es ''e'')) ''connectionStatus'' = JStr ''disconnected'')"
proof -
  let ?payload = "JObj [(''endpoints'', JObj [(''cf'', JObj [(''e'', JObj [(''guid'', JStr ''e'')])])])]"
  obtain actions where run: "getAllEndpoints ?payload (list_action ''endpoint'' ''endpoint-list'') = Inr actions"
    by (auto simp: getAllEndpoints_def add_type_def add_endpoint_def)
  from all_endpoints_stored[OF run refl] run show ?thesis by (auto simp: payload_endpoints_def)
qed

end
