(* ===== verification/Validation.thy ===== *)
theory Validation
  imports Api_Effects Pagination_Reducer
begin

section \<open>Fetching what an answer lacks: entity-relations.ts and its post-processor\<close>

text \<open>
  \<open>Entity_Relations.validationLoop\<close> finds the relations an answer lacks. Here they are fetched: every result is
  dispatched, its progress is watched in the store, and when it is there the child is associated with its parent, in the
  answer if there is one. When all results are done, the roles of an organization or a space are brought to its users.
  The events of the watched parts of the store come in any order.

  The other direction is \<open>populatePaginationFromParent\<close>: a list whose entities came with their parent is filled from it.
\<close>

subsection \<open>The child of a parent\<close>

text \<open>\<open>isEntityInlineChildAction\<close> of the action of a result; only the relation actions have a parent.\<close>

fun inline_child :: "ValidateEntityResult \<Rightarrow> FetchRelationAction option" where
  "inline_child (DispatchFetch a) = (if truthy (fr_parentGuid a) then Some a else None)"
| "inline_child (ConnectWithParent a) = (if truthy (fr_parentGuid a) then Some a else None)"
| "inline_child (DispatchInitialParams _ _ _) = None"

definition child_param :: "FetchRelationAction \<Rightarrow> string" where
  "child_param a = (case er_paramName (fr_child a) of Some n \<Rightarrow> n | None \<Rightarrow> ''null'')"

definition child_value :: "FetchRelationAction \<Rightarrow> PaginationEntityState option \<Rightarrow> js result" where
  "child_value a section =
     (if er_isArray (fr_child a)
      then case section of
          None \<Rightarrow> Inl TypeError
        | Some p \<Rightarrow> Inr (JArr (map JStr (case obj_get (pe_ids p) 1 of Some (Some ids) \<Rightarrow> ids | _ \<Rightarrow> [])))
      else Inr (js_str (fr_guid a)))"

text \<open>\<open>v[k] = w\<close>; an array becomes the object of its properties.\<close>

definition js_put :: "js \<Rightarrow> string \<Rightarrow> js \<Rightarrow> js result" where
  "js_put v k w = (if is_object v then Inr (js_with v k w) else Inl TypeError)"

definition set_param :: "string \<Rightarrow> string \<Rightarrow> string \<Rightarrow> js \<Rightarrow> (string, js) obj \<Rightarrow> (string, js) obj result" where
  "set_param key guid param value es =
     res_bind (js_prop (js_at es key) guid) (\<lambda>parent.
     res_bind (js_prop parent ''entity'') (\<lambda>e.
     res_bind (js_put e param value) (\<lambda>e'.
       Inr (obj_set key (js_with (js_at es key) guid (js_with parent ''entity'' e')) es))))"

datatype Sent = SentFetch FetchRelationAction | SentAction Action

definition parent_success :: "FetchRelationAction \<Rightarrow> js \<Rightarrow> Action" where
  "parent_success a value =
     (let key = er_entityKey (fr_parent a); guid = js_key (fr_parentGuid a) in
      RequestA (WrapperRequestActionSuccess
        (Some \<lparr>nr_entities = Some [(key, JObj [(guid, JObj [(''entity'', JObj [(child_param a, value)])])])], nr_result = [guid]\<rparr>)
        ((entity_action key guid)\<lparr>aa_type := ''[Entity] Associate with parent'',
           aa_endpointGuid := (case fr_endpointGuid a of JStr g \<Rightarrow> Some g | _ \<Rightarrow> None)\<rparr>)
        FetchType (Some 1) (Some 1)))"

definition response_entities :: "APIResponse \<Rightarrow> (string, js) obj result" where
  "response_entities r = (case Option.bind (ar_response r) nr_entities of None \<Rightarrow> Inl TypeError | Some es \<Rightarrow> Inr es)"

definition with_entities :: "APIResponse \<Rightarrow> (string, js) obj \<Rightarrow> APIResponse" where
  "with_entities r es = r\<lparr>ar_response := map_option (\<lambda>n. n\<lparr>nr_entities := Some es\<rparr>) (ar_response r)\<rparr>"

definition associateChildWithParent ::
  "FetchRelationAction \<Rightarrow> PaginationEntityState option \<Rightarrow> APIResponse option \<Rightarrow> (APIResponse option \<times> Sent list) result" where
  "associateChildWithParent a section apiResponse =
     res_bind (child_value a section) (\<lambda>value.
       if \<not> truthy value then Inr (apiResponse, [])
       else case apiResponse of
           Some r \<Rightarrow> res_bind (response_entities r) (\<lambda>es.
             res_bind (set_param (er_entityKey (fr_parent a)) (js_key (fr_parentGuid a)) (child_param a) value es) (\<lambda>es'.
               Inr (Some (with_entities r es'), [])))
         | None \<Rightarrow> Inr (None, [SentAction (parent_success a value)]))"

subsection \<open>Waiting for the results\<close>

text \<open>
  What a watcher selects: the section of a list, or the request state of an entity; as long as it is missing the fetch
  counts as under way. A result is done when the fetch is seen to stop.
\<close>

datatype Watched = WatchedList "PaginationEntityState option" | WatchedEntity "RequestInfoState option"

fun createValidationWatcher :: "Watched \<Rightarrow> bool" where
  "createValidationWatcher (WatchedList section) =
     (case Option.bind section (\<lambda>p. obj_get (pe_pageRequests p) (pe_currentPage p)) of Some r \<Rightarrow> as_busy r | None \<Rightarrow> True)"
| "createValidationWatcher (WatchedEntity info) = (case info of Some r \<Rightarrow> ri_fetching r | None \<Rightarrow> True)"

fun watched_section :: "Watched \<Rightarrow> PaginationEntityState option" where
  "watched_section (WatchedList section) = section"
| "watched_section (WatchedEntity _) = None"

fun is_watched :: "ValidateEntityResult \<Rightarrow> bool" where
  "is_watched (DispatchFetch _) = True"
| "is_watched _ = False"

fun sent_by :: "ValidateEntityResult \<Rightarrow> Sent list" where
  "sent_by (DispatchFetch a) = [SentFetch a]"
| "sent_by (DispatchInitialParams entityKey key ps) =
     [SentAction (PaginationA (SetInitialParams entityKey key (map (\<lambda>(k, n). (k, Param (JNum n))) ps) True False))]"
| "sent_by (ConnectWithParent _) = []"

datatype Task = Waiting "bool option" | Finished

record ValidationRun =
  vr_results :: "ValidateEntityResult list"
  vr_tasks :: "Task list"
  vr_response :: "APIResponse option"
  vr_sent :: "Sent list"
  vr_error :: "js_error option"

text \<open>The first rejection is the one of \<open>Promise.all\<close>.\<close>

definition finish_task :: "nat \<Rightarrow> PaginationEntityState option \<Rightarrow> ValidationRun \<Rightarrow> ValidationRun" where
  "finish_task i section run =
     (let run' = run\<lparr>vr_tasks := (vr_tasks run)[i := Finished]\<rparr> in
      case inline_child (vr_results run ! i) of
        None \<Rightarrow> run'
      | Some a \<Rightarrow>
          (case associateChildWithParent a section (vr_response run) of
             Inl e \<Rightarrow> run'\<lparr>vr_error := Some (case vr_error run of Some e0 \<Rightarrow> e0 | None \<Rightarrow> e)\<rparr>
           | Inr (response, sent) \<Rightarrow> run'\<lparr>vr_response := response, vr_sent := vr_sent run @ sent\<rparr>))"

definition begin_task :: "nat \<Rightarrow> ValidationRun \<Rightarrow> ValidationRun" where
  "begin_task i run =
     (let result = vr_results run ! i; run' = run\<lparr>vr_sent := vr_sent run @ sent_by result\<rparr> in
      if is_watched result then run' else finish_task i None run')"

definition handleValidationLoopResults :: "ValidateEntityResult list \<Rightarrow> APIResponse option \<Rightarrow> ValidationRun" where
  "handleValidationLoopResults results apiResponse =
     fold begin_task [0..<length results]
       \<lparr>vr_results = results, vr_tasks = replicate (length results) (Waiting None), vr_response = apiResponse,
        vr_sent = [], vr_error = None\<rparr>"

definition watch :: "nat \<times> Watched \<Rightarrow> ValidationRun \<Rightarrow> ValidationRun" where
  "watch = (\<lambda>(i, w) run.
     if i \<ge> length (vr_tasks run) then run
     else case vr_tasks run ! i of
         Finished \<Rightarrow> run
       | Waiting old \<Rightarrow>
           if old = Some True \<and> \<not> createValidationWatcher w then finish_task i (watched_section w) run
           else run\<lparr>vr_tasks := (vr_tasks run)[i := Waiting (Some (createValidationWatcher w))]\<rparr>)"

subsection \<open>The roles of organizations and spaces: org-space-post-processor.ts\<close>

definition add_role :: "js \<Rightarrow> js \<Rightarrow> string \<Rightarrow> (string, js) obj \<Rightarrow> js \<Rightarrow> (string, js) obj result" where
  "add_role existingUsers orgOrSpace userParamName newUsers userGuid =
     res_bind (js_prop existingUsers (js_key userGuid)) (\<lambda>existingUser.
     res_bind (entity_field existingUser userParamName) (\<lambda>roles.
     res_bind (if truthy roles then js_array roles else Inr []) (\<lambda>existingRoles.
       let guid = js_field orgOrSpace ''guid''; newUser = js_at newUsers (js_key userGuid) in
       if guid \<in> set existingRoles then Inr newUsers
       else res_bind (mergeEntity (JObj [(''entity'', JObj [(userParamName, JArr (existingRoles @ [guid]))])])
           (if truthy newUser then newUser else existingUser)) (\<lambda>m. Inr (obj_set (js_key userGuid) m newUsers)))))"

definition updateUserFromOrgSpaceArray ::
  "js \<Rightarrow> (string, js) obj \<Rightarrow> js \<Rightarrow> string \<Rightarrow> string \<Rightarrow> (string, js) obj result" where
  "updateUserFromOrgSpaceArray existingUsers newUsers orgOrSpace orgSpaceParamName userParamName =
     res_bind (js_prop orgOrSpace orgSpaceParamName) (\<lambda>guids.
       if \<not> truthy guids then Inr newUsers
       else res_bind (js_array guids) (res_fold (add_role existingUsers orgOrSpace userParamName) newUsers))"

definition role_params :: "string \<Rightarrow> (string \<times> string) list" where
  "role_params entityKey =
     (if entityKey = ''organization'' then
        [(''users'', ''organizations''), (''managers'', ''managed_organizations''),
         (''billing_managers'', ''billing_managed_organizations''), (''auditors'', ''audited_organizations'')]
      else if entityKey = ''space'' then
        [(''developers'', ''spaces''), (''managers'', ''managed_spaces''), (''auditors'', ''audited_spaces'')]
      else [])"

text \<open>The users a fetched organization or space gives a role they do not have.\<close>

definition new_users :: "string \<Rightarrow> js \<Rightarrow> js \<Rightarrow> (string, js) obj result" where
  "new_users entityKey users orgOrSpace =
     res_fold (\<lambda>newUsers (orgSpaceParamName, userParamName).
         updateUserFromOrgSpaceArray users newUsers orgOrSpace orgSpaceParamName userParamName)
       [] (role_params entityKey)"

definition users_success :: "ICFAction \<Rightarrow> (string, js) obj \<Rightarrow> Action" where
  "users_success a newUsers =
     RequestA (WrapperRequestActionSuccess (Some \<lparr>nr_entities = Some [(''user'', JObj newUsers)], nr_result = obj_keys newUsers\<rparr>)
       ((list_action ''user'' (createEntityRelationPaginationKey (the (aa_entityKey a)) (aa_guid a) None))\<lparr>
         aa_type := ''[Entity] Post-process Org/Space Users'', aa_endpointGuid := aa_endpointGuid a\<rparr>)
       FetchType (Some 1) (Some 1))"

definition orgSpacePostProcess ::
  "ICFAction \<Rightarrow> APIResponse option \<Rightarrow> (string, js) obj \<Rightarrow> (APIResponse option \<times> Sent list) result" where
  "orgSpacePostProcess a apiResponse allEntities =
     res_bind (case apiResponse of Some r \<Rightarrow> response_entities r | None \<Rightarrow> Inr allEntities) (\<lambda>es.
     let key = the (aa_entityKey a) in
     res_bind (js_prop (js_at es key) (js_key (js_str (aa_guid a)))) (\<lambda>orgOrSpace.
     res_bind (if role_params key = [] then Inr [] else res_bind (js_prop orgOrSpace ''entity'') (new_users key (js_at es ''user''))) (\<lambda>newUsers.
       if newUsers = [] then Inr (apiResponse, [])
       else case apiResponse of
           Some r \<Rightarrow> res_bind (deepMergeState es (JObj [(''user'', JObj newUsers)])) (\<lambda>es'. Inr (Some (with_entities r es'), []))
         | None \<Rightarrow> Inr (None, [SentAction (users_success a newUsers)]))))"

definition validationPostProcessor ::
  "ICFAction \<Rightarrow> APIResponse option \<Rightarrow> (string, js) obj \<Rightarrow> (APIResponse option \<times> Sent list) result" where
  "validationPostProcessor a apiResponse allEntities =
     (if aa_type a = ''API_REQUEST_START'' \<and> ca_actions a \<noteq> [] \<and> hd (ca_actions a) \<in> {''[Organization] Get one'', ''[Space] Get one''}
      then orgSpacePostProcess a apiResponse allEntities
      else Inr (apiResponse, []))"

text \<open>The outcome of a run whose results are all done: what the effect that asked for the validation is told.\<close>

definition validationCompleted ::
  "(js_error \<Rightarrow> string) \<Rightarrow> ICFAction \<Rightarrow> (string, js) obj \<Rightarrow> ValidationRun \<Rightarrow> ValidationOutcome \<times> Sent list" where
  "validationCompleted describe a allEntities run =
     (let started = (vr_results run \<noteq> []); failed = (\<lambda>e. (ValidationError started (JObj [(''message'', JStr (describe e))]), [])) in
      case vr_error run of
        Some e \<Rightarrow> failed e
      | None \<Rightarrow>
          (case validationPostProcessor a (vr_response run) allEntities of
             Inl e \<Rightarrow> failed e
           | Inr (response, sent) \<Rightarrow> (Validated started response, sent)))"


text \<open>
  The validation from its start: nothing to do without a schema or without parents, otherwise the results of the loop
  over the denormalized parents are handled.
\<close>

definition validateEntityRelations ::
  "(string list \<Rightarrow> schema \<Rightarrow> (string, js) obj \<Rightarrow> js) \<Rightarrow> (string list \<Rightarrow> string list) \<Rightarrow> (string, EntityTree) obj \<Rightarrow>
   (string, js) obj \<Rightarrow> PaginationState \<Rightarrow> ICFAction \<Rightarrow> string list \<Rightarrow> APIResponse option \<Rightarrow> ValidationRun option result" where
  "validateEntityRelations denormalize sort_relations cache allEntities allPagination a parentEntities apiResponse =
     res_bind (case apiResponse of
         None \<Rightarrow> Inr None
       | Some r \<Rightarrow> (case ar_response r of None \<Rightarrow> Inl TypeError | Some n \<Rightarrow> Inr (nr_entities n))) (\<lambda>newEntities.
     case ca_entity a of
       None \<Rightarrow> Inr None
     | Some entity \<Rightarrow>
         if parentEntities = [] then Inr None
         else
           let includeRelations = (case ca_includeRelations a of Some rs \<Rightarrow> rs | None \<Rightarrow> []);
               root = et_rootRelation (fst (fetchEntityTree sort_relations cache
                 \<lparr>ip_entity = entity, ip_includeRelations = includeRelations, ip_populateMissing = True\<rparr> True));
               es = denormalize parentEntities (er_entity root) (case newEntities of Some es \<Rightarrow> es | None \<Rightarrow> allEntities);
               config = \<lparr>vc_allEntities = allEntities, vc_newEntities = newEntities, vc_allPagination = allPagination,
                 vc_includeRelations = includeRelations, vc_populateMissing = True\<rparr>
           in res_bind (validationLoop config (js_str (aa_endpointGuid a)) es root) (\<lambda>results.
                Inr (Some (handleValidationLoopResults results apiResponse))))"

subsection \<open>Associations\<close>

text \<open>A place in the entities of an answer: the parameter of an entity.\<close>

definition slot :: "FetchRelationAction \<Rightarrow> string \<times> string \<times> string" where
  "slot a = (er_entityKey (fr_parent a), js_key (fr_parentGuid a), child_param a)"

definition param_at :: "(string, js) obj \<Rightarrow> string \<times> string \<times> string \<Rightarrow> js" where
  "param_at es = (\<lambda>(key, guid, param). js_field (js_field (js_field (js_at es key) guid) ''entity'') param)"

lemma param_at_set_param:
  assumes "set_param key guid param v es = Inr es'"
  shows "param_at es' s = (if s = (key, guid, param) then v else param_at es s)"
    and "js_field (js_at es' k) g = js_field (js_at es k) g \<or> (k, g) = (key, guid)"
proof -
  from assms obtain parent e e' where p: "js_prop (js_at es key) guid = Inr parent" "js_prop parent ''entity'' = Inr e"
    "js_put e param v = Inr e'" "es' = obj_set key (js_with (js_at es key) guid (js_with parent ''entity'' e')) es"
    by (auto simp: set_param_def res_bind_Inr_iff)
  have "e' = js_with e param v" using p(3) by (simp add: js_put_def split: if_splits)
  then show "param_at es' s = (if s = (key, guid, param) then v else param_at es s)"
    using js_prop_field[OF p(1)] js_prop_field[OF p(2)] by (cases s) (simp add: param_at_def p(4))
  show "js_field (js_at es' k) g = js_field (js_at es k) g \<or> (k, g) = (key, guid)" by (simp add: p(4))
qed

lemma associate_response:
  assumes "associateChildWithParent a section (Some r) = Inr (response, sent)" "response_entities r = Inr es"
  shows "\<exists>v es'. child_value a section = Inr v \<and> response = Some (with_entities r es') \<and> response_entities (with_entities r es') = Inr es'
    \<and> (truthy v \<longrightarrow> param_at es' (slot a) = v) \<and> (\<not> truthy v \<longrightarrow> es' = es) \<and> (\<forall>s. s \<noteq> slot a \<longrightarrow> param_at es' s = param_at es s)
    \<and> (\<forall>k g. (k, g) \<noteq> (er_entityKey (fr_parent a), js_key (fr_parentGuid a)) \<longrightarrow> js_field (js_at es' k) g = js_field (js_at es k) g)"
proof -
  from assms obtain v where v: "child_value a section = Inr v" by (auto simp: associateChildWithParent_def res_bind_Inr_iff)
  obtain n where n: "ar_response r = Some n" "nr_entities n = Some es"
    using assms(2) by (auto simp: response_entities_def split: option.splits bind_splits)
  show ?thesis
  proof (cases "truthy v")
    case True
    with assms v obtain es' where es': "set_param (er_entityKey (fr_parent a)) (js_key (fr_parentGuid a)) (child_param a) v es = Inr es'"
      "response = Some (with_entities r es')"
      by (auto simp: associateChildWithParent_def res_bind_Inr_iff)
    have "response_entities (with_entities r es') = Inr es'" using n by (simp add: response_entities_def with_entities_def)
    with True v es'(2) param_at_set_param[OF es'(1)] show ?thesis
      by (intro exI[of _ v] exI[of _ es']) (simp add: slot_def; blast)
  next
    case False
    with assms v have "response = Some r" by (simp add: associateChildWithParent_def)
    moreover have "with_entities r es = r" using n by (simp add: with_entities_def)
    ultimately show ?thesis using v False assms(2) by (intro exI[of _ v] exI[of _ es]) simp
  qed
qed

subsection \<open>What a watcher has seen\<close>

fun settles :: "bool option \<Rightarrow> Watched list \<Rightarrow> Watched option" where
  "settles old [] = None"
| "settles old (w # ws) =
     (if old = Some True \<and> \<not> createValidationWatcher w then Some w else settles (Some (createValidationWatcher w)) ws)"

definition last_seen :: "bool option \<Rightarrow> Watched list \<Rightarrow> bool option" where
  "last_seen old ws = (if ws = [] then old else Some (createValidationWatcher (last ws)))"

lemma settles_snoc:
  "settles old (ws @ [w]) = (case settles old ws of Some x \<Rightarrow> Some x
     | None \<Rightarrow> if last_seen old ws = Some True \<and> \<not> createValidationWatcher w then Some w else None)"
  by (induction ws arbitrary: old) (auto simp: last_seen_def)

definition seen_by :: "nat \<Rightarrow> (nat \<times> Watched) list \<Rightarrow> Watched list" where
  "seen_by i events = map snd (filter (\<lambda>e. fst e = i) events)"

text \<open>The section in which a result was done, if it watches one.\<close>

definition settled_section :: "ValidateEntityResult \<Rightarrow> nat \<Rightarrow> (nat \<times> Watched) list \<Rightarrow> PaginationEntityState option" where
  "settled_section result i events =
     (if is_watched result then Option.bind (settles None (seen_by i events)) watched_section else None)"

lemma seen_by_snoc: "seen_by i (events @ [(j, w)]) = seen_by i events @ (if j = i then [w] else [])"
  by (simp add: seen_by_def)


text \<open>
  Several results may be for the same place, because a child that several parents share is validated once for each of
  them. A place is supplied when it holds what one of its results delivered.
\<close>

definition slots :: "ValidateEntityResult list \<Rightarrow> (string \<times> string \<times> string) list" where
  "slots results = map slot (List.map_filter inline_child results)"

definition delivered :: "ValidateEntityResult list \<Rightarrow> (nat \<times> Watched) list \<Rightarrow> nat \<Rightarrow> string \<times> string \<times> string \<Rightarrow> js \<Rightarrow> bool" where
  "delivered results events j s v \<longleftrightarrow> (\<exists>b. inline_child (results ! j) = Some b \<and> slot b = s
     \<and> child_value b (settled_section (results ! j) j events) = Inr v \<and> truthy v)"

definition supplied :: "ValidateEntityResult list \<Rightarrow> (nat \<times> Watched) list \<Rightarrow> (string, js) obj \<Rightarrow> string \<times> string \<times> string \<Rightarrow> bool" where
  "supplied results events es' s \<longleftrightarrow> (\<exists>j < length results. delivered results events j s (param_at es' s))"

text \<open>
  After some events, with the results before \<open>m\<close> begun: a finished result has its place supplied, a waiting one has been
  seen as its watcher remembers, and nothing but the places of the results changed. \<open>task_done\<close> is the part that later
  events and other results leave as it is.
\<close>

definition task_done :: "ValidateEntityResult list \<Rightarrow> (nat \<times> Watched) list \<Rightarrow> (string, js) obj \<Rightarrow> nat \<Rightarrow> bool" where
  "task_done results events es' i \<longleftrightarrow> (is_watched (results ! i) \<longrightarrow> settles None (seen_by i events) \<noteq> None)
     \<and> (\<forall>a. inline_child (results ! i) = Some a \<longrightarrow>
         (\<exists>v. child_value a (settled_section (results ! i) i events) = Inr v
            \<and> (truthy v \<longrightarrow> (\<exists>j < length results. (is_watched (results ! j) \<longrightarrow> settles None (seen_by j events) \<noteq> None)
                  \<and> delivered results events j (slot a) (param_at es' (slot a))))))"

definition task_ok :: "ValidateEntityResult list \<Rightarrow> (nat \<times> Watched) list \<Rightarrow> (string, js) obj \<Rightarrow> nat \<Rightarrow> bool \<Rightarrow> Task \<Rightarrow> bool" where
  "task_ok results events es' i begun task \<longleftrightarrow>
     (case task of
        Waiting old \<Rightarrow> (begun \<longrightarrow> is_watched (results ! i)) \<and> settles None (seen_by i events) = None \<and> old = last_seen None (seen_by i events)
      | Finished \<Rightarrow> task_done results events es' i)"

definition run_inv :: "APIResponse \<Rightarrow> (string, js) obj \<Rightarrow> nat \<Rightarrow> (nat \<times> Watched) list \<Rightarrow> ValidationRun \<Rightarrow> bool" where
  "run_inv r es m events run \<longleftrightarrow> length (vr_tasks run) = length (vr_results run)
     \<and> (vr_error run = None \<longrightarrow> (\<exists>es'. vr_response run = Some (with_entities r es') \<and> response_entities (with_entities r es') = Inr es'
         \<and> (\<forall>i < length (vr_results run). task_ok (vr_results run) events es' i (i < m) (vr_tasks run ! i))
         \<and> (\<forall>s. s \<notin> set (slots (vr_results run)) \<longrightarrow> param_at es' s = param_at es s)
         \<and> (\<forall>k g. (\<forall>p. (k, g, p) \<notin> set (slots (vr_results run))) \<longrightarrow> js_field (js_at es' k) g = js_field (js_at es k) g)))"

lemma inline_slot_mem: "i < length results \<Longrightarrow> inline_child (results ! i) = Some a \<Longrightarrow> slot a \<in> set (slots results)"
  by (force simp: slots_def map_filter_def in_set_conv_nth)

lemma slots_apart:
  assumes "distinct (slots results)" "i < length results" "j < length results" "i \<noteq> j"
    "inline_child (results ! i) = Some a" "inline_child (results ! j) = Some b"
  shows "slot a \<noteq> slot b"
  using assms
proof (induction results arbitrary: i j)
  case (Cons x results)
  have "slots (x # results) = (case inline_child x of Some c \<Rightarrow> [slot c] | None \<Rightarrow> []) @ slots results"
    by (cases "inline_child x") (simp_all add: slots_def map_filter_simps)
  with Cons.prems inline_slot_mem[of "i - 1" results a] inline_slot_mem[of "j - 1" results b] Cons.IH[of "i - 1" "j - 1"]
  show ?case by (cases i; cases j) (auto split: option.splits)
qed simp

lemma with_entities_twice [simp]: "with_entities (with_entities r es) es' = with_entities r es'"
  by (simp add: with_entities_def option.map_comp comp_def)

text \<open>What a result saw when it was done does not change with the events that follow.\<close>

lemma settles_extend:
  "settles None (seen_by i events) = Some w \<Longrightarrow> settles None (seen_by i (events @ [e])) = Some w"
  by (cases e) (simp add: seen_by_snoc settles_snoc)

lemma settled_extend:
  assumes "is_watched result \<longrightarrow> settles None (seen_by i events) \<noteq> None"
  shows "settled_section result i (events @ [e]) = settled_section result i events"
  using assms settles_extend[of i events _ e] by (auto simp: settled_section_def)

lemma delivered_extend:
  assumes "is_watched (results ! j) \<longrightarrow> settles None (seen_by j events) \<noteq> None"
  shows "delivered results (events @ [e]) j s v = delivered results events j s v"
  by (simp add: delivered_def settled_extend[OF assms])

lemma task_done_extend:
  assumes "task_done results events es' i"
  shows "task_done results (events @ [e]) es' i"
  unfolding task_done_def
proof (intro conjI allI impI)
  show "settles None (seen_by i (events @ [e])) \<noteq> None" if "is_watched (results ! i)"
    using assms that settles_extend[of i events _ e] by (auto simp: task_done_def)
  fix a assume "inline_child (results ! i) = Some a"
  then obtain v where v: "child_value a (settled_section (results ! i) i events) = Inr v"
    "truthy v \<longrightarrow> (\<exists>j < length results. (is_watched (results ! j) \<longrightarrow> settles None (seen_by j events) \<noteq> None)
       \<and> delivered results events j (slot a) (param_at es' (slot a)))"
    using assms by (auto simp: task_done_def)
  moreover have "settled_section (results ! i) i (events @ [e]) = settled_section (results ! i) i events"
    using assms by (intro settled_extend) (simp add: task_done_def)
  ultimately show "\<exists>v. child_value a (settled_section (results ! i) i (events @ [e])) = Inr v
      \<and> (truthy v \<longrightarrow> (\<exists>j < length results. (is_watched (results ! j) \<longrightarrow> settles None (seen_by j (events @ [e])) \<noteq> None)
         \<and> delivered results (events @ [e]) j (slot a) (param_at es' (slot a))))"
    using delivered_extend[of results _ events e] settles_extend[of _ events _ e] by (metis (no_types, lifting) not_None_eq)
qed

text \<open>A place keeps being supplied when another result writes to it what that one delivers, or nothing.\<close>

lemma task_done_write:
  assumes "task_done results events es' i"
    and "\<And>s. s \<noteq> t \<Longrightarrow> param_at es'' s = param_at es' s"
    and "param_at es'' t = param_at es' t \<or> (\<exists>j < length results.
      (is_watched (results ! j) \<longrightarrow> settles None (seen_by j events) \<noteq> None) \<and> delivered results events j t (param_at es'' t))"
  shows "task_done results events es'' i"
  using assms unfolding task_done_def by metis

lemma task_ok_extend:
  assumes "task_ok results events es' j b task" and "task = Finished \<or> fst e \<noteq> j"
  shows "task_ok results (events @ [e]) es' j b task"
  using assms task_done_extend[of results events es' j e]
  by (cases e) (auto simp: task_ok_def seen_by_snoc split: Task.splits)

lemma task_ok_write:
  assumes "task_ok results events es' i b task"
    and "\<And>s. s \<noteq> t \<Longrightarrow> param_at es'' s = param_at es' s"
    and "param_at es'' t = param_at es' t \<or> (\<exists>j < length results.
      (is_watched (results ! j) \<longrightarrow> settles None (seen_by j events) \<noteq> None) \<and> delivered results events j t (param_at es'' t))"
  shows "task_ok results events es'' i b task"
  using assms(1) task_done_write[OF _ assms(2,3)] by (auto simp: task_ok_def split: Task.splits)

lemma run_inv_finish:
  assumes inv: "run_inv r es m events run" and i: "i < length (vr_results run)"
    and ext: "events' = events \<or> events' = events @ [(i, w)]"
    and own: "is_watched (vr_results run ! i) \<longrightarrow> settles None (seen_by i events') \<noteq> None"
    and m': "\<And>j. j \<noteq> i \<Longrightarrow> j < m' \<longleftrightarrow> j < m"
  shows "run_inv r es m' events' (finish_task i (settled_section (vr_results run ! i) i events') run)"
proof -
  let ?results = "vr_results run"
  let ?section = "settled_section (?results ! i) i events'"
  let ?run = "finish_task i ?section run"
  have basic: "vr_results ?run = ?results" "vr_tasks ?run = (vr_tasks run)[i := Finished]"
    "vr_error ?run = None \<longrightarrow> vr_error run = None"
    by (auto simp: finish_task_def Let_def split: option.splits sum.splits)
  show ?thesis
  proof (cases "vr_error ?run = None")
    case True
    with inv basic(3) obtain es' where es': "vr_response run = Some (with_entities r es')" "response_entities (with_entities r es') = Inr es'"
      "\<And>j. j < length ?results \<Longrightarrow> task_ok ?results events es' j (j < m) (vr_tasks run ! j)"
      "\<And>s. s \<notin> set (slots ?results) \<Longrightarrow> param_at es' s = param_at es s"
      "\<And>k g. (\<forall>p. (k, g, p) \<notin> set (slots ?results)) \<Longrightarrow> js_field (js_at es' k) g = js_field (js_at es k) g"
      by (auto simp: run_inv_def)
    have others: "task_ok ?results events' es' j (j < m') (vr_tasks run ! j)" if "j < length ?results" "j \<noteq> i" for j
      using es'(3)[OF that(1)] m'[OF that(2)] ext task_ok_extend[of ?results events es' j "j < m" _ "(i, w)"] that(2) by auto
    show ?thesis
    proof (cases "inline_child (?results ! i)")
      case None
      then have run: "?run = run\<lparr>vr_tasks := (vr_tasks run)[i := Finished]\<rparr>" by (simp add: finish_task_def)
      have "task_ok ?results events' es' j (j < m') ((vr_tasks run)[i := Finished] ! j)" if "j < length ?results" for j
        using that others[of j] None own i inv by (cases "j = i") (auto simp: task_ok_def task_done_def run_inv_def)
      then show ?thesis using inv es' by (auto simp: run run_inv_def)
    next
      case (Some a)
      with True es'(1) obtain response sent where assoc:
        "associateChildWithParent a ?section (Some (with_entities r es')) = Inr (response, sent)"
        by (auto simp: finish_task_def Let_def split: sum.splits)
      from associate_response[OF this es'(2)] obtain v es'' where v: "child_value a ?section = Inr v"
        "response = Some (with_entities r es'')" "response_entities (with_entities r es'') = Inr es''"
        "truthy v \<longrightarrow> param_at es'' (slot a) = v" "\<not> truthy v \<longrightarrow> es'' = es'" "\<And>s. s \<noteq> slot a \<Longrightarrow> param_at es'' s = param_at es' s"
        "\<And>k g. (k, g) \<noteq> (er_entityKey (fr_parent a), js_key (fr_parentGuid a)) \<Longrightarrow> js_field (js_at es'' k) g = js_field (js_at es' k) g"
        by auto
      have run: "?run = run\<lparr>vr_tasks := (vr_tasks run)[i := Finished], vr_response := Some (with_entities r es''), vr_sent := vr_sent run @ sent\<rparr>"
        using Some assoc es'(1) v(2) by (simp add: finish_task_def)
      have del: "truthy v \<Longrightarrow> delivered ?results events' i (slot a) (param_at es'' (slot a))"
        using Some v(1,4) by (simp add: delivered_def)
      have tasks: "task_ok ?results events' es'' j (j < m') ((vr_tasks run)[i := Finished] ! j)" if j: "j < length ?results" for j
      proof (cases "j = i")
        case True
        have "task_done ?results events' es'' i"
          unfolding task_done_def using own del i v(1) Some by (auto intro!: exI[of _ i])
        with True inv i show ?thesis by (simp add: task_ok_def run_inv_def)
      next
        case False
        have "task_ok ?results events' es'' j (j < m') (vr_tasks run ! j)"
          by (rule task_ok_write[OF others[OF j False], of "slot a"]) (use v(5,6) del own i in auto)
        with False show ?thesis by simp
      qed
      have mem: "slot a \<in> set (slots ?results)" using inline_slot_mem[OF i Some] .
      have "param_at es'' s = param_at es s" if "s \<notin> set (slots ?results)" for s
        using es'(4)[OF that] v(6)[of s] that mem by auto
      moreover have "js_field (js_at es'' k) g = js_field (js_at es k) g" if "\<forall>p. (k, g, p) \<notin> set (slots ?results)" for k g
      proof -
        have "(k, g) \<noteq> (er_entityKey (fr_parent a), js_key (fr_parentGuid a))" using that mem by (auto simp: slot_def)
        with es'(5)[OF that] v(7) show ?thesis by simp
      qed
      ultimately show ?thesis using inv tasks v(3) by (auto simp: run run_inv_def)
    qed
  next
    case False
    with basic inv show ?thesis by (auto simp only: run_inv_def length_list_update)
  qed
qed

lemma run_results [simp]:
  "vr_results (finish_task i sec run) = vr_results run" "vr_results (begin_task i run) = vr_results run"
  "vr_results (watch e run) = vr_results run"
  by (auto simp: finish_task_def begin_task_def watch_def Let_def split: option.splits sum.splits prod.splits Task.splits)

lemma begin_inv:
  assumes "response_entities r = Inr es"
  shows "run_inv r es (length results) [] (handleValidationLoopResults results (Some r))
    \<and> vr_results (handleValidationLoopResults results (Some r)) = results"
proof -
  let ?start = "\<lparr>vr_results = results, vr_tasks = replicate (length results) (Waiting None), vr_response = Some r, vr_sent = [], vr_error = None\<rparr>"
  have "run_inv r es m [] (fold begin_task [0..<m] ?start) \<and> vr_results (fold begin_task [0..<m] ?start) = results
      \<and> (\<forall>j \<ge> m. j < length results \<longrightarrow> vr_tasks (fold begin_task [0..<m] ?start) ! j = Waiting None)" if "m \<le> length results" for m
    using that
  proof (induction m)
    case 0
    have "with_entities r es = r"
      using assms(1) by (auto simp: response_entities_def with_entities_def split: option.splits bind_splits)
    with assms(1) show ?case
      by (simp add: run_inv_def task_ok_def seen_by_def last_seen_def) (rule exI[of _ es]; simp)
  next
    case (Suc m)
    let ?run = "fold begin_task [0..<m] ?start"
    from Suc have inv: "run_inv r es m [] ?run" "vr_results ?run = results" "vr_tasks ?run ! m = Waiting None" by simp_all
    let ?run' = "?run\<lparr>vr_sent := vr_sent ?run @ sent_by (results ! m)\<rparr>"
    have inv': "run_inv r es m [] ?run'" using inv(1) by (simp add: run_inv_def)
    have later: "vr_tasks (begin_task m run) ! j = vr_tasks run ! j" if "j \<noteq> m" for j run
      using that by (auto simp: begin_task_def finish_task_def Let_def split: option.splits sum.splits)
    have "run_inv r es (Suc m) [] (begin_task m ?run)"
    proof (cases "is_watched (results ! m)")
      case True
      have "task_ok results [] es' i (i < Suc m) t" if "task_ok results [] es' i (i < m) t" for es' i t
        using that True by (cases "i = m") (auto simp: task_ok_def split: Task.splits)
      then show ?thesis using inv' inv(2) True by (auto simp: begin_task_def Let_def run_inv_def)
    next
      case False
      have "run_inv r es (Suc m) [] (finish_task m (settled_section (vr_results ?run' ! m) m []) ?run')"
        by (rule run_inv_finish[OF inv']) (use Suc.prems inv False in auto)
      then show ?thesis using False inv(2) by (simp add: begin_task_def Let_def settled_section_def)
    qed
    with Suc later show ?case by auto
  qed
  from this[of "length results"] show ?thesis by (simp add: handleValidationLoopResults_def)
qed

lemma watch_inv:
  assumes inv: "run_inv r es (length (vr_results run)) events run"
  shows "run_inv r es (length (vr_results run)) (events @ [e]) (watch e run)"
proof -
  let ?results = "vr_results run"
  obtain i w where e: "e = (i, w)" by force
  show ?thesis
  proof (cases "i \<ge> length ?results \<or> vr_tasks run ! i = Finished")
    case True
    have "task_ok ?results (events @ [e]) es' j True (vr_tasks run ! j)"
      if "task_ok ?results events es' j True (vr_tasks run ! j)" "j < length ?results" for es' j
      using task_ok_extend[OF that(1), of e] True that(2) e by (cases "j = i") auto
    moreover have "watch e run = run" using True inv by (auto simp: watch_def e run_inv_def)
    ultimately show ?thesis using inv by (auto simp: run_inv_def)
  next
    case False
    then obtain old where i: "i < length ?results" "vr_tasks run ! i = Waiting old" by (cases "vr_tasks run ! i") auto
    have len: "length (vr_tasks run) = length ?results" using inv by (simp add: run_inv_def)
    show ?thesis
    proof (cases "vr_error run = None")
      case True
      then obtain es' where "task_ok ?results events es' i True (vr_tasks run ! i)" using inv i(1) by (auto simp: run_inv_def)
      then have seen: "is_watched (?results ! i)" "settles None (seen_by i events) = None" "old = last_seen None (seen_by i events)"
        using i(2) by (simp_all add: task_ok_def)
      show ?thesis
      proof (cases "old = Some True \<and> \<not> createValidationWatcher w")
        case stops: True
        then have settled: "settles None (seen_by i (events @ [e])) = Some w" using seen by (simp add: e seen_by_snoc settles_snoc)
        have "run_inv r es (length ?results) (events @ [e]) (finish_task i (settled_section (?results ! i) i (events @ [e])) run)"
          by (rule run_inv_finish[OF inv i(1)]) (use e settled in auto)
        then show ?thesis using stops seen settled i len by (simp add: watch_def e settled_section_def)
      next
        case goes_on: False
        have ok: "task_ok ?results (events @ [e]) es' j True ((vr_tasks run)[i := Waiting (Some (createValidationWatcher w))] ! j)"
          if "task_ok ?results events es' j True (vr_tasks run ! j)" "j < length ?results" for es' j
        proof (cases "j = i")
          case True
          with seen goes_on i len show ?thesis by (auto simp: task_ok_def e seen_by_snoc settles_snoc last_seen_def)
        next
          case False
          with task_ok_extend[OF that(1), of e] e show ?thesis by auto
        qed
        show ?thesis using inv ok goes_on i len by (auto simp: watch_def e run_inv_def)
      qed
    next
      case False
      then have "vr_error (watch e run) \<noteq> None" "length (vr_tasks (watch e run)) = length ?results"
        using len i by (auto simp: watch_def e finish_task_def Let_def split: option.splits sum.splits)
      then show ?thesis unfolding run_inv_def by (cases "vr_error (watch e run)") simp_all
    qed
  qed
qed

lemma watched_inv:
  assumes "response_entities r = Inr es"
  shows "run_inv r es (length results) events (fold watch events (handleValidationLoopResults results (Some r)))
    \<and> vr_results (fold watch events (handleValidationLoopResults results (Some r))) = results"
proof (induction events rule: rev_induct)
  case Nil
  show ?case using begin_inv[OF assms] by simp
next
  case (snoc e events)
  with watch_inv[of r es "fold watch events (handleValidationLoopResults results (Some r))" events e] show ?case by simp
qed

lemma finished_run:
  assumes r: "response_entities r = Inr es"
    and run: "run = fold watch events (handleValidationLoopResults results (Some r))"
    and fin: "list_all (\<lambda>t. t = Finished) (vr_tasks run)" and ok: "vr_error run = None"
  shows "\<exists>es'. vr_response run = Some (with_entities r es') \<and> response_entities (with_entities r es') = Inr es'
    \<and> (\<forall>i < length results. \<forall>a. inline_child (results ! i) = Some a \<longrightarrow>
        (\<exists>v. child_value a (settled_section (results ! i) i events) = Inr v \<and> (truthy v \<longrightarrow> supplied results events es' (slot a))))
    \<and> (\<forall>s. s \<notin> set (slots results) \<longrightarrow> param_at es' s = param_at es s)
    \<and> (\<forall>k g. (\<forall>p. (k, g, p) \<notin> set (slots results)) \<longrightarrow> js_field (js_at es' k) g = js_field (js_at es k) g)"
proof -
  from watched_inv[OF r, of results events] have inv: "run_inv r es (length results) events run" "vr_results run = results"
    by (simp_all add: run)
  from inv ok obtain es' where es': "vr_response run = Some (with_entities r es')" "response_entities (with_entities r es') = Inr es'"
    "\<And>i. i < length results \<Longrightarrow> task_ok results events es' i True (vr_tasks run ! i)"
    "\<forall>s. s \<notin> set (slots results) \<longrightarrow> param_at es' s = param_at es s"
    "\<forall>k g. (\<forall>p. (k, g, p) \<notin> set (slots results)) \<longrightarrow> js_field (js_at es' k) g = js_field (js_at es k) g"
    unfolding run_inv_def by auto
  have "\<exists>v. child_value a (settled_section (results ! i) i events) = Inr v \<and> (truthy v \<longrightarrow> supplied results events es' (slot a))"
    if i: "i < length results" and a: "inline_child (results ! i) = Some a" for i a
  proof -
    have "vr_tasks run ! i = Finished" using fin inv i by (auto simp: run_inv_def list_all_length)
    with es'(3)[OF i] a show ?thesis by (auto simp: task_ok_def task_done_def supplied_def)
  qed
  with es' show ?thesis by blast
qed

text \<open>When no two results are for the same place, each place has what its own result delivered.\<close>

lemma supplied_apart:
  assumes "distinct (slots results)" "i < length results" "inline_child (results ! i) = Some a"
    and "child_value a (settled_section (results ! i) i events) = Inr v" "supplied results events es' (slot a)"
  shows "param_at es' (slot a) = v"
proof -
  from assms(5) obtain j b where j: "j < length results" "inline_child (results ! j) = Some b" "slot b = slot a"
    "child_value b (settled_section (results ! j) j events) = Inr (param_at es' (slot a))"
    by (auto simp: supplied_def delivered_def)
  have "j = i"
    by (rule ccontr) (use slots_apart[OF assms(1) j(1) assms(2) _ j(2) assms(3)] j(3) in simp)
  with j assms(3,4) show ?thesis by simp
qed

text \<open>
  C10: Missing relations end up in the answer, in whatever order they arrive. When every result of a validation is done
  and nothing was thrown, then for every fetched list of children that its section had when its fetch was seen to stop,
  and for every single child that has a guid, the entity of the parent in the answer has under the parameter of the
  relation such a list or guid: the one of this result, or, when several results are for the same parameter of the same
  entity, the one of one of them. No other parameter of any entity changed, and no other entity.
\<close>

theorem relations_reach_response:
  assumes "response_entities r = Inr es"
    and "run = fold watch events (handleValidationLoopResults results (Some r))"
    and "list_all (\<lambda>t. t = Finished) (vr_tasks run)" and "vr_error run = None"
  shows "\<exists>es'. vr_response run = Some (with_entities r es')
    \<and> (\<forall>i < length results. \<forall>a. inline_child (results ! i) = Some a \<longrightarrow>
        (\<exists>v. child_value a (settled_section (results ! i) i events) = Inr v \<and> (truthy v \<longrightarrow>
          supplied results events es' (slot a) \<and> (distinct (slots results) \<longrightarrow> param_at es' (slot a) = v))))
    \<and> (\<forall>s. s \<notin> set (slots results) \<longrightarrow> param_at es' s = param_at es s)
    \<and> (\<forall>k g. (\<forall>p. (k, g, p) \<notin> set (slots results)) \<longrightarrow> js_field (js_at es' k) g = js_field (js_at es k) g)"
  using finished_run[OF assms] supplied_apart[of results _ _ events] by metis

subsection \<open>Roles brought to users\<close>

text \<open>The users of a list of an organization or space, and the roles a user has already.\<close>

definition listed :: "js \<Rightarrow> string \<Rightarrow> string list" where
  "listed org param = map js_key (elements (js_field org param))"

definition has_role :: "js \<Rightarrow> js \<Rightarrow> string \<Rightarrow> string \<Rightarrow> bool" where
  "has_role users org userParam g \<longleftrightarrow> js_field org ''guid'' \<in> set (elements (js_field (js_field (js_field users g) ''entity'') userParam))"

text \<open>The entity part of a user after the roles \<open>ups\<close> were brought: only a role the user has no list of is new.\<close>

definition brought :: "js \<Rightarrow> js \<Rightarrow> string set \<Rightarrow> js \<Rightarrow> bool" where
  "brought e org ups e' \<longleftrightarrow> wf_obj (js_own e') \<and> (\<forall>k. obj_get (js_own e') k =
     (case obj_get (js_own e) k of Some v \<Rightarrow> Some v
      | None \<Rightarrow> if k \<in> ups then Some (JArr [js_field org ''guid'']) else None))"

definition new_users_inv :: "js \<Rightarrow> js \<Rightarrow> (string \<times> string) set \<Rightarrow> (string, js) obj \<Rightarrow> bool" where
  "new_users_inv users org D newUsers \<longleftrightarrow> (\<forall>g. let ups = {up. (g, up) \<in> D \<and> \<not> has_role users org up g} in
     if ups = {} then obj_get newUsers g = None
     else \<exists>m. obj_get newUsers g = Some m \<and> truthy m \<and> brought (js_field (js_field users g) ''entity'') org ups (js_field m ''entity'')
       \<and> js_field m ''metadata'' = js_field (js_field users g) ''metadata'')"

lemma merge_role:
  assumes "brought e org ups e0" "js_field n ''entity'' = e0" "truthy n"
    and "obj_get (js_own e) up = None \<longrightarrow> roles = [js_field org ''guid'']"
    and "mergeEntity (JObj [(''entity'', JObj [(up, JArr roles)])]) n = Inr m"
  shows "truthy m \<and> brought e org (insert up ups) (js_field m ''entity'') \<and> js_field m ''metadata'' = js_field n ''metadata''"
proof -
  have m: "m = JObj [(''entity'', js_spread (JObj [(up, JArr roles)]) e0), (''metadata'', js_field n ''metadata'')]"
    using assms(2,3,5) by (simp add: mergeEntity_def truthy_js_prop)
  have wf: "wf_obj (js_own e0)" using assms(1) by (simp add: brought_def)
  have "brought e org (insert up ups) (js_spread (JObj [(up, JArr roles)]) e0)"
    using assms(1,4) wf by (auto simp: brought_def js_own_spread obj_get_spread wf_obj_spread split: option.splits)
  then show ?thesis by (simp add: m)
qed


lemma add_role_inv:
  assumes inv: "new_users_inv users org D newUsers" and step: "add_role users org up newUsers userGuid = Inr newUsers'"
    and wf: "\<And>g. wf_obj (js_own (js_field (js_field users g) ''entity''))"
  shows "new_users_inv users org (insert (js_key userGuid, up) D) newUsers'"
proof -
  let ?g = "js_key userGuid" and ?guid = "js_field org ''guid''"
  let ?user = "js_field users ?g"
  let ?e = "js_field ?user ''entity''"
  let ?ups = "{u. (?g, u) \<in> D \<and> \<not> has_role users org u ?g}"
  from step obtain existingUser roles existingRoles where
    p: "js_prop users ?g = Inr existingUser" "entity_field existingUser up = Inr roles"
      "(if truthy roles then js_array roles else Inr []) = Inr existingRoles"
    and last: "(if ?guid \<in> set existingRoles then Inr newUsers
       else res_bind (mergeEntity (JObj [(''entity'', JObj [(up, JArr (existingRoles @ [?guid]))])])
           (if truthy (js_at newUsers ?g) then js_at newUsers ?g else existingUser)) (\<lambda>m. Inr (obj_set ?g m newUsers))) = Inr newUsers'"
    by (auto simp: add_role_def res_bind_Inr_iff Let_def)
  have user: "existingUser = ?user" using js_prop_field[OF p(1)] .
  from p(2) obtain e where e: "js_prop ?user ''entity'' = Inr e" "js_prop e up = Inr roles"
    by (auto simp: entity_field_def res_bind_Inr_iff user)
  have e_eq: "e = ?e" and roles: "roles = js_field ?e up" using js_prop_field[OF e(1)] js_prop_field[OF e(2)] by simp_all
  have existing: "existingRoles = elements roles" using p(3) by (cases roles) (auto split: if_splits)
  have has: "?guid \<in> set existingRoles \<longleftrightarrow> has_role users org up ?g" by (simp add: has_role_def existing roles)
  have truthy_user: "truthy ?user" using e by (cases ?user) (auto simp: js_field_def e_eq split: if_splits)
  show ?thesis
  proof (cases "?guid \<in> set existingRoles")
    case True
    then have "{u. (g, u) \<in> insert (?g, up) D \<and> \<not> has_role users org u g} = {u. (g, u) \<in> D \<and> \<not> has_role users org u g}" for g
      using has by auto
    then show ?thesis using True last inv by (simp add: new_users_inv_def)
  next
    case False
    with last obtain m where m: "mergeEntity (JObj [(''entity'', JObj [(up, JArr (existingRoles @ [?guid]))])])
        (if truthy (js_at newUsers ?g) then js_at newUsers ?g else ?user) = Inr m" "newUsers' = obj_set ?g m newUsers"
      unfolding user by (auto simp: res_bind_Inr_iff)
    have fresh: "obj_get (js_own ?e) up = None \<longrightarrow> existingRoles @ [?guid] = [?guid]"
      by (auto simp: existing roles js_field_def)
    have new: "truthy m \<and> brought ?e org (insert up ?ups) (js_field m ''entity'') \<and> js_field m ''metadata'' = js_field ?user ''metadata''"
    proof (cases "?ups = {}")
      case True
      with inv have "obj_get newUsers ?g = None" unfolding new_users_inv_def by (auto simp: Let_def dest!: spec[of _ ?g])
      then have merge: "mergeEntity (JObj [(''entity'', JObj [(up, JArr (existingRoles @ [?guid]))])]) ?user = Inr m"
        using m(1) by (simp add: js_at_def)
      have "brought ?e org {} ?e" using wf by (simp add: brought_def split: option.split)
      from merge_role[OF this refl truthy_user fresh merge] show ?thesis by (simp only: True)
    next
      case False
      obtain n where n: "obj_get newUsers ?g = Some n" "truthy n" "brought ?e org ?ups (js_field n ''entity'')"
        "js_field n ''metadata'' = js_field ?user ''metadata''"
        using inv[unfolded new_users_inv_def Let_def, rule_format, of ?g, unfolded if_not_P[OF False]] by blast
      then have merge: "mergeEntity (JObj [(''entity'', JObj [(up, JArr (existingRoles @ [?guid]))])]) n = Inr m"
        using m(1) by (simp add: js_at_def)
      from merge_role[OF n(3) refl n(2) fresh merge] n(4) show ?thesis by simp
    qed
    have ups: "{u. (g, u) \<in> insert (?g, up) D \<and> \<not> has_role users org u g} =
        (if g = ?g then insert up ?ups else {u. (g, u) \<in> D \<and> \<not> has_role users org u g})" for g
      using False has by auto
    show ?thesis using inv new unfolding new_users_inv_def ups m(2) by (auto simp: Let_def)
  qed
qed

lemma update_users_inv:
  assumes "new_users_inv users org D newUsers" and "updateUserFromOrgSpaceArray users newUsers org rp up = Inr newUsers'"
    and wf: "\<And>g. wf_obj (js_own (js_field (js_field users g) ''entity''))"
  shows "new_users_inv users org (D \<union> (\<lambda>g. (g, up)) ` set (listed org rp)) newUsers'"
proof -
  from assms(2) obtain guids where guids: "js_prop org rp = Inr guids"
    "(if \<not> truthy guids then Inr newUsers else res_bind (js_array guids) (res_fold (add_role users org up) newUsers)) = Inr newUsers'"
    by (auto simp: updateUserFromOrgSpaceArray_def res_bind_Inr_iff)
  have field: "guids = js_field org rp" using js_prop_field[OF guids(1)] .
  show ?thesis
  proof (cases "truthy guids")
    case True
    with guids(2) obtain us where us: "guids = JArr us" "res_fold (add_role users org up) newUsers us = Inr newUsers'"
      by (cases guids) (auto simp: res_bind_Inr_iff)
    have "new_users_inv users org (D \<union> (\<lambda>g. (g, up)) ` set (map js_key us)) newUsers'" using us(2) assms(1)
    proof (induction us arbitrary: D newUsers)
      case (Cons u us)
      then obtain n where n: "add_role users org up newUsers u = Inr n" "res_fold (add_role users org up) n us = Inr newUsers'"
        by (auto simp: res_bind_Inr_iff)
      from Cons.IH[OF n(2) add_role_inv[OF Cons.prems(2) n(1) wf]] show ?case by simp
    qed simp
    moreover have "js_field org rp = JArr us" using us(1) field by simp
    ultimately show ?thesis by (simp add: listed_def)
  next
    case False
    then have "elements (js_field org rp) = []" unfolding field by (cases "js_field org rp") simp_all
    then have "listed org rp = []" by (simp add: listed_def)
    with guids(2) False assms(1) show ?thesis by simp
  qed
qed

lemma new_users_spec:
  assumes "new_users key users org = Inr newUsers" and wf: "\<And>g. wf_obj (js_own (js_field (js_field users g) ''entity''))"
  shows "new_users_inv users org {(g, up). \<exists>rp. (rp, up) \<in> set (role_params key) \<and> g \<in> set (listed org rp)} newUsers"
proof -
  have "new_users_inv users org (D \<union> {(g, up). \<exists>rp. (rp, up) \<in> set pairs \<and> g \<in> set (listed org rp)}) newUsers"
    if "res_fold (\<lambda>newUsers (rp, up). updateUserFromOrgSpaceArray users newUsers org rp up) n pairs = Inr newUsers"
      "new_users_inv users org D n" for pairs D n
    using that
  proof (induction pairs arbitrary: D n)
    case (Cons p pairs)
    obtain rp up where p: "p = (rp, up)" by force
    from Cons.prems(1) obtain n' where n': "updateUserFromOrgSpaceArray users n org rp up = Inr n'"
      "res_fold (\<lambda>newUsers (rp, up). updateUserFromOrgSpaceArray users newUsers org rp up) n' pairs = Inr newUsers"
      by (auto simp: p res_bind_Inr_iff)
    have "D \<union> (\<lambda>g. (g, up)) ` set (listed org rp) \<union> {(g, up). \<exists>rp. (rp, up) \<in> set pairs \<and> g \<in> set (listed org rp)} =
        D \<union> {(g, up). \<exists>rp. (rp, up) \<in> set (p # pairs) \<and> g \<in> set (listed org rp)}"
      by (auto simp: p)
    with Cons.IH[OF n'(2) update_users_inv[OF Cons.prems(2) n'(1) wf]] show ?case by simp
  qed simp
  from this[of "[]" _ "{}"] assms(1) show ?thesis by (simp add: new_users_def new_users_inv_def)
qed


text \<open>
  C20: Roles reach the users. For a fetched organization or space the post-processor hands on exactly the users that one of
  its role lists names and that do not hold that role already; each keeps its metadata and everything its entity holds, and its entity
  gets a list with the organization or space for every such role of which it has no list at all, and nothing else. A list
  that is there stays as it is, even when it lacks the role.
\<close>

theorem roles_brought_to_users:
  assumes "new_users key users org = Inr newUsers" and "\<And>g. wf_obj (js_own (js_field (js_field users g) ''entity''))"
    and "ups = {up. (\<exists>rp. (rp, up) \<in> set (role_params key) \<and> g \<in> set (listed org rp)) \<and> \<not> has_role users org up g}"
  shows "(ups = {} \<longrightarrow> obj_get newUsers g = None)
    \<and> (ups \<noteq> {} \<longrightarrow> (\<exists>m. obj_get newUsers g = Some m \<and> js_field m ''metadata'' = js_field (js_field users g) ''metadata''
      \<and> (\<forall>k. obj_get (js_own (js_field m ''entity'')) k =
        (case obj_get (js_own (js_field (js_field users g) ''entity'')) k of
           Some v \<Rightarrow> Some v
         | None \<Rightarrow> if k \<in> ups then Some (JArr [js_field org ''guid'']) else None))))"
proof -
  have eq: "{up. (g, up) \<in> {(g, up). \<exists>rp. (rp, up) \<in> set (role_params key) \<and> g \<in> set (listed org rp)} \<and> \<not> has_role users org up g} = ups"
    using assms(3) by simp
  have "if ups = {} then obj_get newUsers g = None
      else \<exists>m. obj_get newUsers g = Some m \<and> truthy m \<and> brought (js_field (js_field users g) ''entity'') org ups (js_field m ''entity'')
        \<and> js_field m ''metadata'' = js_field (js_field users g) ''metadata''"
    using new_users_spec[OF assms(1,2), unfolded new_users_inv_def Let_def, THEN spec, of g] unfolding eq .
  then show ?thesis unfolding brought_def by (auto split: if_splits)
qed

definition example_org :: js where
  "example_org = JObj [(''guid'', JStr ''o''), (''users'', JArr [JStr ''u'', JStr ''w'']), (''managers'', JArr [JStr ''u''])]"

definition example_users :: js where
  "example_users = JObj [(''u'', JObj [(''entity'', JObj [(''organizations'', JArr [JStr ''p''])])]),
     (''w'', JObj [(''entity'', JObj [(''organizations'', JArr [JStr ''o''])])])]"

lemma roles_brought_to_users_witness:
  "\<exists>newUsers m. new_users ''organization'' example_users example_org = Inr newUsers \<and> obj_get newUsers ''w'' = None
    \<and> obj_get newUsers ''u'' = Some m
    \<and> obj_get (js_own (js_field m ''entity'')) ''managed_organizations'' = Some (JArr [JStr ''o''])
    \<and> obj_get (js_own (js_field m ''entity'')) ''organizations'' = Some (JArr [JStr ''p''])"
proof -
  have "(case new_users ''organization'' example_users example_org of Inr _ \<Rightarrow> True | Inl _ \<Rightarrow> False)" by code_simp
  then obtain newUsers where run: "new_users ''organization'' example_users example_org = Inr newUsers" by (auto split: sum.splits)
  have wf: "wf_obj (js_own (js_field (js_field example_users g) ''entity''))" for g by (simp add: example_users_def)
  have ups: "{up. (\<exists>rp. (rp, up) \<in> set (role_params ''organization'') \<and> ''u'' \<in> set (listed example_org rp)) \<and> \<not> has_role example_users example_org up ''u''} =
      {''organizations'', ''managed_organizations''}"
    "{up. (\<exists>rp. (rp, up) \<in> set (role_params ''organization'') \<and> ''w'' \<in> set (listed example_org rp)) \<and> \<not> has_role example_users example_org up ''w''} = {}"
    by (auto simp: role_params_def listed_def has_role_def example_org_def example_users_def)
  from roles_brought_to_users[OF run wf ups(1)[symmetric]] roles_brought_to_users[OF run wf ups(2)[symmetric]] run
  show ?thesis by (auto simp: example_users_def example_org_def)
qed


subsection \<open>A long list of users fails its request\<close>

lemma res_fold_visits: "res_fold f s xs = Inr s' \<Longrightarrow> x \<in> set xs \<Longrightarrow> \<exists>t t'. f t x = Inr t'"
  by (induction xs arbitrary: s) (auto simp: res_bind_Inr_iff)

lemma new_users_known:
  assumes "new_users key users org = Inr newUsers" "(rp, up) \<in> set (role_params key)" "js_field org rp = JArr us" "u \<in> set us"
  shows "js_field users (js_key u) \<noteq> JUndef"
proof -
  from res_fold_visits[OF assms(1)[unfolded new_users_def] assms(2)] obtain t t' where
    "updateUserFromOrgSpaceArray users t org rp up = Inr t'" by auto
  then obtain t where "res_fold (add_role users org up) t us = Inr t'"
    using assms(3) by (auto simp: updateUserFromOrgSpaceArray_def res_bind_Inr_iff dest!: js_prop_field)
  from res_fold_visits[OF this assms(4)] obtain n n' where "add_role users org up n u = Inr n'" by auto
  then obtain existingUser where "js_prop users (js_key u) = Inr existingUser" "entity_field existingUser up \<noteq> Inl TypeError"
    by (cases "js_prop users (js_key u)"; cases "entity_field (js_field users (js_key u)) up")
      (auto simp: add_role_def dest: js_prop_field)
  then show ?thesis by (cases "js_field users (js_key u)") (auto simp: entity_field_def dest!: js_prop_field)
qed

text \<open>
  C14: An organization with a long list of users cannot be loaded. When a list of users that came without the
  organization is fetched by the validation, its users go to the store and not into the answer; the post-processing
  looks for them in the answer, throws, and the validation ends in an error, which fails the request: one listed user
  that the answer does not hold is enough.
\<close>

theorem fetched_users_fail_request:
  assumes "response_entities r = Inr es" and "distinct (slots results)"
    and "run = fold watch events (handleValidationLoopResults results (Some r))"
    and "list_all (\<lambda>t. t = Finished) (vr_tasks run)"
    and "i < length results" and "results ! i = DispatchFetch f" and "truthy (fr_parentGuid f)" and "er_isArray (fr_child f)"
    and "slot f = (''organization'', g, rp)" and "(rp, up) \<in> set (role_params ''organization'')"
    and "settled_section (results ! i) i events = Some p" and "obj_get (pe_ids p) 1 = Some (Some ids)" and "u \<in> set ids"
    and "js_field (js_at es ''user'') u = JUndef" and "\<forall>q. (''user'', u, q) \<notin> set (slots results)"
    and "aa_type a = ''API_REQUEST_START''" and "ca_actions a = ''[Organization] Get one'' # others"
    and "aa_entityKey a = Some ''organization''" and "aa_guid a = Some g"
  shows "\<exists>err. fst (validationCompleted describe a allEntities run) = ValidationError True err"
proof -
  have results: "vr_results run \<noteq> []" using watched_inv[OF assms(1), of results events] assms(3,5) by auto
  show ?thesis
  proof (cases "vr_error run")
    case None
    have child: "inline_child (results ! i) = Some f" using assms(6,7) by simp
    from finished_run[OF assms(1,3,4) None] obtain es' where es': "vr_response run = Some (with_entities r es')"
      "response_entities (with_entities r es') = Inr es'"
      "\<exists>v. child_value f (settled_section (results ! i) i events) = Inr v \<and> (truthy v \<longrightarrow> supplied results events es' (slot f))"
      "js_field (js_at es' ''user'') u = js_field (js_at es ''user'') u"
      using assms(5,15) child by blast
    have "\<exists>v. child_value f (settled_section (results ! i) i events) = Inr v \<and> (truthy v \<longrightarrow> param_at es' (slot f) = v)"
      using es'(3) supplied_apart[OF assms(2,5) child] by blast
    then have org: "js_field (js_field (js_field (js_at es' ''organization'') g) ''entity'') rp = JArr (map JStr ids)"
      using assms(8,9,11,12) by (simp add: child_value_def param_at_def)
    have throws: "new_users ''organization'' (js_at es' ''user'') (js_field (js_field (js_at es' ''organization'') g) ''entity'') \<noteq> Inr n" for n
    proof
      assume "new_users ''organization'' (js_at es' ''user'') (js_field (js_field (js_at es' ''organization'') g) ''entity'') = Inr n"
      from new_users_known[OF this assms(10) org, of "JStr u"] assms(13,14) es'(4) show False by simp
    qed
    have "\<exists>e. orgSpacePostProcess a (vr_response run) allEntities = Inl e"
    proof (cases "orgSpacePostProcess a (vr_response run) allEntities")
      case (Inr x)
      then obtain o1 o2 n where "js_prop (js_at es' ''organization'') g = Inr o1" "js_prop o1 ''entity'' = Inr o2"
        "new_users ''organization'' (js_at es' ''user'') o2 = Inr n"
        using es'(1,2) assms(18,19)
        by (auto simp: orgSpacePostProcess_def res_bind_Inr_iff Let_def js_str_def role_params_def split: if_splits)
      with throws show ?thesis by (auto dest!: js_prop_field)
    qed blast
    then show ?thesis using None results assms(16,17)
      by (auto simp: validationCompleted_def validationPostProcessor_def Let_def)
  qed (use results in \<open>simp add: validationCompleted_def Let_def\<close>)
qed

subsection \<open>Examples\<close>

definition users_of_org :: "string \<Rightarrow> FetchRelationAction" where
  "users_of_org param = \<lparr>fr_endpointGuid = JStr ''cf'', fr_parentGuid = JStr ''o'',
     fr_parent = Relation (EntitySchema ''organization'' None guid_options None) False None '''' [],
     fr_child = Relation (EntitySchema ''user'' None guid_options (Some param)) True (Some param) (''entity.'' @ param) [],
     fr_includeRelations = [''organization-'' @ param], fr_populateMissing = True, fr_url = ''organizations/o/'' @ param,
     fr_guid = None, fr_paginationKey = Some (''organization-o-'' @ param @ ''-relation'')\<rparr>"

definition fetch_section :: "bool \<Rightarrow> string list \<Rightarrow> PaginationEntityState" where
  "fetch_section busy ids = getDefaultPaginationEntityState\<lparr>pe_ids := [(1, Some ids)],
     pe_pageRequests := [(1, \<lparr>as_busy = busy, as_error = False, as_message = JStr ''''\<rparr>)]\<rparr>"

definition org_answer :: APIResponse where
  "org_answer = \<lparr>ar_response = Some \<lparr>nr_entities = Some [(''organization'',
       JObj [(''o'', JObj [(''entity'', JObj [(''guid'', JStr ''o'')])])])], nr_result = [''o'']\<rparr>,
     ar_totalResults = None, ar_totalPages = None\<rparr>"

text \<open>Two lists of users, whose fetches end in the other order.\<close>

definition org_results :: "ValidateEntityResult list" where
  "org_results = [DispatchFetch (users_of_org ''managers''), DispatchFetch (users_of_org ''auditors'')]"

definition org_events :: "(nat \<times> Watched) list" where
  "org_events = [(0, WatchedList None), (1, WatchedList (Some (fetch_section True []))),
     (1, WatchedList (Some (fetch_section False [''w'']))), (0, WatchedList (Some (fetch_section False [''u'', ''v''])))]"

definition org_run :: ValidationRun where
  "org_run = fold watch org_events (handleValidationLoopResults org_results (Some org_answer))"

lemma org_run_done: "list_all (\<lambda>t. t = Finished) (vr_tasks org_run)" "vr_error org_run = None"
  by (simp_all add: org_run_def org_events_def org_results_def handleValidationLoopResults_def begin_task_def watch_def
      finish_task_def fetch_section_def users_of_org_def getDefaultPaginationEntityState_def associateChildWithParent_def
      child_value_def response_entities_def org_answer_def set_param_def js_put_def child_param_def with_entities_def
      er_entityKey_def js_with_def Let_def is_object_def)

lemma org_example:
  "response_entities org_answer = Inr [(''organization'', JObj [(''o'', JObj [(''entity'', JObj [(''guid'', JStr ''o'')])])])]"
  "distinct (slots org_results)" "set (slots org_results) = {(''organization'', ''o'', ''managers''), (''organization'', ''o'', ''auditors'')}"
  "settled_section (org_results ! 0) 0 org_events = Some (fetch_section False [''u'', ''v''])"
  "settled_section (org_results ! 1) 1 org_events = Some (fetch_section False [''w''])"
  by (simp_all add: org_results_def org_answer_def response_entities_def slots_def map_filter_simps slot_def users_of_org_def
      er_entityKey_def child_param_def settled_section_def seen_by_def org_events_def fetch_section_def getDefaultPaginationEntityState_def)

lemma relations_reach_response_witness:
  "\<exists>es'. vr_response org_run = Some (with_entities org_answer es')
    \<and> param_at es' (''organization'', ''o'', ''managers'') = JArr [JStr ''u'', JStr ''v'']
    \<and> param_at es' (''organization'', ''o'', ''auditors'') = JArr [JStr ''w'']
    \<and> param_at es' (''organization'', ''o'', ''guid'') = JStr ''o''"
proof -
  from relations_reach_response[OF org_example(1) org_run_def org_run_done] obtain es' where
    es': "vr_response org_run = Some (with_entities org_answer es')"
    "\<forall>i < length org_results. \<forall>a. inline_child (org_results ! i) = Some a \<longrightarrow>
        (\<exists>v. child_value a (settled_section (org_results ! i) i org_events) = Inr v \<and> (truthy v \<longrightarrow>
          supplied org_results org_events es' (slot a) \<and> (distinct (slots org_results) \<longrightarrow> param_at es' (slot a) = v)))"
    "\<forall>s. s \<notin> set (slots org_results) \<longrightarrow>
        param_at es' s = param_at [(''organization'', JObj [(''o'', JObj [(''entity'', JObj [(''guid'', JStr ''o'')])])])] s"
    by blast
  have slot: "slot (users_of_org param) = (''organization'', ''o'', param)" for param
    by (simp add: slot_def users_of_org_def er_entityKey_def child_param_def)
  have child: "inline_child (DispatchFetch (users_of_org param)) = Some (users_of_org param)" for param
    by (simp add: users_of_org_def)
  have "param_at es' (''organization'', ''o'', ''managers'') = JArr [JStr ''u'', JStr ''v'']"
    using es'(2)[rule_format, of 0 "users_of_org ''managers''"] org_example(2,4)
    by (simp add: org_results_def child slot) (simp add: child_value_def users_of_org_def fetch_section_def)
  moreover have "param_at es' (''organization'', ''o'', ''auditors'') = JArr [JStr ''w'']"
    using es'(2)[rule_format, of 1 "users_of_org ''auditors''"] org_example(2,5)
    by (simp add: org_results_def child slot) (simp add: child_value_def users_of_org_def fetch_section_def)
  moreover have "param_at es' (''organization'', ''o'', ''guid'') = JStr ''o''"
    using es'(3) org_example(3) by (simp add: param_at_def)
  ultimately show ?thesis using es'(1) by blast
qed

definition get_organization :: ICFAction where
  "get_organization = \<lparr>aa_type = ''API_REQUEST_START'', aa_entityKey = Some ''organization'', aa_guid = Some ''o'', aa_endpointGuid = Some ''cf'',
      aa_updatingKey = None, aa_paginationKey = None, aa_pageNumber = None, aa_method = JStr ''get'',
      aa_removeEntityOnDelete = False, aa_change = None, aa_details = [],
      ca_url = ''organizations/o'', ca_actions = [''[Organization] Get one'', ''[Organization] Get one success'', ''[Organization] Get one failed''],
      ca_entity = Some (EntitySchema ''organization'' None guid_options None), ca_entityLocation = None, ca_initialParams = None,
      ca_flattenPagination = False, ca_skipValidation = False, ca_params = None,
      ca_includeRelations = Some [''organization-managers'', ''organization-auditors''], ca_populateMissing = Some True\<rparr>"

lemma fetched_users_fail_request_witness:
  "\<exists>err. fst (validationCompleted (\<lambda>_. ''TypeError'') get_organization [] org_run) = ValidationError True err"
proof (rule fetched_users_fail_request[OF org_example(1,2) org_run_def org_run_done(1),
      where i = 0 and f = "users_of_org ''managers''" and g = "''o''" and rp = "''managers''" and up = "''managed_organizations''"
        and p = "fetch_section False [''u'', ''v'']" and ids = "[''u'', ''v'']" and u = "''u''"
        and others = "[''[Organization] Get one success'', ''[Organization] Get one failed'']"])
  show "settled_section (org_results ! 0) 0 org_events = Some (fetch_section False [''u'', ''v''])" by (rule org_example(4))
  show "\<forall>q. (''user'', ''u'', q) \<notin> set (slots org_results)" by (simp add: org_example(3))
qed (simp_all add: org_example(3) org_results_def users_of_org_def slot_def er_entityKey_def child_param_def role_params_def
    fetch_section_def get_organization_def)


subsection \<open>A list whose entities came with their parent: populatePaginationFromParent\<close>

text \<open>\<open>isEntityBlocked\<close> of \<open>entity-service.ts\<close>; the section of the root is part of every request state.\<close>

definition isEntityBlocked :: "RequestInfoState option \<Rightarrow> bool" where
  "isEntityBlocked entityRequestInfo \<longleftrightarrow>
     (case entityRequestInfo of
        None \<Rightarrow> False
      | Some r \<Rightarrow> ri_fetching r \<or> ri_error r \<or> as_busy (ri_deleting r) \<or> ds_deleted (ri_deleting r)
          \<or> (case obj_get (ri_updating r) rootUpdatingKey of Some u \<Rightarrow> as_busy u | None \<Rightarrow> False))"

definition list_param :: "schema \<Rightarrow> string \<Rightarrow> string option" where
  "list_param parentEntitySchema entityKey =
     (case obj_get (child_schemas parentEntitySchema) ''entity'' of
        Some (PlainSchema ps) \<Rightarrow> map_option fst (find (\<lambda>(_, s). schema_key (first_schema s) = Some entityKey) ps)
      | _ \<Rightarrow> None)"

text \<open>
  The list is given for \<open>newEntities\<close>, where a dictionary by type is expected, so the entities are those of the store.
\<close>

definition createActionsForExistingEntities :: "ICFAction \<Rightarrow> string \<Rightarrow> js list \<Rightarrow> (string, js) obj \<Rightarrow> Action" where
  "createActionsForExistingEntities a entityKey children allEntities =
     (let guids = map js_key (childEntitiesAsGuids children);
          picked = (let new = pick (js_field (JArr children) entityKey) guids in
                    if truthy new then new else pick (js_at allEntities entityKey) guids)
      in RequestA (WrapperRequestActionSuccess (Some \<lparr>nr_entities = Some [(entityKey, picked)], nr_result = guids\<rparr>)
           (api_action a) FetchType (Some (int (length children))) (Some 1)))"

definition list_of_parent :: "ICFAction \<Rightarrow> schema \<Rightarrow> js \<Rightarrow> (string, js) obj \<Rightarrow> Action option result" where
  "list_of_parent a parentEntitySchema parent allEntities =
     (if \<not> truthy parent then Inr None
      else case Option.bind (aa_entityKey a) (list_param parentEntitySchema) of
          None \<Rightarrow> Inr None
        | Some paramName \<Rightarrow>
            res_bind (entity_field parent paramName) (\<lambda>children.
              if \<not> truthy children then Inr None
              else res_bind (js_array children) (\<lambda>cs.
                Inr (Some (createActionsForExistingEntities a (the (aa_entityKey a)) cs allEntities)))))"

text \<open>
  The states of the store the observable sees: the parent, its request state, all entities. Without a parent in the
  first state there is nothing to wait for; otherwise the first state in which the parent is not blocked decides. The
  outer \<open>None\<close> is an observable that is still waiting.
\<close>

record ParentState =
  ps_parent :: js
  ps_info :: "RequestInfoState option"
  ps_entities :: "(string, js) obj"

definition populatePaginationFromParent ::
  "ICFAction \<Rightarrow> (schema \<times> string) option \<Rightarrow> ParentState list \<Rightarrow> Action option result option" where
  "populatePaginationFromParent a parent states =
     (case parent of
        None \<Rightarrow> Some (Inr None)
      | Some (parentEntitySchema, parentGuid) \<Rightarrow>
          if parentGuid = [] \<or> \<not> ca_flattenPagination a then Some (Inr None)
          else case states of
            [] \<Rightarrow> None
          | s # _ \<Rightarrow>
              if \<not> truthy (ps_parent s) then Some (Inr None)
              else map_option (\<lambda>s. list_of_parent a parentEntitySchema (ps_parent s) (ps_entities s))
                (find (\<lambda>s. \<not> isEntityBlocked (ps_info s)) states))"

text \<open>
  C22: A list that came with its parent is not fetched again. When the list can be filled from its parent, the action
  that does so makes the pagination reducer record, as the current page, exactly the children of the parent in their
  order, with their number as the total; the page counts as there, and the observer of the list dispatches no fetch.
\<close>

theorem list_filled_from_parent:
  assumes "populatePaginationFromParent a (Some (sch, g)) states = Some (Inr (Some act))"
    and "aa_entityKey a = Some K" "K \<noteq> []" "aa_paginationKey a = Some P" "P \<noteq> []" "aa_pageNumber a = None" "obj_get s K \<noteq> None"
  shows "\<exists>state param children s' p. state \<in> set states \<and> \<not> isEntityBlocked (ps_info state) \<and> list_param sch K = Some param
    \<and> entity_field (ps_parent state) param = Inr (JArr children)
    \<and> paginate s act = Inr s' \<and> section_of s' (K, P) = Some p
    \<and> obj_get (pe_ids p) (pe_currentPage p) = Some (Some (map js_key (childEntitiesAsGuids children)))
    \<and> pe_totalResults p = int (length children) \<and> isPageReady (Some p)
    \<and> fetchPaginationStep isLocal once (Some p) = (False, once)"
proof -
  from assms(1) obtain state where state: "find (\<lambda>s. \<not> isEntityBlocked (ps_info s)) states = Some state"
    "list_of_parent a sch (ps_parent state) (ps_entities state) = Inr (Some act)"
    by (auto simp: populatePaginationFromParent_def split: if_splits list.splits)
  then have mem: "state \<in> set states" "\<not> isEntityBlocked (ps_info state)" by (auto simp: find_Some_iff)
  from state(2) assms(2) obtain param v where v: "list_param sch K = Some param" "entity_field (ps_parent state) param = Inr v"
    "res_bind (js_array v) (\<lambda>cs. Inr (Some (createActionsForExistingEntities a K cs (ps_entities state)))) = Inr (Some act)"
    by (simp add: list_of_parent_def res_bind_Inr_iff split: if_split_asm option.splits)
  then obtain children where child: "list_param sch K = Some param" "entity_field (ps_parent state) param = Inr (JArr children)"
    "act = createActionsForExistingEntities a K children (ps_entities state)"
    by (cases v) auto
  obtain response where act: "act = RequestA (WrapperRequestActionSuccess (Some response) (api_action a) FetchType (Some (int (length children))) (Some 1))"
    "nr_result response = map js_key (childEntitiesAsGuids children)"
    by (simp add: child(3) createActionsForExistingEntities_def Let_def)
  obtain t where t: "obj_get s K = Some t" using assms(7) by blast
  then obtain s' where s': "paginate s act = Inr s'"
    using assms(2-5) by (auto simp: act(1) enterPaginationReducer_def pagination_type_def Let_def)
  let ?q = "section_or_default s (K, P)"
  let ?p = "paginationSuccess ?q (Some response) (api_action a) (Some (int (length children))) (Some 1)"
  have "enters act (K, P)" using assms(2-5) by (simp add: act(1) enters_def)
  moreover have "enterPaginationReducer s act = Inr s'" using s' by (simp add: act(1))
  ultimately have "section_of s' (K, P) = Some ?p" using enterPaginationReducer_get[of s act s' "(K, P)"] by (simp add: act(1))
  moreover have page: "request_page ?q (api_action a) = pe_currentPage ?q"
    using assms(6) by (simp add: request_page_def api_action_def ApiAction.defs)
  have total: "num_or (Some (int (length children))) (int (length (nr_result response))) = int (length children)"
    by (simp add: act(2) childEntitiesAsGuids_def num_or_def)
  ultimately have "section_of s' (K, P) = Some ?p"
    "obj_get (pe_ids ?p) (pe_currentPage ?p) = Some (Some (map js_key (childEntitiesAsGuids children)))"
    "pe_totalResults ?p = int (length children)" "isPageReady (Some ?p)" "fetchPaginationStep isLocal once (Some ?p) = (False, once)"
    by (simp_all add: paginationSuccess_def Let_def act(2) page total isPageReady_def has_page_ids_def isFetchingPage_def
        getCurrentPageRequestInfo_def fetchPaginationStep_def hasError_def hasValidOrGettingPage_def)
  with mem child s' show ?thesis by blast
qed


definition space_schema :: schema where
  "space_schema = EntitySchema ''space'' (Some [(''entity'', PlainSchema [(''routes'', ArraySchema (EntitySchema ''route'' None guid_options None))])])
     guid_options None"

definition routes_of_space :: ICFAction where
  "routes_of_space = get_organization\<lparr>aa_entityKey := Some ''route'', aa_guid := None, aa_paginationKey := Some ''space-s'',
     ca_flattenPagination := True\<rparr>"

definition space_state :: "bool \<Rightarrow> ParentState" where
  "space_state fetching = \<lparr>ps_parent = JObj [(''entity'', JObj [(''routes'', JArr [JStr ''r2'', JStr ''r1''])])],
     ps_info = Some (getDefaultRequestState\<lparr>ri_fetching := fetching\<rparr>), ps_entities = []\<rparr>"

lemma list_filled_from_parent_witness:
  "\<exists>act s' p. populatePaginationFromParent routes_of_space (Some (space_schema, ''s'')) [space_state True, space_state False] = Some (Inr (Some act))
    \<and> paginate [(''route'', [])] act = Inr s' \<and> section_of s' (''route'', ''space-s'') = Some p
    \<and> obj_get (pe_ids p) (pe_currentPage p) = Some (Some [''r2'', ''r1''])
    \<and> fetchPaginationStep True False (Some p) = (False, False)"
proof -
  have run: "populatePaginationFromParent routes_of_space (Some (space_schema, ''s'')) [space_state True, space_state False] =
      Some (Inr (Some (createActionsForExistingEntities routes_of_space ''route'' [JStr ''r2'', JStr ''r1''] [])))"
    by (simp add: populatePaginationFromParent_def routes_of_space_def get_organization_def space_state_def isEntityBlocked_def
        getDefaultRequestState_def getDefaultActionState_def defaultDeletingActionState_def list_of_parent_def list_param_def
        space_schema_def entity_field_def)
  have keys: "aa_entityKey routes_of_space = Some ''route''" "aa_paginationKey routes_of_space = Some ''space-s''" "aa_pageNumber routes_of_space = None"
    by (simp_all add: routes_of_space_def get_organization_def)
  have known: "''route'' \<noteq> []" "''space-s'' \<noteq> []" "obj_get [(''route'', [])] ''route'' \<noteq> None" by simp_all
  obtain state param children s' p where p: "state \<in> set [space_state True, space_state False]" "list_param space_schema ''route'' = Some param"
    "entity_field (ps_parent state) param = Inr (JArr children)"
    "paginate [(''route'', [])] (createActionsForExistingEntities routes_of_space ''route'' [JStr ''r2'', JStr ''r1''] []) = Inr s'"
    "section_of s' (''route'', ''space-s'') = Some p"
    "obj_get (pe_ids p) (pe_currentPage p) = Some (Some (map js_key (childEntitiesAsGuids children)))"
    "fetchPaginationStep True False (Some p) = (False, False)"
    using list_filled_from_parent[OF run keys(1) known(1) keys(2) known(2) keys(3) known(3), of True False] by blast
  have "param = ''routes''" using p(2) by (simp add: list_param_def space_schema_def)
  with p(1,3) have "children = [JStr ''r2'', JStr ''r1'']" by (auto simp: space_state_def entity_field_def)
  moreover have "map js_key (childEntitiesAsGuids [JStr ''r2'', JStr ''r1'']) = [''r2'', ''r1'']" by code_simp
  ultimately have "map js_key (childEntitiesAsGuids children) = [''r2'', ''r1'']" by (simp only:)
  with run p show ?thesis by auto
qed

end
